(* ===== verification/Prelude.thy ===== *)
theory Prelude
  imports Main "HOL-Library.AList"
begin

text \<open>
  Shared vocabulary of the development: the exception classes of the code as a datatype, the
  result of a fallible call, sequences of validation checks, Python dictionaries as association
  lists in insertion order, timestamps, and the generic interfaces (locales) that the stateful
  components are proved to satisfy.
\<close>

named_theorems check_defs \<open>definitions of validators, unfolded to expose their checks\<close>
named_theorems op_defs \<open>definitions of stateful operations\<close>

section \<open>Exceptions and results\<close>

text \<open>
  One constructor per exception class that the modelled code raises. Message texts are not
  modelled: no caller discriminates on them.
\<close>

datatype error =
    ContractViolation
  | ValueError
  | TypeError
  | KeyError
  | RuntimeError
  | BindingConflict
  | IdempotencyCapacityError
  | ProjectionCheckpointConflict
  | ProjectionRouteConflict
  | RequestCorrelationConflict
  | TurnReplyCorrelationConflict
  | DeliverySubmissionConflict
  | DeliverySubmissionCapacityError
  | GatewayNamespaceConflict
  | RuntimeLeaseUnavailable
  | StaleRuntimeFence
  | EffectReceiptConflict
  | EffectReceiptCapacityError
  | QueuedInputFenceConflict
  | QueuedInputReceiptConflict
  | WorkspaceIdentityConflict
  | DeliveryPlanningError
  | RequestDuplicateError
  | RequestResolvedError
  | RequestStaleError
  | UnauthorizedDestination
  | RequestResponseRejected
  | RequestPublicationPending
  | KeyedLockCapacityError
  | UnicodeEncodeError
  | IndexError
  | OverflowError
  | CancelledError
  | DeliveryAuthorizationError
  | DeliveryRouteError
  | StopAsyncIteration
  | EventStreamOverflow
  | EventStreamReset
  | GatewayStartupOverflow
  | CursorExpired
  | DestinationDecisionError
  | ProjectionRecoveryUnavailable
  | QueueFull

type_synonym 'a res = "error + 'a"

text \<open>A validator either accepts (\<open>None\<close>) or names the exception it raises.\<close>

type_synonym check = "error option"

definition raise_if :: "bool \<Rightarrow> error \<Rightarrow> check" where
  "raise_if b e = (if b then Some e else None)"

text \<open>Checks written one after another: the first one that raises decides.\<close>

fun first_error :: "check list \<Rightarrow> check" where
  "first_error [] = None"
| "first_error (c # cs) = (case c of None \<Rightarrow> first_error cs | Some e \<Rightarrow> Some e)"

text \<open>A check applied only to a value that is present (\<open>if x is not None\<close>).\<close>

definition on_some :: "('a \<Rightarrow> check) \<Rightarrow> 'a option \<Rightarrow> check" where
  "on_some f x = (case x of None \<Rightarrow> None | Some v \<Rightarrow> f v)"

lemma raise_if_None [simp]: "raise_if b e = None \<longleftrightarrow> \<not> b"
  by (simp add: raise_if_def)

lemma raise_if_Some [simp]: "raise_if b e = Some e' \<longleftrightarrow> b \<and> e' = e"
  by (auto simp: raise_if_def)

declare first_error.simps(2) [simp del]

lemma first_error_step [simp]:
  "first_error (None # cs) = first_error cs" "first_error (Some e # cs) = Some e"
  by (simp_all add: first_error.simps)

lemma first_error_Cons_None [simp]:
  "first_error (c # cs) = None \<longleftrightarrow> c = None \<and> first_error cs = None"
  by (cases c) auto

lemma raise_if_simps [simp]: "raise_if True e = Some e" "raise_if False e = None"
  by (simp_all add: raise_if_def)

lemma first_error_append:
  "first_error (cs @ ds) = (case first_error cs of None \<Rightarrow> first_error ds | Some e \<Rightarrow> Some e)"
  by (induction cs) (auto simp: first_error.simps split: option.splits)

lemma first_error_None_iff: "first_error cs = None \<longleftrightarrow> (\<forall>c \<in> set cs. c = None)"
  by (induction cs) auto

lemma first_error_append_None [simp]:
  "first_error (cs @ ds) = None \<longleftrightarrow> first_error cs = None \<and> first_error ds = None"
  by (simp add: first_error_append split: option.splits)

lemma first_error_map_None [simp]:
  "first_error (map f xs) = None \<longleftrightarrow> (\<forall>x \<in> set xs. f x = None)"
  by (simp add: first_error_None_iff)

lemma first_error_SomeD: "first_error cs = Some e \<Longrightarrow> Some e \<in> set cs"
  by (induction cs) (auto simp: first_error.simps split: option.splits)

lemma on_some_None [simp]: "on_some f None = None"
  by (simp add: on_some_def)

lemma on_some_Some [simp]: "on_some f (Some v) = f v"
  by (simp add: on_some_def)

lemma on_some_eq_None: "on_some f x = None \<longleftrightarrow> (\<forall>v. x = Some v \<longrightarrow> f v = None)"
  by (cases x) auto

text \<open>Pure fallible computations in sequence, and a fallible loop over a list.\<close>

definition and_then :: "'a res \<Rightarrow> ('a \<Rightarrow> 'b res) \<Rightarrow> 'b res" where
  "and_then r f = (case r of Inl e \<Rightarrow> Inl e | Inr v \<Rightarrow> f v)"

definition checked :: "check \<Rightarrow> 'a res \<Rightarrow> 'a res" where
  "checked c r = (case c of Some e \<Rightarrow> Inl e | None \<Rightarrow> r)"

fun fold_res :: "('a \<Rightarrow> 's \<Rightarrow> 's res) \<Rightarrow> 'a list \<Rightarrow> 's \<Rightarrow> 's res" where
  "fold_res f [] s = Inr s"
| "fold_res f (x # xs) s = and_then (f x s) (fold_res f xs)"

lemma and_then_simps [simp]: "and_then (Inl e) f = Inl e" "and_then (Inr v) f = f v"
  by (simp_all add: and_then_def)

lemma checked_simps [simp]: "checked None r = r" "checked (Some e) r = Inl e"
  by (simp_all add: checked_def)

lemma and_then_Inr_iff [simp]: "and_then r f = Inr y \<longleftrightarrow> (\<exists>x. r = Inr x \<and> f x = Inr y)"
  by (cases r) auto

lemma and_then_Inr_iff' [simp]: "Inr y = and_then r f \<longleftrightarrow> (\<exists>x. r = Inr x \<and> f x = Inr y)"
  by (cases r) auto

lemma checked_Inr_iff [simp]: "checked c r = Inr y \<longleftrightarrow> c = None \<and> r = Inr y"
  by (cases c) auto

section \<open>State passing with exceptions\<close>

text \<open>
  An operation maps a state to a result and the state it leaves behind; the state is part of
  the result of a raising call too, so that what a failed call wrote before it raised is visible.
\<close>

type_synonym ('s, 'a) outcome = "'a res \<times> 's"

definition guarded :: "check \<Rightarrow> 's \<Rightarrow> ('s, 'a) outcome \<Rightarrow> ('s, 'a) outcome" where
  "guarded c s k = (case c of Some e \<Rightarrow> (Inl e, s) | None \<Rightarrow> k)"

definition returns :: "'a \<Rightarrow> 's \<Rightarrow> ('s, 'a) outcome" where
  "returns v s = (Inr v, s)"

definition raises :: "error \<Rightarrow> 's \<Rightarrow> ('s, 'a) outcome" where
  "raises e s = (Inl e, s)"

text \<open>Continue with the value of a pure fallible computation.\<close>

definition with_res :: "'b res \<Rightarrow> 's \<Rightarrow> ('b \<Rightarrow> ('s, 'a) outcome) \<Rightarrow> ('s, 'a) outcome" where
  "with_res r s k = (case r of Inl e \<Rightarrow> (Inl e, s) | Inr v \<Rightarrow> k v)"

lemma guarded_None [simp]: "guarded None s k = k"
  by (simp add: guarded_def)

lemma guarded_Some [simp]: "guarded (Some e) s k = (Inl e, s)"
  by (simp add: guarded_def)

lemma with_res_Inl [simp]: "with_res (Inl e) s k = (Inl e, s)"
  by (simp add: with_res_def)

lemma with_res_Inr [simp]: "with_res (Inr v) s k = k v"
  by (simp add: with_res_def)

lemma returns_simps [simp]: "fst (returns v s) = Inr v" "snd (returns v s) = s"
  by (simp_all add: returns_def)

lemma raises_simps [simp]: "fst (raises e s) = Inl e" "snd (raises e s) = s"
  by (simp_all add: raises_def)

lemma returns_eq [simp]: "returns v s = (r, t) \<longleftrightarrow> r = Inr v \<and> t = s"
  by (auto simp: returns_def)

lemma raises_eq [simp]: "raises e s = (r, t) \<longleftrightarrow> r = Inl e \<and> t = s"
  by (auto simp: raises_def)

lemma returns_raises_inject [simp]:
  "returns v s = returns w t \<longleftrightarrow> v = w \<and> s = t"
  "raises e s = raises f t \<longleftrightarrow> e = f \<and> s = t"
  "returns v s \<noteq> raises e t" "raises e t \<noteq> returns v s"
  by (auto simp: returns_def raises_def)

lemma guarded_Inr: "guarded c s k = (Inr v, t) \<longleftrightarrow> c = None \<and> k = (Inr v, t)"
  by (cases c) auto

lemma guarded_fst_Inr: "fst (guarded c s k) = Inr v \<longleftrightarrow> c = None \<and> fst k = Inr v"
  by (cases c) auto

lemma guarded_snd: "snd (guarded c s k) = (if c = None then snd k else s)"
  by (cases c) auto

lemma guarded_fst_Inl:
  "fst (guarded c s k) = Inl e \<longleftrightarrow> c = Some e \<or> c = None \<and> fst k = Inl e"
  by (cases c) auto

lemma with_res_fst_Inr: "fst (with_res r s k) = Inr v \<longleftrightarrow> (\<exists>u. r = Inr u \<and> fst (k u) = Inr v)"
  by (cases r) auto

lemma guarded_split:
  "P (guarded c s k) \<longleftrightarrow> (c = None \<longrightarrow> P k) \<and> (\<forall>e. c = Some e \<longrightarrow> P (Inl e, s))"
  by (cases c) auto

lemma with_res_Inr_iff: "with_res r s k = (Inr v, t) \<longleftrightarrow> (\<exists>u. r = Inr u \<and> k u = (Inr v, t))"
  by (cases r) auto

lemma with_res_split:
  "P (with_res r s k) \<longleftrightarrow> (\<forall>e. r = Inl e \<longrightarrow> P (Inl e, s)) \<and> (\<forall>u. r = Inr u \<longrightarrow> P (k u))"
  by (cases r) auto

lemma map_sum_id_Inr [simp]: "map_sum id f x = Inr v \<longleftrightarrow> (\<exists>u. x = Inr u \<and> v = f u)"
  by (cases x) auto

lemma map_sum_id_Inl [simp]: "map_sum id f x = Inl e \<longleftrightarrow> x = Inl e"
  by (cases x) auto

text \<open>An outcome that leaves the state \<open>s\<close> as it was when it is an exception.\<close>

definition rolls_back :: "'s \<Rightarrow> ('s, 'a) outcome \<Rightarrow> bool" where
  "rolls_back s k \<longleftrightarrow> (\<forall>e. fst k = Inl e \<longrightarrow> snd k = s)"

named_theorems rolls_back_intros \<open>syntax-directed rules for \<open>rolls_back\<close>\<close>

lemma rolls_back_base [rolls_back_intros]:
  "rolls_back s (returns v t)" "rolls_back s (raises e s)"
  "rolls_back s (Inr v, t)" "rolls_back s (Inl e, s)"
  by (simp_all add: rolls_back_def)

lemma rolls_back_guarded [rolls_back_intros]:
  "(c = None \<Longrightarrow> rolls_back s k) \<Longrightarrow> rolls_back s (guarded c s k)"
  by (cases c) (simp_all add: rolls_back_def)

lemma rolls_back_with_res [rolls_back_intros]:
  "(\<And>u. r = Inr u \<Longrightarrow> rolls_back s (k u)) \<Longrightarrow> rolls_back s (with_res r s k)"
  by (cases r) (simp_all add: rolls_back_def)

lemma rolls_back_if [rolls_back_intros]:
  "(b \<Longrightarrow> rolls_back s k) \<Longrightarrow> (\<not> b \<Longrightarrow> rolls_back s l) \<Longrightarrow> rolls_back s (if b then k else l)"
  by simp

lemma rolls_back_let [rolls_back_intros]: "rolls_back s (f x) \<Longrightarrow> rolls_back s (Let x f)"
  by simp

lemma rolls_back_option [rolls_back_intros]:
  "(x = None \<Longrightarrow> rolls_back s k) \<Longrightarrow> (\<And>v. x = Some v \<Longrightarrow> rolls_back s (f v)) \<Longrightarrow>
   rolls_back s (case x of None \<Rightarrow> k | Some v \<Rightarrow> f v)"
  by (cases x) simp_all

lemma rolls_back_sum [rolls_back_intros]:
  "(\<And>v. x = Inl v \<Longrightarrow> rolls_back s (f v)) \<Longrightarrow> (\<And>v. x = Inr v \<Longrightarrow> rolls_back s (g v)) \<Longrightarrow>
   rolls_back s (case x of Inl v \<Rightarrow> f v | Inr v \<Rightarrow> g v)"
  by (cases x) simp_all

lemma rolls_back_map_sum [rolls_back_intros]:
  "rolls_back s k \<Longrightarrow> rolls_back s (case k of (r, t) \<Rightarrow> (map_sum id f r, t))"
  by (cases k) (simp add: rolls_back_def)

lemma rolls_backD: "rolls_back s k \<Longrightarrow> fst k = Inl e \<Longrightarrow> snd k = s"
  by (simp add: rolls_back_def)

text \<open>An outcome that leaves a state satisfying \<open>P\<close>, whether it returns or raises.\<close>

definition ends_in :: "('s \<Rightarrow> bool) \<Rightarrow> ('s, 'a) outcome \<Rightarrow> bool" where
  "ends_in P k \<longleftrightarrow> P (snd k)"

named_theorems ends_in_intros \<open>syntax-directed rules for \<open>ends_in\<close>\<close>

lemma ends_in_base [ends_in_intros]:
  "P s \<Longrightarrow> ends_in P (returns v s)" "P s \<Longrightarrow> ends_in P (raises e s)" "P s \<Longrightarrow> ends_in P (r, s)"
  by (simp_all add: ends_in_def)

lemma ends_in_guarded [ends_in_intros]:
  "P s \<Longrightarrow> (c = None \<Longrightarrow> ends_in P k) \<Longrightarrow> ends_in P (guarded c s k)"
  by (cases c) (simp_all add: ends_in_def)

lemma ends_in_with_res [ends_in_intros]:
  "P s \<Longrightarrow> (\<And>u. r = Inr u \<Longrightarrow> ends_in P (k u)) \<Longrightarrow> ends_in P (with_res r s k)"
  by (cases r) (simp_all add: ends_in_def)

lemma ends_in_if [ends_in_intros]:
  "(b \<Longrightarrow> ends_in P k) \<Longrightarrow> (\<not> b \<Longrightarrow> ends_in P l) \<Longrightarrow> ends_in P (if b then k else l)"
  by simp

lemma ends_in_let [ends_in_intros]: "ends_in P (f x) \<Longrightarrow> ends_in P (Let x f)"
  by simp

lemma ends_in_option [ends_in_intros]:
  "(x = None \<Longrightarrow> ends_in P k) \<Longrightarrow> (\<And>v. x = Some v \<Longrightarrow> ends_in P (f v)) \<Longrightarrow>
   ends_in P (case x of None \<Rightarrow> k | Some v \<Rightarrow> f v)"
  by (cases x) simp_all

lemma ends_in_sum [ends_in_intros]:
  "(\<And>v. x = Inl v \<Longrightarrow> ends_in P (f v)) \<Longrightarrow> (\<And>v. x = Inr v \<Longrightarrow> ends_in P (g v)) \<Longrightarrow>
   ends_in P (case x of Inl v \<Rightarrow> f v | Inr v \<Rightarrow> g v)"
  by (cases x) simp_all

lemma ends_in_prod [ends_in_intros]:
  "(\<And>a b. p = (a, b) \<Longrightarrow> ends_in P (f a b)) \<Longrightarrow> ends_in P (case p of (a, b) \<Rightarrow> f a b)"
  by (cases p) simp

lemma ends_inD: "ends_in P k \<Longrightarrow> P (snd k)"
  by (simp add: ends_in_def)

lemmas outcome_simps = guarded_Inr guarded_fst_Inr guarded_snd with_res_Inr_iff with_res_fst_Inr

section \<open>Python dictionaries\<close>

declare map_of_eq_Some_iff [simp del] Some_eq_map_of_iff [simp del]
  split_paired_All [simp del] split_paired_Ex [simp del]

text \<open>
  A \<open>dict\<close> is an association list in insertion order: assignment to a present key keeps its
  position, a new key goes to the end (\<open>AList.update\<close>); \<open>pop\<close> is \<open>AList.delete\<close>; \<open>get\<close> is
  \<open>map_of\<close>; \<open>values()\<close> is the list of second components.
\<close>

type_synonym ('k, 'v) dict = "('k \<times> 'v) list"

abbreviation dict_get :: "('k, 'v) dict \<Rightarrow> 'k \<Rightarrow> 'v option" where
  "dict_get d k \<equiv> map_of d k"

abbreviation dict_set :: "('k, 'v) dict \<Rightarrow> 'k \<Rightarrow> 'v \<Rightarrow> ('k, 'v) dict" where
  "dict_set d k v \<equiv> AList.update k v d"

abbreviation dict_pop :: "('k, 'v) dict \<Rightarrow> 'k \<Rightarrow> ('k, 'v) dict" where
  "dict_pop d k \<equiv> AList.delete k d"

abbreviation dict_values :: "('k, 'v) dict \<Rightarrow> 'v list" where
  "dict_values d \<equiv> map snd d"

abbreviation dict_ok :: "('k, 'v) dict \<Rightarrow> bool" where
  "dict_ok d \<equiv> distinct (map fst d)"

lemma dict_get_set [simp]: "dict_get (dict_set d k v) k' = (if k' = k then Some v else dict_get d k')"
  by (simp add: update_conv')

lemma dict_get_pop [simp]: "dict_get (dict_pop d k) k' = (if k' = k then None else dict_get d k')"
  by (simp add: delete_conv')

lemma dict_ok_set [simp]: "dict_ok d \<Longrightarrow> dict_ok (dict_set d k v)"
  by (rule distinct_update)

lemma dict_ok_pop [simp]: "dict_ok d \<Longrightarrow> dict_ok (dict_pop d k)"
  by (simp add: distinct_delete)

lemma dict_ok_filter [simp]: "dict_ok d \<Longrightarrow> dict_ok (filter P d)"
  by (rule distinct_map_filter)

lemma dict_get_filter:
  "dict_ok d \<Longrightarrow> dict_get (filter (\<lambda>(k, v). P k v) d) k =
     (case dict_get d k of None \<Rightarrow> None | Some v \<Rightarrow> if P k v then Some v else None)"
proof (induction d)
  case (Cons p d)
  obtain k' v' where p: "p = (k', v')" by (cases p)
  from Cons show ?case
    by (auto simp: p split: option.splits dest: map_of_SomeD intro: rev_image_eqI)
qed simp

lemma length_dict_set:
  "length (dict_set d k v) = (if k \<in> fst ` set d then length d else Suc (length d))"
  by (induction d) auto

lemma length_dict_set_new: "dict_get d k = None \<Longrightarrow> length (dict_set d k v) = Suc (length d)"
  by (simp add: length_dict_set map_of_eq_None_iff)

lemma length_dict_set_old: "dict_get d k = Some u \<Longrightarrow> length (dict_set d k v) = length d"
  using map_of_SomeD [of d k u] by (force simp: length_dict_set)

lemma length_dict_pop_le [simp]: "length (dict_pop d k) \<le> length d"
  by (rule length_delete_le)

lemma dict_values_iff: "dict_ok d \<Longrightarrow> v \<in> set (dict_values d) \<longleftrightarrow> (\<exists>k. dict_get d k = Some v)"
  by (force simp: map_of_eq_Some_iff)

lemma find_SomeD: "find P xs = Some x \<Longrightarrow> x \<in> set xs \<and> P x"
  by (auto simp: find_Some_iff)

section \<open>Timestamps\<close>

text \<open>
  A \<open>datetime\<close> is its instant in microseconds, with the flag that separates timezone-aware
  values from naive ones. Comparing an aware value with a naive one raises \<open>TypeError\<close>.
\<close>

record datetime =
  instant :: int
  aware :: bool

abbreviation utc :: "int \<Rightarrow> datetime" where
  "utc t \<equiv> \<lparr>instant = t, aware = True\<rparr>"

definition dt_less :: "datetime \<Rightarrow> datetime \<Rightarrow> bool" where
  "dt_less a b \<longleftrightarrow> instant a < instant b"

definition incomparable :: "datetime \<Rightarrow> datetime \<Rightarrow> bool" where
  "incomparable a b \<longleftrightarrow> aware a \<noteq> aware b"

text \<open>Python's \<open>max(a, b)\<close> returns its first argument unless the second is greater.\<close>

definition dt_max :: "datetime \<Rightarrow> datetime \<Rightarrow> datetime" where
  "dt_max a b = (if dt_less a b then b else a)"

lemma instant_dt_max [simp]: "instant (dt_max a b) = max (instant a) (instant b)"
  by (auto simp: dt_max_def dt_less_def)

lemma aware_dt_max [simp]: "aware a = aware b \<Longrightarrow> aware (dt_max a b) = aware a"
  by (auto simp: dt_max_def)

section \<open>Interfaces: interleaved events\<close>

text \<open>
  Code that awaits between its pieces is a step relation labelled with events; a run is a list
  of events with the states they lead from and to.
\<close>

inductive event_run :: "('s \<Rightarrow> 'e \<Rightarrow> 's \<Rightarrow> bool) \<Rightarrow> 's \<Rightarrow> 'e list \<Rightarrow> 's \<Rightarrow> bool" for step where
  run_nil: "event_run step s [] s"
| run_step: "event_run step s evs s' \<Longrightarrow> step s' ev s'' \<Longrightarrow> event_run step s (evs @ [ev]) s''"

definition reachable :: "('s \<Rightarrow> bool) \<Rightarrow> ('s \<Rightarrow> 'e \<Rightarrow> 's \<Rightarrow> bool) \<Rightarrow> 's \<Rightarrow> bool" where
  "reachable init step s \<longleftrightarrow> (\<exists>s0 evs. init s0 \<and> event_run step s0 evs s)"

lemma reachable_init: "init s \<Longrightarrow> reachable init step s"
  unfolding reachable_def by (meson event_run.run_nil)

lemma reachable_step: "reachable init step s \<Longrightarrow> step s ev t \<Longrightarrow> reachable init step t"
  unfolding reachable_def by (meson event_run.run_step)

text \<open>An invariant of the initial states and of every step holds in every reachable state.\<close>

locale event_system =
  fixes init :: "'s \<Rightarrow> bool"
    and step :: "'s \<Rightarrow> 'e \<Rightarrow> 's \<Rightarrow> bool"
    and inv :: "'s \<Rightarrow> bool"
  assumes init_inv: "init s \<Longrightarrow> inv s"
    and step_inv: "inv s \<Longrightarrow> step s ev t \<Longrightarrow> inv t"
begin

lemma event_run_inv: "event_run step s evs t \<Longrightarrow> inv s \<Longrightarrow> inv t"
  by (induction rule: event_run.induct) (auto intro: step_inv)

lemma reachable_inv: "reachable init step s \<Longrightarrow> inv s"
  by (auto simp: reachable_def intro: event_run_inv init_inv)

lemma reachable_run: "reachable init step s \<Longrightarrow> event_run step s evs t \<Longrightarrow> inv t"
  by (auto intro: event_run_inv reachable_inv)

end

section \<open>Interfaces: sequences of operations\<close>

text \<open>
  Every stateful component is presented as a function that executes one of its operations.
  Under the component's lock the operations of concurrent callers run one after another, so a
  list of operations is an arbitrary interleaving of its callers.
\<close>

fun run_ops :: "('op \<Rightarrow> 's \<Rightarrow> ('s, 'r) outcome) \<Rightarrow> 'op list \<Rightarrow> 's \<Rightarrow> 's" where
  "run_ops exec [] s = s"
| "run_ops exec (c # cs) s = run_ops exec cs (snd (exec c s))"

fun results_ops :: "('op \<Rightarrow> 's \<Rightarrow> ('s, 'r) outcome) \<Rightarrow> 'op list \<Rightarrow> 's \<Rightarrow> 'r res list" where
  "results_ops exec [] s = []"
| "results_ops exec (c # cs) s = fst (exec c s) # results_ops exec cs (snd (exec c s))"

lemma run_ops_append: "run_ops exec (cs @ ds) s = run_ops exec ds (run_ops exec cs s)"
  by (induction cs arbitrary: s) auto

text \<open>Operations that keep an invariant keep it along every interleaving.\<close>

locale op_system =
  fixes exec :: "'op \<Rightarrow> 's \<Rightarrow> ('s, 'r) outcome"
    and inv :: "'s \<Rightarrow> bool"
  assumes exec_inv: "inv s \<Longrightarrow> inv (snd (exec c s))"
begin

lemma run_inv: "inv s \<Longrightarrow> inv (run_ops exec cs s)"
  by (induction cs arbitrary: s) (auto intro: exec_inv)

end

text \<open>Operations that write nothing when they raise.\<close>

locale failure_atomic =
  fixes exec :: "'op \<Rightarrow> 's \<Rightarrow> ('s, 'r) outcome"
  assumes fail_frame: "fst (exec c s) = Inl e \<Longrightarrow> snd (exec c s) = s"
begin

lemma run_all_failed:
  "(\<forall>r \<in> set (results_ops exec cs s). \<exists>e. r = Inl e) \<Longrightarrow> run_ops exec cs s = s"
proof (induction cs arbitrary: s)
  case (Cons c cs)
  then have "snd (exec c s) = s" by (auto dest: fail_frame)
  with Cons show ?case by simp
qed simp

end

text \<open>Operations (those admitted by \<open>ok\<close>) that only move the state upwards in a preorder.\<close>

locale monotone_ops = op_system +
  fixes ok :: "'a \<Rightarrow> bool"
    and le :: "'b \<Rightarrow> 'b \<Rightarrow> bool"
  assumes le_refl: "le s s"
    and le_trans: "le s t \<Longrightarrow> le t u \<Longrightarrow> le s u"
    and exec_le: "inv s \<Longrightarrow> ok c \<Longrightarrow> le s (snd (exec c s))"
begin

lemma run_le: "inv s \<Longrightarrow> \<forall>c \<in> set cs. ok c \<Longrightarrow> le s (run_ops exec cs s)"
proof (induction cs arbitrary: s)
  case Nil
  show ?case by (simp add: le_refl)
next
  case (Cons c cs)
  have "le (snd (exec c s)) (run_ops exec cs (snd (exec c s)))"
    using Cons.prems by (intro Cons.IH exec_inv) auto
  then show ?case using Cons.prems by (auto intro: le_trans exec_le)
qed

end

end
