(* ===== verification/Contracts.thy ===== *)
theory Contracts
  imports Prelude
begin

text \<open>
  Identities and contracts shared by every layer: the identifier rule
  (\<open>interaction/operations.py\<close>), resource references and queued-input receipts
  (\<open>applications/contract.py\<close>), and interactive requests with their response shapes
  (\<open>applications/requests.py\<close>). The model is typed, so the \<open>isinstance\<close> branches of the
  validators have no counterpart; opaque \<open>metadata\<close> mappings are left out.
\<close>

section \<open>Identifiers and references\<close>

definition require_identifier :: "string \<Rightarrow> check" where
  "require_identifier value = raise_if (value = [] \<or> length value > 512) ContractViolation"

record conversation_ref =
  cv_channel_instance_id :: string
  cv_native_conversation_id :: string

record application_ref =
  ar_application_instance_id :: string

record project_ref =
  pj_application_instance_id :: string
  pj_project_id :: string

record thread_ref =
  th_project_ref :: project_ref
  th_thread_id :: string

record turn_ref =
  tn_thread_ref :: thread_ref
  tn_turn_id :: string

record workspace_identity =
  wi_project_ref :: project_ref
  wi_root_fingerprint :: string

record request_ref =
  rq_application_ref :: application_ref
  rq_native_request_id :: string

definition validate_conversation_ref :: "conversation_ref \<Rightarrow> check" where
  "validate_conversation_ref c = first_error [
     require_identifier (cv_channel_instance_id c),
     require_identifier (cv_native_conversation_id c)]"

definition validate_project_ref :: "project_ref \<Rightarrow> check" where
  "validate_project_ref project = first_error [
     require_identifier (pj_application_instance_id project),
     require_identifier (pj_project_id project)]"

definition validate_thread_ref :: "thread_ref \<Rightarrow> check" where
  "validate_thread_ref thread = first_error [
     validate_project_ref (th_project_ref thread),
     require_identifier (th_thread_id thread)]"

definition validate_turn_ref :: "turn_ref \<Rightarrow> check" where
  "validate_turn_ref turn = first_error [
     validate_thread_ref (tn_thread_ref turn),
     require_identifier (tn_turn_id turn)]"

definition validate_request_ref :: "request_ref \<Rightarrow> check" where
  "validate_request_ref r = first_error [
     require_identifier (ar_application_instance_id (rq_application_ref r)),
     require_identifier (rq_native_request_id r)]"

text \<open>
  Sixty-four characters of the lowercase hexadecimal alphabet. The workspace check also
  compares the text with its own lowercase form, which the alphabet test implies.
\<close>

definition is_lowercase_sha256 :: "string \<Rightarrow> bool" where
  "is_lowercase_sha256 s \<longleftrightarrow> length s = 64 \<and> list_all (\<lambda>c. c \<in> set ''0123456789abcdef'') s"

definition validate_workspace_identity :: "workspace_identity \<Rightarrow> check" where
  "validate_workspace_identity identity = first_error [
     validate_project_ref (wi_project_ref identity),
     raise_if (\<not> is_lowercase_sha256 (wi_root_fingerprint identity)) ContractViolation]"

section \<open>Queued-input receipts\<close>

datatype input_continuation_preference =
  PREFER_ACTIVE_TURN | START_NEW_TURN | QUEUE

datatype queued_input_state =
  QIS_QUEUED | QIS_ADMITTED | QIS_CANCELLED

record queued_input_dispatch =
  qd_thread_ref :: thread_ref
  qd_client_message_id :: string
  qd_input_fingerprint :: string

record queued_input_receipt =
  qr_thread_ref :: thread_ref
  qr_client_message_id :: string
  qr_queued_item_id :: string
  qr_state :: queued_input_state
  qr_turn_ref :: "turn_ref option"
  qr_input_fingerprint :: string

definition validate_queued_input_dispatch :: "queued_input_dispatch \<Rightarrow> check" where
  "validate_queued_input_dispatch dispatch = first_error [
     validate_thread_ref (qd_thread_ref dispatch),
     require_identifier (qd_client_message_id dispatch),
     raise_if (\<not> is_lowercase_sha256 (qd_input_fingerprint dispatch)) ContractViolation]"

definition validate_queued_input_receipt :: "queued_input_receipt \<Rightarrow> check" where
  "validate_queued_input_receipt receipt = first_error [
     validate_thread_ref (qr_thread_ref receipt),
     require_identifier (qr_client_message_id receipt),
     require_identifier (qr_queued_item_id receipt),
     validate_queued_input_dispatch
       \<lparr>qd_thread_ref = qr_thread_ref receipt,
        qd_client_message_id = qr_client_message_id receipt,
        qd_input_fingerprint = qr_input_fingerprint receipt\<rparr>,
     (case qr_turn_ref receipt of
        None \<Rightarrow> raise_if (qr_state receipt = QIS_ADMITTED) ContractViolation
      | Some turn \<Rightarrow>
          (if qr_state receipt = QIS_ADMITTED
           then first_error [
             validate_turn_ref turn,
             raise_if (tn_thread_ref turn \<noteq> qr_thread_ref receipt) ContractViolation]
           else Some ContractViolation))]"

section \<open>Interactive requests and response shapes\<close>

record request_choice =
  ch_choice_id :: string
  ch_label :: string
  ch_description :: "string option"

record approval_request =
  ap_request_ref :: request_ref
  ap_turn_ref :: turn_ref
  ap_prompt :: string
  ap_choices :: "request_choice list"
  ap_expires_at :: "datetime option"

record user_input_question =
  uq_question_id :: string
  uq_prompt :: string
  uq_header :: "string option"
  uq_choices :: "request_choice list"
  uq_allows_other :: bool
  uq_secret :: bool
  uq_min_answers :: int
  uq_max_answers :: int

record user_input_request =
  ui_request_ref :: request_ref
  ui_turn_ref :: turn_ref
  ui_questions :: "user_input_question list"
  ui_prompt :: "string option"
  ui_expires_at :: "datetime option"

datatype interactive_request =
    ApprovalRequest approval_request
  | UserInputRequest user_input_request

record user_input_question_shape =
  qs_question_id :: string
  qs_choice_ids :: "string list"
  qs_allows_other :: bool
  qs_min_answers :: int
  qs_max_answers :: int

datatype request_response_shape =
    ApprovalResponseShape "string list"
  | UserInputResponseShape "user_input_question_shape list"

datatype request_response =
    ApprovalResponse string
  | UserInputResponse "(string, string list) dict"

definition MAX_INTERACTIVE_REQUEST_QUESTIONS :: nat where
  "MAX_INTERACTIVE_REQUEST_QUESTIONS = 32"

definition MAX_INTERACTIVE_REQUEST_CHOICES :: nat where
  "MAX_INTERACTIVE_REQUEST_CHOICES = 64"

definition MAX_INTERACTIVE_REQUEST_ANSWER_LENGTH :: nat where
  "MAX_INTERACTIVE_REQUEST_ANSWER_LENGTH = 4096"

lemmas request_limits = MAX_INTERACTIVE_REQUEST_QUESTIONS_def
  MAX_INTERACTIVE_REQUEST_CHOICES_def MAX_INTERACTIVE_REQUEST_ANSWER_LENGTH_def

text \<open>
  Whitespace of \<open>str.strip\<close> among the characters of the model (code points below 256): tab to
  carriage return, the separators 28 to 31, space, next-line and no-break space.
\<close>

definition is_py_space :: "char \<Rightarrow> bool" where
  "is_py_space c \<longleftrightarrow>
     (of_char c :: nat) \<in> {9, 10, 11, 12, 13, 28, 29, 30, 31, 32, 133, 160}"

definition is_blank :: "string \<Rightarrow> bool" where
  "is_blank s \<longleftrightarrow> list_all is_py_space s"

definition validate_question_count :: "nat \<Rightarrow> check" where
  "validate_question_count count =
     raise_if (count > MAX_INTERACTIVE_REQUEST_QUESTIONS) ContractViolation"

definition validate_choice_count :: "nat \<Rightarrow> check" where
  "validate_choice_count count =
     raise_if (count > MAX_INTERACTIVE_REQUEST_CHOICES) ContractViolation"

definition validate_choices :: "request_choice list \<Rightarrow> check" where
  "validate_choices choices = first_error (
     raise_if (\<not> distinct (map ch_choice_id choices)) ContractViolation #
     map (\<lambda>choice. first_error [
       require_identifier (ch_choice_id choice),
       raise_if (is_blank (ch_label choice)) ContractViolation]) choices)"

definition validate_question :: "user_input_question \<Rightarrow> check" where
  "validate_question question = first_error [
     require_identifier (uq_question_id question),
     raise_if (is_blank (uq_prompt question)) ContractViolation,
     validate_choice_count (length (uq_choices question)),
     validate_choices (uq_choices question),
     raise_if (uq_min_answers question < 0) ContractViolation,
     raise_if (uq_max_answers question < uq_min_answers question) ContractViolation,
     raise_if (uq_max_answers question < 1) ContractViolation,
     raise_if (uq_max_answers question > int MAX_INTERACTIVE_REQUEST_CHOICES) ContractViolation,
     raise_if (uq_choices question \<noteq> [] \<and> \<not> uq_allows_other question
               \<and> uq_min_answers question > int (length (uq_choices question))) ContractViolation,
     raise_if (\<not> uq_allows_other question
               \<and> uq_max_answers question > int (length (uq_choices question))) ContractViolation]"

definition request_head_checks ::
  "request_ref \<Rightarrow> turn_ref \<Rightarrow> datetime option \<Rightarrow> check list" where
  "request_head_checks request_ref turn_ref expires_at = [
     validate_request_ref request_ref,
     validate_turn_ref turn_ref,
     raise_if (ar_application_instance_id (rq_application_ref request_ref)
               \<noteq> pj_application_instance_id (th_project_ref (tn_thread_ref turn_ref)))
       ContractViolation,
     on_some (\<lambda>t. raise_if (\<not> aware t) ContractViolation) expires_at]"

fun validate_interactive_request :: "interactive_request \<Rightarrow> check" where
  "validate_interactive_request (ApprovalRequest r) = first_error (
     request_head_checks (ap_request_ref r) (ap_turn_ref r) (ap_expires_at r) @ [
     raise_if (is_blank (ap_prompt r)) ContractViolation,
     raise_if (ap_choices r = []) ContractViolation,
     validate_choice_count (length (ap_choices r)),
     validate_choices (ap_choices r)])"
| "validate_interactive_request (UserInputRequest r) = first_error (
     request_head_checks (ui_request_ref r) (ui_turn_ref r) (ui_expires_at r) @ [
     raise_if (ui_questions r = []) ContractViolation,
     validate_question_count (length (ui_questions r)),
     raise_if (\<not> distinct (map uq_question_id (ui_questions r))) ContractViolation] @
     map validate_question (ui_questions r))"

definition validate_question_shape :: "user_input_question_shape \<Rightarrow> check" where
  "validate_question_shape question = first_error ([
     require_identifier (qs_question_id question),
     validate_choice_count (length (qs_choice_ids question)),
     raise_if (\<not> distinct (qs_choice_ids question)) ContractViolation] @
     map require_identifier (qs_choice_ids question) @ [
     raise_if (qs_min_answers question < 0
               \<or> qs_max_answers question < qs_min_answers question) ContractViolation,
     raise_if (qs_max_answers question < 1) ContractViolation,
     raise_if (qs_max_answers question > int MAX_INTERACTIVE_REQUEST_CHOICES) ContractViolation,
     raise_if (\<not> qs_allows_other question
               \<and> qs_max_answers question > int (length (qs_choice_ids question)))
       ContractViolation])"

fun validate_request_response_shape :: "request_response_shape \<Rightarrow> check" where
  "validate_request_response_shape (ApprovalResponseShape choice_ids) = first_error ([
     raise_if (choice_ids = []) ContractViolation,
     validate_choice_count (length choice_ids),
     raise_if (\<not> distinct choice_ids) ContractViolation] @
     map require_identifier choice_ids)"
| "validate_request_response_shape (UserInputResponseShape questions) = first_error ([
     raise_if (questions = []) ContractViolation,
     validate_question_count (length questions),
     raise_if (\<not> distinct (map qs_question_id questions)) ContractViolation] @
     map validate_question_shape questions)"

definition question_shape_of :: "user_input_question \<Rightarrow> user_input_question_shape" where
  "question_shape_of question = \<lparr>
     qs_question_id = uq_question_id question,
     qs_choice_ids = map ch_choice_id (uq_choices question),
     qs_allows_other = uq_allows_other question,
     qs_min_answers = uq_min_answers question,
     qs_max_answers = uq_max_answers question\<rparr>"

fun response_shape_of :: "interactive_request \<Rightarrow> request_response_shape" where
  "response_shape_of (ApprovalRequest r) =
     ApprovalResponseShape (map ch_choice_id (ap_choices r))"
| "response_shape_of (UserInputRequest r) =
     UserInputResponseShape (map question_shape_of (ui_questions r))"

definition derive_request_response_shape ::
  "interactive_request \<Rightarrow> request_response_shape res" where
  "derive_request_response_shape request =
     (case validate_interactive_request request of
        Some e \<Rightarrow> Inl e
      | None \<Rightarrow> Inr (response_shape_of request))"

definition validate_answer_admission :: "string \<Rightarrow> check" where
  "validate_answer_admission answer = first_error [
     raise_if (answer = []) ContractViolation,
     raise_if (length answer > MAX_INTERACTIVE_REQUEST_ANSWER_LENGTH) ContractViolation]"

fun validate_request_response_admission :: "request_response \<Rightarrow> check" where
  "validate_request_response_admission (ApprovalResponse choice_id) = require_identifier choice_id"
| "validate_request_response_admission (UserInputResponse answers) = first_error ([
     raise_if (answers = []) ContractViolation,
     raise_if (length answers > MAX_INTERACTIVE_REQUEST_QUESTIONS) ContractViolation] @
     map (\<lambda>(question_id, values). first_error ([
       require_identifier question_id,
       raise_if (values = []) ContractViolation,
       raise_if (length values > MAX_INTERACTIVE_REQUEST_CHOICES) ContractViolation] @
       map validate_answer_admission values)) answers)"

definition validate_question_answers ::
  "(string, string list) dict \<Rightarrow> user_input_question_shape \<Rightarrow> check" where
  "validate_question_answers answers question =
     (let values = (case dict_get answers (qs_question_id question) of
                      None \<Rightarrow> [] | Some vs \<Rightarrow> vs)
      in first_error ([
        raise_if (int (length values) < qs_min_answers question) ContractViolation,
        raise_if (int (length values) > qs_max_answers question) ContractViolation,
        raise_if (\<not> distinct values) ContractViolation] @
        map (\<lambda>answer. first_error [
          raise_if (answer = []) ContractViolation,
          raise_if (answer \<notin> set (qs_choice_ids question)
                    \<and> \<not> qs_allows_other question) ContractViolation]) values))"

fun response_matches_shape :: "request_response \<Rightarrow> request_response_shape \<Rightarrow> check" where
  "response_matches_shape (ApprovalResponse choice_id) (ApprovalResponseShape choice_ids) =
     first_error [
       require_identifier choice_id,
       raise_if (choice_id \<notin> set choice_ids) ContractViolation]"
| "response_matches_shape (UserInputResponse answers) (UserInputResponseShape questions) =
     first_error (
       raise_if (\<not> set (map fst answers) \<subseteq> set (map qs_question_id questions))
         ContractViolation #
       map (validate_question_answers answers) questions)"
| "response_matches_shape _ _ = Some ContractViolation"

definition validate_request_response :: "request_response \<Rightarrow> request_response_shape \<Rightarrow> check" where
  "validate_request_response response shape = first_error [
     validate_request_response_shape shape,
     validate_request_response_admission response,
     response_matches_shape response shape]"

section \<open>Facts about the validators\<close>

lemma require_identifier_None [simp]:
  "require_identifier v = None \<longleftrightarrow> v \<noteq> [] \<and> length v \<le> 512"
  by (auto simp: require_identifier_def)

lemma require_identifier_Some:
  "require_identifier v = Some e \<Longrightarrow> e = ContractViolation"
  by (auto simp: require_identifier_def)

lemma validate_choices_None:
  "validate_choices choices = None \<longleftrightarrow>
     distinct (map ch_choice_id choices)
     \<and> (\<forall>c \<in> set choices. require_identifier (ch_choice_id c) = None \<and> \<not> is_blank (ch_label c))"
  by (simp add: validate_choices_def)

lemma question_shape_of_valid:
  "validate_question q = None \<Longrightarrow> validate_question_shape (question_shape_of q) = None"
  by (auto simp: validate_question_def validate_question_shape_def question_shape_of_def
      validate_choices_None)

lemma derived_shape_is: 
  "derive_request_response_shape request = Inr shape \<longleftrightarrow>
     validate_interactive_request request = None \<and> shape = response_shape_of request"
  by (auto simp: derive_request_response_shape_def split: option.splits)

lemma response_shape_of_valid:
  "validate_interactive_request request = None \<Longrightarrow>
   validate_request_response_shape (response_shape_of request) = None"
proof (cases request)
  case (UserInputRequest r)
  have "qs_question_id \<circ> question_shape_of = uq_question_id"
    by (simp add: fun_eq_iff question_shape_of_def)
  moreover assume "validate_interactive_request request = None"
  ultimately show ?thesis using UserInputRequest by (auto intro: question_shape_of_valid)
qed (auto simp: validate_choices_None)

section \<open>Every valid shape can be answered\<close>

text \<open>The canonical answer to a question: offered choices, or distinct free texts.\<close>

definition canonical_answers :: "user_input_question_shape \<Rightarrow> string list" where
  "canonical_answers q =
     (let k = nat (max 1 (qs_min_answers q))
      in if qs_allows_other q then map (\<lambda>i. replicate (Suc i) CHR ''a'') [0..<k]
         else take k (qs_choice_ids q))"

fun canonical_response :: "request_response_shape \<Rightarrow> request_response" where
  "canonical_response (ApprovalResponseShape choice_ids) = ApprovalResponse (hd choice_ids)"
| "canonical_response (UserInputResponseShape questions) =
     UserInputResponse (map (\<lambda>q. (qs_question_id q, canonical_answers q)) questions)"

lemma canonical_answers_facts:
  assumes "validate_question_shape q = None"
  shows "qs_min_answers q \<le> int (length (canonical_answers q))"
    and "int (length (canonical_answers q)) \<le> qs_max_answers q"
    and "canonical_answers q \<noteq> []"
    and "length (canonical_answers q) \<le> MAX_INTERACTIVE_REQUEST_CHOICES"
    and "distinct (canonical_answers q)"
    and "\<forall>a \<in> set (canonical_answers q). a \<noteq> [] \<and> length a \<le> 512
           \<and> (a \<in> set (qs_choice_ids q) \<or> qs_allows_other q)"
proof -
  from assms have bounds: "0 \<le> qs_min_answers q" "qs_min_answers q \<le> qs_max_answers q"
      "1 \<le> qs_max_answers q" "qs_max_answers q \<le> int MAX_INTERACTIVE_REQUEST_CHOICES"
    and fits: "\<not> qs_allows_other q \<Longrightarrow> qs_max_answers q \<le> int (length (qs_choice_ids q))"
    and ids: "distinct (qs_choice_ids q)" "\<forall>c \<in> set (qs_choice_ids q). c \<noteq> [] \<and> length c \<le> 512"
    by (auto simp: validate_question_shape_def)
  have len: "length (canonical_answers q) = nat (max 1 (qs_min_answers q))"
    using bounds fits by (auto simp: canonical_answers_def Let_def)
  show "qs_min_answers q \<le> int (length (canonical_answers q))"
    and "int (length (canonical_answers q)) \<le> qs_max_answers q"
    and "length (canonical_answers q) \<le> MAX_INTERACTIVE_REQUEST_CHOICES"
    using bounds by (auto simp: len)
  show "canonical_answers q \<noteq> []" using len by auto
  have "inj_on (\<lambda>i. CHR ''a'' # replicate i CHR ''a'') {0..<k}" for k
    by (rule inj_onI) (auto dest: arg_cong [where f = length])
  then show "distinct (canonical_answers q)"
    using ids by (auto simp: canonical_answers_def Let_def distinct_map)
  show "\<forall>a \<in> set (canonical_answers q). a \<noteq> [] \<and> length a \<le> 512
           \<and> (a \<in> set (qs_choice_ids q) \<or> qs_allows_other q)"
    using ids bounds
    by (auto simp: canonical_answers_def Let_def request_limits dest!: in_set_takeD)
qed

lemma canonical_answers_admitted:
  assumes "validate_question_shape q = None" and "a \<in> set (canonical_answers q)"
  shows "validate_answer_admission a = None"
  using canonical_answers_facts(6) [OF assms(1)] assms(2)
  by (auto simp: validate_answer_admission_def request_limits)

lemma canonical_question_answers:
  assumes "validate_question_shape q = None"
    and "dict_get answers (qs_question_id q) = Some (canonical_answers q)"
  shows "validate_question_answers answers q = None"
  using canonical_answers_facts [OF assms(1)] assms(2)
  by (auto simp: validate_question_answers_def)

lemma canonical_response_valid:
  assumes "validate_request_response_shape shape = None"
  shows "validate_request_response (canonical_response shape) shape = None"
proof (cases shape)
  case (ApprovalResponseShape ids)
  with assms show ?thesis by (cases ids) (auto simp: validate_request_response_def)
next
  case (UserInputResponseShape qs)
  let ?answers = "map (\<lambda>q. (qs_question_id q, canonical_answers q)) qs"
  from assms UserInputResponseShape have qs: "qs \<noteq> []" "distinct (map qs_question_id qs)"
      "length qs \<le> MAX_INTERACTIVE_REQUEST_QUESTIONS"
      "\<forall>q \<in> set qs. validate_question_shape q = None"
    by (auto simp: validate_question_count_def)
  have look: "dict_get ?answers (qs_question_id q) = Some (canonical_answers q)"
    if "q \<in> set qs" for q
    using that qs(2) by (auto simp: comp_def intro!: map_of_is_SomeI)
  have ident: "require_identifier (qs_question_id q) = None" if "q \<in> set qs" for q
    using that qs(4) by (auto simp: validate_question_shape_def)
  have "validate_request_response_admission (UserInputResponse ?answers) = None"
    using qs ident canonical_answers_facts(3,4) canonical_answers_admitted
    by (auto simp: not_less simp del: require_identifier_None)
  moreover have "response_matches_shape (UserInputResponse ?answers) shape = None"
    using qs look by (auto simp: UserInputResponseShape intro!: canonical_question_answers)
  ultimately show ?thesis
    using assms by (simp add: validate_request_response_def UserInputResponseShape)
qed

section \<open>Properties\<close>

text \<open>
  Every interactive request that passes validation has a response shape, the shape is valid,
  and there is a response that the admission check and the shape both accept; no valid request is
  unanswerable.
\<close>

theorem valid_request_answerable:
  assumes "validate_interactive_request request = None"
  shows "\<exists>shape response. derive_request_response_shape request = Inr shape
    \<and> validate_request_response_shape shape = None
    \<and> validate_request_response response shape = None"
  using assms response_shape_of_valid canonical_response_valid derived_shape_is by blast

theorem valid_request_answerable_witness:
  "\<exists>shape response. derive_request_response_shape (UserInputRequest \<lparr>
       ui_request_ref = \<lparr>rq_application_ref = \<lparr>ar_application_instance_id = ''codex''\<rparr>,
         rq_native_request_id = ''q''\<rparr>,
       ui_turn_ref = \<lparr>tn_thread_ref = \<lparr>th_project_ref = \<lparr>pj_application_instance_id = ''codex'',
         pj_project_id = ''p''\<rparr>, th_thread_id = ''t''\<rparr>, tn_turn_id = ''u''\<rparr>,
       ui_questions = [\<lparr>uq_question_id = ''a'', uq_prompt = ''Which?'', uq_header = None,
         uq_choices = [\<lparr>ch_choice_id = ''x'', ch_label = ''X'', ch_description = None\<rparr>],
         uq_allows_other = True, uq_secret = False, uq_min_answers = 2, uq_max_answers = 3\<rparr>],
       ui_prompt = None, ui_expires_at = None\<rparr>) = Inr shape
     \<and> validate_request_response_shape shape = None
     \<and> validate_request_response response shape = None"
  by (rule valid_request_answerable) code_simp

end
