(* ===== verification/State_Contracts.thy ===== *)
theory State_Contracts
  imports Contracts
begin

text \<open>
  The validated values of Gateway bridge state (\<open>gateway/persistence/state_contracts.py\<close>) and
  the delivery receipts they embed (\<open>interaction/channels/contract.py\<close>).
\<close>

section \<open>Delivery receipts\<close>

datatype delivery_receipt_status =
  DRS_ACCEPTED_BY_PLATFORM | DRS_REJECTED_BY_PLATFORM | DRS_RETRYABLE_FAILURE | DRS_UNKNOWN

datatype delivery_item_status =
  DIS_ACCEPTED | DIS_REJECTED | DIS_RETRYABLE_FAILURE | DIS_UNKNOWN | DIS_SKIPPED

datatype delivery_segment_status =
  DSS_ACCEPTED_BY_PLATFORM | DSS_REJECTED_BY_PLATFORM | DSS_RETRYABLE_FAILURE
  | DSS_UNKNOWN | DSS_SKIPPED

text \<open>
  A duration given as a float: a finite number of microseconds, or one of the non-finite floats.
\<close>

datatype duration = Micros int | NonFinite

record delivery_item_receipt =
  di_content_index :: int
  di_status :: delivery_item_status
  di_attachment_id :: "string option"
  di_native_message_id :: "string option"
  di_detail :: "string option"

record delivery_segment_receipt =
  ds_segment_index :: int
  ds_delivery_id :: string
  ds_source_content_indexes :: "int list"
  ds_status :: delivery_segment_status
  ds_native_message_id :: "string option"
  ds_detail :: "string option"
  ds_retry_after_seconds :: "duration option"

record delivery_receipt =
  dr_status :: delivery_receipt_status
  dr_native_message_id :: "string option"
  dr_detail :: "string option"
  dr_items :: "delivery_item_receipt list"
  dr_segments :: "delivery_segment_receipt list"
  dr_retry_after_seconds :: "duration option"

definition validate_retry_after :: "bool \<Rightarrow> duration \<Rightarrow> check" where
  "validate_retry_after retryable d =
     (if \<not> retryable then Some ContractViolation
      else case d of
             NonFinite \<Rightarrow> Some ContractViolation
           | Micros t \<Rightarrow> raise_if (t < 0) ContractViolation)"

text \<open>The loop over item receipts, with the set of content indexes already seen.\<close>

fun validate_items :: "int set \<Rightarrow> delivery_item_receipt list \<Rightarrow> check" where
  "validate_items seen [] = None"
| "validate_items seen (item # items) = first_error [
     raise_if (di_content_index item < 0) ContractViolation,
     raise_if (di_content_index item \<in> seen) ContractViolation,
     raise_if (di_status item = DIS_RETRYABLE_FAILURE \<and> di_native_message_id item \<noteq> None)
       ContractViolation,
     on_some require_identifier (di_attachment_id item),
     on_some require_identifier (di_native_message_id item),
     validate_items (insert (di_content_index item) seen) items]"

fun validate_segments ::
  "int set \<Rightarrow> string set \<Rightarrow> delivery_segment_receipt list \<Rightarrow> check" where
  "validate_segments seen_indexes seen_ids [] = None"
| "validate_segments seen_indexes seen_ids (segment # segments) = first_error [
     raise_if (ds_segment_index segment < 0) ContractViolation,
     raise_if (ds_segment_index segment \<in> seen_indexes) ContractViolation,
     require_identifier (ds_delivery_id segment),
     raise_if (ds_delivery_id segment \<in> seen_ids) ContractViolation,
     raise_if (ds_source_content_indexes segment = []) ContractViolation,
     raise_if (\<not> distinct (ds_source_content_indexes segment)) ContractViolation,
     raise_if (\<exists>i \<in> set (ds_source_content_indexes segment). i < 0) ContractViolation,
     raise_if (ds_status segment = DSS_RETRYABLE_FAILURE \<and> ds_native_message_id segment \<noteq> None)
       ContractViolation,
     on_some (validate_retry_after (ds_status segment = DSS_RETRYABLE_FAILURE))
       (ds_retry_after_seconds segment),
     on_some require_identifier (ds_native_message_id segment),
     validate_segments (insert (ds_segment_index segment) seen_indexes)
       (insert (ds_delivery_id segment) seen_ids) segments]"

definition validate_delivery_receipt :: "delivery_receipt \<Rightarrow> check" where
  "validate_delivery_receipt receipt = first_error [
     on_some (validate_retry_after (dr_status receipt = DRS_RETRYABLE_FAILURE))
       (dr_retry_after_seconds receipt),
     on_some require_identifier (dr_native_message_id receipt),
     validate_items {} (dr_items receipt),
     validate_segments {} {} (dr_segments receipt),
     raise_if (dr_status receipt = DRS_RETRYABLE_FAILURE \<and>
       (dr_native_message_id receipt \<noteq> None
        \<or> (\<exists>item \<in> set (dr_items receipt). di_status item \<in> {DIS_ACCEPTED, DIS_UNKNOWN})
        \<or> (\<exists>item \<in> set (dr_items receipt). di_native_message_id item \<noteq> None)
        \<or> (\<exists>segment \<in> set (dr_segments receipt).
              ds_status segment \<in> {DSS_ACCEPTED_BY_PLATFORM, DSS_UNKNOWN})
        \<or> (\<exists>segment \<in> set (dr_segments receipt). ds_native_message_id segment \<noteq> None)))
       ContractViolation]"

section \<open>Bridge state records\<close>

datatype request_route_state = RRS_OPEN | RRS_RESPONDED | RRS_RESOLVED | RRS_STALE

record request_route_correlation =
  rc_correlation_id :: string
  rc_request_ref :: request_ref
  rc_turn_ref :: turn_ref
  rc_conversation_ref :: conversation_ref
  rc_delivery_id :: string
  rc_response_shape :: request_response_shape
  rc_state :: request_route_state
  rc_created_at :: datetime
  rc_updated_at :: datetime
  rc_expires_at :: "datetime option"

record conversation_binding =
  cb_conversation_ref :: conversation_ref
  cb_application_ref :: "application_ref option"
  cb_project_ref :: "project_ref option"
  cb_thread_ref :: "thread_ref option"
  cb_generation :: int
  cb_updated_at :: "datetime option"

record thread_projection_route =
  pr_route_id :: string
  pr_thread_ref :: thread_ref
  pr_conversation_ref :: conversation_ref
  pr_reply_to_message_id :: "string option"
  pr_checkpoint_agent_item_id :: "string option"
  pr_checkpointed_at :: "datetime option"
  pr_updated_at :: "datetime option"

record turn_reply_correlation =
  tc_correlation_id :: string
  tc_turn_ref :: turn_ref
  tc_client_message_id :: string
  tc_conversation_ref :: conversation_ref
  tc_reply_to_message_id :: string
  tc_created_at :: datetime

record queued_input_origin =
  qo_conversation_ref :: conversation_ref
  qo_message_id :: string
  qo_actor_fingerprint :: string
  qo_thread_ref :: thread_ref
  qo_binding_generation :: int
  qo_client_message_id :: string
  qo_input_fingerprint :: string
  qo_continuation :: input_continuation_preference

record queued_input_correlation =
  qc_origin :: queued_input_origin
  qc_receipt :: "queued_input_receipt option"
  qc_created_at :: datetime
  qc_updated_at :: datetime

datatype delivery_submission_state =
  SUB_IN_FLIGHT | SUB_ACCEPTED | SUB_REJECTED | SUB_RETRYABLE | SUB_PARTIAL | SUB_UNKNOWN

datatype delivery_submission_origin = EXTERNAL | GATEWAY_INTERNAL

record delivery_route_snapshot =
  sn_conversation_ref :: conversation_ref
  sn_thread_ref :: "thread_ref option"
  sn_route_id :: "string option"
  sn_route_updated_at :: "datetime option"
  sn_reply_to_message_id :: "string option"

record destination_delivery_record =
  dd_delivery_id :: string
  dd_snapshot :: delivery_route_snapshot
  dd_state :: delivery_submission_state
  dd_updated_at :: datetime
  dd_receipt :: "delivery_receipt option"

record delivery_submission_record =
  sr_submission_id :: string
  sr_delivery_id :: string
  sr_origin :: delivery_submission_origin
  sr_principal_id :: string
  sr_target_fingerprint :: string
  sr_payload_fingerprint :: string
  sr_destinations :: "destination_delivery_record list"
  sr_created_at :: datetime
  sr_updated_at :: datetime

record delivery_reservation =
  rv_acquired :: bool
  rv_record :: delivery_submission_record

definition MAX_DELIVERY_SUBMISSION_DESTINATIONS :: nat where
  "MAX_DELIVERY_SUBMISSION_DESTINATIONS = 64"

section \<open>Validation of bridge state\<close>

definition validate_generation :: "int \<Rightarrow> check" where
  "validate_generation value = raise_if (value < 0) ContractViolation"

definition validate_binding :: "conversation_binding \<Rightarrow> check" where
  "validate_binding binding = (let
     application_id = map_option ar_application_instance_id (cb_application_ref binding)
   in first_error [
     validate_conversation_ref (cb_conversation_ref binding),
     validate_generation (cb_generation binding),
     on_some require_identifier application_id,
     on_some (\<lambda>project. first_error [
       validate_project_ref project,
       raise_if (application_id \<noteq> Some (pj_application_instance_id project)) ContractViolation])
       (cb_project_ref binding),
     on_some (\<lambda>thread. first_error [
       validate_thread_ref thread,
       raise_if (cb_application_ref binding = None \<or> cb_project_ref binding = None)
         ContractViolation,
       raise_if (application_id \<noteq> Some (pj_application_instance_id (th_project_ref thread)))
         ContractViolation])
       (cb_thread_ref binding),
     on_some (\<lambda>thread. raise_if (cb_project_ref binding \<noteq> Some (th_project_ref thread))
       ContractViolation) (cb_thread_ref binding)])"

definition validate_projection_route :: "thread_projection_route \<Rightarrow> check" where
  "validate_projection_route route = first_error [
     require_identifier (pr_route_id route),
     validate_thread_ref (pr_thread_ref route),
     validate_conversation_ref (pr_conversation_ref route),
     on_some require_identifier (pr_reply_to_message_id route),
     on_some require_identifier (pr_checkpoint_agent_item_id route),
     raise_if ((pr_checkpoint_agent_item_id route = None) \<noteq> (pr_checkpointed_at route = None))
       ContractViolation]"

definition validate_turn_reply_correlation :: "turn_reply_correlation \<Rightarrow> check" where
  "validate_turn_reply_correlation correlation = first_error [
     require_identifier (tc_correlation_id correlation),
     validate_turn_ref (tc_turn_ref correlation),
     require_identifier (tc_client_message_id correlation),
     validate_conversation_ref (tc_conversation_ref correlation),
     require_identifier (tc_reply_to_message_id correlation)]"

definition validate_request_route_correlation :: "request_route_correlation \<Rightarrow> check" where
  "validate_request_route_correlation correlation = first_error [
     require_identifier (rc_correlation_id correlation),
     validate_request_ref (rc_request_ref correlation),
     validate_turn_ref (rc_turn_ref correlation),
     raise_if (pj_application_instance_id (th_project_ref (tn_thread_ref (rc_turn_ref correlation)))
               \<noteq> ar_application_instance_id (rq_application_ref (rc_request_ref correlation)))
       ContractViolation,
     validate_conversation_ref (rc_conversation_ref correlation),
     require_identifier (rc_delivery_id correlation),
     validate_request_response_shape (rc_response_shape correlation),
     raise_if (\<not> aware (rc_created_at correlation) \<or> \<not> aware (rc_updated_at correlation))
       ContractViolation,
     raise_if (dt_less (rc_updated_at correlation) (rc_created_at correlation)) ContractViolation,
     on_some (\<lambda>t. raise_if (\<not> aware t) ContractViolation) (rc_expires_at correlation)]"

definition validate_queued_input_lookup :: "conversation_ref \<Rightarrow> string \<Rightarrow> check" where
  "validate_queued_input_lookup conversation_ref message_id = first_error [
     require_identifier (cv_channel_instance_id conversation_ref),
     require_identifier (cv_native_conversation_id conversation_ref),
     require_identifier message_id]"

definition validate_queued_input_origin :: "queued_input_origin \<Rightarrow> check" where
  "validate_queued_input_origin origin = first_error [
     validate_queued_input_lookup (qo_conversation_ref origin) (qo_message_id origin),
     require_identifier (pj_application_instance_id (th_project_ref (qo_thread_ref origin))),
     require_identifier (pj_project_id (th_project_ref (qo_thread_ref origin))),
     require_identifier (th_thread_id (qo_thread_ref origin)),
     require_identifier (qo_client_message_id origin),
     raise_if (\<not> is_lowercase_sha256 (qo_actor_fingerprint origin)) ContractViolation,
     validate_queued_input_dispatch
       \<lparr>qd_thread_ref = qo_thread_ref origin,
        qd_client_message_id = qo_client_message_id origin,
        qd_input_fingerprint = qo_input_fingerprint origin\<rparr>,
     validate_generation (qo_binding_generation origin),
     raise_if (qo_continuation origin \<noteq> QUEUE) ContractViolation]"

definition receipt_matches_origin :: "queued_input_receipt \<Rightarrow> queued_input_origin \<Rightarrow> bool" where
  "receipt_matches_origin receipt origin \<longleftrightarrow>
     qr_thread_ref receipt = qo_thread_ref origin
     \<and> qr_client_message_id receipt = qo_client_message_id origin
     \<and> qr_input_fingerprint receipt = qo_input_fingerprint origin"

definition validate_queued_input_correlation :: "queued_input_correlation \<Rightarrow> check" where
  "validate_queued_input_correlation record = first_error [
     validate_queued_input_origin (qc_origin record),
     raise_if (\<not> aware (qc_created_at record)) ContractViolation,
     raise_if (\<not> aware (qc_updated_at record)) ContractViolation,
     raise_if (dt_less (qc_updated_at record) (qc_created_at record)) ContractViolation,
     on_some (\<lambda>receipt. first_error [
       validate_queued_input_receipt receipt,
       require_identifier (qr_queued_item_id receipt),
       on_some (\<lambda>turn. require_identifier (tn_turn_id turn)) (qr_turn_ref receipt),
       raise_if (\<not> receipt_matches_origin receipt (qc_origin record)) ContractViolation])
       (qc_receipt record)]"

definition validate_delivery_route_snapshot :: "delivery_route_snapshot \<Rightarrow> check" where
  "validate_delivery_route_snapshot snapshot = first_error [
     validate_conversation_ref (sn_conversation_ref snapshot),
     (case sn_thread_ref snapshot of
        None \<Rightarrow> raise_if (sn_route_id snapshot \<noteq> None \<or> sn_route_updated_at snapshot \<noteq> None
                        \<or> sn_reply_to_message_id snapshot \<noteq> None) ContractViolation
      | Some thread \<Rightarrow> first_error [
          validate_thread_ref thread,
          require_identifier (case sn_route_id snapshot of None \<Rightarrow> [] | Some i \<Rightarrow> i),
          on_some require_identifier (sn_reply_to_message_id snapshot)])]"

definition validate_durable_delivery_receipt :: "delivery_receipt \<Rightarrow> check" where
  "validate_durable_delivery_receipt receipt = first_error [
     raise_if (dr_detail receipt \<noteq> None) ContractViolation,
     raise_if (\<exists>item \<in> set (dr_items receipt). di_detail item \<noteq> None) ContractViolation,
     raise_if (\<exists>segment \<in> set (dr_segments receipt). ds_detail segment \<noteq> None)
       ContractViolation]"

definition validate_delivery_submission_destination_count :: "nat \<Rightarrow> check" where
  "validate_delivery_submission_destination_count count =
     raise_if (count > MAX_DELIVERY_SUBMISSION_DESTINATIONS) ContractViolation"

text \<open>The loop over destinations, with the set of delivery identities already seen.\<close>

fun validate_destinations :: "string set \<Rightarrow> destination_delivery_record list \<Rightarrow> check" where
  "validate_destinations seen [] = None"
| "validate_destinations seen (destination # destinations) = first_error [
     require_identifier (dd_delivery_id destination),
     raise_if (dd_delivery_id destination \<in> seen) ContractViolation,
     raise_if (\<not> aware (dd_updated_at destination)) ContractViolation,
     validate_delivery_route_snapshot (dd_snapshot destination),
     on_some (\<lambda>receipt. first_error [
       validate_delivery_receipt receipt,
       validate_durable_delivery_receipt receipt]) (dd_receipt destination),
     validate_destinations (insert (dd_delivery_id destination) seen) destinations]"

definition validate_delivery_submission_record :: "delivery_submission_record \<Rightarrow> check" where
  "validate_delivery_submission_record record = first_error [
     require_identifier (sr_submission_id record),
     require_identifier (sr_delivery_id record),
     require_identifier (sr_principal_id record),
     require_identifier (sr_target_fingerprint record),
     require_identifier (sr_payload_fingerprint record),
     raise_if (\<not> aware (sr_created_at record) \<or> \<not> aware (sr_updated_at record)) ContractViolation,
     raise_if (dt_less (sr_updated_at record) (sr_created_at record)) ContractViolation,
     raise_if (sr_destinations record = []) ContractViolation,
     validate_delivery_submission_destination_count (length (sr_destinations record)),
     validate_destinations {} (sr_destinations record)]"

section \<open>Facts about the validators\<close>

lemma validate_generation_None [simp]: "validate_generation g = None \<longleftrightarrow> 0 \<le> g"
  by (auto simp: validate_generation_def)

lemma validate_destinations_distinct:
  "validate_destinations seen ds = None \<Longrightarrow>
   distinct (map dd_delivery_id ds) \<and> dd_delivery_id ` set ds \<inter> seen = {}"
proof (induction ds arbitrary: seen)
  case (Cons d ds)
  from Cons.prems have "validate_destinations (insert (dd_delivery_id d) seen) ds = None"
    and "dd_delivery_id d \<notin> seen"
    by auto
  with Cons.IH [of "insert (dd_delivery_id d) seen"] show ?case by auto
qed simp

text \<open>
  An accepted binding is hierarchical: its Thread lies in its Project, and its Project in its
  Application.
\<close>

lemma validate_binding_hierarchy:
  assumes "validate_binding b = None"
  shows "cb_thread_ref b = Some t \<Longrightarrow> cb_project_ref b = Some (th_project_ref t)"
    and "cb_project_ref b = Some p \<Longrightarrow>
           cb_application_ref b = Some \<lparr>ar_application_instance_id = pj_application_instance_id p\<rparr>"
  using assms by (auto simp: validate_binding_def Let_def)

text \<open>The generation and the timestamp of a binding do not influence its other checks.\<close>

lemma validate_binding_stamp:
  "validate_binding b = None \<Longrightarrow> 0 \<le> g \<Longrightarrow>
   validate_binding (b\<lparr>cb_generation := g, cb_updated_at := u\<rparr>) = None"
  by (simp add: validate_binding_def Let_def)

end
