(* ===== verification/Samples.thy ===== *)
theory Samples
  imports State_Contracts
begin

text \<open>Concrete values on which the theorems of the other theories are instantiated.\<close>

definition sample_conversation :: conversation_ref where
  "sample_conversation = \<lparr>cv_channel_instance_id = ''tg'', cv_native_conversation_id = ''42''\<rparr>"

definition sample_application :: application_ref where
  "sample_application = \<lparr>ar_application_instance_id = ''codex''\<rparr>"

definition sample_project :: project_ref where
  "sample_project = \<lparr>pj_application_instance_id = ''codex'', pj_project_id = ''p''\<rparr>"

definition sample_thread :: thread_ref where
  "sample_thread = \<lparr>th_project_ref = sample_project, th_thread_id = ''t''\<rparr>"

definition sample_turn :: turn_ref where
  "sample_turn = \<lparr>tn_thread_ref = sample_thread, tn_turn_id = ''u''\<rparr>"

definition sample_request :: request_ref where
  "sample_request = \<lparr>rq_application_ref = sample_application, rq_native_request_id = ''q''\<rparr>"

definition sample_binding :: conversation_binding where
  "sample_binding = \<lparr>
     cb_conversation_ref = sample_conversation, cb_application_ref = Some sample_application,
     cb_project_ref = Some sample_project, cb_thread_ref = Some sample_thread,
     cb_generation = 0, cb_updated_at = None\<rparr>"

definition sample_route :: thread_projection_route where
  "sample_route = \<lparr>
     pr_route_id = ''r'', pr_thread_ref = sample_thread, pr_conversation_ref = sample_conversation,
     pr_reply_to_message_id = Some ''m'', pr_checkpoint_agent_item_id = None,
     pr_checkpointed_at = None, pr_updated_at = None\<rparr>"

definition sample_turn_reply :: turn_reply_correlation where
  "sample_turn_reply = \<lparr>
     tc_correlation_id = ''k'', tc_turn_ref = sample_turn, tc_client_message_id = ''cm'',
     tc_conversation_ref = sample_conversation, tc_reply_to_message_id = ''m'', tc_created_at = utc 0\<rparr>"

definition sample_approval :: interactive_request where
  "sample_approval = ApprovalRequest \<lparr>
     ap_request_ref = sample_request, ap_turn_ref = sample_turn, ap_prompt = ''Run it?'',
     ap_choices = [\<lparr>ch_choice_id = ''yes'', ch_label = ''Yes'', ch_description = None\<rparr>,
                   \<lparr>ch_choice_id = ''no'', ch_label = ''No'', ch_description = None\<rparr>],
     ap_expires_at = None\<rparr>"

definition sample_correlation :: request_route_correlation where
  "sample_correlation = \<lparr>
     rc_correlation_id = ''c'', rc_request_ref = sample_request, rc_turn_ref = sample_turn,
     rc_conversation_ref = sample_conversation, rc_delivery_id = ''d'',
     rc_response_shape = ApprovalResponseShape [''yes'', ''no''], rc_state = RRS_OPEN,
     rc_created_at = utc 0, rc_updated_at = utc 0, rc_expires_at = None\<rparr>"

definition sample_sha256 :: string where
  "sample_sha256 = replicate 64 (CHR ''a'')"

definition sample_origin :: queued_input_origin where
  "sample_origin = \<lparr>
     qo_conversation_ref = sample_conversation, qo_message_id = ''m'',
     qo_actor_fingerprint = sample_sha256, qo_thread_ref = sample_thread, qo_binding_generation = 1,
     qo_client_message_id = ''cm'', qo_input_fingerprint = sample_sha256, qo_continuation = QUEUE\<rparr>"

definition sample_receipt :: queued_input_receipt where
  "sample_receipt = \<lparr>
     qr_thread_ref = sample_thread, qr_client_message_id = ''cm'', qr_queued_item_id = ''i'',
     qr_state = QIS_QUEUED, qr_turn_ref = None, qr_input_fingerprint = sample_sha256\<rparr>"

definition sample_queued :: queued_input_correlation where
  "sample_queued = \<lparr>qc_origin = sample_origin, qc_receipt = None, qc_created_at = utc 0,
     qc_updated_at = utc 0\<rparr>"

definition sample_destination :: destination_delivery_record where
  "sample_destination = \<lparr>
     dd_delivery_id = ''dd'',
     dd_snapshot = \<lparr>sn_conversation_ref = sample_conversation, sn_thread_ref = None, sn_route_id = None,
        sn_route_updated_at = None, sn_reply_to_message_id = None\<rparr>,
     dd_state = SUB_IN_FLIGHT, dd_updated_at = utc 0, dd_receipt = None\<rparr>"

definition sample_submission :: delivery_submission_record where
  "sample_submission = \<lparr>
     sr_submission_id = ''s'', sr_delivery_id = ''d'', sr_origin = EXTERNAL, sr_principal_id = ''pr'',
     sr_target_fingerprint = ''tf'', sr_payload_fingerprint = ''pf'',
     sr_destinations = [sample_destination], sr_created_at = utc 0, sr_updated_at = utc 0\<rparr>"

lemmas sample_defs = sample_conversation_def sample_application_def sample_project_def
  sample_thread_def sample_turn_def sample_request_def sample_binding_def sample_route_def
  sample_turn_reply_def sample_approval_def sample_correlation_def sample_sha256_def
  sample_origin_def sample_receipt_def sample_queued_def sample_destination_def sample_submission_def

end
