(* ===== verification/Idempotency.thy ===== *)
theory Idempotency
  imports Samples
begin

text \<open>
  Stable claims (\<open>gateway/persistence/idempotency.py\<close>), the claim identity of an inbound message
  (\<open>gateway/persistence/repository_contracts.py\<close>) and the inbound admission service built on
  them (\<open>gateway/admission.py\<close>). The locale \<open>claim_ledger\<close> states what the admission service
  relies on; the in-memory repository is an instance.
\<close>

section \<open>The in-memory claim repository\<close>

datatype idempotency_claim_status = CLAIM_ACQUIRED | CLAIM_ALREADY_COMPLETED | CLAIM_IN_FLIGHT

datatype claim_phase = in_flight | side_effect_started | completed

type_synonym claim_id = "string \<times> string"
type_synonym owner_token = "string option"

record idempotency_repository =
  ir_max_records :: int
  ir_records :: "(claim_id, claim_phase \<times> owner_token) dict"

definition new_idempotency_repository :: "int \<Rightarrow> idempotency_repository res" where
  "new_idempotency_repository max_records =
     (if max_records < 1 then Inl ValueError
      else Inr \<lparr>ir_max_records = max_records, ir_records = []\<rparr>)"

definition claim :: "claim_id \<Rightarrow> owner_token \<Rightarrow> idempotency_repository \<Rightarrow>
    (idempotency_repository, idempotency_claim_status) outcome" where
  "claim record owner_token r =
     (case dict_get (ir_records r) record of
        Some (completed, _) \<Rightarrow> returns CLAIM_ALREADY_COMPLETED r
      | Some (_, _) \<Rightarrow> returns CLAIM_IN_FLIGHT r
      | None \<Rightarrow>
          if int (length (ir_records r)) \<ge> ir_max_records r then raises IdempotencyCapacityError r
          else returns CLAIM_ACQUIRED
                 (r\<lparr>ir_records := dict_set (ir_records r) record (in_flight, owner_token)\<rparr>))"

definition complete :: "claim_id \<Rightarrow> owner_token \<Rightarrow> idempotency_repository \<Rightarrow>
    (idempotency_repository, unit) outcome" where
  "complete record owner_token r =
     (case dict_get (ir_records r) record of
        None \<Rightarrow> raises RuntimeError r
      | Some (_, owner) \<Rightarrow>
          if owner \<noteq> owner_token then raises RuntimeError r
          else returns () (r\<lparr>ir_records := dict_set (ir_records r) record (completed, owner_token)\<rparr>))"

definition mark_side_effect_started :: "claim_id \<Rightarrow> owner_token \<Rightarrow> idempotency_repository \<Rightarrow>
    (idempotency_repository, unit) outcome" where
  "mark_side_effect_started record owner_token r =
     (if dict_get (ir_records r) record \<noteq> Some (in_flight, owner_token) then raises RuntimeError r
      else returns ()
        (r\<lparr>ir_records := dict_set (ir_records r) record (side_effect_started, owner_token)\<rparr>))"

definition refresh :: "claim_id \<Rightarrow> owner_token \<Rightarrow> idempotency_repository \<Rightarrow>
    (idempotency_repository, unit) outcome" where
  "refresh record owner_token r =
     (if dict_get (ir_records r) record \<noteq> Some (in_flight, owner_token) then raises RuntimeError r
      else returns () r)"

definition release :: "claim_id \<Rightarrow> owner_token \<Rightarrow> idempotency_repository \<Rightarrow>
    (idempotency_repository, unit) outcome" where
  "release record owner_token r =
     (if dict_get (ir_records r) record
         \<in> {Some (in_flight, owner_token), Some (side_effect_started, owner_token)}
      then returns () (r\<lparr>ir_records := dict_pop (ir_records r) record\<rparr>)
      else returns () r)"

text \<open>The repository's operations as one function, for sequences of calls.\<close>

datatype claim_op =
    Claim claim_id owner_token
  | Mark claim_id owner_token
  | Refresh claim_id owner_token
  | Complete claim_id owner_token
  | Release claim_id owner_token

fun op_claim :: "claim_op \<Rightarrow> claim_id" where
  "op_claim (Claim i t) = i"
| "op_claim (Mark i t) = i"
| "op_claim (Refresh i t) = i"
| "op_claim (Complete i t) = i"
| "op_claim (Release i t) = i"

fun op_owner :: "claim_op \<Rightarrow> owner_token" where
  "op_owner (Claim i t) = t"
| "op_owner (Mark i t) = t"
| "op_owner (Refresh i t) = t"
| "op_owner (Complete i t) = t"
| "op_owner (Release i t) = t"

definition no_status :: "('s, unit) outcome \<Rightarrow> ('s, idempotency_claim_status option) outcome" where
  "no_status = (\<lambda>(r, s). (map_sum id (\<lambda>_. None) r, s))"

definition with_status ::
  "('s, idempotency_claim_status) outcome \<Rightarrow> ('s, idempotency_claim_status option) outcome" where
  "with_status = (\<lambda>(r, s). (map_sum id Some r, s))"

fun claim_exec :: "claim_op \<Rightarrow> idempotency_repository \<Rightarrow>
    (idempotency_repository, idempotency_claim_status option) outcome" where
  "claim_exec (Claim i t) r = with_status (claim i t r)"
| "claim_exec (Mark i t) r = no_status (mark_side_effect_started i t r)"
| "claim_exec (Refresh i t) r = no_status (refresh i t r)"
| "claim_exec (Complete i t) r = no_status (complete i t r)"
| "claim_exec (Release i t) r = no_status (release i t r)"

abbreviation claim_view :: "idempotency_repository \<Rightarrow> claim_id \<Rightarrow> (claim_phase \<times> owner_token) option" where
  "claim_view r i \<equiv> dict_get (ir_records r) i"

definition claim_inv :: "idempotency_repository \<Rightarrow> bool" where
  "claim_inv r \<longleftrightarrow> dict_ok (ir_records r) \<and> int (length (ir_records r)) \<le> ir_max_records r"

section \<open>Inbound admission\<close>

text \<open>The idempotency identity of an inbound message: a scope and a key.\<close>

definition inbound_idempotency_identity :: "conversation_ref \<Rightarrow> string \<Rightarrow> claim_id" where
  "inbound_idempotency_identity conversation_ref message_id =
     (''inbound:'' @ cv_channel_instance_id conversation_ref,
      cv_native_conversation_id conversation_ref @ '':'' @ message_id)"

datatype lease_state =
  lease_open | lease_refreshing | lease_closed | lease_transferred | lease_releasing | lease_released

record admission_lease =
  al_conversation_ref :: conversation_ref
  al_message_id :: string
  al_claim :: claim_id
  al_owner_token :: string
  al_state :: lease_state

text \<open>
  What the Gateway orchestration receives: the claim with its owner token. Only the identity of
  the message is modelled; its content is handed over untouched.
\<close>

record claimed_inbound =
  ci_conversation_ref :: conversation_ref
  ci_message_id :: string
  ci_claim :: claim_id
  ci_owner_token :: string

text \<open>
  The service is written against a repository, so its operations take the repository's
  \<open>exec\<close> as a parameter. \<open>token\<close> is the fresh \<open>uuid4\<close> of the call.
\<close>

definition admission_begin ::
  "(claim_op \<Rightarrow> 'r \<Rightarrow> ('r, idempotency_claim_status option) outcome) \<Rightarrow> string \<Rightarrow> string \<Rightarrow>
   conversation_ref \<Rightarrow> string \<Rightarrow> 'r \<Rightarrow> ('r, admission_lease option) outcome" where
  "admission_begin exec token channel_instance_id conversation_ref message_id r =
     (if cv_channel_instance_id conversation_ref \<noteq> channel_instance_id then raises ValueError r
      else let i = inbound_idempotency_identity conversation_ref message_id
           in case exec (Claim i (Some token)) r of
                (Inl e, r') \<Rightarrow> raises e r'
              | (Inr status, r') \<Rightarrow>
                  if status \<noteq> Some CLAIM_ACQUIRED then returns None r'
                  else returns (Some \<lparr>
                    al_conversation_ref = conversation_ref, al_message_id = message_id,
                    al_claim = i, al_owner_token = token, al_state = lease_open\<rparr>) r')"

definition admission_release ::
  "(claim_op \<Rightarrow> 'r \<Rightarrow> ('r, idempotency_claim_status option) outcome) \<Rightarrow>
   admission_lease \<times> 'r \<Rightarrow> (admission_lease \<times> 'r, unit) outcome" where
  "admission_release exec = (\<lambda>(lease, r).
     if al_state lease \<noteq> lease_open then returns () (lease, r)
     else case exec (Release (al_claim lease) (Some (al_owner_token lease))) r of
            (Inl e, r') \<Rightarrow> raises e (lease\<lparr>al_state := lease_open\<rparr>, r')
          | (Inr _, r') \<Rightarrow> returns () (lease\<lparr>al_state := lease_released\<rparr>, r'))"

text \<open>
  \<open>deliver\<close> returns the value handed to the orchestration. A failed refresh closes the lease,
  tries to release the claim (an error of that attempt is only noted on the exception) and
  raises the refresh error.
\<close>

definition admission_deliver ::
  "(claim_op \<Rightarrow> 'r \<Rightarrow> ('r, idempotency_claim_status option) outcome) \<Rightarrow>
   conversation_ref \<Rightarrow> string \<Rightarrow> admission_lease \<times> 'r \<Rightarrow>
   (admission_lease \<times> 'r, claimed_inbound) outcome" where
  "admission_deliver exec conversation_ref message_id = (\<lambda>(lease, r).
     if al_state lease \<noteq> lease_open then raises RuntimeError (lease, r)
     else if conversation_ref \<noteq> al_conversation_ref lease \<or> message_id \<noteq> al_message_id lease
     then (case admission_release exec (lease, r) of
             (Inl e, s) \<Rightarrow> raises e s
           | (Inr _, s) \<Rightarrow> raises ValueError s)
     else case exec (Refresh (al_claim lease) (Some (al_owner_token lease))) r of
            (Inl e, r') \<Rightarrow>
              raises e (lease\<lparr>al_state := lease_closed\<rparr>,
                snd (exec (Release (al_claim lease) (Some (al_owner_token lease))) r'))
          | (Inr _, r') \<Rightarrow> returns \<lparr>
              ci_conversation_ref = conversation_ref, ci_message_id = message_id,
              ci_claim = al_claim lease, ci_owner_token = al_owner_token lease\<rparr>
              (lease\<lparr>al_state := lease_transferred\<rparr>, r'))"

section \<open>The contract of a claim ledger\<close>

locale claim_ledger =
  fixes exec :: "claim_op \<Rightarrow> 'r \<Rightarrow> ('r, idempotency_claim_status option) outcome"
    and view :: "'r \<Rightarrow> claim_id \<Rightarrow> (claim_phase \<times> owner_token) option"
  assumes acquired: "fst (exec (Claim i t) r) = Inr (Some CLAIM_ACQUIRED) \<Longrightarrow>
      view r i = None \<and> view (snd (exec (Claim i t) r)) i = Some (in_flight, t)"
    and held_refused: "view r i = Some (ph, t) \<Longrightarrow>
      \<exists>st. exec (Claim i u) r = (Inr st, r) \<and> st \<noteq> Some CLAIM_ACQUIRED"
    and held_kept: "view r i = Some (ph, t) \<Longrightarrow> c \<noteq> Release i t \<Longrightarrow>
      \<exists>ph'. view (snd (exec c r)) i = Some (ph', t)"
    and completed_kept: "view r i = Some (completed, t) \<Longrightarrow>
      view (snd (exec c r)) i = Some (completed, t)"
    and refreshed: "fst (exec (Refresh i t) r) = Inr st \<Longrightarrow>
      view r i = Some (in_flight, t) \<and> snd (exec (Refresh i t) r) = r"
    and released: "fst (exec (Release i t) r) = Inr st \<Longrightarrow>
      view (snd (exec (Release i t) r)) i \<noteq> Some (in_flight, t)"
begin

lemma held_run:
  "view r i = Some (ph, t) \<Longrightarrow> Release i t \<notin> set cs \<Longrightarrow>
   \<exists>ph'. view (run_ops exec cs r) i = Some (ph', t)"
proof (induction cs arbitrary: r ph)
  case (Cons c cs)
  then obtain ph' where "view (snd (exec c r)) i = Some (ph', t)"
    using held_kept [of r i ph t c] by auto
  with Cons show ?case by auto
qed simp

lemma completed_run:
  "view r i = Some (completed, t) \<Longrightarrow> view (run_ops exec cs r) i = Some (completed, t)"
  by (induction cs arbitrary: r) (auto intro: completed_kept)

lemma acquire_exclusive:
  assumes "fst (exec (Claim i t) r) = Inr (Some CLAIM_ACQUIRED)"
    and "Release i t \<notin> set cs"
  shows "fst (exec (Claim i u) (run_ops exec cs (snd (exec (Claim i t) r))))
           \<noteq> Inr (Some CLAIM_ACQUIRED)"
  using held_run [OF conjunct2 [OF acquired [OF assms(1)]] assms(2)]
    acquired [of i u "run_ops exec cs (snd (exec (Claim i t) r))"] by auto

lemma admission_begin_Some:
  assumes "admission_begin exec token ch conv msg r = (Inr (Some lease), r')"
  shows "exec (Claim (inbound_idempotency_identity conv msg) (Some token)) r
           = (Inr (Some CLAIM_ACQUIRED), r')"
    and "al_claim lease = inbound_idempotency_identity conv msg"
    and "al_owner_token lease = token" "al_state lease = lease_open"
    and "al_conversation_ref lease = conv" "al_message_id lease = msg"
  using assms
  by (auto simp: admission_begin_def Let_def split: if_splits prod.splits sum.splits)

lemma admission_begin_held:
  assumes "view r (inbound_idempotency_identity conv msg) = Some (ph, t)"
  shows "admission_begin exec token ch conv msg r
    = (if ch = cv_channel_instance_id conv then Inr None else Inl ValueError, r)"
  using held_refused [OF assms, of "Some token"]
  by (auto simp: admission_begin_def Let_def returns_def raises_def)

lemma admission_begin_view:
  assumes "admission_begin exec token ch conv msg r = (Inr (Some lease), r')"
  shows "view r' (inbound_idempotency_identity conv msg) = Some (in_flight, Some token)"
  using acquired [of "inbound_idempotency_identity conv msg" "Some token" r]
    admission_begin_Some(1) [OF assms] by simp

text \<open>
  A message whose claim identity is that of an admitted one is refused, whoever asks and
  whatever has happened since, short of the owner's own release.
\<close>

lemma same_identity_refused:
  assumes "admission_begin exec token ch conv msg r = (Inr (Some lease), r')"
    and "Release (inbound_idempotency_identity conv msg) (Some token) \<notin> set cs"
    and "inbound_idempotency_identity conv' msg' = inbound_idempotency_identity conv msg"
  shows "admission_begin exec token' ch' conv' msg' (run_ops exec cs r')
    = (if ch' = cv_channel_instance_id conv' then Inr None else Inl ValueError, run_ops exec cs r')"
proof -
  obtain ph where "view (run_ops exec cs r') (inbound_idempotency_identity conv msg) = Some (ph, Some token)"
    using held_run [OF admission_begin_view [OF assms(1)] assms(2)] by blast
  then show ?thesis
    using admission_begin_held [of "run_ops exec cs r'" conv' msg'] by (simp add: assms(3))
qed

lemma completed_refused:
  assumes "view r (inbound_idempotency_identity conv msg) = Some (completed, t)"
  shows "admission_begin exec token ch conv msg (run_ops exec cs r)
    = (if ch = cv_channel_instance_id conv then Inr None else Inl ValueError, run_ops exec cs r)"
  using completed_run [OF assms] by (rule admission_begin_held)

lemma deliver_means_fenced:
  assumes "admission_deliver exec conv msg (lease, r) = (Inr claimed, (lease', r'))"
  shows "view r (al_claim lease) = Some (in_flight, Some (al_owner_token lease))"
    and "r' = r" "al_state lease' = lease_transferred"
    and "ci_claim claimed = al_claim lease" "ci_owner_token claimed = al_owner_token lease"
  using assms refreshed [of "al_claim lease" "Some (al_owner_token lease)" r]
  by (auto simp: admission_deliver_def split: if_splits prod.splits sum.splits)

lemma deliver_only_once:
  assumes "admission_deliver exec conv msg (lease, r) = (Inr claimed, s)"
  shows "fst (admission_deliver exec conv' msg' s) = Inl RuntimeError"
    and "admission_release exec s = (Inr (), s)"
  using assms
  by (auto simp: admission_deliver_def admission_release_def
      split: if_splits prod.splits sum.splits)

end

section \<open>The in-memory repository is a claim ledger\<close>

lemmas claim_op_defs = claim_def complete_def mark_side_effect_started_def refresh_def release_def

lemma status_simps [simp]:
  "no_status (returns u s) = returns None s" "no_status (raises e s) = raises e s"
  "with_status (returns st s) = returns (Some st) s" "with_status (raises e s) = raises e s"
  by (simp_all add: no_status_def with_status_def returns_def raises_def)

lemma claim_exec_view:
  "claim_view (snd (claim_exec c r)) j =
     (if j \<noteq> op_claim c then claim_view r j
      else case c of
        Claim i t \<Rightarrow> (if claim_view r i = None \<and> int (length (ir_records r)) < ir_max_records r
                      then Some (in_flight, t) else claim_view r i)
      | Mark i t \<Rightarrow> (if claim_view r i = Some (in_flight, t)
                     then Some (side_effect_started, t) else claim_view r i)
      | Refresh i t \<Rightarrow> claim_view r i
      | Complete i t \<Rightarrow> (if map_option snd (claim_view r i) = Some t
                         then Some (completed, t) else claim_view r i)
      | Release i t \<Rightarrow> (if claim_view r i \<in> {Some (in_flight, t), Some (side_effect_started, t)}
                        then None else claim_view r i))"
  by (cases c) (auto simp: claim_op_defs split: option.splits prod.splits claim_phase.splits)

interpretation memory_claims: claim_ledger claim_exec claim_view
proof
  fix i t r
  assume "fst (claim_exec (Claim i t) r) = Inr (Some CLAIM_ACQUIRED)"
  then show "claim_view r i = None
      \<and> claim_view (snd (claim_exec (Claim i t) r)) i = Some (in_flight, t)"
    by (auto simp: claim_op_defs split: option.splits prod.splits claim_phase.splits if_splits)
next
  fix r i ph t u
  assume "claim_view r i = Some (ph, t)"
  then show "\<exists>st. claim_exec (Claim i u) r = (Inr st, r) \<and> st \<noteq> Some CLAIM_ACQUIRED"
    by (cases ph) (simp_all add: claim_def returns_def with_status_def)
next
  fix r i ph t c
  assume "claim_view r i = Some (ph, t)" and "c \<noteq> Release i t"
  then show "\<exists>ph'. claim_view (snd (claim_exec c r)) i = Some (ph', t)"
    unfolding claim_exec_view by (cases c) auto
next
  fix r i t c
  assume "claim_view r i = Some (completed, t)"
  then show "claim_view (snd (claim_exec c r)) i = Some (completed, t)"
    unfolding claim_exec_view by (cases c) auto
next
  fix i t r st
  assume "fst (claim_exec (Refresh i t) r) = Inr st"
  then show "claim_view r i = Some (in_flight, t) \<and> snd (claim_exec (Refresh i t) r) = r"
    by (auto simp: claim_op_defs split: if_splits)
next
  fix i t r st
  show "claim_view (snd (claim_exec (Release i t) r)) i \<noteq> Some (in_flight, t)"
    unfolding claim_exec_view by simp
qed

interpretation memory_claims_inv: op_system claim_exec claim_inv
proof
  fix r c
  assume "claim_inv r"
  then show "claim_inv (snd (claim_exec c r))"
    using length_dict_pop_le [of "op_claim c" "ir_records r"]
    by (cases c) (auto simp: claim_inv_def claim_op_defs length_dict_set_new length_dict_set_old
        simp del: length_dict_pop_le split: option.splits prod.splits claim_phase.splits)
qed

interpretation memory_claims_atomic: failure_atomic claim_exec
proof
  fix c r e
  assume "fst (claim_exec c r) = Inl e"
  then show "snd (claim_exec c r) = r"
    by (cases c)
      (auto simp: claim_op_defs split: option.splits prod.splits claim_phase.splits if_splits)
qed

section \<open>Claim identities\<close>

lemma prefix_sep_unique:
  "x \<notin> set as \<Longrightarrow> x \<notin> set cs \<Longrightarrow> as @ x # bs = cs @ x # ds \<longleftrightarrow> as = cs \<and> bs = ds"
proof (induction as arbitrary: cs)
  case Nil
  then show ?case by (cases cs) auto
next
  case (Cons a as)
  then show ?case by (cases cs) auto
qed

lemma append_sep_unique:
  assumes "x \<notin> set bs" and "x \<notin> set ds"
  shows "as @ x # bs = cs @ x # ds \<longleftrightarrow> as = cs \<and> bs = ds"
proof -
  have "as @ x # bs = cs @ x # ds \<longleftrightarrow> rev (as @ x # bs) = rev (cs @ x # ds)"
    by (simp only: rev_is_rev_conv)
  also have "\<dots> \<longleftrightarrow> rev bs @ x # rev as = rev ds @ x # rev cs"
    by simp
  also have "\<dots> \<longleftrightarrow> rev bs = rev ds \<and> rev as = rev cs"
    using assms by (intro prefix_sep_unique) simp_all
  finally show ?thesis by auto
qed

lemma inbound_identity_inj:
  assumes "CHR '':'' \<notin> set m" and "CHR '':'' \<notin> set m'"
  shows "inbound_idempotency_identity c m = inbound_idempotency_identity c' m' \<longleftrightarrow>
    c = c' \<and> m = m'"
  by (cases c; cases c')
    (simp add: inbound_idempotency_identity_def append_sep_unique [OF assms] conj_assoc)

section \<open>Properties\<close>

text \<open>
  C12: claims are exclusive. After a call acquired a claim, no call of any owner, in any
  interleaving of repository operations that does not contain the owner's own release, acquires
  the same claim.
\<close>

theorem claim_exclusive:
  assumes "fst (claim_exec (Claim i t) r) = Inr (Some CLAIM_ACQUIRED)"
    and "Release i t \<notin> set cs"
  shows "fst (claim_exec (Claim i u) (run_ops claim_exec cs (snd (claim_exec (Claim i t) r))))
    \<noteq> Inr (Some CLAIM_ACQUIRED)"
  using assms by (rule memory_claims.acquire_exclusive)

theorem claim_exclusive_witness:
  "fst (claim_exec (Claim (''inbound:tg'', ''42:m'') (Some ''b''))
     (run_ops claim_exec [Mark (''inbound:tg'', ''42:m'') (Some ''a''),
                          Release (''inbound:tg'', ''42:m'') (Some ''b'')]
       (snd (claim_exec (Claim (''inbound:tg'', ''42:m'') (Some ''a''))
          \<lparr>ir_max_records = 2, ir_records = []\<rparr>)))) \<noteq> Inr (Some CLAIM_ACQUIRED)"
  by (rule claim_exclusive) code_simp+

text \<open>
  The claim repository is bounded and a completed claim is final: along every interleaving the
  number of records stays within the configured maximum, and a claim that is completed stays
  completed under its owner.
\<close>

theorem claims_bounded_and_final:
  assumes "claim_inv r"
  shows "int (length (ir_records (run_ops claim_exec cs r))) \<le> ir_max_records (run_ops claim_exec cs r)
    \<and> (\<forall>i t. claim_view r i = Some (completed, t) \<longrightarrow>
         claim_view (run_ops claim_exec cs r) i = Some (completed, t))"
  using memory_claims_inv.run_inv [OF assms] memory_claims.completed_run by (auto simp: claim_inv_def)

theorem claims_bounded_and_final_witness:
  "int (length (ir_records (run_ops claim_exec [Claim (''s'', ''y'') None, Claim (''s'', ''z'') None]
       \<lparr>ir_max_records = 2, ir_records = [((''s'', ''x''), (completed, Some ''a''))]\<rparr>)))
     \<le> ir_max_records (run_ops claim_exec [Claim (''s'', ''y'') None, Claim (''s'', ''z'') None]
       \<lparr>ir_max_records = 2, ir_records = [((''s'', ''x''), (completed, Some ''a''))]\<rparr>)
   \<and> claim_view (run_ops claim_exec [Claim (''s'', ''y'') None, Claim (''s'', ''z'') None]
       \<lparr>ir_max_records = 2, ir_records = [((''s'', ''x''), (completed, Some ''a''))]\<rparr>) (''s'', ''x'')
       = Some (completed, Some ''a'')"
  using claims_bounded_and_final [of "\<lparr>ir_max_records = 2, ir_records = [((''s'', ''x''), (completed, Some ''a''))]\<rparr>"
      "[Claim (''s'', ''y'') None, Claim (''s'', ''z'') None]"]
  by (simp add: claim_inv_def del: run_ops.simps)

text \<open>
  C13: an inbound message is admitted once. After a \<open>begin\<close> that returned a lease and any
  interleaving of repository operations without the owner's own release (so also after its claim
  was marked as started or completed), every other \<open>begin\<close> for the message returns no lease and
  changes nothing; once the claim is completed this holds for ever, whatever is released. A
  delivery through the lease succeeds only while the repository records the claim in flight for
  it, moves the lease to its transferred state, and cannot be repeated.
\<close>

theorem inbound_admitted_once:
  assumes first: "admission_begin claim_exec token ch conv msg r = (Inr (Some lease), r')"
    and kept: "Release (inbound_idempotency_identity conv msg) (Some token) \<notin> set cs"
  shows "admission_begin claim_exec token' ch' conv msg (run_ops claim_exec cs r')
           = (if ch' = cv_channel_instance_id conv then Inr None else Inl ValueError, run_ops claim_exec cs r')
    \<and> (claim_view (run_ops claim_exec cs r') (al_claim lease) = Some (completed, Some token) \<longrightarrow>
         admission_begin claim_exec token' ch' conv msg (run_ops claim_exec ds (run_ops claim_exec cs r'))
           = (if ch' = cv_channel_instance_id conv then Inr None else Inl ValueError,
              run_ops claim_exec ds (run_ops claim_exec cs r')))
    \<and> (admission_deliver claim_exec conv msg (lease, run_ops claim_exec cs r') = (Inr claimed, (lease', r'')) \<longrightarrow>
         claim_view (run_ops claim_exec cs r') (al_claim lease) = Some (in_flight, Some token)
         \<and> al_state lease' = lease_transferred \<and> ci_claim claimed = inbound_idempotency_identity conv msg
         \<and> ci_owner_token claimed = token
         \<and> fst (admission_deliver claim_exec conv' msg' (lease', r'')) = Inl RuntimeError)"
  using memory_claims.same_identity_refused [OF first kept refl] memory_claims.admission_begin_Some [OF first]
    memory_claims.completed_refused [of "run_ops claim_exec cs r'" conv msg "Some token"]
    memory_claims.deliver_means_fenced [of conv msg lease "run_ops claim_exec cs r'" claimed lease' r'']
    memory_claims.deliver_only_once(1) [of conv msg lease "run_ops claim_exec cs r'" claimed "(lease', r'')"]
  by simp

theorem inbound_admitted_once_witness:
  "let i = (''inbound:tg'', ''42:m'');
       r' = snd (admission_begin claim_exec ''a'' ''tg'' sample_conversation ''m'' \<lparr>ir_max_records = 2, ir_records = []\<rparr>);
       cs = [Refresh i (Some ''a''), Mark i (Some ''a''), Release i (Some ''b''), Complete i (Some ''a'')];
       ds = [Release i (Some ''a''), Release i (Some ''b'')];
       lease = \<lparr>al_conversation_ref = sample_conversation, al_message_id = ''m'', al_claim = i,
         al_owner_token = ''a'', al_state = lease_open\<rparr>
   in admission_begin claim_exec ''b'' ''tg'' sample_conversation ''m'' (run_ops claim_exec (take 2 cs) r')
        = (Inr None, run_ops claim_exec (take 2 cs) r')
    \<and> admission_begin claim_exec ''b'' ''tg'' sample_conversation ''m'' (run_ops claim_exec ds (run_ops claim_exec cs r'))
        = (Inr None, run_ops claim_exec ds (run_ops claim_exec cs r'))
    \<and> claim_view r' (al_claim lease) = Some (in_flight, Some ''a'')
    \<and> fst (admission_deliver claim_exec sample_conversation ''m''
        (snd (admission_deliver claim_exec sample_conversation ''m'' (lease, r')))) = Inl RuntimeError"
proof -
  let ?r = "\<lparr>ir_max_records = 2, ir_records = []\<rparr>" and ?i = "(''inbound:tg'', ''42:m'')"
  let ?lease = "\<lparr>al_conversation_ref = sample_conversation, al_message_id = ''m'', al_claim = ?i,
    al_owner_token = ''a'', al_state = lease_open\<rparr>"
  let ?r' = "snd (admission_begin claim_exec ''a'' ''tg'' sample_conversation ''m'' ?r)"
  let ?cs = "[Refresh ?i (Some ''a''), Mark ?i (Some ''a''), Release ?i (Some ''b''), Complete ?i (Some ''a'')]"
  have first: "admission_begin claim_exec ''a'' ''tg'' sample_conversation ''m'' ?r = (Inr (Some ?lease), ?r')"
    by code_simp
  have identity: "inbound_idempotency_identity sample_conversation ''m'' = ?i"
    "cv_channel_instance_id sample_conversation = ''tg''" by code_simp+
  have settled: "claim_view (run_ops claim_exec ?cs ?r') (al_claim ?lease) = Some (completed, Some ''a'')"
    by code_simp
  have delivered: "admission_deliver claim_exec sample_conversation ''m'' (?lease, run_ops claim_exec [] ?r')
      = (Inr \<lparr>ci_conversation_ref = sample_conversation, ci_message_id = ''m'', ci_claim = ?i,
          ci_owner_token = ''a''\<rparr>, (?lease\<lparr>al_state := lease_transferred\<rparr>, ?r'))"
    by code_simp
  show ?thesis
    unfolding Let_def
    using inbound_admitted_once [OF first, of "take 2 ?cs" "''b''" "''tg''"]
      inbound_admitted_once [OF first, of ?cs "''b''" "''tg''" "[Release ?i (Some ''a''), Release ?i (Some ''b'')]"] settled
      inbound_admitted_once [OF first, of "[]"] delivered
    by (simp add: identity del: run_ops.simps(2))
qed

text \<open>
  C34: a message can be dropped as the duplicate of a different one. The claim identity joins the
  native conversation identifier and the message identifier by a colon without escaping, so once
  the message \<open>m\<close> of the conversation \<open>a:b\<close> is admitted, the message \<open>b:m\<close> of the conversation
  \<open>a\<close> of the same channel gets no lease and no error, as a duplicate does, until the first
  admission is released; the two are different messages.
\<close>

theorem colliding_message_dropped:
  assumes first: "admission_begin claim_exec token ch
      \<lparr>cv_channel_instance_id = ch, cv_native_conversation_id = a @ '':'' @ b\<rparr> m r = (Inr (Some lease), r')"
    and kept: "Release (al_claim lease) (Some token) \<notin> set cs"
  shows "admission_begin claim_exec token' ch
      \<lparr>cv_channel_instance_id = ch, cv_native_conversation_id = a\<rparr> (b @ '':'' @ m) (run_ops claim_exec cs r')
        = (Inr None, run_ops claim_exec cs r')
    \<and> a @ '':'' @ b \<noteq> a \<and> b @ '':'' @ m \<noteq> m"
proof -
  have "inbound_idempotency_identity \<lparr>cv_channel_instance_id = ch, cv_native_conversation_id = a\<rparr> (b @ '':'' @ m)
      = inbound_idempotency_identity \<lparr>cv_channel_instance_id = ch, cv_native_conversation_id = a @ '':'' @ b\<rparr> m"
    by (simp add: inbound_idempotency_identity_def)
  from memory_claims.same_identity_refused [OF first _ this, of cs token' ch] kept
  show ?thesis by (simp add: memory_claims.admission_begin_Some(2) [OF first])
qed

theorem colliding_message_dropped_witness:
  "let topic = \<lparr>cv_channel_instance_id = ''tg'', cv_native_conversation_id = ''42:7''\<rparr>;
       chat = \<lparr>cv_channel_instance_id = ''tg'', cv_native_conversation_id = ''42''\<rparr>;
       r' = snd (admission_begin claim_exec ''a'' ''tg'' topic ''m'' \<lparr>ir_max_records = 2, ir_records = []\<rparr>)
   in validate_conversation_ref topic = None \<and> validate_conversation_ref chat = None
    \<and> require_identifier ''m'' = None \<and> require_identifier ''7:m'' = None
    \<and> admission_begin claim_exec ''b'' ''tg'' chat ''7:m'' (run_ops claim_exec [] r')
        = (Inr None, run_ops claim_exec [] r')"
proof -
  let ?topic = "\<lparr>cv_channel_instance_id = ''tg'', cv_native_conversation_id = ''42:7''\<rparr>"
  let ?r = "\<lparr>ir_max_records = 2, ir_records = []\<rparr>"
  have first: "admission_begin claim_exec ''a'' ''tg''
      \<lparr>cv_channel_instance_id = ''tg'', cv_native_conversation_id = ''42'' @ '':'' @ ''7''\<rparr> ''m'' ?r
    = (Inr (Some \<lparr>al_conversation_ref = ?topic, al_message_id = ''m'', al_claim = (''inbound:tg'', ''42:7:m''),
          al_owner_token = ''a'', al_state = lease_open\<rparr>),
       snd (admission_begin claim_exec ''a'' ''tg'' ?topic ''m'' ?r))"
    by code_simp
  have valid: "validate_conversation_ref ?topic = None"
    "validate_conversation_ref \<lparr>cv_channel_instance_id = ''tg'', cv_native_conversation_id = ''42''\<rparr> = None"
    "require_identifier ''m'' = None" "require_identifier ''7:m'' = None"
    by code_simp+
  show ?thesis
    unfolding Let_def
    using colliding_message_dropped [OF first, of "[]" "''b''"] by (simp add: valid del: run_ops.simps)
qed

end
