(* ===== verification/Bindings.thy ===== *)
theory Bindings
  imports Samples
begin

text \<open>
  Conversation bindings: the in-memory repository with optimistic generation checks
  (\<open>gateway/persistence/memory.py\<close>) and the binding runtime that is its only client
  (\<open>gateway/routing/bindings.py\<close>). The locale \<open>versioned_bindings\<close> is the part of the
  \<open>BindingRepository\<close> protocol the runtime relies on.
\<close>

section \<open>The in-memory repository\<close>

record binding_repository =
  bd_bindings :: "(conversation_ref, conversation_binding) dict"
  bd_floors :: "(conversation_ref, int) dict"

definition empty_bindings :: binding_repository where
  "empty_bindings = \<lparr>bd_bindings = [], bd_floors = []\<rparr>"

text \<open>\<open>max(current.generation if current is not None else 0, floors.get(conversation, 0))\<close>.\<close>

definition generation_from_maps ::
  "conversation_ref \<Rightarrow> (conversation_ref, conversation_binding) dict \<Rightarrow>
   (conversation_ref, int) dict \<Rightarrow> int" where
  "generation_from_maps conversation_ref bindings floors =
     max (case dict_get bindings conversation_ref of None \<Rightarrow> 0 | Some b \<Rightarrow> cb_generation b)
         (case dict_get floors conversation_ref of None \<Rightarrow> 0 | Some g \<Rightarrow> g)"

abbreviation current_generation :: "conversation_ref \<Rightarrow> binding_repository \<Rightarrow> int" where
  "current_generation c r \<equiv> generation_from_maps c (bd_bindings r) (bd_floors r)"

definition binding_get :: "conversation_ref \<Rightarrow> binding_repository \<Rightarrow> conversation_binding option" where
  "binding_get conversation r = dict_get (bd_bindings r) conversation"

text \<open>\<open>now\<close> is the reading of \<open>datetime.now(UTC)\<close> taken by the call.\<close>

definition binding_put :: "datetime \<Rightarrow> conversation_binding \<Rightarrow> int option \<Rightarrow> binding_repository \<Rightarrow>
    (binding_repository, conversation_binding) outcome" where
  "binding_put now binding expected_generation r =
     guarded (first_error [
       validate_binding binding,
       on_some validate_generation expected_generation]) r
     (let conversation = cb_conversation_ref binding;
          current = current_generation conversation r
      in if expected_generation \<noteq> None \<and> expected_generation \<noteq> Some current
         then raises BindingConflict r
         else let stored = \<lparr>
                cb_conversation_ref = conversation,
                cb_application_ref = cb_application_ref binding,
                cb_project_ref = cb_project_ref binding,
                cb_thread_ref = cb_thread_ref binding,
                cb_generation = current + 1,
                cb_updated_at = Some now\<rparr>
              in returns stored (r\<lparr>
                bd_bindings := dict_set (bd_bindings r) conversation stored,
                bd_floors := dict_set (bd_floors r) conversation (cb_generation stored)\<rparr>))"

definition binding_delete :: "conversation_ref \<Rightarrow> int option \<Rightarrow> binding_repository \<Rightarrow>
    (binding_repository, unit) outcome" where
  "binding_delete conversation expected_generation r =
     guarded (on_some validate_generation expected_generation) r
     (let current = current_generation conversation r
      in if expected_generation \<noteq> None \<and> expected_generation \<noteq> Some current
         then raises BindingConflict r
         else returns () (r\<lparr>
           bd_bindings := dict_pop (bd_bindings r) conversation,
           bd_floors := dict_set (bd_floors r) conversation (current + 1)\<rparr>))"

datatype binding_op =
    PutBinding datetime conversation_binding "int option"
  | DeleteBinding conversation_ref "int option"

fun binding_exec :: "binding_op \<Rightarrow> binding_repository \<Rightarrow>
    (binding_repository, conversation_binding option) outcome" where
  "binding_exec (PutBinding now b eg) r =
     (case binding_put now b eg r of (res, r') \<Rightarrow> (map_sum id Some res, r'))"
| "binding_exec (DeleteBinding c eg) r =
     (case binding_delete c eg r of (res, r') \<Rightarrow> (map_sum id (\<lambda>_. None) res, r'))"

text \<open>
  The invariant: keys are unique, every stored binding sits under its own Conversation, is
  valid, and carries the generation recorded as that Conversation's floor.
\<close>

definition binding_inv :: "binding_repository \<Rightarrow> bool" where
  "binding_inv r \<longleftrightarrow>
     dict_ok (bd_bindings r) \<and> dict_ok (bd_floors r)
     \<and> (\<forall>c g. dict_get (bd_floors r) c = Some g \<longrightarrow> 0 \<le> g)
     \<and> (\<forall>c b. dict_get (bd_bindings r) c = Some b \<longrightarrow>
           cb_conversation_ref b = c \<and> validate_binding b = None
           \<and> dict_get (bd_floors r) c = Some (cb_generation b))"

definition generations_le :: "binding_repository \<Rightarrow> binding_repository \<Rightarrow> bool" where
  "generations_le r r' \<longleftrightarrow> (\<forall>c. current_generation c r \<le> current_generation c r')"

section \<open>The binding runtime\<close>

record binding_change =
  bc_previous :: "conversation_binding option"
  bc_binding :: conversation_binding

record prepared_thread_binding =
  pb_previous :: "conversation_binding option"
  pb_desired :: conversation_binding
  pb_expected_generation :: "int option"
  pb_converge_without_write :: bool

text \<open>
  The runtime is written against a repository: its operations take the repository's \<open>get\<close> and
  \<open>put\<close> (the latter with its clock reading) as parameters.
\<close>

type_synonym 'r binding_reader = "conversation_ref \<Rightarrow> 'r \<Rightarrow> conversation_binding option"
type_synonym 'r binding_writer =
  "conversation_binding \<Rightarrow> int option \<Rightarrow> 'r \<Rightarrow> ('r, conversation_binding) outcome"

definition new_binding ::
  "conversation_ref \<Rightarrow> application_ref option \<Rightarrow> project_ref option \<Rightarrow> thread_ref option \<Rightarrow>
   conversation_binding" where
  "new_binding conversation application project thread = \<lparr>
     cb_conversation_ref = conversation, cb_application_ref = application,
     cb_project_ref = project, cb_thread_ref = thread,
     cb_generation = 0, cb_updated_at = None\<rparr>"

definition has_same_target :: "conversation_binding option \<Rightarrow> conversation_binding \<Rightarrow> bool" where
  "has_same_target current desired =
     (case current of
        None \<Rightarrow> False
      | Some b \<Rightarrow> cb_application_ref b = cb_application_ref desired
               \<and> cb_project_ref b = cb_project_ref desired
               \<and> cb_thread_ref b = cb_thread_ref desired)"

definition replace_binding ::
  "'r binding_reader \<Rightarrow> 'r binding_writer \<Rightarrow> conversation_binding \<Rightarrow> int option \<Rightarrow> 'r \<Rightarrow>
   ('r, binding_change) outcome" where
  "replace_binding get put desired expected_generation r =
     (let previous = get (cb_conversation_ref desired) r
      in case put desired expected_generation r of
           (Inl e, r') \<Rightarrow> raises e r'
         | (Inr binding, r') \<Rightarrow> returns \<lparr>bc_previous = previous, bc_binding = binding\<rparr> r')"

definition select_application ::
  "'r binding_reader \<Rightarrow> 'r binding_writer \<Rightarrow> conversation_ref \<Rightarrow> application_ref \<Rightarrow> int option \<Rightarrow>
   'r \<Rightarrow> ('r, binding_change) outcome" where
  "select_application get put conversation application expected_generation =
     replace_binding get put (new_binding conversation (Some application) None None)
       expected_generation"

definition bind_project ::
  "'r binding_reader \<Rightarrow> 'r binding_writer \<Rightarrow> conversation_ref \<Rightarrow> application_ref \<Rightarrow> project_ref \<Rightarrow>
   int option \<Rightarrow> 'r \<Rightarrow> ('r, binding_change) outcome" where
  "bind_project get put conversation application project expected_generation =
     replace_binding get put (new_binding conversation (Some application) (Some project) None)
       expected_generation"

definition prepare_thread_binding ::
  "'r binding_reader \<Rightarrow> conversation_ref \<Rightarrow> application_ref \<Rightarrow> thread_ref \<Rightarrow> int option \<Rightarrow> bool \<Rightarrow>
   'r \<Rightarrow> prepared_thread_binding res" where
  "prepare_thread_binding get conversation application thread expected_generation
       converge_same_target r =
     (let previous = get conversation r;
          desired = new_binding conversation (Some application) (Some (th_project_ref thread))
            (Some thread);
          converge = (converge_same_target \<and> has_same_target previous desired);
          stale = (case previous of
                     None \<Rightarrow> False
                   | Some p \<Rightarrow> expected_generation
                       \<notin> {None, Some (cb_generation p), Some (cb_generation p - 1)})
      in if converge \<and> stale then Inl BindingConflict
         else Inr \<lparr>
           pb_previous = previous, pb_desired = desired,
           pb_expected_generation = expected_generation,
           pb_converge_without_write = converge\<rparr>)"

definition commit_thread_binding ::
  "'r binding_writer \<Rightarrow> prepared_thread_binding \<Rightarrow> 'r \<Rightarrow> ('r, binding_change) outcome" where
  "commit_thread_binding put prepared r =
     (if pb_converge_without_write prepared
      then case pb_previous prepared of
             None \<Rightarrow> raises RuntimeError r
           | Some previous \<Rightarrow>
               returns \<lparr>bc_previous = Some previous, bc_binding = previous\<rparr> r
      else case put (pb_desired prepared) (pb_expected_generation prepared) r of
             (Inl e, r') \<Rightarrow> raises e r'
           | (Inr binding, r') \<Rightarrow>
               returns \<lparr>bc_previous = pb_previous prepared, bc_binding = binding\<rparr> r')"

text \<open>The read of the verification step may itself fail; uncertainty counts as committed.\<close>

definition binding_write_may_have_committed ::
  "conversation_binding option res \<Rightarrow> prepared_thread_binding \<Rightarrow> bool" where
  "binding_write_may_have_committed read prepared =
     (case read of
        Inl _ \<Rightarrow> True
      | Inr current \<Rightarrow> has_same_target current (pb_desired prepared))"

definition clear_thread ::
  "'r binding_reader \<Rightarrow> 'r binding_writer \<Rightarrow> conversation_ref \<Rightarrow> int option \<Rightarrow> 'r \<Rightarrow>
   ('r, binding_change) outcome" where
  "clear_thread get put conversation expected_generation r =
     (case get conversation r of
        None \<Rightarrow> raises ValueError r
      | Some current \<Rightarrow>
          (case put (new_binding (cb_conversation_ref current) (cb_application_ref current)
                       (cb_project_ref current) None) expected_generation r of
             (Inl e, r') \<Rightarrow> raises e r'
           | (Inr binding, r') \<Rightarrow>
               returns \<lparr>bc_previous = Some current, bc_binding = binding\<rparr> r'))"

section \<open>The contract of a versioned binding store\<close>

locale versioned_bindings =
  fixes get :: "'r binding_reader"
    and put :: "'r binding_writer"
    and gen :: "conversation_ref \<Rightarrow> 'r \<Rightarrow> int"
  assumes put_success: "put b eg r = (Inr stored, r') \<Longrightarrow>
      has_same_target (Some stored) b
      \<and> cb_conversation_ref stored = cb_conversation_ref b
      \<and> cb_generation stored = gen (cb_conversation_ref b) r + 1
      \<and> (\<forall>c. get c r' = (if c = cb_conversation_ref b then Some stored else get c r))
      \<and> (\<forall>c. gen c r' = (if c = cb_conversation_ref b then gen c r + 1 else gen c r))"
    and put_enabled: "validate_binding b = None \<Longrightarrow> 0 \<le> gen (cb_conversation_ref b) r \<Longrightarrow>
      eg = None \<or> eg = Some (gen (cb_conversation_ref b) r) \<Longrightarrow> \<exists>stored r'. put b eg r = (Inr stored, r')"
    and put_stale: "validate_binding b = None \<Longrightarrow> eg = Some g \<Longrightarrow> 0 \<le> g \<Longrightarrow>
      g \<noteq> gen (cb_conversation_ref b) r \<Longrightarrow> put b eg r = (Inl BindingConflict, r)"
begin

text \<open>Two writers that observed the same generation: the one that comes second loses.\<close>

lemma second_writer_conflicts:
  assumes "put b (Some g) r = (Inr stored, r')" and "gen (cb_conversation_ref b) r = g" and "0 \<le> g"
    and "validate_binding b' = None" and "cb_conversation_ref b' = cb_conversation_ref b"
  shows "put b' (Some g) r' = (Inl BindingConflict, r')"
  using put_success [OF assms(1)] assms by (intro put_stale) auto

lemma replace_then_get:
  assumes "replace_binding get put desired eg r = (Inr change, r')"
  shows "get (cb_conversation_ref desired) r' = Some (bc_binding change)"
    and "has_same_target (Some (bc_binding change)) desired"
    and "bc_previous change = get (cb_conversation_ref desired) r"
    and "cb_generation (bc_binding change) = gen (cb_conversation_ref desired) r + 1"
  using assms put_success [of desired eg r]
  by (auto simp: replace_binding_def split: prod.splits sum.splits)

text \<open>
  A retried thread bind: preparing again after a committed bind converges without a second
  write, and reports the binding that the first attempt stored.
\<close>

lemma bind_retry_converges:
  assumes first: "prepare_thread_binding get c a t eg True r = Inr p"
      "pb_converge_without_write p = False"
      "commit_thread_binding put p r = (Inr change, r')"
    and eg: "eg = None \<or> eg = Some (gen c r)"
  shows "\<exists>p'. prepare_thread_binding get c a t eg True r' = Inr p'
    \<and> commit_thread_binding put p' r'
        = (Inr \<lparr>bc_previous = Some (bc_binding change), bc_binding = bc_binding change\<rparr>, r')"
proof -
  have des: "pb_desired p = new_binding c (Some a) (Some (th_project_ref t)) (Some t)"
    using first(1) by (auto simp: prepare_thread_binding_def Let_def split: if_splits)
  obtain stored where stored: "put (pb_desired p) (pb_expected_generation p) r = (Inr stored, r')"
      "bc_binding change = stored"
    using first(2,3) by (auto simp: commit_thread_binding_def split: prod.splits sum.splits)
  note ok = put_success [OF stored(1)]
  have "get c r' = Some stored" "has_same_target (Some stored) (pb_desired p)"
      "cb_generation stored = gen c r + 1"
    using ok by (auto simp: des new_binding_def)
  then show ?thesis
    using eg stored(2) by (auto simp: prepare_thread_binding_def commit_thread_binding_def des)
qed

end

section \<open>The in-memory repository implements the contract\<close>

lemmas binding_op_defs = binding_put_def binding_delete_def binding_get_def generation_from_maps_def

lemma generation_nonneg: "binding_inv r \<Longrightarrow> 0 \<le> current_generation c r"
  by (auto simp: binding_inv_def generation_from_maps_def split: option.splits)

lemma generation_after_put:
  "binding_put now b eg r = (Inr stored, r') \<Longrightarrow>
   current_generation c r' =
     (if c = cb_conversation_ref b then current_generation c r + 1 else current_generation c r)"
  by (auto simp: binding_op_defs guarded_Inr Let_def split: if_splits)

lemma generation_after_delete:
  "binding_delete c' eg r = (Inr u, r') \<Longrightarrow> 0 \<le> current_generation c r \<Longrightarrow>
   current_generation c r' =
     (if c = c' then current_generation c r + 1 else current_generation c r)"
  by (auto simp: binding_op_defs guarded_Inr Let_def split: if_splits option.splits)

interpretation memory_bindings:
  versioned_bindings binding_get "binding_put now" current_generation for now
proof
  fix b eg r stored r'
  assume put: "binding_put now b eg r = (Inr stored, r')"
  then show "has_same_target (Some stored) b
      \<and> cb_conversation_ref stored = cb_conversation_ref b
      \<and> cb_generation stored = current_generation (cb_conversation_ref b) r + 1
      \<and> (\<forall>c. binding_get c r' = (if c = cb_conversation_ref b then Some stored else binding_get c r))
      \<and> (\<forall>c. current_generation c r' =
            (if c = cb_conversation_ref b then current_generation c r + 1
             else current_generation c r))"
    unfolding generation_after_put [OF put]
    by (auto simp: binding_put_def binding_get_def guarded_Inr Let_def has_same_target_def
        split: if_splits)
next
  fix b eg r
  assume "validate_binding b = None" and "0 \<le> current_generation (cb_conversation_ref b) r"
    and "eg = None \<or> eg = Some (current_generation (cb_conversation_ref b) r)"
  then show "\<exists>stored r'. binding_put now b eg r = (Inr stored, r')"
    by (auto simp: binding_put_def Let_def guarded_Inr)
next
  fix b eg g r
  assume "validate_binding b = None" and "eg = Some g" and "0 \<le> g"
    and "g \<noteq> current_generation (cb_conversation_ref b) r"
  then show "binding_put now b eg r = (Inl BindingConflict, r)"
    by (simp add: binding_put_def Let_def validate_generation_def)
qed

lemma binding_exec_rolls_back: "rolls_back r (binding_exec c r)"
  by (cases c)
    (simp_all only: binding_exec.simps binding_put_def binding_delete_def, (intro rolls_back_intros)+)

interpretation memory_bindings_atomic: failure_atomic binding_exec
  by unfold_locales (rule rolls_backD [OF binding_exec_rolls_back])

lemma binding_put_inv:
  assumes inv: "binding_inv r" and put: "binding_put now b eg r = (Inr stored, r')"
  shows "binding_inv r'"
proof -
  let ?c = "cb_conversation_ref b"
  have valid: "validate_binding b = None" and
    stored: "stored = b\<lparr>cb_generation := current_generation ?c r + 1, cb_updated_at := Some now\<rparr>" and
    r': "r' = r\<lparr>bd_bindings := dict_set (bd_bindings r) ?c stored,
             bd_floors := dict_set (bd_floors r) ?c (cb_generation stored)\<rparr>"
    using put by (auto simp: binding_put_def Let_def guarded_Inr split: if_splits)
  have "0 \<le> current_generation ?c r + 1" using generation_nonneg [OF inv, of ?c] by simp
  then have "validate_binding stored = None" "0 \<le> cb_generation stored"
    unfolding stored by (simp_all add: validate_binding_stamp valid)
  with inv show ?thesis by (auto simp: binding_inv_def r' stored)
qed

lemma binding_delete_inv:
  assumes "binding_inv r" and "binding_delete c eg r = (Inr u, r')"
  shows "binding_inv r'"
  using assms generation_nonneg [OF assms(1), of c]
  by (auto simp: binding_delete_def Let_def guarded_Inr binding_inv_def split: if_splits)

lemma binding_exec_cases:
  obtains (failed) "snd (binding_exec c r) = r"
  | (put) now b eg stored where "c = PutBinding now b eg"
      "binding_put now b eg r = (Inr stored, snd (binding_exec c r))"
  | (deleted) d eg u where "c = DeleteBinding d eg"
      "binding_delete d eg r = (Inr u, snd (binding_exec c r))"
proof (cases "fst (binding_exec c r)")
  case (Inl e)
  then show thesis using that(1) memory_bindings_atomic.fail_frame by blast
next
  case (Inr v)
  then show thesis
    using that(2,3) by (cases c) (auto split: prod.splits)
qed

interpretation memory_bindings_inv: op_system binding_exec binding_inv
proof
  fix r c
  assume "binding_inv r"
  then show "binding_inv (snd (binding_exec c r))"
    by (cases rule: binding_exec_cases [of c r]) (auto intro: binding_put_inv binding_delete_inv)
qed

interpretation memory_bindings_mono: monotone_ops binding_exec binding_inv "\<lambda>_. True" generations_le
proof
  fix r c
  assume inv: "binding_inv r"
  show "generations_le r (snd (binding_exec c r))"
    by (cases rule: binding_exec_cases [of c r])
      (auto simp: generations_le_def generation_after_put generation_after_delete
        generation_nonneg [OF inv])
qed (auto simp: generations_le_def intro: order_trans)

text \<open>
  A generation that a caller read before any write to its Conversation is never current again:
  neither later writes nor deletions bring it back.
\<close>

lemma generation_after_success:
  assumes inv: "binding_inv r"
    and ok: "fst (binding_exec c r) = Inr v"
    and conv: "(case c of PutBinding now b eg \<Rightarrow> cb_conversation_ref b | DeleteBinding d eg \<Rightarrow> d) = d"
  shows "current_generation d (snd (binding_exec c r)) = current_generation d r + 1"
  using ok conv generation_nonneg [OF inv, of d]
  by (cases c) (auto split: prod.splits simp: generation_after_put generation_after_delete)

lemma stale_generation_never_current:
  assumes inv: "binding_inv r"
    and ok: "fst (binding_exec c r) = Inr v"
    and conv: "(case c of PutBinding now b eg \<Rightarrow> cb_conversation_ref b | DeleteBinding d eg \<Rightarrow> d) = d"
    and old: "g \<le> current_generation d r"
  shows "g < current_generation d (run_ops binding_exec (c # cs) r)"
proof -
  have "generations_le (snd (binding_exec c r)) (run_ops binding_exec cs (snd (binding_exec c r)))"
    using memory_bindings_inv.exec_inv [OF inv] by (intro memory_bindings_mono.run_le) auto
  then show ?thesis
    using generation_after_success [OF inv ok conv] old
    by (auto simp: generations_le_def dest: spec [of _ d])
qed

lemma delete_stale:
  "0 \<le> g \<Longrightarrow> g \<noteq> current_generation d r \<Longrightarrow> binding_delete d (Some g) r = (Inl BindingConflict, r)"
  by (simp add: binding_delete_def Let_def guarded_def validate_generation_def raises_def)

section \<open>Properties\<close>

text \<open>
  C14: binding generations never come back. A generation that a caller observed before a successful
  write or deletion of the same conversation is smaller than the current generation after that
  write and after every further interleaving, so neither a write nor a deletion that expects it can
  ever succeed again: both raise the conflict and leave the repository as it was.
\<close>

theorem observed_generation_expires:
  assumes "binding_inv r" and "fst (binding_exec c r) = Inr v"
    and "(case c of PutBinding now b eg \<Rightarrow> cb_conversation_ref b | DeleteBinding d eg \<Rightarrow> d) = d"
    and "g \<le> current_generation d r" and "0 \<le> g"
    and "validate_binding b' = None" and "cb_conversation_ref b' = d"
  shows "binding_put now' b' (Some g) (run_ops binding_exec (c # cs) r)
    = (Inl BindingConflict, run_ops binding_exec (c # cs) r)
    \<and> binding_delete d (Some g) (run_ops binding_exec (c # cs) r)
    = (Inl BindingConflict, run_ops binding_exec (c # cs) r)"
  using stale_generation_never_current [OF assms(1-4), of cs] assms(5-7)
  by (intro conjI memory_bindings.put_stale [where g = g] delete_stale) auto

theorem observed_generation_expires_witness:
  "binding_put (utc 3) sample_binding (Some 0)
     (run_ops binding_exec [PutBinding (utc 1) sample_binding (Some 0), DeleteBinding sample_conversation None]
        empty_bindings)
   = (Inl BindingConflict,
      run_ops binding_exec [PutBinding (utc 1) sample_binding (Some 0), DeleteBinding sample_conversation None]
        empty_bindings)
   \<and> binding_delete sample_conversation (Some 0)
     (run_ops binding_exec [PutBinding (utc 1) sample_binding (Some 0), DeleteBinding sample_conversation None]
        empty_bindings)
   = (Inl BindingConflict,
      run_ops binding_exec [PutBinding (utc 1) sample_binding (Some 0), DeleteBinding sample_conversation None]
        empty_bindings)"
  by (rule observed_generation_expires [where d = sample_conversation
        and v = "Some (sample_binding\<lparr>cb_generation := 1, cb_updated_at := Some (utc 1)\<rparr>)"])
    (simp add: binding_inv_def empty_bindings_def | code_simp)+

text \<open>
  A successful \<open>put\<close> stores exactly the requested target with the next generation, visible to the
  next \<open>get\<close>, and leaves every other conversation alone; a second writer that observed the same
  generation is refused and changes nothing.
\<close>

theorem put_then_get_and_conflict:
  assumes "binding_put now b (Some g) r = (Inr stored, r')" and "binding_inv r"
    and "validate_binding b' = None" and "cb_conversation_ref b' = cb_conversation_ref b"
  shows "binding_get (cb_conversation_ref b) r' = Some stored
    \<and> has_same_target (Some stored) b \<and> cb_generation stored = g + 1
    \<and> (\<forall>c. c \<noteq> cb_conversation_ref b \<longrightarrow> binding_get c r' = binding_get c r)
    \<and> binding_put now' b' (Some g) r' = (Inl BindingConflict, r')"
proof -
  have g: "current_generation (cb_conversation_ref b) r = g"
    using assms(1) by (auto simp: binding_put_def Let_def outcome_simps split: if_splits)
  then have "0 \<le> g" using generation_nonneg [OF assms(2)] by blast
  then show ?thesis
    using memory_bindings.put_success [OF assms(1)] g
      memory_bindings.put_stale [of b' "Some g" g r' now'] assms(3,4)
    by auto
qed

theorem put_then_get_and_conflict_witness:
  "let r' = snd (binding_put (utc 1) sample_binding (Some 0) empty_bindings);
       stored = sample_binding\<lparr>cb_generation := 1, cb_updated_at := Some (utc 1)\<rparr>
   in binding_get (cb_conversation_ref sample_binding) r' = Some stored
    \<and> has_same_target (Some stored) sample_binding \<and> cb_generation stored = 0 + 1
    \<and> (\<forall>c. c \<noteq> cb_conversation_ref sample_binding \<longrightarrow> binding_get c r' = binding_get c empty_bindings)
    \<and> binding_put (utc 2) sample_binding (Some 0) r' = (Inl BindingConflict, r')"
  unfolding Let_def
  by (rule put_then_get_and_conflict [where now = "utc 1"])
    (simp add: binding_inv_def empty_bindings_def | code_simp)+

text \<open>
  A retried thread bind converges. When a bind was committed and the caller retries it with the
  generation it had observed, preparation recognises the stored target, and the commit returns the
  stored binding without a second write.
\<close>

theorem thread_bind_retry_converges:
  assumes "prepare_thread_binding binding_get c a t eg True r = Inr p"
    and "pb_converge_without_write p = False"
    and "commit_thread_binding (binding_put now) p r = (Inr change, r')"
    and "eg = None \<or> eg = Some (current_generation c r)"
  shows "\<exists>p'. prepare_thread_binding binding_get c a t eg True r' = Inr p'
    \<and> commit_thread_binding (binding_put now) p' r'
        = (Inr \<lparr>bc_previous = Some (bc_binding change), bc_binding = bc_binding change\<rparr>, r')"
  using assms by (rule memory_bindings.bind_retry_converges)

theorem thread_bind_retry_converges_witness:
  "let p = \<lparr>pb_previous = None, pb_desired = sample_binding, pb_expected_generation = Some 0,
            pb_converge_without_write = False\<rparr>;
       stored = sample_binding\<lparr>cb_generation := 1, cb_updated_at := Some (utc 1)\<rparr>;
       r' = snd (commit_thread_binding (binding_put (utc 1)) p empty_bindings)
   in \<exists>p'. prepare_thread_binding binding_get sample_conversation sample_application sample_thread
             (Some 0) True r' = Inr p'
    \<and> commit_thread_binding (binding_put (utc 1)) p' r'
        = (Inr \<lparr>bc_previous = Some (bc_binding \<lparr>bc_previous = None, bc_binding = stored\<rparr>),
                bc_binding = bc_binding \<lparr>bc_previous = None, bc_binding = stored\<rparr>\<rparr>, r')"
  unfolding Let_def
  by (rule thread_bind_retry_converges [where r = empty_bindings
        and p = "\<lparr>pb_previous = None, pb_desired = sample_binding, pb_expected_generation = Some 0,
            pb_converge_without_write = False\<rparr>"]) code_simp+

end
