(* ===== verification/Json_Text.thy ===== *)
theory Json_Text
  imports Prelude
begin

text \<open>
  The text that \<open>json.dumps(value, ensure_ascii=False, separators=(",", ":"))\<close> produces for the
  values from which the Gateway derives identities, and the fact every derivation rests on:
  different values have different texts. A \<open>char\<close> stands for one character of a Python string;
  HOL's type has the first 256 code points, and the encoder passes every character beyond the
  control range, the quote and the backslash through unchanged.
\<close>

datatype json =
    JNull
  | JBool bool
  | JInt int
  | JStr string
  | JList "json list"
  | JDict "(string \<times> json) list"

section \<open>The encoder\<close>

definition hex_digits :: string where
  "hex_digits = ''0123456789abcdef''"

text \<open>\<open>json.encoder.ESCAPE_DCT\<close>: two-character escapes, \<open>\u00xx\<close> for other control characters.\<close>

definition json_escape_char :: "char \<Rightarrow> string" where
  "json_escape_char c = (let n = of_char c :: nat in
     if n = 34 then [CHR 0x5C, CHR 0x22]
     else if n = 92 then [CHR 0x5C, CHR 0x5C]
     else if n = 10 then [CHR 0x5C, CHR ''n'']
     else if n = 13 then [CHR 0x5C, CHR ''r'']
     else if n = 9 then [CHR 0x5C, CHR ''t'']
     else if n = 12 then [CHR 0x5C, CHR ''f'']
     else if n = 8 then [CHR 0x5C, CHR ''b'']
     else if n < 32 then
       [CHR 0x5C, CHR ''u'', CHR ''0'', CHR ''0'', hex_digits ! (n div 16), hex_digits ! (n mod 16)]
     else [c])"

definition json_string :: "string \<Rightarrow> string" where
  "json_string s = CHR 0x22 # concat (map json_escape_char s) @ [CHR 0x22]"

definition digit_char :: "nat \<Rightarrow> char" where
  "digit_char d = char_of (48 + d)"

fun decimal_nat :: "nat \<Rightarrow> string" where
  "decimal_nat n =
     (if n < 10 then [digit_char n] else decimal_nat (n div 10) @ [digit_char (n mod 10)])"

declare decimal_nat.simps [simp del]

definition decimal_int :: "int \<Rightarrow> string" where
  "decimal_int i = (if i < 0 then CHR ''-'' # decimal_nat (nat (- i)) else decimal_nat (nat i))"

fun comma_separated :: "string list \<Rightarrow> string" where
  "comma_separated [] = []"
| "comma_separated [x] = x"
| "comma_separated (x # y # ys) = x @ CHR '','' # comma_separated (y # ys)"

fun json_dumps :: "json \<Rightarrow> string" where
  "json_dumps JNull = ''null''"
| "json_dumps (JBool b) = (if b then ''true'' else ''false'')"
| "json_dumps (JInt i) = decimal_int i"
| "json_dumps (JStr s) = json_string s"
| "json_dumps (JList xs) = CHR ''['' # comma_separated (map json_dumps xs) @ '']''"
| "json_dumps (JDict kvs) =
     CHR ''{'' # comma_separated (map (\<lambda>(k, v). json_string k @ CHR '':'' # json_dumps v) kvs) @ ''}''"

section \<open>Strings\<close>

lemma of_char_inj: "(of_char c :: nat) = of_char d \<Longrightarrow> c = d"
  by (metis char_of_char)

text \<open>Reading one possibly escaped character back.\<close>

definition hex_value :: "char \<Rightarrow> nat" where
  "hex_value h = (if of_char h < (58::nat) then of_char h - 48 else of_char h - 87)"

lemma hex_value_digit: "i < 16 \<Longrightarrow> hex_value (hex_digits ! i) = i"
proof -
  have "list_all (\<lambda>i. hex_value (hex_digits ! i) = i) [0..<16]" by code_simp
  then show "i < 16 \<Longrightarrow> hex_value (hex_digits ! i) = i" by (simp add: list_all_iff)
qed

definition read_escape :: "char \<Rightarrow> string \<Rightarrow> char \<times> string" where
  "read_escape x r =
     (if x = CHR ''u'' then (char_of (16 * hex_value (r ! 2) + hex_value (r ! 3)), drop 4 r)
      else if x = CHR ''n'' then (CHR 0x0A, r)
      else if x = CHR ''r'' then (CHR 0x0D, r)
      else if x = CHR ''t'' then (CHR 0x09, r)
      else if x = CHR ''f'' then (CHR 0x0C, r)
      else if x = CHR ''b'' then (CHR 0x08, r)
      else (x, r))"

definition read_char :: "string \<Rightarrow> char \<times> string" where
  "read_char t = (if hd t = CHR 0x5C then read_escape (t ! 1) (drop 2 t) else (hd t, tl t))"

lemma read_json_escape_char: "read_char (json_escape_char c @ r) = (c, r)"
proof -
  let ?n = "of_char c :: nat"
  have hex: "16 * hex_value (hex_digits ! (?n div 16)) + hex_value (hex_digits ! (?n mod 16)) = ?n"
    if "?n < 32" using that by (simp add: hex_value_digit)
  consider "?n \<in> {34, 92, 10, 13, 9, 12, 8}" | "?n < 32" "?n \<notin> {10, 13, 9, 12, 8}"
    | "32 \<le> ?n" "?n \<noteq> 34" "?n \<noteq> 92"
    by (cases "?n < 32") auto
  then show ?thesis
  proof cases
    case 1
    have code: "?n = of_char d \<Longrightarrow> c = d" for d by (simp add: of_char_inj)
    have "c \<in> {CHR 0x22, CHR 0x5C, CHR 0x0A, CHR 0x0D, CHR 0x09, CHR 0x0C, CHR 0x08}"
      using 1 code [of "CHR 0x22"] code [of "CHR 0x5C"] code [of "CHR 0x0A"] code [of "CHR 0x0D"]
        code [of "CHR 0x09"] code [of "CHR 0x0C"] code [of "CHR 0x08"] by auto
    then show ?thesis
      by (elim insertE emptyE) (simp_all add: json_escape_char_def read_char_def read_escape_def)
  next
    case 2
    then show ?thesis
      using hex by (simp add: json_escape_char_def read_char_def read_escape_def Let_def)
  next
    case 3
    then have "c \<noteq> CHR 0x5C" by auto
    with 3 show ?thesis by (simp add: json_escape_char_def read_char_def Let_def)
  qed
qed

text \<open>An escaped character never starts with the closing quote.\<close>

lemma json_escape_char_hd: "json_escape_char c @ r \<noteq> CHR 0x22 # s"
  by (auto simp: json_escape_char_def Let_def)

lemma json_escape_char_prefix:
  "json_escape_char c @ r = json_escape_char d @ s \<Longrightarrow> c = d \<and> r = s"
  by (metis read_json_escape_char prod.inject)

lemma json_string_prefix:
  assumes "json_string a @ r = json_string b @ s"
  shows "a = b \<and> r = s"
proof -
  have "concat (map json_escape_char a) @ CHR 0x22 # r
      = concat (map json_escape_char b) @ CHR 0x22 # s \<Longrightarrow> a = b \<and> r = s"
  proof (induction a arbitrary: b)
    case Nil
    then show ?case by (cases b) (auto dest: sym simp: json_escape_char_hd)
  next
    case (Cons c a)
    show ?case
    proof (cases b)
      case Nil
      with Cons.prems show ?thesis by (simp add: json_escape_char_hd)
    next
      case (Cons d b')
      then show ?thesis
        using Cons.prems Cons.IH [of b'] by (auto dest!: json_escape_char_prefix)
    qed
  qed
  with assms show ?thesis by (simp add: json_string_def)
qed

section \<open>Numbers\<close>

definition is_digit :: "char \<Rightarrow> bool" where
  "is_digit c \<longleftrightarrow> (48::nat) \<le> of_char c \<and> (of_char c :: nat) \<le> 57"

lemma of_char_digit [simp]: "d < 10 \<Longrightarrow> (of_char (digit_char d) :: nat) = 48 + d"
  by (simp add: digit_char_def)

lemma decimal_nat_digits: "c \<in> set (decimal_nat n) \<Longrightarrow> is_digit c"
proof (induction n rule: decimal_nat.induct)
  case (1 n)
  then show ?case by (subst (asm) decimal_nat.simps) (auto simp: is_digit_def split: if_splits)
qed

lemma decimal_nat_nonempty [simp]: "decimal_nat n \<noteq> []"
  by (subst decimal_nat.simps) simp

text \<open>Reading the digits back.\<close>

definition read_nat :: "string \<Rightarrow> nat" where
  "read_nat = foldl (\<lambda>a c. 10 * a + (of_char c - 48)) 0"

lemma read_decimal_nat [simp]: "read_nat (decimal_nat n) = n"
proof (induction n rule: decimal_nat.induct)
  case (1 n)
  then show ?case by (subst decimal_nat.simps) (simp add: read_nat_def)
qed

text \<open>A number is followed by the end of the text or by a character that is not a digit.\<close>

definition ends_number :: "string \<Rightarrow> bool" where
  "ends_number r \<longleftrightarrow> (r = [] \<or> \<not> is_digit (hd r))"

lemma decimal_nat_prefix:
  assumes "decimal_nat n @ r = decimal_nat m @ s" "ends_number r" "ends_number s"
  shows "n = m \<and> r = s"
proof -
  have tw: "takeWhile is_digit (decimal_nat n @ r) = decimal_nat n" if "ends_number r" for n r
    using that by (cases r) (auto simp: ends_number_def takeWhile_append2 decimal_nat_digits)
  have "decimal_nat n = decimal_nat m" using tw assms by metis
  with assms(1) show ?thesis by (metis read_decimal_nat same_append_eq)
qed

lemma digit_not_minus: "is_digit c \<Longrightarrow> c \<noteq> CHR ''-''"
  by (auto simp: is_digit_def)

lemma decimal_nat_no_minus: "decimal_nat n @ u \<noteq> CHR ''-'' # t"
proof
  assume "decimal_nat n @ u = CHR ''-'' # t"
  then have "hd (decimal_nat n) = CHR ''-''" by (metis decimal_nat_nonempty hd_append2 list.sel(1))
  then show False
    using decimal_nat_digits [OF hd_in_set [OF decimal_nat_nonempty], of n] digit_not_minus by auto
qed

lemma decimal_int_prefix:
  assumes eq: "decimal_int i @ r = decimal_int j @ s" and ends: "ends_number r" "ends_number s"
  shows "i = j \<and> r = s"
proof (cases "i < 0")
  case True
  have neg: "j < 0"
  proof (rule ccontr)
    assume "\<not> j < 0"
    with True eq have "decimal_nat (nat j) @ s = CHR ''-'' # decimal_nat (nat (- i)) @ r"
      by (simp add: decimal_int_def)
    with decimal_nat_no_minus show False by blast
  qed
  with True eq have "decimal_nat (nat (- i)) @ r = decimal_nat (nat (- j)) @ s"
    by (simp add: decimal_int_def)
  from decimal_nat_prefix [OF this ends] True neg show ?thesis by linarith
next
  case False
  have pos: "\<not> j < 0"
  proof
    assume "j < 0"
    with False eq have "decimal_nat (nat i) @ r = CHR ''-'' # decimal_nat (nat (- j)) @ s"
      by (simp add: decimal_int_def)
    with decimal_nat_no_minus show False by blast
  qed
  with False eq have "decimal_nat (nat i) @ r = decimal_nat (nat j) @ s"
    by (simp add: decimal_int_def)
  from decimal_nat_prefix [OF this ends] False pos show ?thesis by linarith
qed

section \<open>Values\<close>

text \<open>What may follow a value inside a text: nothing, a comma, or a closing bracket.\<close>

definition ends_value :: "string \<Rightarrow> bool" where
  "ends_value r \<longleftrightarrow> (r = [] \<or> hd r \<in> {CHR '','', CHR '']'', CHR ''}''})"

lemma ends_value_simps [simp]:
  "ends_value []" "ends_value (CHR '','' # r)" "ends_value (CHR '']'' # r)" "ends_value (CHR ''}'' # r)"
  by (simp_all add: ends_value_def)

lemma ends_value_number: "ends_value r \<Longrightarrow> ends_number r"
  by (auto simp: ends_value_def ends_number_def is_digit_def)

text \<open>
  A set of item texts is separable when an item is determined by any text it starts, up to a
  delimiter; then a comma-separated list up to its closing bracket is determined too.
\<close>

definition separable :: "('a \<Rightarrow> string) \<Rightarrow> 'a \<Rightarrow> bool" where
  "separable f x \<longleftrightarrow> (\<forall>y r s. f x @ r = f y @ s \<longrightarrow> ends_value r \<longrightarrow> ends_value s \<longrightarrow> x = y \<and> r = s)"

lemma separableD:
  "separable f x \<Longrightarrow> f x @ r = f y @ s \<Longrightarrow> ends_value r \<Longrightarrow> ends_value s \<Longrightarrow> x = y \<and> r = s"
  by (simp add: separable_def)

lemma comma_separated_Cons:
  "comma_separated (x # xs) = x @ (if xs = [] then [] else CHR '','' # comma_separated xs)"
  by (cases xs) auto

lemma append_hd_neq: "u \<noteq> [] \<Longrightarrow> hd u \<noteq> c \<Longrightarrow> u @ t \<noteq> c # r"
  by (cases u) auto

lemma comma_separated_prefix:
  assumes "comma_separated (map f xs) @ c # r = comma_separated (map f ys) @ c # s"
    and "\<forall>x \<in> set xs. separable f x"
    and "\<forall>y. f y \<noteq> []" and "\<forall>y. hd (f y) \<noteq> c"
    and "c = CHR '']'' \<or> c = CHR ''}''"
  shows "xs = ys \<and> r = s"
  using assms(1,2)
proof (induction xs arbitrary: ys)
  case Nil
  then show ?case
    using assms(3,4) append_hd_neq [of _ c, symmetric]
    by (cases ys) (auto simp: comma_separated_Cons)
next
  case (Cons x xs)
  obtain y ys' where ys: "ys = y # ys'"
    using Cons.prems(1) assms(3,4) append_hd_neq [of _ c]
    by (cases ys) (auto simp: comma_separated_Cons)
  let ?t = "\<lambda>xs r. (if xs = [] then [] else CHR '','' # comma_separated (map f xs)) @ c # r"
  have "f x @ ?t xs r = f y @ ?t ys' s"
    using Cons.prems(1) by (simp add: ys comma_separated_Cons split: if_splits)
  moreover have "ends_value (?t xs r)" "ends_value (?t ys' s)" using assms(5) by auto
  ultimately have "x = y" "?t xs r = ?t ys' s"
    using Cons.prems(2) separableD [of f x] by (auto simp only: list.set_intros ball_simps)
  then show ?case
    using Cons.IH [of ys'] Cons.prems(2) assms(5) by (auto simp: ys split: if_splits)
qed

text \<open>The first character of a text tells which kind of value it is.\<close>

lemma json_string_hd: "json_string a @ r = CHR 0x22 # concat (map json_escape_char a) @ CHR 0x22 # r"
  by (simp add: json_string_def)

lemma decimal_int_hd: "hd (decimal_int i) = CHR ''-'' \<or> is_digit (hd (decimal_int i))"
  by (auto simp: decimal_int_def intro!: decimal_nat_digits [OF hd_in_set])

lemma json_dumps_nonempty [simp]: "json_dumps j \<noteq> []"
  by (cases j) (auto simp: json_string_def decimal_int_def)

definition json_kind :: "char \<Rightarrow> nat" where
  "json_kind c = (if c = CHR ''n'' then 0 else if c = CHR ''t'' \<or> c = CHR ''f'' then 1
     else if c = CHR 0x22 then 3 else if c = CHR ''['' then 4 else if c = CHR ''{'' then 5 else 2)"

fun json_tag :: "json \<Rightarrow> nat" where
  "json_tag JNull = 0"
| "json_tag (JBool b) = 1"
| "json_tag (JInt i) = 2"
| "json_tag (JStr s) = 3"
| "json_tag (JList xs) = 4"
| "json_tag (JDict kvs) = 5"

lemma json_kind_dumps: "json_kind (hd (json_dumps j)) = json_tag j"
proof (cases j)
  case (JInt i)
  then show ?thesis using decimal_int_hd [of i] by (auto simp: json_kind_def is_digit_def)
qed (auto simp: json_kind_def json_string_def)

lemma json_dumps_hd: "hd (json_dumps j) \<noteq> CHR '']''"
proof (cases j)
  case (JInt i)
  then show ?thesis using decimal_int_hd [of i] by (auto simp: is_digit_def)
qed (auto simp: json_string_def)

lemma json_tag_eq: "json_dumps j @ r = json_dumps k @ s \<Longrightarrow> json_tag j = json_tag k"
  by (metis hd_append2 json_dumps_nonempty json_kind_dumps)

definition json_entry :: "string \<times> json \<Rightarrow> string" where
  "json_entry kv = json_string (fst kv) @ CHR '':'' # json_dumps (snd kv)"

lemma json_dumps_dict:
  "json_dumps (JDict kvs) = CHR ''{'' # comma_separated (map json_entry kvs) @ ''}''"
  by (simp add: json_entry_def case_prod_beta' cong: map_cong)

lemma separable_entry: "separable json_dumps (snd kv) \<Longrightarrow> separable json_entry kv"
  by (auto simp: separable_def json_entry_def prod_eq_iff dest!: json_string_prefix)

lemma json_dumps_separable: "separable json_dumps j"
proof (induction j)
  case JNull
  show ?case
  proof (unfold separable_def, intro allI impI)
    fix y r s
    assume eq: "json_dumps JNull @ r = json_dumps y @ s"
    then have "y = JNull" using json_tag_eq [OF eq] by (cases y) auto
    with eq show "JNull = y \<and> r = s" by simp
  qed
next
  case (JBool b)
  show ?case
  proof (unfold separable_def, intro allI impI)
    fix y r s
    assume eq: "json_dumps (JBool b) @ r = json_dumps y @ s"
    then obtain b' where "y = JBool b'" using json_tag_eq [OF eq] by (cases y) auto
    with eq show "JBool b = y \<and> r = s" by (cases b; cases b') auto
  qed
next
  case (JInt i)
  show ?case
  proof (unfold separable_def, intro allI impI)
    fix y r s
    assume eq: "json_dumps (JInt i) @ r = json_dumps y @ s" and ends: "ends_value r" "ends_value s"
    then obtain i' where "y = JInt i'" using json_tag_eq [OF eq] by (cases y) auto
    with eq show "JInt i = y \<and> r = s"
      using decimal_int_prefix [of i r i' s] ends by (simp add: ends_value_number)
  qed
next
  case (JStr a)
  show ?case
  proof (unfold separable_def, intro allI impI)
    fix y r s
    assume eq: "json_dumps (JStr a) @ r = json_dumps y @ s"
    then obtain b where "y = JStr b" using json_tag_eq [OF eq] by (cases y) auto
    with eq show "JStr a = y \<and> r = s" using json_string_prefix [of a r b s] by simp
  qed
next
  case (JList xs)
  show ?case
  proof (unfold separable_def, intro allI impI)
    fix y r s
    assume eq: "json_dumps (JList xs) @ r = json_dumps y @ s"
    then obtain ys where y: "y = JList ys" using json_tag_eq [OF eq] by (cases y) auto
    have "comma_separated (map json_dumps xs) @ CHR '']'' # r
        = comma_separated (map json_dumps ys) @ CHR '']'' # s"
      using eq by (simp add: y)
    then show "JList xs = y \<and> r = s"
      using comma_separated_prefix [of json_dumps xs "CHR '']''" r ys s] JList
      by (simp add: y json_dumps_hd)
  qed
next
  case (JDict kvs)
  show ?case
  proof (unfold separable_def, intro allI impI)
    fix y r s
    assume eq: "json_dumps (JDict kvs) @ r = json_dumps y @ s"
    then obtain lws where y: "y = JDict lws" using json_tag_eq [OF eq] by (cases y) auto
    have "comma_separated (map json_entry kvs) @ CHR ''}'' # r
        = comma_separated (map json_entry lws) @ CHR ''}'' # s"
      using eq unfolding y json_dumps_dict by simp
    moreover have "\<forall>kv \<in> set kvs. separable json_entry kv"
      using JDict by (auto intro!: separable_entry simp: snds.simps)
    ultimately show "JDict kvs = y \<and> r = s"
      using comma_separated_prefix [of json_entry kvs "CHR ''}''" r lws s]
      by (simp add: y json_entry_def json_string_hd)
  qed
qed

text \<open>Different values have different texts.\<close>

theorem json_dumps_inject [simp]: "json_dumps j = json_dumps k \<longleftrightarrow> j = k"
  using separableD [OF json_dumps_separable, of j "[]" k "[]"] by auto

end
