(* ===== verification/Identities.thy ===== *)
theory Identities
  imports Samples Json_Text
begin

text \<open>
  The stable identities the Gateway derives for routes, deliveries, correlations, client
  messages and submissions. Each is a prefix followed by the SHA-256 digest of a JSON text; the
  digest function is a parameter \<open>sha256\<close> of every derivation
  (\<open>hashlib.sha256(text.encode()).hexdigest()\<close>). The JSON value that is digested is a definition
  of its own, so that injectivity can be stated before and after the digest.
\<close>

section \<open>Derivations\<close>

definition hashed_identity :: "(string \<Rightarrow> string) \<Rightarrow> string \<Rightarrow> json \<Rightarrow> string" where
  "hashed_identity sha256 prefix identity = prefix @ sha256 (json_dumps identity)"

text \<open>\<open>derive_projection_route_id\<close> of \<open>gateway/routing/projection_routes.py\<close>.\<close>

definition route_identity :: "thread_ref \<Rightarrow> conversation_ref \<Rightarrow> json" where
  "route_identity thread_ref conversation_ref = JList [
     JStr (pj_application_instance_id (th_project_ref thread_ref)),
     JStr (pj_project_id (th_project_ref thread_ref)),
     JStr (th_thread_id thread_ref),
     JStr (cv_channel_instance_id conversation_ref),
     JStr (cv_native_conversation_id conversation_ref)]"

definition derive_projection_route_id ::
  "(string \<Rightarrow> string) \<Rightarrow> thread_ref \<Rightarrow> conversation_ref \<Rightarrow> string" where
  "derive_projection_route_id sha256 thread_ref conversation_ref =
     hashed_identity sha256 ''imagent:projection:sha256:'' (route_identity thread_ref conversation_ref)"

text \<open>\<open>derive_projection_delivery_id\<close> of \<open>gateway/projection/checkpoints.py\<close>.\<close>

definition projection_delivery_identity :: "conversation_ref \<Rightarrow> thread_ref \<Rightarrow> string \<Rightarrow> int \<Rightarrow> json" where
  "projection_delivery_identity conversation_ref thread_ref agent_item_id segment_index = JList [
     JStr (cv_channel_instance_id conversation_ref),
     JStr (cv_native_conversation_id conversation_ref),
     JStr (pj_application_instance_id (th_project_ref thread_ref)),
     JStr (pj_project_id (th_project_ref thread_ref)),
     JStr (th_thread_id thread_ref),
     JStr agent_item_id,
     JInt segment_index]"

definition derive_projection_delivery_id ::
  "(string \<Rightarrow> string) \<Rightarrow> conversation_ref \<Rightarrow> thread_ref \<Rightarrow> string \<Rightarrow> int \<Rightarrow> string" where
  "derive_projection_delivery_id sha256 conversation_ref thread_ref agent_item_id segment_index =
     hashed_identity sha256 ''imagent:delivery:sha256:'' (projection_delivery_identity conversation_ref thread_ref agent_item_id segment_index)"

text \<open>\<open>derive_live_projection_delivery_id\<close> of \<open>gateway/projection/observation.py\<close>.\<close>

definition live_delivery_identity :: "conversation_ref \<Rightarrow> thread_ref \<Rightarrow> string \<Rightarrow> json" where
  "live_delivery_identity conversation_ref thread_ref event_id = JList [
     JStr ''live_event'',
     JStr (cv_channel_instance_id conversation_ref),
     JStr (cv_native_conversation_id conversation_ref),
     JStr (pj_application_instance_id (th_project_ref thread_ref)),
     JStr (pj_project_id (th_project_ref thread_ref)),
     JStr (th_thread_id thread_ref),
     JStr event_id]"

definition derive_live_projection_delivery_id ::
  "(string \<Rightarrow> string) \<Rightarrow> conversation_ref \<Rightarrow> thread_ref \<Rightarrow> string \<Rightarrow> string" where
  "derive_live_projection_delivery_id sha256 conversation_ref thread_ref event_id =
     hashed_identity sha256 ''imagent:delivery:live:sha256:'' (live_delivery_identity conversation_ref thread_ref event_id)"

text \<open>\<open>derive_turn_reply_correlation_id\<close> of \<open>gateway/projection/request_correlation.py\<close>.\<close>

definition turn_reply_identity :: "turn_ref \<Rightarrow> json" where
  "turn_reply_identity turn_ref = JList [
     JStr (pj_application_instance_id (th_project_ref (tn_thread_ref turn_ref))),
     JStr (pj_project_id (th_project_ref (tn_thread_ref turn_ref))),
     JStr (th_thread_id (tn_thread_ref turn_ref)),
     JStr (tn_turn_id turn_ref)]"

definition derive_turn_reply_correlation_id ::
  "(string \<Rightarrow> string) \<Rightarrow> turn_ref \<Rightarrow> string" where
  "derive_turn_reply_correlation_id sha256 turn_ref =
     hashed_identity sha256 ''imagent:turn-reply:sha256:'' (turn_reply_identity turn_ref)"

text \<open>\<open>derive_request_correlation_id\<close> of \<open>gateway/projection/request_correlation.py\<close>.\<close>

definition request_route_identity :: "request_ref \<Rightarrow> conversation_ref \<Rightarrow> json" where
  "request_route_identity request_ref conversation_ref = JList [
     JStr (ar_application_instance_id (rq_application_ref request_ref)),
     JStr (rq_native_request_id request_ref),
     JStr (cv_channel_instance_id conversation_ref),
     JStr (cv_native_conversation_id conversation_ref)]"

definition derive_request_correlation_id ::
  "(string \<Rightarrow> string) \<Rightarrow> request_ref \<Rightarrow> conversation_ref \<Rightarrow> string" where
  "derive_request_correlation_id sha256 request_ref conversation_ref =
     hashed_identity sha256 ''imagent:request-route:sha256:'' (request_route_identity request_ref conversation_ref)"

text \<open>\<open>derive_request_delivery_id\<close> of \<open>gateway/projection/request_correlation.py\<close>.\<close>

definition derive_request_delivery_id ::
  "(string \<Rightarrow> string) \<Rightarrow> request_ref \<Rightarrow> conversation_ref \<Rightarrow> string" where
  "derive_request_delivery_id sha256 request_ref conversation_ref =
     hashed_identity sha256 ''imagent:request-delivery:sha256:'' (request_route_identity request_ref conversation_ref)"

text \<open>\<open>derive_client_message_id\<close> of \<open>gateway/input/dispatch.py\<close>.\<close>

definition client_message_identity :: "conversation_ref \<Rightarrow> string \<Rightarrow> json" where
  "client_message_identity conversation_ref channel_message_id = JList [
     JStr (cv_channel_instance_id conversation_ref),
     JStr (cv_native_conversation_id conversation_ref),
     JStr channel_message_id]"

definition derive_client_message_id ::
  "(string \<Rightarrow> string) \<Rightarrow> conversation_ref \<Rightarrow> string \<Rightarrow> string res" where
  "derive_client_message_id sha256 conversation channel_message_id =
     (case require_identifier channel_message_id of
        Some e \<Rightarrow> Inl e
      | None \<Rightarrow> Inr (hashed_identity sha256 ''imagent:client-message:sha256:''
                   (client_message_identity conversation channel_message_id)))"

text \<open>\<open>derive_segment_delivery_id\<close> of \<open>gateway/delivery/planning.py\<close>.\<close>

definition segment_identity :: "conversation_ref \<Rightarrow> string \<Rightarrow> int \<Rightarrow> json" where
  "segment_identity conversation_ref source_delivery_id segment_index = JList [
     JStr (cv_channel_instance_id conversation_ref),
     JStr (cv_native_conversation_id conversation_ref),
     JStr source_delivery_id,
     JInt segment_index]"

definition derive_segment_delivery_id ::
  "(string \<Rightarrow> string) \<Rightarrow> conversation_ref \<Rightarrow> string \<Rightarrow> int \<Rightarrow> string res" where
  "derive_segment_delivery_id sha256 conversation_ref source_delivery_id segment_index =
     (if source_delivery_id = [] then Inl DeliveryPlanningError
      else if segment_index < 0 then Inl DeliveryPlanningError
      else Inr (hashed_identity sha256 ''imagent:delivery-segment:sha256:''
                  (segment_identity conversation_ref source_delivery_id segment_index)))"

text \<open>Proactive delivery identities (\<open>gateway/delivery/submissions.py\<close>).\<close>

datatype delivery_target =
    ConversationDeliveryTarget conversation_ref
  | ThreadRouteDeliveryTarget thread_ref "string option"

definition sha256_identity :: "(string \<Rightarrow> string) \<Rightarrow> string \<Rightarrow> json \<Rightarrow> string" where
  "sha256_identity sha256 label identity =
     hashed_identity sha256 (''imagent:delivery-'' @ label @ '':sha256:'') identity"

definition thread_identity :: "thread_ref \<Rightarrow> json" where
  "thread_identity thread_ref = JList [
     JStr (pj_application_instance_id (th_project_ref thread_ref)),
     JStr (pj_project_id (th_project_ref thread_ref)),
     JStr (th_thread_id thread_ref)]"

fun target_identity :: "delivery_target \<Rightarrow> json" where
  "target_identity (ConversationDeliveryTarget c) = JList [
     JStr ''conversation'',
     JStr (cv_channel_instance_id c),
     JStr (cv_native_conversation_id c)]"
| "target_identity (ThreadRouteDeliveryTarget t route_id) = JList [
     JStr ''thread_routes'',
     thread_identity t,
     (case route_id of None \<Rightarrow> JNull | Some i \<Rightarrow> JStr i)]"

definition derive_delivery_target_fingerprint ::
  "(string \<Rightarrow> string) \<Rightarrow> delivery_target \<Rightarrow> string" where
  "derive_delivery_target_fingerprint sha256 target =
     sha256_identity sha256 ''target'' (target_identity target)"

definition destination_identity :: "string \<Rightarrow> conversation_ref \<Rightarrow> json" where
  "destination_identity root_submission_id conversation_ref = JList [
     JStr root_submission_id,
     JStr (cv_channel_instance_id conversation_ref),
     JStr (cv_native_conversation_id conversation_ref)]"

definition derive_destination_delivery_id ::
  "(string \<Rightarrow> string) \<Rightarrow> string \<Rightarrow> conversation_ref \<Rightarrow> string res" where
  "derive_destination_delivery_id sha256 root_submission_id conversation_ref =
     (case first_error [
        require_identifier root_submission_id,
        validate_conversation_ref conversation_ref] of
        Some e \<Rightarrow> Inl e
      | None \<Rightarrow> Inr (sha256_identity sha256 ''destination''
          (destination_identity root_submission_id conversation_ref)))"

fun submission_origin_value :: "delivery_submission_origin \<Rightarrow> string" where
  "submission_origin_value EXTERNAL = ''external''"
| "submission_origin_value GATEWAY_INTERNAL = ''gateway_internal''"

definition submission_identity :: "delivery_submission_origin \<Rightarrow> string \<Rightarrow> json" where
  "submission_identity origin delivery_id =
     JList [JStr (submission_origin_value origin), JStr delivery_id]"

definition derive_delivery_submission_id ::
  "(string \<Rightarrow> string) \<Rightarrow> delivery_submission_origin \<Rightarrow> string \<Rightarrow> string \<Rightarrow> string res" where
  "derive_delivery_submission_id sha256 origin principal_id delivery_id =
     (case first_error [require_identifier principal_id, require_identifier delivery_id] of
        Some e \<Rightarrow> Inl e
      | None \<Rightarrow> Inr (sha256_identity sha256 ''submission''
          (submission_identity origin delivery_id)))"

section \<open>Identities are unambiguous\<close>

text \<open>
  The digest is not assumed injective: two derived identities are compared under the hypothesis
  that the digest separates the two texts at hand.
\<close>

definition separates :: "(string \<Rightarrow> string) \<Rightarrow> json \<Rightarrow> json \<Rightarrow> bool" where
  "separates sha256 i j \<longleftrightarrow> (json_dumps i \<noteq> json_dumps j \<longrightarrow> sha256 (json_dumps i) \<noteq> sha256 (json_dumps j))"

lemma hashed_identity_eq [simp]:
  "separates sha256 i j \<Longrightarrow>
   hashed_identity sha256 prefix i = hashed_identity sha256 prefix j \<longleftrightarrow> i = j"
  "separates sha256 i j \<Longrightarrow>
   hashed_identity sha256 prefix j = hashed_identity sha256 prefix i \<longleftrightarrow> i = j"
  by (auto simp: hashed_identity_def separates_def)

lemma project_ref_eq_iff:
  "(p :: project_ref) = q \<longleftrightarrow> pj_application_instance_id p = pj_application_instance_id q
     \<and> pj_project_id p = pj_project_id q"
  by (cases p; cases q) auto

lemma thread_ref_eq_iff:
  "(t :: thread_ref) = u \<longleftrightarrow>
     pj_application_instance_id (th_project_ref t) = pj_application_instance_id (th_project_ref u)
     \<and> pj_project_id (th_project_ref t) = pj_project_id (th_project_ref u)
     \<and> th_thread_id t = th_thread_id u"
  by (cases t; cases u) (auto simp: project_ref_eq_iff)

lemma conversation_ref_eq_iff:
  "(c :: conversation_ref) = d \<longleftrightarrow> cv_channel_instance_id c = cv_channel_instance_id d
     \<and> cv_native_conversation_id c = cv_native_conversation_id d"
  by (cases c; cases d) auto

lemma turn_ref_eq_iff:
  "(t :: turn_ref) = u \<longleftrightarrow> tn_thread_ref t = tn_thread_ref u \<and> tn_turn_id t = tn_turn_id u"
  by (cases t; cases u) auto

lemma request_ref_eq_iff:
  "(t :: request_ref) = u \<longleftrightarrow>
     ar_application_instance_id (rq_application_ref t) = ar_application_instance_id (rq_application_ref u)
     \<and> rq_native_request_id t = rq_native_request_id u"
  by (cases t; cases u) (auto intro: application_ref.equality)

lemmas identity_eq_iffs =
  thread_ref_eq_iff conversation_ref_eq_iff turn_ref_eq_iff request_ref_eq_iff

text \<open>The digested values determine what they were derived from.\<close>

lemma route_identity_inject [simp]: "route_identity t c = route_identity u d \<longleftrightarrow> t = u \<and> c = d"
  by (auto simp: route_identity_def identity_eq_iffs)

lemma projection_delivery_identity_inject [simp]:
  "projection_delivery_identity c t i n = projection_delivery_identity d u j m \<longleftrightarrow>
   c = d \<and> t = u \<and> i = j \<and> n = m"
  by (auto simp: projection_delivery_identity_def identity_eq_iffs)

lemma live_delivery_identity_inject [simp]:
  "live_delivery_identity c t i = live_delivery_identity d u j \<longleftrightarrow> c = d \<and> t = u \<and> i = j"
  by (auto simp: live_delivery_identity_def identity_eq_iffs)

lemma turn_reply_identity_inject [simp]: "turn_reply_identity t = turn_reply_identity u \<longleftrightarrow> t = u"
  by (auto simp: turn_reply_identity_def identity_eq_iffs)

lemma request_route_identity_inject [simp]:
  "request_route_identity q c = request_route_identity r d \<longleftrightarrow> q = r \<and> c = d"
  by (auto simp: request_route_identity_def identity_eq_iffs)

lemma client_message_identity_inject [simp]:
  "client_message_identity c m = client_message_identity d n \<longleftrightarrow> c = d \<and> m = n"
  by (auto simp: client_message_identity_def identity_eq_iffs)

lemma segment_identity_inject [simp]:
  "segment_identity c m i = segment_identity d n j \<longleftrightarrow> c = d \<and> m = n \<and> i = j"
  by (auto simp: segment_identity_def identity_eq_iffs)

lemma target_identity_inject [simp]: "target_identity t = target_identity u \<longleftrightarrow> t = u"
  by (cases t; cases u) (auto simp: thread_identity_def identity_eq_iffs split: option.splits)

lemma destination_identity_inject [simp]:
  "destination_identity r c = destination_identity q d \<longleftrightarrow> r = q \<and> c = d"
  by (auto simp: destination_identity_def identity_eq_iffs)

lemma submission_identity_inject [simp]:
  "submission_identity p i = submission_identity q j \<longleftrightarrow> p = q \<and> i = j"
  by (cases p; cases q) (auto simp: submission_identity_def)

text \<open>The same message in two conversations, or two messages of one, never share a client identity.\<close>

lemma client_message_id_unique:
  assumes "separates sha256 (client_message_identity c m) (client_message_identity d n)"
    and "derive_client_message_id sha256 c m = Inr i" and "derive_client_message_id sha256 d n = Inr i"
  shows "c = d \<and> m = n"
  using assms
  by (auto simp: derive_client_message_id_def split: option.splits)

text \<open>Rotating the principal does not move a delivery to another submission.\<close>

lemma submission_id_ignores_principal:
  assumes "derive_delivery_submission_id sha256 origin p i = Inr s"
    and "require_identifier q = None"
  shows "derive_delivery_submission_id sha256 origin q i = Inr s"
  using assms by (auto simp: derive_delivery_submission_id_def split: option.splits)

lemma submission_id_unique:
  assumes "separates sha256 (submission_identity p i) (submission_identity q j)"
    and "derive_delivery_submission_id sha256 p a i = Inr s"
    and "derive_delivery_submission_id sha256 q b j = Inr s"
  shows "p = q \<and> i = j"
  using assms
  by (auto simp: derive_delivery_submission_id_def sha256_identity_def split: option.splits)

section \<open>Properties\<close>

text \<open>
  Client message identities are unambiguous: whenever the digest tells the two encoded texts
  apart, two inbound messages receive the same client message identity only if they are the same
  message of the same conversation (no pair of identifiers can imitate another one, whatever
  separators they contain).
\<close>

theorem client_message_id_injective:
  assumes "separates sha256 (client_message_identity c m) (client_message_identity d n)"
    and "require_identifier m = None" and "require_identifier n = None"
  shows "derive_client_message_id sha256 c m = derive_client_message_id sha256 d n \<longleftrightarrow> c = d \<and> m = n"
  unfolding derive_client_message_id_def assms(2,3) using assms(1) by simp

theorem client_message_id_injective_witness:
  "derive_client_message_id (\<lambda>text. text) (sample_conversation\<lparr>cv_native_conversation_id := ''a:b''\<rparr>) ''c''
     = derive_client_message_id (\<lambda>text. text) (sample_conversation\<lparr>cv_native_conversation_id := ''a''\<rparr>) ''b:c''
   \<longleftrightarrow> sample_conversation\<lparr>cv_native_conversation_id := ''a:b''\<rparr>
         = sample_conversation\<lparr>cv_native_conversation_id := ''a''\<rparr> \<and> ''c'' = ''b:c''"
  by (rule client_message_id_injective) (simp_all add: separates_def)

text \<open>
  The identity of a proactive submission is determined by its origin and its delivery identity
  alone: two accepted derivations agree exactly when both agree, whichever principals asked, so
  rotating a credential neither duplicates nor hides an earlier submission.
\<close>

theorem submission_id_is_origin_and_delivery:
  assumes "separates sha256 (submission_identity p i) (submission_identity q j)"
    and "derive_delivery_submission_id sha256 p a i = Inr s"
    and "derive_delivery_submission_id sha256 q b j = Inr t"
  shows "s = t \<longleftrightarrow> p = q \<and> i = j"
  using assms by (auto simp: derive_delivery_submission_id_def sha256_identity_def split: option.splits)

theorem submission_id_is_origin_and_delivery_witness:
  "(''imagent:delivery-submission:sha256:'' @ json_dumps (submission_identity EXTERNAL ''d'')
      = ''imagent:delivery-submission:sha256:'' @ json_dumps (submission_identity EXTERNAL ''d''))
   \<longleftrightarrow> EXTERNAL = EXTERNAL \<and> ''d'' = ''d''"
  by (rule submission_id_is_origin_and_delivery [where ?sha256.0 = "\<lambda>text. text" and a = "''alice''"
        and b = "''bob''"])
    (simp add: separates_def; fail | code_simp)+

end
