(* ===== verification/Projection_Routes.thy ===== *)
theory Projection_Routes
  imports Idempotency Bindings Identities
begin

text \<open>
  Projection routes: the process-local repository of Thread-to-Conversation routes with their
  delivery checkpoints, and of Turn reply correlations (\<open>gateway/persistence/memory.py\<close>); the
  checkpoint authority (\<open>gateway/projection/checkpoints.py\<close>) and the route authority
  (\<open>gateway/routing/projection_routes.py\<close>), which are its clients.
\<close>

section \<open>Merging routes\<close>

definition merge_projection_route ::
  "thread_projection_route option \<Rightarrow> thread_projection_route \<Rightarrow> thread_projection_route res" where
  "merge_projection_route existing replacement =
     (case existing of
        None \<Rightarrow> Inr replacement
      | Some old \<Rightarrow>
          if pr_route_id old \<noteq> pr_route_id replacement
             \<or> pr_thread_ref old \<noteq> pr_thread_ref replacement
             \<or> pr_conversation_ref old \<noteq> pr_conversation_ref replacement
          then Inl ProjectionRouteConflict
          else if pr_checkpoint_agent_item_id replacement \<noteq> None
          then if pr_checkpoint_agent_item_id replacement \<noteq> pr_checkpoint_agent_item_id old
                  \<or> pr_checkpointed_at replacement \<noteq> pr_checkpointed_at old
               then Inl ProjectionCheckpointConflict
               else Inr replacement
          else if pr_checkpoint_agent_item_id old = None then Inr replacement
          else Inr (replacement\<lparr>
            pr_checkpoint_agent_item_id := pr_checkpoint_agent_item_id old,
            pr_checkpointed_at := pr_checkpointed_at old\<rparr>))"

definition reject_conflicting_route_id ::
  "thread_projection_route list \<Rightarrow> thread_projection_route \<Rightarrow> check" where
  "reject_conflicting_route_id routes replacement =
     raise_if (\<exists>existing \<in> set routes.
         pr_route_id existing = pr_route_id replacement
         \<and> (pr_thread_ref existing \<noteq> pr_thread_ref replacement
            \<or> pr_conversation_ref existing \<noteq> pr_conversation_ref replacement))
       ProjectionRouteConflict"

definition same_turn_reply_correlation ::
  "turn_reply_correlation \<Rightarrow> turn_reply_correlation \<Rightarrow> bool" where
  "same_turn_reply_correlation left right \<longleftrightarrow>
     tc_correlation_id left = tc_correlation_id right
     \<and> tc_turn_ref left = tc_turn_ref right
     \<and> tc_client_message_id left = tc_client_message_id right
     \<and> tc_conversation_ref left = tc_conversation_ref right
     \<and> tc_reply_to_message_id left = tc_reply_to_message_id right"

section \<open>The in-memory repository\<close>

type_synonym route_key = "thread_ref \<times> conversation_ref"
type_synonym turn_key = "thread_ref \<times> string"

record projection_repository =
  pp_routes :: "(route_key, thread_projection_route) dict"
  pp_turn_correlations :: "(turn_key, turn_reply_correlation) dict"

definition empty_projections :: projection_repository where
  "empty_projections = \<lparr>pp_routes = [], pp_turn_correlations = []\<rparr>"

abbreviation route_key :: "thread_projection_route \<Rightarrow> route_key" where
  "route_key route \<equiv> (pr_thread_ref route, pr_conversation_ref route)"

abbreviation turn_key :: "turn_reply_correlation \<Rightarrow> turn_key" where
  "turn_key correlation \<equiv> (tn_thread_ref (tc_turn_ref correlation), tn_turn_id (tc_turn_ref correlation))"

definition list_projection_routes ::
  "thread_ref option \<Rightarrow> projection_repository \<Rightarrow> thread_projection_route list" where
  "list_projection_routes thread_ref r =
     (case thread_ref of
        None \<Rightarrow> dict_values (pp_routes r)
      | Some t \<Rightarrow> filter (\<lambda>route. pr_thread_ref route = t) (dict_values (pp_routes r)))"

definition put_projection_route :: "thread_projection_route \<Rightarrow> projection_repository \<Rightarrow>
    (projection_repository, thread_projection_route) outcome" where
  "put_projection_route route r =
     guarded (first_error [
       validate_projection_route route,
       reject_conflicting_route_id (dict_values (pp_routes r)) route]) r
     (with_res (merge_projection_route (dict_get (pp_routes r) (route_key route)) route) r
       (\<lambda>stored. returns stored
          (r\<lparr>pp_routes := dict_set (pp_routes r) (route_key route) stored\<rparr>)))"

definition replace_thread_projection_routes :: "thread_projection_route \<Rightarrow> projection_repository \<Rightarrow>
    (projection_repository, thread_projection_route) outcome" where
  "replace_thread_projection_routes route r =
     guarded (first_error [
       validate_projection_route route,
       reject_conflicting_route_id (dict_values (pp_routes r)) route]) r
     (with_res (merge_projection_route (dict_get (pp_routes r) (route_key route)) route) r
       (\<lambda>stored. returns stored
          (r\<lparr>pp_routes := dict_set
               (filter (\<lambda>(key, _). fst key \<noteq> pr_thread_ref route) (pp_routes r))
               (route_key route) stored\<rparr>)))"

definition advance_projection_checkpoint ::
  "string \<Rightarrow> string option \<Rightarrow> string \<Rightarrow> datetime \<Rightarrow> projection_repository \<Rightarrow>
   (projection_repository, thread_projection_route) outcome" where
  "advance_projection_checkpoint route_id expected_agent_item_id agent_item_id checkpointed_at r =
     (case find (\<lambda>(key, route). pr_route_id route = route_id) (pp_routes r) of
        None \<Rightarrow> raises KeyError r
      | Some (key, route) \<Rightarrow>
          if pr_checkpoint_agent_item_id route \<noteq> expected_agent_item_id
          then raises ProjectionCheckpointConflict r
          else let advanced = route\<lparr>
                 pr_checkpoint_agent_item_id := Some agent_item_id,
                 pr_checkpointed_at := Some checkpointed_at\<rparr>
               in guarded (validate_projection_route advanced) r
                  (returns advanced (r\<lparr>pp_routes := dict_set (pp_routes r) key advanced\<rparr>)))"

definition delete_projection_routes ::
  "thread_ref \<Rightarrow> conversation_ref option \<Rightarrow> projection_repository \<Rightarrow>
   (projection_repository, nat) outcome" where
  "delete_projection_routes thread_ref conversation_ref r =
     (let selected = (\<lambda>key. fst key = thread_ref
            \<and> (case conversation_ref of None \<Rightarrow> True | Some c \<Rightarrow> snd key = c));
          keys = filter selected (map fst (pp_routes r))
      in returns (length keys)
           (r\<lparr>pp_routes := filter (\<lambda>(key, _). \<not> selected key) (pp_routes r)\<rparr>))"

definition get_turn_reply_correlation ::
  "thread_ref \<Rightarrow> string \<Rightarrow> projection_repository \<Rightarrow> turn_reply_correlation option" where
  "get_turn_reply_correlation thread_ref turn_id r =
     dict_get (pp_turn_correlations r) (thread_ref, turn_id)"

definition list_turn_reply_correlations ::
  "thread_ref option \<Rightarrow> projection_repository \<Rightarrow> turn_reply_correlation list" where
  "list_turn_reply_correlations thread_ref r =
     (case thread_ref of
        None \<Rightarrow> dict_values (pp_turn_correlations r)
      | Some t \<Rightarrow> filter (\<lambda>c. tn_thread_ref (tc_turn_ref c) = t)
                  (dict_values (pp_turn_correlations r)))"

definition put_turn_reply_correlation :: "turn_reply_correlation \<Rightarrow> projection_repository \<Rightarrow>
    (projection_repository, turn_reply_correlation) outcome" where
  "put_turn_reply_correlation correlation r =
     guarded (validate_turn_reply_correlation correlation) r
     (case dict_get (pp_turn_correlations r) (turn_key correlation) of
        None \<Rightarrow> returns correlation (r\<lparr>pp_turn_correlations :=
                  dict_set (pp_turn_correlations r) (turn_key correlation) correlation\<rparr>)
      | Some current \<Rightarrow>
          if \<not> same_turn_reply_correlation current correlation
          then raises TurnReplyCorrelationConflict r
          else returns current r)"

definition delete_turn_reply_correlation ::
  "thread_ref \<Rightarrow> string \<Rightarrow> projection_repository \<Rightarrow> (projection_repository, bool) outcome" where
  "delete_turn_reply_correlation thread_ref turn_id r =
     returns (dict_get (pp_turn_correlations r) (thread_ref, turn_id) \<noteq> None)
       (r\<lparr>pp_turn_correlations := dict_pop (pp_turn_correlations r) (thread_ref, turn_id)\<rparr>)"

text \<open>
  The selectors of a bulk deletion are tried in order; the age test compares two timestamps and
  raises \<open>TypeError\<close> when only one of them is timezone-aware.
\<close>

definition turn_selected :: "thread_ref option \<Rightarrow> conversation_ref option \<Rightarrow>
    turn_reply_correlation \<Rightarrow> bool" where
  "turn_selected thread_ref conversation_ref correlation \<longleftrightarrow>
     (thread_ref = None \<or> thread_ref = Some (tn_thread_ref (tc_turn_ref correlation)))
     \<and> (conversation_ref = None \<or> conversation_ref = Some (tc_conversation_ref correlation))"

definition delete_turn_reply_correlations ::
  "thread_ref option \<Rightarrow> conversation_ref option \<Rightarrow> datetime option \<Rightarrow> projection_repository \<Rightarrow>
   (projection_repository, nat) outcome" where
  "delete_turn_reply_correlations thread_ref conversation_ref older_than r =
     guarded (first_error [
       raise_if (thread_ref = None \<and> conversation_ref = None \<and> older_than = None) ValueError,
       on_some (\<lambda>t. raise_if (\<exists>c \<in> set (dict_values (pp_turn_correlations r)).
            turn_selected thread_ref conversation_ref c \<and> incomparable (tc_created_at c) t)
          TypeError) older_than]) r
     (let selected = (\<lambda>c. turn_selected thread_ref conversation_ref c
            \<and> (case older_than of None \<Rightarrow> True | Some t \<Rightarrow> dt_less (tc_created_at c) t));
          keys = filter (\<lambda>(_, c). selected c) (pp_turn_correlations r)
      in returns (length keys) (r\<lparr>pp_turn_correlations :=
           filter (\<lambda>(_, c). \<not> selected c) (pp_turn_correlations r)\<rparr>))"

datatype projection_op =
    PutRoute thread_projection_route
  | ReplaceRoutes thread_projection_route
  | AdvanceCheckpoint string "string option" string datetime
  | DeleteRoutes thread_ref "conversation_ref option"
  | PutTurnReply turn_reply_correlation
  | DeleteTurnReply thread_ref string
  | DeleteTurnReplies "thread_ref option" "conversation_ref option" "datetime option"

definition discard :: "('s, 'a) outcome \<Rightarrow> ('s, unit) outcome" where
  "discard k = (map_sum id (\<lambda>_. ()) (fst k), snd k)"

fun projection_exec :: "projection_op \<Rightarrow> projection_repository \<Rightarrow>
    (projection_repository, unit) outcome" where
  "projection_exec (PutRoute route) r = discard (put_projection_route route r)"
| "projection_exec (ReplaceRoutes route) r = discard (replace_thread_projection_routes route r)"
| "projection_exec (AdvanceCheckpoint i e a t) r = discard (advance_projection_checkpoint i e a t r)"
| "projection_exec (DeleteRoutes t c) r = discard (delete_projection_routes t c r)"
| "projection_exec (PutTurnReply c) r = discard (put_turn_reply_correlation c r)"
| "projection_exec (DeleteTurnReply t i) r = discard (delete_turn_reply_correlation t i r)"
| "projection_exec (DeleteTurnReplies t c d) r = discard (delete_turn_reply_correlations t c d r)"

section \<open>The repository's clients\<close>

text \<open>\<open>apply_delivery_outcome\<close>: only a completed, checkpointable delivery moves a checkpoint.\<close>

definition apply_delivery_outcome ::
  "(string \<Rightarrow> string option \<Rightarrow> string \<Rightarrow> datetime \<Rightarrow> 'r \<Rightarrow> ('r, thread_projection_route) outcome) \<Rightarrow>
   datetime \<Rightarrow> thread_projection_route \<Rightarrow> string \<Rightarrow> bool \<Rightarrow> idempotency_claim_status \<Rightarrow> bool \<Rightarrow> 'r \<Rightarrow>
   ('r, thread_projection_route) outcome" where
  "apply_delivery_outcome advance now route agent_item_id checkpointable delivery_outcome
       authoritative r =
     (if delivery_outcome = CLAIM_IN_FLIGHT then raises RuntimeError r
      else if \<not> checkpointable then returns route r
      else if delivery_outcome = CLAIM_ALREADY_COMPLETED \<and> \<not> authoritative then returns route r
      else if delivery_outcome \<noteq> CLAIM_ACQUIRED \<and> delivery_outcome \<noteq> CLAIM_ALREADY_COMPLETED
      then raises RuntimeError r
      else if pr_checkpoint_agent_item_id route = Some agent_item_id then returns route r
      else advance (pr_route_id route) (pr_checkpoint_agent_item_id route) agent_item_id now r)"

datatype projection_policy = FOREGROUND_ONLY | REMEMBERED_LAST_RECIPIENT | ALL_OBSERVERS

definition filter_active_routes ::
  "projection_policy \<Rightarrow> (conversation_ref \<Rightarrow> conversation_binding option) \<Rightarrow>
   thread_projection_route list \<Rightarrow> thread_projection_route list" where
  "filter_active_routes policy get routes =
     (if policy \<noteq> FOREGROUND_ONLY then routes
      else filter (\<lambda>route. case get (pr_conversation_ref route) of
                     None \<Rightarrow> False
                   | Some binding \<Rightarrow> cb_thread_ref binding = Some (pr_thread_ref route)) routes)"

definition active_routes ::
  "projection_policy \<Rightarrow> (conversation_ref \<Rightarrow> conversation_binding option) \<Rightarrow>
   (thread_ref option \<Rightarrow> 'r \<Rightarrow> thread_projection_route list) \<Rightarrow> thread_ref option \<Rightarrow> 'r \<Rightarrow>
   thread_projection_route list" where
  "active_routes policy get list_routes thread_ref r =
     (case thread_ref of
        None \<Rightarrow> []
      | Some t \<Rightarrow> filter_active_routes policy get (list_routes (Some t) r))"

definition active_persisted_routes ::
  "projection_policy \<Rightarrow> (conversation_ref \<Rightarrow> conversation_binding option) \<Rightarrow>
   (thread_ref option \<Rightarrow> 'r \<Rightarrow> thread_projection_route list) \<Rightarrow> 'r \<Rightarrow>
   thread_projection_route list" where
  "active_persisted_routes policy get list_routes r =
     filter_active_routes policy get (list_routes None r)"

definition route_is_active ::
  "projection_policy \<Rightarrow> (conversation_ref \<Rightarrow> conversation_binding option) \<Rightarrow>
   (thread_ref option \<Rightarrow> 'r \<Rightarrow> thread_projection_route list) \<Rightarrow> thread_projection_route \<Rightarrow> 'r \<Rightarrow>
   bool" where
  "route_is_active policy get list_routes route r =
     (\<exists>candidate \<in> set (active_routes policy get list_routes (Some (pr_thread_ref route)) r).
        pr_route_id candidate = pr_route_id route)"

record route_refresh =
  rf_route :: thread_projection_route
  rf_created :: bool
  rf_removed_routes :: "thread_projection_route list"

text \<open>The route a refresh writes; the reply correlation of the current route is kept by default.\<close>

definition refreshed_route ::
  "(string \<Rightarrow> string) \<Rightarrow> datetime \<Rightarrow> thread_ref \<Rightarrow> conversation_ref \<Rightarrow> string option \<Rightarrow>
   thread_projection_route option \<Rightarrow> thread_projection_route" where
  "refreshed_route sha256 now thread_ref conversation_ref reply_to_message_id current = \<lparr>
     pr_route_id = derive_projection_route_id sha256 thread_ref conversation_ref,
     pr_thread_ref = thread_ref,
     pr_conversation_ref = conversation_ref,
     pr_reply_to_message_id =
       (case reply_to_message_id of
          Some m \<Rightarrow> Some m
        | None \<Rightarrow> (case current of Some c \<Rightarrow> pr_reply_to_message_id c | None \<Rightarrow> None)),
     pr_checkpoint_agent_item_id = None,
     pr_checkpointed_at = None,
     pr_updated_at = Some now\<rparr>"

definition refresh_route ::
  "(thread_ref option \<Rightarrow> 'r \<Rightarrow> thread_projection_route list) \<Rightarrow>
   (thread_projection_route \<Rightarrow> 'r \<Rightarrow> ('r, thread_projection_route) outcome) \<Rightarrow>
   (thread_projection_route \<Rightarrow> 'r \<Rightarrow> ('r, thread_projection_route) outcome) \<Rightarrow>
   (string \<Rightarrow> string) \<Rightarrow> projection_policy \<Rightarrow> datetime \<Rightarrow> thread_ref \<Rightarrow> conversation_ref \<Rightarrow>
   string option \<Rightarrow> 'r \<Rightarrow> ('r, route_refresh) outcome" where
  "refresh_route list_routes put replace sha256 policy now thread_ref conversation_ref
       reply_to_message_id r =
     (let existing = list_routes (Some thread_ref) r;
          current = find (\<lambda>route. pr_conversation_ref route = conversation_ref) existing;
          route = refreshed_route sha256 now thread_ref conversation_ref reply_to_message_id current
      in if policy = REMEMBERED_LAST_RECIPIENT
         then case replace route r of
                (Inl e, r') \<Rightarrow> raises e r'
              | (Inr stored, r') \<Rightarrow> returns \<lparr>
                  rf_route = stored, rf_created = (current = None),
                  rf_removed_routes = filter (\<lambda>removed.
                    pr_conversation_ref removed \<noteq> pr_conversation_ref stored) existing\<rparr> r'
         else case put route r of
                (Inl e, r') \<Rightarrow> raises e r'
              | (Inr stored, r') \<Rightarrow> returns \<lparr>
                  rf_route = stored, rf_created = (current = None), rf_removed_routes = []\<rparr> r')"

section \<open>The repository invariant\<close>

definition routes_inv :: "(route_key, thread_projection_route) dict \<Rightarrow> bool" where
  "routes_inv d \<longleftrightarrow>
     dict_ok d
     \<and> (\<forall>k v. dict_get d k = Some v \<longrightarrow> k = route_key v \<and> validate_projection_route v = None)
     \<and> (\<forall>k v k' v'. dict_get d k = Some v \<longrightarrow> dict_get d k' = Some v' \<longrightarrow>
           pr_route_id v = pr_route_id v' \<longrightarrow> k = k')"

definition turn_replies_inv :: "(turn_key, turn_reply_correlation) dict \<Rightarrow> bool" where
  "turn_replies_inv d \<longleftrightarrow>
     dict_ok d
     \<and> (\<forall>k c. dict_get d k = Some c \<longrightarrow> k = turn_key c \<and> validate_turn_reply_correlation c = None)"

definition projection_inv :: "projection_repository \<Rightarrow> bool" where
  "projection_inv r \<longleftrightarrow> routes_inv (pp_routes r) \<and> turn_replies_inv (pp_turn_correlations r)"

abbreviation route_at :: "route_key \<Rightarrow> projection_repository \<Rightarrow> thread_projection_route option" where
  "route_at k r \<equiv> dict_get (pp_routes r) k"

lemma projection_invD:
  assumes "projection_inv r"
  shows "dict_ok (pp_routes r)"
    and "route_at k r = Some v \<Longrightarrow> k = route_key v"
    and "route_at k r = Some v \<Longrightarrow> validate_projection_route v = None"
    and "route_at k r = Some v \<Longrightarrow> route_at k' r = Some v' \<Longrightarrow> pr_route_id v = pr_route_id v' \<Longrightarrow> k = k'"
  using assms by (auto simp: projection_inv_def routes_inv_def)

text \<open>What survives a merge: the endpoints of the new route, the checkpoint of the old one.\<close>

lemma merge_projection_route_ok:
  assumes "merge_projection_route old route = Inr stored"
  shows "pr_route_id stored = pr_route_id route"
    and "route_key stored = route_key route"
    and "pr_reply_to_message_id stored = pr_reply_to_message_id route"
    and "old = Some v \<Longrightarrow> pr_route_id v = pr_route_id route"
    and "old = Some v \<Longrightarrow> pr_checkpoint_agent_item_id stored = pr_checkpoint_agent_item_id v"
    and "old = None \<Longrightarrow> stored = route"
  using assms by (auto simp: merge_projection_route_def split: option.splits if_splits)

lemma merge_projection_route_valid:
  assumes "merge_projection_route old route = Inr stored" "validate_projection_route route = None"
    and "\<And>v. old = Some v \<Longrightarrow> validate_projection_route v = None"
  shows "validate_projection_route stored = None"
  using assms
  by (auto simp: merge_projection_route_def validate_projection_route_def
      split: option.splits if_splits)

lemma find_route:
  assumes "projection_inv r"
    and "find (\<lambda>(key, route). pr_route_id route = i) (pp_routes r) = Some (k, v)"
  shows "route_at k r = Some v \<and> pr_route_id v = i"
  using assms projection_invD(1) [OF assms(1)]
  by (auto simp: find_Some_iff map_of_eq_Some_iff set_conv_nth)

lemma find_route_None:
  assumes "projection_inv r" "route_at k r = Some v"
    and "find (\<lambda>(key, route). pr_route_id route = pr_route_id v) (pp_routes r) = None"
  shows False
  using assms(3) map_of_SomeD [OF assms(2)] by (fastforce simp: find_None_iff)

text \<open>Storing a route whose identifier no other endpoint pair uses keeps the invariant.\<close>

lemma projection_inv_set:
  assumes inv: "projection_inv r" and valid: "validate_projection_route v = None"
    and key: "k = route_key v"
    and unique: "\<And>k' v'. dict_get d k' = Some v' \<Longrightarrow> pr_route_id v' = pr_route_id v \<Longrightarrow> k' = k"
    and sub: "dict_ok d" "\<And>k' v'. dict_get d k' = Some v' \<Longrightarrow> route_at k' r = Some v'"
  shows "projection_inv (r\<lparr>pp_routes := dict_set d k v\<rparr>)"
proof -
  have old: "k' = route_key v'" "validate_projection_route v' = None"
      if "dict_get d k' = Some v'" for k' v'
    using sub(2) [OF that] projection_invD [OF inv] by blast+
  have inj: "k1 = k2" if "dict_get d k1 = Some v1" "dict_get d k2 = Some v2"
      "pr_route_id v1 = pr_route_id v2" for k1 k2 v1 v2
    using sub(2) that projection_invD(4) [OF inv] by blast
  have "turn_replies_inv (pp_turn_correlations r)" using inv by (simp add: projection_inv_def)
  then show ?thesis
    unfolding projection_inv_def routes_inv_def
    using valid key sub(1) old unique inj by (auto split: if_splits)
qed

lemma reject_conflicting_route_idD:
  assumes "projection_inv r" "reject_conflicting_route_id (dict_values (pp_routes r)) route = None"
    and "route_at k v = Some w" "v = r" "pr_route_id w = pr_route_id route"
  shows "k = route_key route"
proof -
  have "w \<in> set (dict_values (pp_routes r))" using assms(3,4) by (force dest: map_of_SomeD)
  then have "route_key w = route_key route"
    using assms(2,5) by (auto simp: reject_conflicting_route_id_def)
  with projection_invD(2) [OF assms(1)] assms(3,4) show ?thesis by metis
qed

section \<open>Behaviour of the operations\<close>

text \<open>The three writes of a route, each reduced to what it does to the map of routes.\<close>

lemma put_projection_route_ok:
  assumes inv: "projection_inv r" and put: "put_projection_route route r = (Inr stored, r')"
  shows "merge_projection_route (route_at (route_key route) r) route = Inr stored"
    and "projection_inv r'"
    and "route_at k r' = (if k = route_key route then Some stored else route_at k r)"
    and "pp_turn_correlations r' = pp_turn_correlations r"
proof -
  let ?k = "route_key route"
  have checks: "validate_projection_route route = None"
      "reject_conflicting_route_id (dict_values (pp_routes r)) route = None"
    and merge: "merge_projection_route (route_at ?k r) route = Inr stored"
    and r': "r' = r\<lparr>pp_routes := dict_set (pp_routes r) ?k stored\<rparr>"
    using put by (auto simp: put_projection_route_def outcome_simps)
  show "merge_projection_route (route_at ?k r) route = Inr stored" by (rule merge)
  have "validate_projection_route stored = None"
    using merge checks(1) projection_invD(3) [OF inv] by (rule merge_projection_route_valid)
  then show "projection_inv r'"
    unfolding r'
    using merge_projection_route_ok(1,2) [OF merge] projection_invD(1) [OF inv]
      reject_conflicting_route_idD [OF inv checks(2)]
    by (intro projection_inv_set [OF inv]) auto
  show "route_at k r' = (if k = ?k then Some stored else route_at k r)"
    and "pp_turn_correlations r' = pp_turn_correlations r" by (simp_all add: r')
qed

lemma replace_thread_projection_routes_ok:
  assumes inv: "projection_inv r"
    and put: "replace_thread_projection_routes route r = (Inr stored, r')"
  shows "merge_projection_route (route_at (route_key route) r) route = Inr stored"
    and "projection_inv r'"
    and "route_at k r' = (if k = route_key route then Some stored
                          else if fst k = pr_thread_ref route then None else route_at k r)"
    and "pp_turn_correlations r' = pp_turn_correlations r"
proof -
  let ?k = "route_key route"
  let ?d = "filter (\<lambda>(key, _). fst key \<noteq> pr_thread_ref route) (pp_routes r)"
  have checks: "validate_projection_route route = None"
      "reject_conflicting_route_id (dict_values (pp_routes r)) route = None"
    and merge: "merge_projection_route (route_at ?k r) route = Inr stored"
    and r': "r' = r\<lparr>pp_routes := dict_set ?d ?k stored\<rparr>"
    using put by (auto simp: replace_thread_projection_routes_def outcome_simps)
  show "merge_projection_route (route_at ?k r) route = Inr stored" by (rule merge)
  note d = projection_invD(1) [OF inv]
  have get: "dict_get ?d k = (if fst k = pr_thread_ref route then None else route_at k r)" for k
    using dict_get_filter [OF d, of "\<lambda>key _. fst key \<noteq> pr_thread_ref route" k]
    by (auto split: option.splits)
  have "validate_projection_route stored = None"
    using merge checks(1) projection_invD(3) [OF inv] by (rule merge_projection_route_valid)
  then show "projection_inv r'"
    unfolding r'
    using merge_projection_route_ok(1,2) [OF merge] d
      reject_conflicting_route_idD [OF inv checks(2)]
    by (intro projection_inv_set [OF inv]) (auto simp: get split: if_splits)
  show "route_at k r' = (if k = ?k then Some stored
          else if fst k = pr_thread_ref route then None else route_at k r)"
    and "pp_turn_correlations r' = pp_turn_correlations r" by (simp_all add: r' get)
qed

definition checkpointed ::
  "thread_projection_route \<Rightarrow> string \<Rightarrow> datetime \<Rightarrow> thread_projection_route" where
  "checkpointed route agent_item_id t =
     route\<lparr>pr_checkpoint_agent_item_id := Some agent_item_id, pr_checkpointed_at := Some t\<rparr>"

lemma checkpointed_simps [simp]:
  "pr_route_id (checkpointed v a t) = pr_route_id v"
  "route_key (checkpointed v a t) = route_key v"
  "pr_checkpoint_agent_item_id (checkpointed v a t) = Some a"
  by (simp_all add: checkpointed_def)

lemma advance_projection_checkpoint_ok:
  assumes inv: "projection_inv r"
    and adv: "advance_projection_checkpoint i e a t r = (Inr v, r')"
  obtains k old where "route_at k r = Some old" "pr_route_id old = i"
    "pr_checkpoint_agent_item_id old = e" "v = checkpointed old a t" "projection_inv r'"
    "\<And>k'. route_at k' r' = (if k' = k then Some v else route_at k' r)"
    "pp_turn_correlations r' = pp_turn_correlations r"
proof -
  obtain k old where find: "find (\<lambda>(key, route). pr_route_id route = i) (pp_routes r) = Some (k, old)"
    and e: "pr_checkpoint_agent_item_id old = e"
    and v: "v = checkpointed old a t" "validate_projection_route v = None"
    and r': "r' = r\<lparr>pp_routes := dict_set (pp_routes r) k v\<rparr>"
    using adv
    by (auto simp: advance_projection_checkpoint_def checkpointed_def Let_def outcome_simps
        split: option.splits if_splits)
  have old: "route_at k r = Some old" "pr_route_id old = i" using find_route [OF inv find] by auto
  have "projection_inv r'"
    unfolding r'
    using v old projection_invD [OF inv] by (intro projection_inv_set [OF inv]) auto
  then show thesis using that [OF old e v(1)] r' by simp
qed

lemma advance_stale_conflicts:
  assumes inv: "projection_inv r" and "route_at k r = Some v"
    and "pr_checkpoint_agent_item_id v \<noteq> e"
  shows "advance_projection_checkpoint (pr_route_id v) e a t r = (Inl ProjectionCheckpointConflict, r)"
proof -
  obtain k' v' where find:
      "find (\<lambda>(key, route). pr_route_id route = pr_route_id v) (pp_routes r) = Some (k', v')"
    using find_route_None [OF inv assms(2)] by fastforce
  then have "k' = k" "v' = v"
    using find_route [OF inv find] assms(2) projection_invD(4) [OF inv] by (metis option.inject)+
  with find assms(3) show ?thesis by (simp add: advance_projection_checkpoint_def)
qed

lemma routes_inv_subset:
  assumes "routes_inv d" "dict_ok d'" "\<And>k v. dict_get d' k = Some v \<Longrightarrow> dict_get d k = Some v"
  shows "routes_inv d'"
  using assms(1,2) assms(3) unfolding routes_inv_def by blast

lemma delete_projection_routes_inv:
  assumes inv: "projection_inv r"
  shows "projection_inv (snd (delete_projection_routes t c r))"
proof -
  have "routes_inv (pp_routes r)" using inv by (simp add: projection_inv_def)
  then have "routes_inv (filter (\<lambda>(k, _). P k) (pp_routes r))" for P
    using projection_invD(1) [OF inv]
    by (rule_tac routes_inv_subset) (auto simp: dict_get_filter split: option.splits if_splits)
  with inv show ?thesis
    by (simp add: delete_projection_routes_def Let_def projection_inv_def)
qed

text \<open>Turn reply correlations.\<close>

abbreviation turn_reply_at :: "turn_key \<Rightarrow> projection_repository \<Rightarrow> turn_reply_correlation option" where
  "turn_reply_at k r \<equiv> dict_get (pp_turn_correlations r) k"

lemma put_turn_reply_correlation_ok:
  assumes "put_turn_reply_correlation c r = (Inr stored, r')"
  shows "turn_reply_at k r' = (if k = turn_key c then Some stored else turn_reply_at k r)"
    and "turn_reply_at (turn_key c) r = Some old \<Longrightarrow> stored = old \<and> r' = r"
    and "same_turn_reply_correlation stored c"
    and "pp_routes r' = pp_routes r"
  using assms
  by (auto simp: put_turn_reply_correlation_def same_turn_reply_correlation_def outcome_simps
      split: option.splits if_splits)

lemma turn_replies_inv_subset:
  assumes "turn_replies_inv d" "dict_ok d'" "\<And>k v. dict_get d' k = Some v \<Longrightarrow> dict_get d k = Some v"
  shows "turn_replies_inv d'"
  using assms(1,2) assms(3) unfolding turn_replies_inv_def by blast

lemma turn_ops_inv:
  assumes inv: "projection_inv r"
  shows "projection_inv (snd (put_turn_reply_correlation c r))"
    and "projection_inv (snd (delete_turn_reply_correlation t i r))"
    and "projection_inv (snd (delete_turn_reply_correlations s d o1 r))"
proof -
  have turns: "turn_replies_inv (pp_turn_correlations r)" and ok: "dict_ok (pp_turn_correlations r)"
    using inv by (simp_all add: projection_inv_def turn_replies_inv_def)
  have "turn_replies_inv (dict_set (pp_turn_correlations r) (turn_key c) c)"
    if "validate_turn_reply_correlation c = None"
    using turns that by (auto simp: turn_replies_inv_def)
  with inv show "projection_inv (snd (put_turn_reply_correlation c r))"
    by (auto simp: put_turn_reply_correlation_def guarded_snd projection_inv_def split: option.splits)
  have "turn_replies_inv (dict_pop (pp_turn_correlations r) (t, i))"
    using turns by (auto simp: turn_replies_inv_def split: if_splits)
  with inv show "projection_inv (snd (delete_turn_reply_correlation t i r))"
    by (simp add: delete_turn_reply_correlation_def projection_inv_def)
  have "turn_replies_inv (filter (\<lambda>(_, c). P c) (pp_turn_correlations r))" for P
    using turns ok
    by (rule_tac turn_replies_inv_subset) (auto simp: dict_get_filter split: option.splits if_splits)
  with inv show "projection_inv (snd (delete_turn_reply_correlations s d o1 r))"
    by (simp add: delete_turn_reply_correlations_def guarded_snd Let_def projection_inv_def)
qed

section \<open>Interleavings\<close>

lemma rolls_back_discard [rolls_back_intros]: "rolls_back s k \<Longrightarrow> rolls_back s (discard k)"
  by (simp add: rolls_back_def discard_def)

lemma discard_simps [simp]:
  "snd (discard k) = snd k" "fst (discard k) = Inr u \<longleftrightarrow> (\<exists>v. fst k = Inr v)"
  "fst (discard k) = Inl e \<longleftrightarrow> fst k = Inl e"
  by (cases "fst k"; simp add: discard_def)+

lemmas projection_op_defs =
  put_projection_route_def replace_thread_projection_routes_def advance_projection_checkpoint_def
  delete_projection_routes_def put_turn_reply_correlation_def delete_turn_reply_correlation_def
  delete_turn_reply_correlations_def

lemma rolls_back_prod [rolls_back_intros]:
  "(\<And>a b. p = (a, b) \<Longrightarrow> rolls_back s (f a b)) \<Longrightarrow> rolls_back s (case p of (a, b) \<Rightarrow> f a b)"
  by (cases p) simp

lemma projection_exec_rolls_back: "rolls_back r (projection_exec c r)"
  by (cases c) (simp_all only: projection_exec.simps projection_op_defs, (intro rolls_back_intros)+)

interpretation memory_projections_atomic: failure_atomic projection_exec
  by unfold_locales (rule rolls_backD [OF projection_exec_rolls_back])

lemma route_write_inv:
  assumes inv: "projection_inv r"
  shows "projection_inv (snd (put_projection_route route r))"
    and "projection_inv (snd (replace_thread_projection_routes route r))"
    and "projection_inv (snd (advance_projection_checkpoint i e a t r))"
proof -
  note frame = rolls_backD [OF projection_exec_rolls_back]
  show "projection_inv (snd (put_projection_route route r))"
    using frame [of "PutRoute route" r] inv put_projection_route_ok(2) [OF inv]
    by (cases "put_projection_route route r"; cases "fst (put_projection_route route r)") auto
  show "projection_inv (snd (replace_thread_projection_routes route r))"
    using frame [of "ReplaceRoutes route" r] inv replace_thread_projection_routes_ok(2) [OF inv]
    by (cases "replace_thread_projection_routes route r";
        cases "fst (replace_thread_projection_routes route r)") auto
  show "projection_inv (snd (advance_projection_checkpoint i e a t r))"
    using frame [of "AdvanceCheckpoint i e a t" r] inv
      advance_projection_checkpoint_ok [OF inv, of i e a t]
    by (cases "advance_projection_checkpoint i e a t r";
        cases "fst (advance_projection_checkpoint i e a t r)") auto
qed

interpretation memory_projections_inv: op_system projection_exec projection_inv
proof
  fix r c
  assume "projection_inv r"
  then show "projection_inv (snd (projection_exec c r))"
    by (cases c) (auto simp: route_write_inv delete_projection_routes_inv turn_ops_inv)
qed

text \<open>
  Only \<open>advance_projection_checkpoint\<close> changes the checkpoint of a route that stays: every other
  operation keeps identifier, endpoints and checkpoint.
\<close>

definition same_route :: "thread_projection_route \<Rightarrow> thread_projection_route \<Rightarrow> bool" where
  "same_route v w \<longleftrightarrow> pr_route_id w = pr_route_id v \<and> route_key w = route_key v"

definition same_checkpoint :: "thread_projection_route \<Rightarrow> thread_projection_route \<Rightarrow> bool" where
  "same_checkpoint v w \<longleftrightarrow> pr_checkpoint_agent_item_id w = pr_checkpoint_agent_item_id v"

lemma same_route_refl [simp]: "same_route v v" "same_checkpoint v v"
  by (simp_all add: same_route_def same_checkpoint_def)

lemma merge_same:
  assumes "projection_inv r" "merge_projection_route (route_at (route_key route) r) route = Inr w"
    and "route_at (route_key route) r = Some v"
  shows "same_route v w" "same_checkpoint v w"
proof -
  have "route_key v = route_key route" using projection_invD(2) [OF assms(1,3)] by simp
  then show "same_route v w"
    using merge_projection_route_ok(1,2) [OF assms(2)] merge_projection_route_ok(4) [OF assms(2,3)]
    by (simp add: same_route_def)
  show "same_checkpoint v w"
    using merge_projection_route_ok(5) [OF assms(2,3)] by (simp add: same_checkpoint_def)
qed

lemma put_projection_route_keeps:
  assumes inv: "projection_inv r" and old: "route_at k r = Some v"
  shows "\<exists>w. route_at k (snd (put_projection_route route r)) = Some w
            \<and> same_route v w \<and> same_checkpoint v w"
proof (cases "put_projection_route route r")
  case (Pair x r')
  show ?thesis
  proof (cases x)
    case (Inl e)
    with Pair old show ?thesis
      using rolls_backD [OF projection_exec_rolls_back, of "PutRoute route" r] by simp
  next
    case (Inr w)
    note ok = put_projection_route_ok [OF inv Pair [unfolded Inr]]
    show ?thesis
      using old merge_same [OF inv ok(1)] Pair by (cases "k = route_key route") (auto simp: ok(3))
  qed
qed

lemma replace_thread_projection_routes_keeps:
  assumes inv: "projection_inv r" and old: "route_at k r = Some v"
    and new: "route_at k (snd (replace_thread_projection_routes route r)) = Some w"
  shows "same_route v w" "same_checkpoint v w"
proof (atomize (full), cases "replace_thread_projection_routes route r")
  case (Pair x r')
  show "same_route v w \<and> same_checkpoint v w"
  proof (cases x)
    case (Inl e)
    with Pair old new show ?thesis
      using rolls_backD [OF projection_exec_rolls_back, of "ReplaceRoutes route" r] by simp
  next
    case (Inr u)
    note ok = replace_thread_projection_routes_ok [OF inv Pair [unfolded Inr]]
    show ?thesis
      using old new merge_same [OF inv ok(1)] Pair
      by (cases "k = route_key route") (auto simp: ok(3) split: if_splits)
  qed
qed

lemma advance_projection_checkpoint_keeps:
  assumes inv: "projection_inv r" and old: "route_at k r = Some v"
    and new: "route_at k (snd (advance_projection_checkpoint i e a t r)) = Some w"
  shows "same_route v w \<and> (same_checkpoint v w
           \<or> pr_checkpoint_agent_item_id v = e \<and> pr_checkpoint_agent_item_id w = Some a)"
proof (cases "advance_projection_checkpoint i e a t r")
  case (Pair x r')
  show ?thesis
  proof (cases x)
    case (Inl err)
    then have "r' = r"
      using Pair rolls_backD [OF projection_exec_rolls_back, of "AdvanceCheckpoint i e a t" r] by simp
    with old new Pair show ?thesis by simp
  next
    case (Inr y)
    with Pair obtain k' old' where "route_at k' r = Some old'" "pr_checkpoint_agent_item_id old' = e"
        "y = checkpointed old' a t" "\<And>l. route_at l r' = (if l = k' then Some y else route_at l r)"
      by (auto elim: advance_projection_checkpoint_ok [OF inv])
    with old new Pair show ?thesis by (auto simp: same_route_def checkpointed_def split: if_splits)
  qed
qed

lemma delete_projection_routes_keeps:
  assumes "projection_inv r" "route_at k (snd (delete_projection_routes t c r)) = Some w"
  shows "route_at k r = Some w"
  using assms projection_invD(1) [OF assms(1)]
  by (auto simp: delete_projection_routes_def Let_def dict_get_filter split: option.splits if_splits)

lemma turn_ops_routes [simp]:
  "pp_routes (snd (put_turn_reply_correlation c r)) = pp_routes r"
  "pp_routes (snd (delete_turn_reply_correlation t i r)) = pp_routes r"
  "pp_routes (snd (delete_turn_reply_correlations s d o1 r)) = pp_routes r"
  by (auto simp: put_turn_reply_correlation_def delete_turn_reply_correlation_def
      delete_turn_reply_correlations_def guarded_snd Let_def split: option.splits)

lemma exec_keeps_route:
  assumes inv: "projection_inv r" and old: "route_at k r = Some v"
    and new: "route_at k (snd (projection_exec c r)) = Some w"
  shows "same_route v w \<and> (same_checkpoint v w \<or>
           (\<exists>i a t. c = AdvanceCheckpoint i (pr_checkpoint_agent_item_id v) a t
              \<and> pr_checkpoint_agent_item_id w = Some a))"
proof (cases c)
  case (PutRoute route)
  then show ?thesis using put_projection_route_keeps [OF inv old, of route] new by auto
next
  case (ReplaceRoutes route)
  then show ?thesis using replace_thread_projection_routes_keeps [OF inv old] new by auto
next
  case (AdvanceCheckpoint i e a t)
  then show ?thesis using advance_projection_checkpoint_keeps [OF inv old, of i e a t w] new by auto
next
  case (DeleteRoutes t d)
  then show ?thesis using delete_projection_routes_keeps [OF inv] old new by auto
qed (use old new in auto)

text \<open>While nothing deletes it, the correlation recorded for a Turn is the first one.\<close>

definition deletes_turn_replies :: "projection_op \<Rightarrow> bool" where
  "deletes_turn_replies c \<longleftrightarrow>
     (case c of DeleteTurnReply t i \<Rightarrow> True | DeleteTurnReplies t d o1 \<Rightarrow> True | _ \<Rightarrow> False)"

lemma route_ops_turn_replies [simp]:
  "pp_turn_correlations (snd (put_projection_route route r)) = pp_turn_correlations r"
  "pp_turn_correlations (snd (replace_thread_projection_routes route r)) = pp_turn_correlations r"
  "pp_turn_correlations (snd (advance_projection_checkpoint i e a t r)) = pp_turn_correlations r"
  "pp_turn_correlations (snd (delete_projection_routes u d r)) = pp_turn_correlations r"
  by (auto simp: put_projection_route_def replace_thread_projection_routes_def
      advance_projection_checkpoint_def delete_projection_routes_def guarded_snd Let_def with_res_def
      split: option.splits sum.splits)

lemma exec_keeps_turn_reply:
  assumes "turn_reply_at k r = Some c" and "\<not> deletes_turn_replies x"
  shows "turn_reply_at k (snd (projection_exec x r)) = Some c"
  using assms
  by (cases x)
    (auto simp: deletes_turn_replies_def put_turn_reply_correlation_def guarded_snd
      split: option.splits)

definition keeps_turn_replies :: "projection_repository \<Rightarrow> projection_repository \<Rightarrow> bool" where
  "keeps_turn_replies r r' \<longleftrightarrow> (\<forall>k c. turn_reply_at k r = Some c \<longrightarrow> turn_reply_at k r' = Some c)"

interpretation memory_turn_replies_mono:
  monotone_ops projection_exec projection_inv "\<lambda>c. \<not> deletes_turn_replies c" keeps_turn_replies
  by unfold_locales (auto simp: keeps_turn_replies_def exec_keeps_turn_reply)

section \<open>The contract of a route store\<close>

text \<open>
  What the checkpoint authority and the route authority rely on: the effect of each write on the
  map from endpoint pairs to routes (\<open>lookup\<close>), and that a listing shows exactly that map.
\<close>

locale route_store =
  fixes list_routes :: "thread_ref option \<Rightarrow> 'r \<Rightarrow> thread_projection_route list"
    and put :: "thread_projection_route \<Rightarrow> 'r \<Rightarrow> ('r, thread_projection_route) outcome"
    and replace :: "thread_projection_route \<Rightarrow> 'r \<Rightarrow> ('r, thread_projection_route) outcome"
    and advance :: "string \<Rightarrow> string option \<Rightarrow> string \<Rightarrow> datetime \<Rightarrow> 'r \<Rightarrow>
        ('r, thread_projection_route) outcome"
    and lookup :: "route_key \<Rightarrow> 'r \<Rightarrow> thread_projection_route option"
    and inv :: "'r \<Rightarrow> bool"
  assumes list_thread: "inv r \<Longrightarrow> set (list_routes (Some t) r) = {v. \<exists>c. lookup (t, c) r = Some v}"
    and lookup_key: "inv r \<Longrightarrow> lookup k r = Some v \<Longrightarrow> k = route_key v"
    and put_ok: "inv r \<Longrightarrow> put route r = (Inr stored, r') \<Longrightarrow>
        merge_projection_route (lookup (route_key route) r) route = Inr stored \<and> inv r'
        \<and> (\<forall>k. lookup k r' = (if k = route_key route then Some stored else lookup k r))"
    and replace_ok: "inv r \<Longrightarrow> replace route r = (Inr stored, r') \<Longrightarrow>
        merge_projection_route (lookup (route_key route) r) route = Inr stored \<and> inv r'
        \<and> (\<forall>k. lookup k r' = (if k = route_key route then Some stored
                 else if fst k = pr_thread_ref route then None else lookup k r))"
    and advance_ok: "inv r \<Longrightarrow> advance i e a now r = (Inr v, r') \<Longrightarrow>
        \<exists>k old. lookup k r = Some old \<and> pr_route_id old = i \<and> pr_checkpoint_agent_item_id old = e
          \<and> v = checkpointed old a now
          \<and> (\<forall>k'. lookup k' r' = (if k' = k then Some v else lookup k' r))"
begin

text \<open>
  A delivery outcome that is not a completed one never reaches the store, and one that does
  moves the checkpoint from the value the caller saw to the delivered item.
\<close>

lemma apply_outcome_effect:
  assumes inv: "inv r"
    and ok: "apply_delivery_outcome advance now route item chk outcome auth r = (Inr v, r')"
  shows "r' = r \<and> v = route \<or>
    chk \<and> (outcome = CLAIM_ACQUIRED \<or> outcome = CLAIM_ALREADY_COMPLETED \<and> auth)
    \<and> (\<exists>k old. lookup k r = Some old \<and> pr_route_id old = pr_route_id route
         \<and> pr_checkpoint_agent_item_id old = pr_checkpoint_agent_item_id route
         \<and> v = checkpointed old item now
         \<and> (\<forall>k'. lookup k' r' = (if k' = k then Some v else lookup k' r)))"
proof -
  consider "r' = r" "v = route"
    | "chk" "outcome = CLAIM_ACQUIRED \<or> outcome = CLAIM_ALREADY_COMPLETED \<and> auth"
      "advance (pr_route_id route) (pr_checkpoint_agent_item_id route) item now r = (Inr v, r')"
    using ok by (cases outcome) (auto simp: apply_delivery_outcome_def split: if_splits)
  then show ?thesis
  proof cases
    case 2
    from advance_ok [OF inv 2(3)] 2(1,2) show ?thesis by blast
  qed simp
qed

lemma refresh_writes:
  assumes inv: "inv r"
    and ok: "refresh_route list_routes put replace sha256 policy now t c reply r = (Inr f, r')"
  obtains current where
    "merge_projection_route (lookup (t, c) r) (refreshed_route sha256 now t c reply current)
       = Inr (rf_route f)"
    "inv r'"
    "\<forall>k. lookup k r' = (if k = (t, c) then Some (rf_route f)
        else if policy = REMEMBERED_LAST_RECIPIENT \<and> fst k = t then None else lookup k r)"
proof -
  define current where
    "current = find (\<lambda>route. pr_conversation_ref route = c) (list_routes (Some t) r)"
  let ?route = "refreshed_route sha256 now t c reply current"
  have key: "route_key ?route = (t, c)" "pr_thread_ref ?route = t"
    by (simp_all add: refreshed_route_def)
  show thesis
  proof (cases "policy = REMEMBERED_LAST_RECIPIENT")
    case True
    then have "replace ?route r = (Inr (rf_route f), r')"
      using ok by (auto simp: refresh_route_def Let_def current_def split: prod.splits sum.splits)
    from replace_ok [OF inv this] True key show thesis by (intro that [of current]) auto
  next
    case False
    then have "put ?route r = (Inr (rf_route f), r')"
      using ok by (auto simp: refresh_route_def Let_def current_def split: prod.splits sum.splits)
    from put_ok [OF inv this] False key show thesis by (intro that [of current]) auto
  qed
qed

text \<open>
  A refresh stores the route under its derived identifier, leaves other Threads alone and, for a
  route that exists already, keeps the checkpoint: observing again never replays history.
\<close>

lemma refresh_effect:
  assumes "inv r"
    and "refresh_route list_routes put replace sha256 policy now t c reply r = (Inr f, r')"
  shows "lookup (t, c) r' = Some (rf_route f)
    \<and> pr_route_id (rf_route f) = derive_projection_route_id sha256 t c
    \<and> (\<forall>old. lookup (t, c) r = Some old \<longrightarrow>
         pr_checkpoint_agent_item_id (rf_route f) = pr_checkpoint_agent_item_id old)
    \<and> (\<forall>k. fst k \<noteq> t \<longrightarrow> lookup k r' = lookup k r)"
  using assms
proof (rule refresh_writes)
  fix current
  assume merge: "merge_projection_route (lookup (t, c) r)
      (refreshed_route sha256 now t c reply current) = Inr (rf_route f)"
    and "\<forall>k. lookup k r' = (if k = (t, c) then Some (rf_route f)
        else if policy = REMEMBERED_LAST_RECIPIENT \<and> fst k = t then None else lookup k r)"
  then show ?thesis
    using merge_projection_route_ok(1,5) [OF merge] by (auto simp: refreshed_route_def)
qed

text \<open>Under the last-recipient policy a Thread has exactly one destination after a refresh.\<close>

lemma refresh_single_destination:
  assumes "inv r"
    and "refresh_route list_routes put replace sha256 REMEMBERED_LAST_RECIPIENT now t c reply r
           = (Inr f, r')"
  shows "set (list_routes (Some t) r') = {rf_route f}"
  using assms by (rule refresh_writes) (auto simp: list_thread)

end

interpretation memory_routes: route_store list_projection_routes put_projection_route
  replace_thread_projection_routes advance_projection_checkpoint route_at projection_inv
proof
  fix r t
  assume inv: "projection_inv r"
  show "set (list_projection_routes (Some t) r) = {v. \<exists>c. route_at (t, c) r = Some v}"
    using dict_values_iff [OF projection_invD(1) [OF inv]] projection_invD(2) [OF inv]
    by (fastforce simp: list_projection_routes_def)
next
  fix r k v
  assume "projection_inv r" "route_at k r = Some v"
  then show "k = route_key v" by (rule projection_invD(2))
next
  fix r route stored r'
  assume "projection_inv r" "put_projection_route route r = (Inr stored, r')"
  note ok = put_projection_route_ok [OF this]
  show "merge_projection_route (route_at (route_key route) r) route = Inr stored \<and> projection_inv r'
      \<and> (\<forall>k. route_at k r' = (if k = route_key route then Some stored else route_at k r))"
    by (intro conjI allI ok)
next
  fix r route stored r'
  assume "projection_inv r" "replace_thread_projection_routes route r = (Inr stored, r')"
  note ok = replace_thread_projection_routes_ok [OF this]
  show "merge_projection_route (route_at (route_key route) r) route = Inr stored \<and> projection_inv r'
      \<and> (\<forall>k. route_at k r' = (if k = route_key route then Some stored
               else if fst k = pr_thread_ref route then None else route_at k r))"
    by (intro conjI allI ok)
next
  fix r i e a now v r'
  assume "projection_inv r" "advance_projection_checkpoint i e a now r = (Inr v, r')"
  then show "\<exists>k old. route_at k r = Some old \<and> pr_route_id old = i
      \<and> pr_checkpoint_agent_item_id old = e \<and> v = checkpointed old a now
      \<and> (\<forall>k'. route_at k' r' = (if k' = k then Some v else route_at k' r))"
    by (rule advance_projection_checkpoint_ok) metis
qed

section \<open>Properties\<close>

text \<open>
  C15: a checkpoint moves only by compare-and-set. Along every operation of the repository a route
  that stays keeps its identifier and its endpoints, and its checkpoint either stays or is replaced
  by an \<open>advance_projection_checkpoint\<close> that named the checkpoint it replaces.
\<close>

theorem checkpoint_only_by_advance:
  assumes "projection_inv r" and "route_at k (run_ops projection_exec cs r) = Some v"
    and "route_at k (snd (projection_exec c (run_ops projection_exec cs r))) = Some w"
  shows "pr_route_id w = pr_route_id v \<and> route_key w = route_key v
    \<and> (pr_checkpoint_agent_item_id w = pr_checkpoint_agent_item_id v
       \<or> (\<exists>i a t. c = AdvanceCheckpoint i (pr_checkpoint_agent_item_id v) a t
            \<and> pr_checkpoint_agent_item_id w = Some a))"
  using exec_keeps_route [OF memory_projections_inv.run_inv [OF assms(1)] assms(2,3)]
  by (simp add: same_route_def same_checkpoint_def)

theorem checkpoint_only_by_advance_witness:
  "let w = sample_route\<lparr>pr_checkpoint_agent_item_id := Some ''i'', pr_checkpointed_at := Some (utc 1)\<rparr>
   in pr_route_id w = pr_route_id sample_route \<and> route_key w = route_key sample_route
    \<and> (pr_checkpoint_agent_item_id w = pr_checkpoint_agent_item_id sample_route
       \<or> (\<exists>i a t. AdvanceCheckpoint ''r'' None ''i'' (utc 1)
              = AdvanceCheckpoint i (pr_checkpoint_agent_item_id sample_route) a t
            \<and> pr_checkpoint_agent_item_id w = Some a))"
  unfolding Let_def
  by (rule checkpoint_only_by_advance [where r = empty_projections and cs = "[PutRoute sample_route]"
        and k = "(sample_thread, sample_conversation)"])
    (simp add: empty_projections_def projection_inv_def routes_inv_def turn_replies_inv_def | code_simp)+

text \<open>
  Of two workers that saw the same checkpoint, the second to advance it is refused. After an
  advance that moved a route to a new item, another advance from the old checkpoint raises
  \<open>ProjectionCheckpointConflict\<close> and changes nothing.
\<close>

theorem second_advance_conflicts:
  assumes "projection_inv r" and "advance_projection_checkpoint i e a t r = (Inr v, r')" and "e \<noteq> Some a"
  shows "advance_projection_checkpoint i e b t' r' = (Inl ProjectionCheckpointConflict, r')"
proof -
  obtain k old where moved: "route_at k r = Some old" "pr_route_id old = i"
      "pr_checkpoint_agent_item_id old = e" "v = checkpointed old a t" "projection_inv r'"
      "\<And>k'. route_at k' r' = (if k' = k then Some v else route_at k' r)"
    using assms(1,2) by (rule advance_projection_checkpoint_ok) (rule that, simp_all)
  have "route_at k r' = Some v" by (simp add: moved(6))
  from advance_stale_conflicts [OF moved(5) this, of e b t'] show ?thesis
    using moved(2,4) assms(3) by auto
qed

theorem second_advance_conflicts_witness:
  "let r = \<lparr>pp_routes = [((sample_thread, sample_conversation), sample_route)], pp_turn_correlations = []\<rparr>;
       r' = snd (advance_projection_checkpoint ''r'' None ''i'' (utc 1) r)
   in advance_projection_checkpoint ''r'' None ''j'' (utc 2) r' = (Inl ProjectionCheckpointConflict, r')"
  unfolding Let_def
  by (rule second_advance_conflicts [where a = "''i''" and t = "utc 1"
        and r = "\<lparr>pp_routes = [((sample_thread, sample_conversation), sample_route)], pp_turn_correlations = []\<rparr>"
        and v = "checkpointed sample_route ''i'' (utc 1)"])
    (simp add: projection_inv_def routes_inv_def turn_replies_inv_def sample_defs
        validate_projection_route_def validate_thread_ref_def validate_project_ref_def
        validate_conversation_ref_def | code_simp)+

text \<open>
  Refreshing a route never replays history and never crosses threads: the stored route carries
  the derived identifier and the checkpoint the route had before, routes of other threads are
  untouched, and under the last-recipient policy it is the only route of its thread.
\<close>

theorem refresh_keeps_checkpoint:
  assumes "projection_inv r"
    and "refresh_route list_projection_routes put_projection_route replace_thread_projection_routes
           sha256 policy now t c reply r = (Inr f, r')"
  shows "route_at (t, c) r' = Some (rf_route f)
    \<and> pr_route_id (rf_route f) = derive_projection_route_id sha256 t c
    \<and> (\<forall>old. route_at (t, c) r = Some old \<longrightarrow>
         pr_checkpoint_agent_item_id (rf_route f) = pr_checkpoint_agent_item_id old)
    \<and> (\<forall>k. fst k \<noteq> t \<longrightarrow> route_at k r' = route_at k r)
    \<and> (policy = REMEMBERED_LAST_RECIPIENT \<longrightarrow> set (list_projection_routes (Some t) r') = {rf_route f})"
  using memory_routes.refresh_effect [OF assms] memory_routes.refresh_single_destination [OF assms(1)] assms(2)
  by blast

theorem refresh_keeps_checkpoint_witness:
  "let refreshed = refresh_route list_projection_routes put_projection_route
         replace_thread_projection_routes (\<lambda>_. ''h'') REMEMBERED_LAST_RECIPIENT (utc 5)
         sample_thread sample_conversation None;
       f = \<lparr>rf_route = refreshed_route (\<lambda>_. ''h'') (utc 5) sample_thread sample_conversation None None,
            rf_created = True, rf_removed_routes = []\<rparr>;
       r' = snd (refreshed empty_projections)
   in route_at (sample_thread, sample_conversation) r' = Some (rf_route f)
    \<and> pr_route_id (rf_route f) = derive_projection_route_id (\<lambda>_. ''h'') sample_thread sample_conversation
    \<and> (\<forall>old. route_at (sample_thread, sample_conversation) empty_projections = Some old \<longrightarrow>
         pr_checkpoint_agent_item_id (rf_route f) = pr_checkpoint_agent_item_id old)
    \<and> (\<forall>k. fst k \<noteq> sample_thread \<longrightarrow> route_at k r' = route_at k empty_projections)
    \<and> (REMEMBERED_LAST_RECIPIENT = REMEMBERED_LAST_RECIPIENT \<longrightarrow>
         set (list_projection_routes (Some sample_thread) r') = {rf_route f})"
  unfolding Let_def
  by (rule refresh_keeps_checkpoint [where now = "utc 5" and reply = None])
    (simp add: empty_projections_def projection_inv_def routes_inv_def turn_replies_inv_def | code_simp)+

text \<open>
  C16: a delivery outcome moves a checkpoint only when it is final and authorised. When
  \<open>apply_delivery_outcome\<close> returns, either it changed nothing, or the item was checkpointable, the
  delivery was acquired by this call (or completed before and reported by the authority), and
  exactly the caller's route went from the checkpoint the caller saw to the delivered item.
\<close>

theorem outcome_moves_checkpoint_once_final:
  assumes "projection_inv r"
    and "apply_delivery_outcome advance_projection_checkpoint now route item chk outcome auth r = (Inr v, r')"
  shows "r' = r \<and> v = route \<or>
    chk \<and> (outcome = CLAIM_ACQUIRED \<or> outcome = CLAIM_ALREADY_COMPLETED \<and> auth)
    \<and> (\<exists>k old. route_at k r = Some old \<and> pr_route_id old = pr_route_id route
         \<and> pr_checkpoint_agent_item_id old = pr_checkpoint_agent_item_id route
         \<and> v = checkpointed old item now
         \<and> (\<forall>k'. route_at k' r' = (if k' = k then Some v else route_at k' r)))"
  using assms by (rule memory_routes.apply_outcome_effect)

theorem outcome_moves_checkpoint_once_final_witness:
  "let r = \<lparr>pp_routes = [((sample_thread, sample_conversation), sample_route)], pp_turn_correlations = []\<rparr>;
       r' = snd (advance_projection_checkpoint ''r'' None ''i'' (utc 1) r);
       v = checkpointed sample_route ''i'' (utc 1)
   in r' = r \<and> v = sample_route \<or>
    True \<and> (CLAIM_ACQUIRED = CLAIM_ACQUIRED \<or> CLAIM_ACQUIRED = CLAIM_ALREADY_COMPLETED \<and> False)
    \<and> (\<exists>k old. route_at k r = Some old \<and> pr_route_id old = pr_route_id sample_route
         \<and> pr_checkpoint_agent_item_id old = pr_checkpoint_agent_item_id sample_route
         \<and> v = checkpointed old ''i'' (utc 1)
         \<and> (\<forall>k'. route_at k' r' = (if k' = k then Some v else route_at k' r)))"
  unfolding Let_def
  by (rule outcome_moves_checkpoint_once_final)
    (simp add: projection_inv_def routes_inv_def turn_replies_inv_def sample_defs
        validate_projection_route_def validate_thread_ref_def validate_project_ref_def
        validate_conversation_ref_def | code_simp)+

text \<open>
  The reply target of a turn is fixed by the first correlation: while no operation deletes
  turn correlations, every interleaving returns for a turn the correlation that was recorded first.
\<close>

theorem turn_reply_is_first_recorded:
  assumes "projection_inv r" and "get_turn_reply_correlation t i r = Some c"
    and "\<forall>x \<in> set cs. \<not> deletes_turn_replies x"
  shows "get_turn_reply_correlation t i (run_ops projection_exec cs r) = Some c"
  using memory_turn_replies_mono.run_le [OF assms(1,3)] assms(2)
  by (simp add: keeps_turn_replies_def get_turn_reply_correlation_def)

theorem turn_reply_is_first_recorded_witness:
  "get_turn_reply_correlation sample_thread ''u'' (run_ops projection_exec
     [PutTurnReply (sample_turn_reply\<lparr>tc_reply_to_message_id := ''other''\<rparr>), PutRoute sample_route]
     \<lparr>pp_routes = [], pp_turn_correlations = [((sample_thread, ''u''), sample_turn_reply)]\<rparr>)
   = Some sample_turn_reply"
  by (rule turn_reply_is_first_recorded)
    (simp add: projection_inv_def routes_inv_def turn_replies_inv_def sample_defs
        validate_turn_reply_correlation_def validate_turn_ref_def validate_thread_ref_def
        validate_project_ref_def validate_conversation_ref_def | code_simp)+

end
