(* ===== verification/Request_Correlations.thy ===== *)
theory Request_Correlations
  imports Projection_Routes
begin

text \<open>
  Interactive-request correlations: the merge and transition rules of
  \<open>gateway/projection/request_correlation.py\<close>, the process-local repository built on them
  (\<open>gateway/persistence/memory.py\<close>), and the runtime that publishes requests, routes responses
  to the native application and converges on its resolution events.
\<close>

section \<open>Merge and transition rules\<close>

fun request_state_precedence :: "request_route_state \<Rightarrow> nat" where
  "request_state_precedence RRS_OPEN = 0"
| "request_state_precedence RRS_RESPONDED = 1"
| "request_state_precedence RRS_STALE = 2"
| "request_state_precedence RRS_RESOLVED = 3"

abbreviation state_rank :: "request_route_correlation \<Rightarrow> nat" where
  "state_rank c \<equiv> request_state_precedence (rc_state c)"

text \<open>Tuple comparison of the keys \<open>(precedence, updated_at)\<close>.\<close>

definition terminal_key_less :: "request_route_correlation \<Rightarrow> request_route_correlation \<Rightarrow> bool" where
  "terminal_key_less a b \<longleftrightarrow>
     state_rank a < state_rank b
     \<or> state_rank a = state_rank b \<and> dt_less (rc_updated_at a) (rc_updated_at b)"

text \<open>Python's \<open>max(..., key=..., default=None)\<close>: the first element no later one exceeds.\<close>

fun max_by :: "('a \<Rightarrow> 'a \<Rightarrow> bool) \<Rightarrow> 'a list \<Rightarrow> 'a option" where
  "max_by lt [] = None"
| "max_by lt (x # xs) = Some (foldl (\<lambda>best y. if lt best y then y else best) x xs)"

definition merge_correlation ::
  "request_route_correlation option \<Rightarrow> request_route_correlation \<Rightarrow>
   request_route_correlation list \<Rightarrow> request_route_correlation res" where
  "merge_correlation existing replacement request_correlations =
     (case existing of
        None \<Rightarrow>
          (case max_by terminal_key_less
                  (filter (\<lambda>c. rc_state c \<noteq> RRS_OPEN) request_correlations) of
             None \<Rightarrow> Inr replacement
           | Some terminal \<Rightarrow> Inr (replacement\<lparr>
               rc_state := rc_state terminal,
               rc_updated_at := dt_max (rc_updated_at replacement) (rc_updated_at terminal)\<rparr>))
      | Some old \<Rightarrow>
          if rc_correlation_id old \<noteq> rc_correlation_id replacement
             \<or> rc_request_ref old \<noteq> rc_request_ref replacement
             \<or> rc_turn_ref old \<noteq> rc_turn_ref replacement
             \<or> rc_conversation_ref old \<noteq> rc_conversation_ref replacement
             \<or> rc_response_shape old \<noteq> rc_response_shape replacement
          then Inl RequestCorrelationConflict
          else if rc_state old \<in> {RRS_RESPONDED, RRS_RESOLVED, RRS_STALE} then Inr old
          else Inr replacement)"

definition transition_correlations ::
  "request_route_correlation list \<Rightarrow> request_route_state list \<Rightarrow> request_route_state \<Rightarrow> datetime \<Rightarrow>
   request_route_correlation list res" where
  "transition_correlations correlations expected_states state updated_at =
     (if correlations = [] then Inl KeyError
      else if \<forall>c \<in> set correlations. rc_state c = state then Inr correlations
      else if \<exists>c \<in> set correlations. rc_state c \<notin> set expected_states
      then Inl RequestCorrelationConflict
      else if \<exists>c \<in> set correlations. request_state_precedence state < state_rank c
      then Inl RequestCorrelationConflict
      else let transitioned =
             map (\<lambda>c. c\<lparr>rc_state := state, rc_updated_at := updated_at\<rparr>) correlations
           in case first_error (map validate_request_route_correlation transitioned) of
                Some e \<Rightarrow> Inl e
              | None \<Rightarrow> Inr transitioned)"

definition reject_conflicting_endpoint ::
  "request_route_correlation list \<Rightarrow> request_route_correlation \<Rightarrow> check" where
  "reject_conflicting_endpoint correlations replacement =
     raise_if (\<exists>existing \<in> set correlations.
         rc_request_ref existing = rc_request_ref replacement
         \<and> rc_conversation_ref existing = rc_conversation_ref replacement
         \<and> rc_correlation_id existing \<noteq> rc_correlation_id replacement)
       RequestCorrelationConflict"

text \<open>Stored timestamps are validated as timezone-aware, so the age test compares with an aware
  bound; with a naive one the first comparison that is reached raises \<open>TypeError\<close>.\<close>

definition selector_matches ::
  "request_ref option \<Rightarrow> thread_ref option \<Rightarrow> conversation_ref option \<Rightarrow>
   request_route_correlation \<Rightarrow> bool" where
  "selector_matches request_ref thread_ref conversation_ref c \<longleftrightarrow>
     (request_ref = None \<or> request_ref = Some (rc_request_ref c))
     \<and> (thread_ref = None \<or> thread_ref = Some (tn_thread_ref (rc_turn_ref c)))
     \<and> (conversation_ref = None \<or> conversation_ref = Some (rc_conversation_ref c))"

definition matches ::
  "request_ref option \<Rightarrow> thread_ref option \<Rightarrow> conversation_ref option \<Rightarrow> datetime option \<Rightarrow>
   request_route_correlation \<Rightarrow> bool" where
  "matches request_ref thread_ref conversation_ref older_than c \<longleftrightarrow>
     selector_matches request_ref thread_ref conversation_ref c
     \<and> (case older_than of None \<Rightarrow> True | Some t \<Rightarrow> dt_less (rc_updated_at c) t)"

definition require_delete_selector ::
  "request_ref option \<Rightarrow> thread_ref option \<Rightarrow> conversation_ref option \<Rightarrow> datetime option \<Rightarrow> check" where
  "require_delete_selector request_ref thread_ref conversation_ref older_than =
     raise_if (request_ref = None \<and> thread_ref = None \<and> conversation_ref = None \<and> older_than = None)
       ValueError"

section \<open>The in-memory repository\<close>

record correlation_repository =
  rr_correlations :: "(string, request_route_correlation) dict"

definition empty_correlations :: correlation_repository where
  "empty_correlations = \<lparr>rr_correlations = []\<rparr>"

definition list_request_correlations ::
  "request_ref option \<Rightarrow> thread_ref option \<Rightarrow> conversation_ref option \<Rightarrow> correlation_repository \<Rightarrow>
   request_route_correlation list" where
  "list_request_correlations request_ref thread_ref conversation_ref r =
     filter (matches request_ref thread_ref conversation_ref None) (dict_values (rr_correlations r))"

definition correlations_of :: "request_ref \<Rightarrow> correlation_repository \<Rightarrow> request_route_correlation list" where
  "correlations_of request_ref r =
     filter (\<lambda>c. rc_request_ref c = request_ref) (dict_values (rr_correlations r))"

definition put_request_correlation :: "request_route_correlation \<Rightarrow> correlation_repository \<Rightarrow>
    (correlation_repository, request_route_correlation) outcome" where
  "put_request_correlation correlation r =
     guarded (validate_request_route_correlation correlation) r
     (with_res (merge_correlation (dict_get (rr_correlations r) (rc_correlation_id correlation))
                  correlation (correlations_of (rc_request_ref correlation) r)) r
       (\<lambda>stored. guarded (reject_conflicting_endpoint (dict_values (rr_correlations r)) stored) r
         (returns stored (r\<lparr>rr_correlations :=
            dict_set (rr_correlations r) (rc_correlation_id stored) stored\<rparr>))))"

definition store_all ::
  "(string, request_route_correlation) dict \<Rightarrow> request_route_correlation list \<Rightarrow>
   (string, request_route_correlation) dict" where
  "store_all = foldl (\<lambda>d c. dict_set d (rc_correlation_id c) c)"

definition transition_request_correlations ::
  "request_ref \<Rightarrow> request_route_state list \<Rightarrow> request_route_state \<Rightarrow> datetime \<Rightarrow>
   correlation_repository \<Rightarrow> (correlation_repository, request_route_correlation list) outcome" where
  "transition_request_correlations request_ref expected_states state updated_at r =
     with_res (transition_correlations (correlations_of request_ref r) expected_states state updated_at) r
       (\<lambda>transitioned. returns transitioned
          (r\<lparr>rr_correlations := store_all (rr_correlations r) transitioned\<rparr>))"

definition delete_request_correlations ::
  "request_ref option \<Rightarrow> thread_ref option \<Rightarrow> conversation_ref option \<Rightarrow> datetime option \<Rightarrow>
   correlation_repository \<Rightarrow> (correlation_repository, nat) outcome" where
  "delete_request_correlations request_ref thread_ref conversation_ref older_than r =
     guarded (first_error [
       require_delete_selector request_ref thread_ref conversation_ref older_than,
       on_some (\<lambda>t. raise_if (\<exists>c \<in> set (dict_values (rr_correlations r)).
            selector_matches request_ref thread_ref conversation_ref c
            \<and> incomparable (rc_updated_at c) t) TypeError) older_than]) r
     (let selected = matches request_ref thread_ref conversation_ref older_than
      in returns (length (filter (\<lambda>(_, c). selected c) (rr_correlations r)))
           (r\<lparr>rr_correlations := filter (\<lambda>(_, c). \<not> selected c) (rr_correlations r)\<rparr>))"

datatype correlation_op =
    PutCorrelation request_route_correlation
  | TransitionCorrelations request_ref "request_route_state list" request_route_state datetime
  | DeleteCorrelations "request_ref option" "thread_ref option" "conversation_ref option"
      "datetime option"

fun correlation_exec :: "correlation_op \<Rightarrow> correlation_repository \<Rightarrow>
    (correlation_repository, unit) outcome" where
  "correlation_exec (PutCorrelation c) r = discard (put_request_correlation c r)"
| "correlation_exec (TransitionCorrelations q es s t) r =
     discard (transition_request_correlations q es s t r)"
| "correlation_exec (DeleteCorrelations q t c d) r =
     discard (delete_request_correlations q t c d r)"

section \<open>The runtime\<close>

subsection \<open>Turn correlations\<close>

datatype input_disposition = STARTED | STEERED

datatype turn_reply_correlation_policy = CREATE_NEW | PRESERVE_EXISTING

record application_input_dispatch =
  ad_thread_ref :: thread_ref
  ad_client_message_id :: string
  ad_disposition :: input_disposition
  ad_correlation_policy :: turn_reply_correlation_policy
  ad_expected_turn_ref :: "turn_ref option"

record accepted_turn =
  at_turn_ref :: turn_ref
  at_client_message_id :: string
  at_disposition :: input_disposition
  at_correlation_policy :: turn_reply_correlation_policy

definition authorize_input_dispatch ::
  "(thread_ref \<Rightarrow> string \<Rightarrow> turn_reply_correlation option) \<Rightarrow> application_input_dispatch \<Rightarrow>
   thread_ref \<Rightarrow> string \<Rightarrow> check" where
  "authorize_input_dispatch get_turn dispatch thread_ref client_message_id = first_error [
     raise_if (ad_thread_ref dispatch \<noteq> thread_ref) ValueError,
     raise_if (ad_client_message_id dispatch \<noteq> client_message_id) ValueError,
     (case ad_disposition dispatch of
        STARTED \<Rightarrow> raise_if (ad_correlation_policy dispatch \<noteq> CREATE_NEW
                              \<or> ad_expected_turn_ref dispatch \<noteq> None) ValueError
      | STEERED \<Rightarrow>
          (case ad_expected_turn_ref dispatch of
             None \<Rightarrow> Some ValueError
           | Some expected \<Rightarrow> first_error [
               raise_if (ad_correlation_policy dispatch \<noteq> PRESERVE_EXISTING
                         \<or> tn_thread_ref expected \<noteq> thread_ref) ValueError,
               raise_if (get_turn thread_ref (tn_turn_id expected) = None) ValueError]))]"

definition correlate_accepted_turn ::
  "(thread_ref \<Rightarrow> string \<Rightarrow> 'r \<Rightarrow> turn_reply_correlation option) \<Rightarrow>
   (turn_reply_correlation \<Rightarrow> 'r \<Rightarrow> ('r, turn_reply_correlation) outcome) \<Rightarrow> (string \<Rightarrow> string) \<Rightarrow>
   datetime \<Rightarrow> accepted_turn \<Rightarrow> application_input_dispatch \<Rightarrow> thread_ref \<Rightarrow> string \<Rightarrow>
   conversation_ref \<Rightarrow> string \<Rightarrow> 'r \<Rightarrow> ('r, unit) outcome" where
  "correlate_accepted_turn get_turn put_turn sha256 now accepted dispatch thread_ref
       client_message_id conversation_ref reply_to_message_id r =
     guarded (first_error [
       raise_if (tn_thread_ref (at_turn_ref accepted) \<noteq> thread_ref) ValueError,
       raise_if (at_client_message_id accepted \<noteq> client_message_id) ValueError,
       raise_if (at_disposition accepted \<noteq> ad_disposition dispatch
                 \<or> at_correlation_policy accepted \<noteq> ad_correlation_policy dispatch) RuntimeError]) r
     (if at_disposition accepted = STARTED
      then discard (put_turn \<lparr>
        tc_correlation_id = derive_turn_reply_correlation_id sha256 (at_turn_ref accepted),
        tc_turn_ref = at_turn_ref accepted,
        tc_client_message_id = at_client_message_id accepted,
        tc_conversation_ref = conversation_ref,
        tc_reply_to_message_id = reply_to_message_id,
        tc_created_at = now\<rparr> r)
      else guarded (first_error [
        raise_if (Some (at_turn_ref accepted) \<noteq> ad_expected_turn_ref dispatch) RuntimeError,
        raise_if (get_turn thread_ref (tn_turn_id (at_turn_ref accepted)) r = None) RuntimeError]) r
        (returns () r))"

definition reply_to_message_id ::
  "(thread_ref \<Rightarrow> string \<Rightarrow> turn_reply_correlation option) \<Rightarrow> thread_ref \<Rightarrow> string \<Rightarrow>
   conversation_ref \<Rightarrow> string option" where
  "reply_to_message_id get_turn thread_ref turn_id conversation_ref =
     (case get_turn thread_ref turn_id of
        None \<Rightarrow> None
      | Some correlation \<Rightarrow>
          if tc_conversation_ref correlation \<noteq> conversation_ref then None
          else Some (tc_reply_to_message_id correlation))"

subsection \<open>State transitions\<close>

text \<open>Convergence is best effort: a missing or already advanced request is not an error.\<close>

definition tolerate :: "error set \<Rightarrow> ('s, 'a) outcome \<Rightarrow> ('s, unit) outcome" where
  "tolerate errors k =
     (case k of
        (Inr _, s) \<Rightarrow> returns () s
      | (Inl e, s) \<Rightarrow> if e \<in> errors then returns () s else raises e s)"

definition mark_stale :: "datetime \<Rightarrow> request_ref \<Rightarrow> correlation_repository \<Rightarrow>
    (correlation_repository, unit) outcome" where
  "mark_stale now request_ref r =
     tolerate {KeyError, RequestCorrelationConflict}
       (transition_request_correlations request_ref [RRS_OPEN] RRS_STALE now r)"

definition native_failure_target :: "string \<Rightarrow> request_route_state option" where
  "native_failure_target code =
     (if code = ''request_duplicate'' then Some RRS_RESPONDED
      else if code = ''request_resolved'' then Some RRS_RESOLVED
      else if code = ''request_stale'' then Some RRS_STALE
      else None)"

definition converge_native_request_failure ::
  "request_ref \<Rightarrow> string \<Rightarrow> datetime \<Rightarrow> correlation_repository \<Rightarrow>
   (correlation_repository, unit) outcome" where
  "converge_native_request_failure request_ref code completed_at r =
     (case native_failure_target code of
        None \<Rightarrow> returns () r
      | Some target \<Rightarrow>
          tolerate {KeyError, RequestCorrelationConflict}
            (transition_request_correlations request_ref [RRS_OPEN] target completed_at r))"

datatype request_resolution_status = RES_RESOLVED | RES_STALE

definition handle_request_resolved ::
  "request_ref \<Rightarrow> request_resolution_status \<Rightarrow> datetime \<Rightarrow> correlation_repository \<Rightarrow>
   (correlation_repository, unit) outcome" where
  "handle_request_resolved request_ref status resolved_at r =
     (let state = (if status = RES_RESOLVED then RRS_RESOLVED else RRS_STALE)
      in tolerate {KeyError, RequestCorrelationConflict}
           (transition_request_correlations request_ref
              (if state = RRS_RESOLVED then [RRS_OPEN, RRS_RESPONDED, RRS_STALE]
               else [RRS_OPEN, RRS_RESPONDED]) state resolved_at r))"

subsection \<open>Publishing a request and routing its response\<close>

record respond_operation =
  ro_conversation_ref :: conversation_ref
  ro_request_ref :: request_ref
  ro_response :: request_response

definition authorized_response_destination ::
  "datetime \<Rightarrow> respond_operation \<Rightarrow> correlation_repository \<Rightarrow>
   (correlation_repository, request_route_correlation) outcome" where
  "authorized_response_destination now operation r =
     (let correlations = list_request_correlations (Some (ro_request_ref operation)) None None r
      in if correlations = [] then raises RequestStaleError r
         else case find (\<lambda>c. rc_conversation_ref c = ro_conversation_ref operation) correlations of
           None \<Rightarrow> raises UnauthorizedDestination r
         | Some destination \<Rightarrow>
             (case rc_state destination of
                RRS_RESPONDED \<Rightarrow> raises RequestDuplicateError r
              | RRS_RESOLVED \<Rightarrow> raises RequestResolvedError r
              | RRS_STALE \<Rightarrow> raises RequestStaleError r
              | RRS_OPEN \<Rightarrow>
                  if (case rc_expires_at destination of None \<Rightarrow> False | Some t \<Rightarrow> \<not> dt_less now t)
                  then case transition_request_correlations (ro_request_ref operation) [RRS_OPEN]
                              RRS_STALE now r of
                         (Inl e, r') \<Rightarrow> raises e r'
                       | (Inr _, r') \<Rightarrow> raises RequestStaleError r'
                  else guarded (validate_request_response (ro_response operation)
                                  (rc_response_shape destination)) r
                         (returns destination r)))"

datatype native_response =
    RequestResponded
  | ApplicationOperationFailed string datetime
  | IncompatibleResult

text \<open>
  \<open>execute\<close> is the call of the native application. It runs while other tasks may write to the
  repository, so it is a function on the repository and the rest of the world together.
\<close>

definition respond_to_request ::
  "(string \<Rightarrow> bool) \<Rightarrow>
   (request_ref \<Rightarrow> request_response \<Rightarrow> turn_ref \<Rightarrow> correlation_repository \<times> 'w \<Rightarrow>
      (correlation_repository \<times> 'w, native_response) outcome) \<Rightarrow>
   datetime \<Rightarrow> datetime \<Rightarrow> respond_operation \<Rightarrow> correlation_repository \<times> 'w \<Rightarrow>
   (correlation_repository \<times> 'w, unit) outcome" where
  "respond_to_request registered execute now completed_at operation s =
     (case authorized_response_destination now operation (fst s) of
        (Inl e, r) \<Rightarrow> raises e (r, snd s)
      | (Inr destination, r) \<Rightarrow>
          if \<not> registered (ar_application_instance_id (rq_application_ref (ro_request_ref operation)))
          then raises KeyError (r, snd s)
          else case execute (ro_request_ref operation) (ro_response operation)
                      (rc_turn_ref destination) (r, snd s) of
            (Inl e, s') \<Rightarrow> raises e s'
          | (Inr (ApplicationOperationFailed code t), (r', w')) \<Rightarrow>
              (case converge_native_request_failure (ro_request_ref operation) code t r' of
                 (Inl e, r'') \<Rightarrow> raises e (r'', w')
               | (Inr _, r'') \<Rightarrow> raises RequestResponseRejected (r'', w'))
          | (Inr IncompatibleResult, s') \<Rightarrow> raises RuntimeError s'
          | (Inr RequestResponded, (r', w')) \<Rightarrow>
              (case transition_request_correlations (ro_request_ref operation) [RRS_OPEN]
                      RRS_RESPONDED completed_at r' of
                 (Inr _, r'') \<Rightarrow> returns () (r'', w')
               | (Inl RequestCorrelationConflict, r'') \<Rightarrow>
                   let current = list_request_correlations (Some (ro_request_ref operation)) None None r''
                   in if current = []
                         \<or> (\<exists>c \<in> set current. rc_state c \<notin> {RRS_RESPONDED, RRS_RESOLVED})
                      then raises RequestCorrelationConflict (r'', w')
                      else returns () (r'', w')
               | (Inl e, r'') \<Rightarrow> raises e (r'', w')))"

fun request_ref_of :: "interactive_request \<Rightarrow> request_ref" where
  "request_ref_of (ApprovalRequest a) = ap_request_ref a"
| "request_ref_of (UserInputRequest u) = ui_request_ref u"

fun turn_ref_of :: "interactive_request \<Rightarrow> turn_ref" where
  "turn_ref_of (ApprovalRequest a) = ap_turn_ref a"
| "turn_ref_of (UserInputRequest u) = ui_turn_ref u"

fun expires_at_of :: "interactive_request \<Rightarrow> datetime option" where
  "expires_at_of (ApprovalRequest a) = ap_expires_at a"
| "expires_at_of (UserInputRequest u) = ui_expires_at u"

definition request_expired :: "datetime \<Rightarrow> interactive_request \<Rightarrow> bool" where
  "request_expired now request =
     (case expires_at_of request of None \<Rightarrow> False | Some t \<Rightarrow> \<not> dt_less now t)"

text \<open>
  The collaborators of a publication: the presenter, the best-effort refresh of the Turn
  correlation, the outbound delivery (with or without a deadline; a passed deadline is
  \<open>None\<close>), the current routes and Turn correlations. All but the presenter are awaited, so each
  maps the state before the call to the one after it, in which other tasks may have written.
  \<open>'m\<close> is the presented message.
\<close>

record ('m, 's) publisher =
  pu_ensure :: "(thread_ref \<Rightarrow> string \<Rightarrow> 's \<Rightarrow> ('s, unit) outcome) option"
  pu_presenter :: "(interactive_request \<Rightarrow> conversation_ref \<Rightarrow> string \<Rightarrow> string option \<Rightarrow> ('m \<times> bool) res) option"
  pu_deliver :: "'m \<Rightarrow> 's \<Rightarrow> ('s, idempotency_claim_status) outcome"
  pu_deliver_within :: "int \<Rightarrow> 'm \<Rightarrow> 's \<Rightarrow> ('s, idempotency_claim_status option) outcome"
  pu_active :: "thread_ref \<Rightarrow> 's \<Rightarrow> ('s, thread_projection_route list) outcome"
  pu_turn :: "thread_ref \<Rightarrow> string \<Rightarrow> 's \<Rightarrow> ('s, turn_reply_correlation option) outcome"

text \<open>The clock readings of one publication, in the order they are taken.\<close>

record publication_clock =
  pc_before :: datetime
  pc_deadline :: datetime
  pc_after :: datetime
  pc_now :: datetime

definition opened_correlation ::
  "(string \<Rightarrow> string) \<Rightarrow> datetime \<Rightarrow> interactive_request \<Rightarrow> thread_projection_route \<Rightarrow> string \<Rightarrow>
   request_response_shape \<Rightarrow> request_route_correlation" where
  "opened_correlation sha256 now request current delivery_id shape = \<lparr>
     rc_correlation_id =
       derive_request_correlation_id sha256 (request_ref_of request) (pr_conversation_ref current),
     rc_request_ref = request_ref_of request,
     rc_turn_ref = turn_ref_of request,
     rc_conversation_ref = pr_conversation_ref current,
     rc_delivery_id = delivery_id,
     rc_response_shape = shape,
     rc_state = RRS_OPEN,
     rc_created_at = now,
     rc_updated_at = now,
     rc_expires_at = expires_at_of request\<rparr>"

text \<open>What follows an accepted delivery: the authority to answer is persisted, or nothing is.\<close>

definition persist_publication ::
  "('m, correlation_repository \<times> 'w) publisher \<Rightarrow> (string \<Rightarrow> string) \<Rightarrow> publication_clock \<Rightarrow>
   thread_projection_route \<Rightarrow> interactive_request \<Rightarrow> string \<Rightarrow> bool \<Rightarrow> idempotency_claim_status \<Rightarrow>
   correlation_repository \<times> 'w \<Rightarrow> (correlation_repository \<times> 'w, unit) outcome" where
  "persist_publication p sha256 clock route request delivery_id response_supported outcome s =
     (if outcome = CLAIM_IN_FLIGHT then raises RuntimeError s
      else if \<not> response_supported \<or> request_expired (pc_after clock) request then returns () s
      else case pu_active p (pr_thread_ref route) s of
        (Inl e, s1) \<Rightarrow> raises e s1
      | (Inr routes, s1) \<Rightarrow>
          (case find (\<lambda>candidate. pr_route_id candidate = pr_route_id route) routes of
             None \<Rightarrow> returns () s1
           | Some current \<Rightarrow>
               with_res (derive_request_response_shape request) s1 (\<lambda>shape.
                 case put_request_correlation
                        (opened_correlation sha256 (pc_now clock) request current delivery_id shape)
                        (fst s1) of
                   (Inl e, r) \<Rightarrow> raises e (r, snd s1)
                 | (Inr _, r) \<Rightarrow> returns () (r, snd s1))))"

definition ensure_turn_correlation ::
  "('m, 's) publisher \<Rightarrow> interactive_request \<Rightarrow> 's \<Rightarrow> ('s, unit) outcome" where
  "ensure_turn_correlation p request s =
     (case pu_ensure p of
        None \<Rightarrow> returns () s
      | Some ensure \<Rightarrow> ensure (tn_thread_ref (turn_ref_of request)) (tn_turn_id (turn_ref_of request)) s)"

text \<open>The awaited delivery of the presented message, within what is left until the request expires.\<close>

definition deliver_presented ::
  "('m, 's) publisher \<Rightarrow> datetime \<Rightarrow> interactive_request \<Rightarrow> 'm \<Rightarrow> 's \<Rightarrow>
   ('s, idempotency_claim_status option) outcome" where
  "deliver_presented p deadline request message s =
     (case expires_at_of request of
        None \<Rightarrow>
          (case pu_deliver p message s of
             (Inl e, s1) \<Rightarrow> raises e s1
           | (Inr outcome, s1) \<Rightarrow> returns (Some outcome) s1)
      | Some t \<Rightarrow>
          let remaining = instant t - instant deadline
          in if remaining \<le> 0 then returns None s
             else pu_deliver_within p remaining message s)"

definition publish_request ::
  "('m, correlation_repository \<times> 'w) publisher \<Rightarrow> (string \<Rightarrow> string) \<Rightarrow> publication_clock \<Rightarrow>
   thread_projection_route \<Rightarrow> interactive_request \<Rightarrow> correlation_repository \<times> 'w \<Rightarrow>
   (correlation_repository \<times> 'w, unit) outcome" where
  "publish_request p sha256 clock route request s =
     (if request_expired (pc_before clock) request then returns () s
      else case ensure_turn_correlation p request s of
        (Inl e, s1) \<Rightarrow> raises e s1
      | (Inr _, s1) \<Rightarrow>
          (case pu_presenter p of
             None \<Rightarrow> raises RuntimeError s1
           | Some present \<Rightarrow>
               let delivery_id = derive_request_delivery_id sha256 (request_ref_of request)
                     (pr_conversation_ref route);
                   thread_ref = tn_thread_ref (turn_ref_of request);
                   turn_id = tn_turn_id (turn_ref_of request)
               in case pu_turn p thread_ref turn_id s1 of
                    (Inl e, s2) \<Rightarrow> raises e s2
                  | (Inr turn, s2) \<Rightarrow>
                      with_res (present request (pr_conversation_ref route) delivery_id
                          (reply_to_message_id (\<lambda>_ _. turn) thread_ref turn_id (pr_conversation_ref route))) s2
                        (\<lambda>(message, response_supported).
                          case deliver_presented p (pc_deadline clock) request message s2 of
                            (Inl e, s3) \<Rightarrow> raises e s3
                          | (Inr None, s3) \<Rightarrow> returns () s3
                          | (Inr (Some outcome), s3) \<Rightarrow>
                              persist_publication p sha256 clock route request delivery_id
                                response_supported outcome s3)))"

section \<open>The repository invariant\<close>

abbreviation correlation_at :: "string \<Rightarrow> correlation_repository \<Rightarrow> request_route_correlation option" where
  "correlation_at k r \<equiv> dict_get (rr_correlations r) k"

abbreviation endpoint :: "request_route_correlation \<Rightarrow> request_ref \<times> conversation_ref" where
  "endpoint c \<equiv> (rc_request_ref c, rc_conversation_ref c)"

text \<open>
  Keys are unique and are the identifiers of the stored correlations, which are valid; a request
  has at most one correlation per Conversation.
\<close>

definition correlation_inv :: "correlation_repository \<Rightarrow> bool" where
  "correlation_inv r \<longleftrightarrow>
     dict_ok (rr_correlations r)
     \<and> (\<forall>k c. correlation_at k r = Some c \<longrightarrow>
           k = rc_correlation_id c \<and> validate_request_route_correlation c = None)
     \<and> (\<forall>k c k' c'. correlation_at k r = Some c \<longrightarrow> correlation_at k' r = Some c' \<longrightarrow>
           endpoint c = endpoint c' \<longrightarrow> k = k')"

lemma correlation_invD:
  assumes "correlation_inv r"
  shows "dict_ok (rr_correlations r)"
    and "correlation_at k r = Some c \<Longrightarrow> k = rc_correlation_id c"
    and "correlation_at k r = Some c \<Longrightarrow> validate_request_route_correlation c = None"
    and "correlation_at k r = Some c \<Longrightarrow> correlation_at k' r = Some c' \<Longrightarrow>
           endpoint c = endpoint c' \<Longrightarrow> k = k'"
  using assms unfolding correlation_inv_def by blast+

lemma correlations_of_iff:
  "correlation_inv r \<Longrightarrow>
   c \<in> set (correlations_of q r) \<longleftrightarrow> correlation_at (rc_correlation_id c) r = Some c \<and> rc_request_ref c = q"
  using correlation_invD(1,2) [of r] dict_values_iff [of "rr_correlations r" c]
  by (auto simp: correlations_of_def)

lemma listed_are_correlations_of:
  "list_request_correlations (Some q) None None r = correlations_of q r"
  by (auto simp: list_request_correlations_def correlations_of_def matches_def selector_matches_def
      intro!: filter_cong)

lemma correlation_ids_distinct:
  assumes inv: "correlation_inv r"
  shows "distinct (map rc_correlation_id (correlations_of q r))"
proof -
  have "map rc_correlation_id (dict_values (rr_correlations r)) = map fst (rr_correlations r)"
    using correlation_invD(1,2) [OF inv] by (auto simp: map_of_eq_Some_iff)
  then have "distinct (map rc_correlation_id (dict_values (rr_correlations r)))"
    using correlation_invD(1) [OF inv] by (simp only:)
  then show ?thesis unfolding correlations_of_def by (rule distinct_map_filter)
qed

subsection \<open>Merging\<close>

lemma foldl_max_in: "foldl (\<lambda>best y. if lt best y then y else best) x xs \<in> set (x # xs)"
  by (induction xs arbitrary: x) fastforce+

lemma max_by_in: "max_by lt xs = Some m \<Longrightarrow> m \<in> set xs"
  using foldl_max_in by (cases xs) force+

lemma max_by_None [simp]: "max_by lt xs = None \<longleftrightarrow> xs = []"
  by (cases xs) auto

lemma merge_correlation_new:
  assumes "merge_correlation None c others = Inr stored"
  shows "(\<forall>o1 \<in> set others. rc_state o1 = RRS_OPEN) \<and> stored = c
    \<or> (\<exists>t \<in> set others. rc_state t \<noteq> RRS_OPEN \<and> stored = c\<lparr>rc_state := rc_state t,
          rc_updated_at := dt_max (rc_updated_at c) (rc_updated_at t)\<rparr>)"
  using assms
  by (auto simp: merge_correlation_def filter_empty_conv dest!: max_by_in split: option.splits)

lemma merge_correlation_old:
  assumes "merge_correlation (Some old) c others = Inr stored"
  shows "endpoint stored = endpoint old \<and> rc_correlation_id stored = rc_correlation_id old
    \<and> endpoint old = endpoint c \<and> rc_correlation_id old = rc_correlation_id c
    \<and> (rc_state old \<noteq> RRS_OPEN \<longrightarrow> stored = old) \<and> (rc_state old = RRS_OPEN \<longrightarrow> stored = c)"
  using assms by (cases "rc_state old") (auto simp: merge_correlation_def split: if_splits)

lemma validate_correlation_retimed:
  assumes "validate_request_route_correlation c = None" "aware t"
  shows "validate_request_route_correlation
    (c\<lparr>rc_state := s, rc_updated_at := dt_max (rc_updated_at c) t\<rparr>) = None"
  using assms by (auto simp: validate_request_route_correlation_def dt_less_def)

lemma put_request_correlation_ok:
  assumes inv: "correlation_inv r" and put: "put_request_correlation c r = (Inr stored, r')"
  shows "merge_correlation (correlation_at (rc_correlation_id c) r) c (correlations_of (rc_request_ref c) r)
           = Inr stored"
    and "rc_correlation_id stored = rc_correlation_id c" and "endpoint stored = endpoint c"
    and "correlation_at k r' = (if k = rc_correlation_id c then Some stored else correlation_at k r)"
    and "correlation_inv r'"
proof -
  let ?k = "rc_correlation_id c"
  have valid: "validate_request_route_correlation c = None"
    and merge: "merge_correlation (correlation_at ?k r) c (correlations_of (rc_request_ref c) r) = Inr stored"
    and fresh: "reject_conflicting_endpoint (dict_values (rr_correlations r)) stored = None"
    and r': "r' = r\<lparr>rr_correlations := dict_set (rr_correlations r) (rc_correlation_id stored) stored\<rparr>"
    using put by (auto simp: put_request_correlation_def outcome_simps)
  show "merge_correlation (correlation_at ?k r) c (correlations_of (rc_request_ref c) r) = Inr stored"
    by (rule merge)
  have id: "rc_correlation_id stored = ?k \<and> endpoint stored = endpoint c
      \<and> validate_request_route_correlation stored = None"
  proof (cases "correlation_at ?k r")
    case None
    have "aware (rc_updated_at t)" if "t \<in> set (correlations_of (rc_request_ref c) r)" for t
      using that correlation_invD(3) [OF inv]
      by (auto simp: correlations_of_iff [OF inv] validate_request_route_correlation_def)
    then show ?thesis
      using merge_correlation_new [OF merge [unfolded None]] valid
      by (auto simp: validate_correlation_retimed)
  next
    case (Some old)
    then show ?thesis
      using merge_correlation_old [OF merge [unfolded Some]] valid correlation_invD(3) [OF inv Some]
      by (cases "rc_state old = RRS_OPEN") auto
  qed
  then show "rc_correlation_id stored = ?k" "endpoint stored = endpoint c" by simp_all
  show get: "correlation_at k r' = (if k = ?k then Some stored else correlation_at k r)" for k
    using id by (simp add: r')
  have unique: "k = ?k" if "correlation_at k r = Some d" "endpoint d = endpoint stored" for k d
  proof -
    have "d \<in> set (dict_values (rr_correlations r))" using that(1) by (force dest: map_of_SomeD)
    then have "rc_correlation_id d = rc_correlation_id stored"
      using fresh that(2) by (auto simp: reject_conflicting_endpoint_def)
    then show ?thesis using correlation_invD(2) [OF inv that(1)] id by simp
  qed
  show "correlation_inv r'"
    unfolding correlation_inv_def
  proof (intro conjI allI impI)
    show "dict_ok (rr_correlations r')" using correlation_invD(1) [OF inv] by (simp add: r')
    fix k d
    assume d: "correlation_at k r' = Some d"
    then show "k = rc_correlation_id d" "validate_request_route_correlation d = None"
      using id correlation_invD(2,3) [OF inv] by (auto simp: get split: if_splits)
    fix k' d'
    assume d': "correlation_at k' r' = Some d'" and eq: "endpoint d = endpoint d'"
    have cases: "k = ?k \<and> d = stored \<or> correlation_at k r = Some d"
      "k' = ?k \<and> d' = stored \<or> correlation_at k' r = Some d'"
      using d d' by (simp_all add: get split: if_splits)
    show "k = k'"
    proof (cases "k = ?k \<and> d = stored")
      case True
      then show ?thesis using cases(2) unique [of k' d'] eq by (metis (no_types))
    next
      case False
      then have old: "correlation_at k r = Some d" using cases(1) by blast
      show ?thesis
        using cases(2) unique [OF old] correlation_invD(4) [OF inv old _ eq] eq by (metis (no_types))
    qed
  qed
qed

subsection \<open>Transitions\<close>

lemma store_all_other:
  "k \<notin> rc_correlation_id ` set cs \<Longrightarrow> dict_get (store_all d cs) k = dict_get d k"
  by (induction cs arbitrary: d) (auto simp: store_all_def)

lemma store_all_ok: "dict_ok d \<Longrightarrow> dict_ok (store_all d cs)"
  by (induction cs arbitrary: d) (auto simp: store_all_def)

lemma store_all_mem:
  "distinct (map rc_correlation_id cs) \<Longrightarrow> c \<in> set cs \<Longrightarrow>
   dict_get (store_all d cs) (rc_correlation_id c) = Some c"
proof (induction cs arbitrary: d)
  case (Cons x cs)
  have step: "store_all d (x # cs) = store_all (dict_set d (rc_correlation_id x) x) cs"
    by (simp add: store_all_def)
  show ?case
  proof (cases "c = x")
    case True
    then show ?thesis using Cons.prems store_all_other [of "rc_correlation_id x" cs] by (simp add: step)
  next
    case False
    then show ?thesis using Cons by (simp add: step)
  qed
qed simp

definition moved :: "request_route_state \<Rightarrow> datetime \<Rightarrow> request_route_correlation \<Rightarrow>
    request_route_correlation" where
  "moved s t c = c\<lparr>rc_state := s, rc_updated_at := t\<rparr>"

lemma moved_simps [simp]:
  "rc_state (moved s t c) = s" "rc_correlation_id (moved s t c) = rc_correlation_id c"
  "rc_request_ref (moved s t c) = rc_request_ref c"
  "rc_conversation_ref (moved s t c) = rc_conversation_ref c"
  by (simp_all add: moved_def)

text \<open>
  A transition that returns either found every correlation of the request in the target state
  already, or moved all of them from an expected state of no higher precedence; all or nothing.
\<close>

lemma transition_ok:
  assumes inv: "correlation_inv r"
    and ok: "transition_request_correlations q es s t r = (Inr cs, r')"
  obtains f where "f = id \<or> f = moved s t" and "correlations_of q r \<noteq> []"
    and "\<And>k. correlation_at k r' =
          map_option (\<lambda>c. if rc_request_ref c = q then f c else c) (correlation_at k r)"
    and "dict_ok (rr_correlations r')"
    and "\<And>c. c \<in> set (correlations_of q r) \<Longrightarrow> rc_state (f c) = s
          \<and> (f c = c \<or> rc_state c \<in> set es \<and> state_rank c \<le> request_state_precedence s)
          \<and> validate_request_route_correlation (f c) = None"
proof -
  let ?old = "correlations_of q r"
  have trans: "transition_correlations ?old es s t = Inr cs"
    and r': "r' = r\<lparr>rr_correlations := store_all (rr_correlations r) cs\<rparr>"
    using ok by (auto simp: transition_request_correlations_def with_res_Inr_iff)
  have ne: "?old \<noteq> []" using trans by (auto simp: transition_correlations_def)
  have ok': "dict_ok (rr_correlations r')"
    using correlation_invD(1) [OF inv] by (simp add: r' store_all_ok)
  have valid: "validate_request_route_correlation c = None" if "c \<in> set ?old" for c
    using that correlation_invD(3) [OF inv] by (auto simp: correlations_of_iff [OF inv])
  have shape: "\<exists>f. (f = id \<or> f = moved s t) \<and> cs = map f ?old
      \<and> (\<forall>c \<in> set ?old. rc_state (f c) = s
           \<and> (f c = c \<or> rc_state c \<in> set es \<and> state_rank c \<le> request_state_precedence s)
           \<and> validate_request_route_correlation (f c) = None)"
  proof (cases "\<forall>c \<in> set ?old. rc_state c = s")
    case True
    with trans ne have "cs = ?old" by (simp add: transition_correlations_def)
    with True valid show ?thesis by (intro exI [of _ id]) simp
  next
    case False
    with trans ne show ?thesis
      by (intro exI [of _ "moved s t"])
        (auto simp: transition_correlations_def moved_def [abs_def] Let_def not_less
          split: if_splits option.splits)
  qed
  then obtain f where f: "f = id \<or> f = moved s t" "cs = map f ?old"
      "\<And>c. c \<in> set ?old \<Longrightarrow> rc_state (f c) = s
           \<and> (f c = c \<or> rc_state c \<in> set es \<and> state_rank c \<le> request_state_precedence s)
           \<and> validate_request_route_correlation (f c) = None"
    by blast
  have id: "rc_correlation_id (f c) = rc_correlation_id c" for c using f(1) by auto
  have ids: "rc_correlation_id \<circ> f = rc_correlation_id" by (simp add: fun_eq_iff id)
  have get: "correlation_at k r' =
      map_option (\<lambda>c. if rc_request_ref c = q then f c else c) (correlation_at k r)" for k
  proof (cases "k \<in> rc_correlation_id ` set ?old")
    case True
    then obtain c where c: "c \<in> set ?old" "k = rc_correlation_id c" by blast
    then have "correlation_at k r' = Some (f c)"
      using store_all_mem [of "map f ?old" "f c"] correlation_ids_distinct [OF inv, of q]
      by (simp add: r' f(2) ids id)
    with c show ?thesis by (simp add: correlations_of_iff [OF inv])
  next
    case False
    then have "correlation_at k r' = correlation_at k r"
      by (simp add: r' f(2) store_all_other image_image id)
    moreover have "rc_request_ref c \<noteq> q" if "correlation_at k r = Some c" for c
      using False that correlation_invD(2) [OF inv that] by (auto simp: correlations_of_iff [OF inv])
    ultimately show ?thesis by (cases "correlation_at k r") auto
  qed
  show thesis by (rule that [OF f(1) ne get ok' f(3)])
qed

lemma correlation_inv_transfer:
  assumes inv: "correlation_inv r" and ok: "dict_ok (rr_correlations r')"
    and old: "\<And>k c'. correlation_at k r' = Some c' \<Longrightarrow> \<exists>c. correlation_at k r = Some c
      \<and> rc_correlation_id c' = rc_correlation_id c \<and> endpoint c' = endpoint c
      \<and> validate_request_route_correlation c' = None"
  shows "correlation_inv r'"
  unfolding correlation_inv_def
proof (intro conjI allI impI ok)
  fix k c'
  assume c': "correlation_at k r' = Some c'"
  then obtain c where c: "correlation_at k r = Some c" "rc_correlation_id c' = rc_correlation_id c"
      "endpoint c' = endpoint c" "validate_request_route_correlation c' = None"
    using old by blast
  then show "k = rc_correlation_id c'" "validate_request_route_correlation c' = None"
    using correlation_invD(2) [OF inv c(1)] by simp_all
  fix l d'
  assume "correlation_at l r' = Some d'" and eq: "endpoint c' = endpoint d'"
  then obtain d where d: "correlation_at l r = Some d" "endpoint d' = endpoint d"
    using old by blast
  with c eq show "k = l" using correlation_invD(4) [OF inv c(1) d(1)] by simp
qed

lemma transition_inv:
  assumes inv: "correlation_inv r"
    and ok: "transition_request_correlations q es s t r = (Inr cs, r')"
  shows "correlation_inv r'"
proof (rule transition_ok [OF inv ok])
  fix f
  assume f: "f = id \<or> f = moved s t"
    and get: "\<And>k. correlation_at k r' =
          map_option (\<lambda>c. if rc_request_ref c = q then f c else c) (correlation_at k r)"
    and "dict_ok (rr_correlations r')"
    and new: "\<And>c. c \<in> set (correlations_of q r) \<Longrightarrow> rc_state (f c) = s
          \<and> (f c = c \<or> rc_state c \<in> set es \<and> state_rank c \<le> request_state_precedence s)
          \<and> validate_request_route_correlation (f c) = None"
  have old: "\<exists>c. correlation_at k r = Some c \<and> rc_correlation_id c' = rc_correlation_id c
      \<and> endpoint c' = endpoint c \<and> validate_request_route_correlation c' = None"
    if c': "correlation_at k r' = Some c'" for k c'
  proof -
    obtain c where c: "correlation_at k r = Some c" "c' = (if rc_request_ref c = q then f c else c)"
      using c' unfolding get by (cases "correlation_at k r") auto
    have "c \<in> set (correlations_of q r)" if "rc_request_ref c = q"
      using that c(1) correlation_invD(2) [OF inv c(1)] by (simp add: correlations_of_iff [OF inv])
    with c f new correlation_invD(3) [OF inv c(1)] show ?thesis by (intro exI [of _ c]) auto
  qed
  with inv \<open>dict_ok (rr_correlations r')\<close> show ?thesis by (rule correlation_inv_transfer)
qed

lemma delete_inv:
  assumes inv: "correlation_inv r"
  shows "correlation_inv (snd (delete_request_correlations q t c d r))"
proof -
  note ok = correlation_invD(1) [OF inv]
  have "correlation_inv (r\<lparr>rr_correlations := filter (\<lambda>(_, c). P c) (rr_correlations r)\<rparr>)" for P
    using ok correlation_invD(2,3) [OF inv]
    by (intro correlation_inv_transfer [OF inv])
      (auto simp: dict_get_filter split: option.splits if_splits)
  with inv show ?thesis by (simp add: delete_request_correlations_def guarded_snd Let_def)
qed

section \<open>Interleavings\<close>

lemma correlation_exec_rolls_back: "rolls_back r (correlation_exec c r)"
  by (cases c)
    (simp_all only: correlation_exec.simps put_request_correlation_def
      transition_request_correlations_def delete_request_correlations_def, (intro rolls_back_intros)+)

interpretation memory_correlations_atomic: failure_atomic correlation_exec
  by unfold_locales (rule rolls_backD [OF correlation_exec_rolls_back])

lemma correlation_exec_cases:
  obtains (failed) "snd (correlation_exec c r) = r"
  | (put) d stored where "c = PutCorrelation d"
      "put_request_correlation d r = (Inr stored, snd (correlation_exec c r))"
  | (moved) q es s t cs where "c = TransitionCorrelations q es s t"
      "transition_request_correlations q es s t r = (Inr cs, snd (correlation_exec c r))"
  | (deleted) q t d o1 where "c = DeleteCorrelations q t d o1"
proof (cases "fst (correlation_exec c r)")
  case (Inl e)
  then show thesis using that(1) memory_correlations_atomic.fail_frame by blast
next
  case (Inr v)
  then show thesis
    using that(2-4) by (cases c) (auto simp: prod_eq_iff)
qed

interpretation memory_correlations_inv: op_system correlation_exec correlation_inv
proof
  fix r c
  assume "correlation_inv r"
  then show "correlation_inv (snd (correlation_exec c r))"
    by (cases rule: correlation_exec_cases [of c r])
      (auto intro: put_request_correlation_ok(5) transition_inv delete_inv)
qed

text \<open>
  Progress: every correlation stays, under the same identity, in a state of the same or of a
  higher precedence; and a request none of whose correlations is open stays closed.
\<close>

definition deletes_correlations :: "correlation_op \<Rightarrow> bool" where
  "deletes_correlations c \<longleftrightarrow> (case c of DeleteCorrelations q t d o1 \<Rightarrow> True | _ \<Rightarrow> False)"

definition closed_request :: "request_ref \<Rightarrow> correlation_repository \<Rightarrow> bool" where
  "closed_request q r \<longleftrightarrow>
     (\<exists>k c. correlation_at k r = Some c \<and> rc_request_ref c = q)
     \<and> (\<forall>k c. correlation_at k r = Some c \<longrightarrow> rc_request_ref c = q \<longrightarrow> rc_state c \<noteq> RRS_OPEN)"

definition correlation_progress :: "correlation_repository \<Rightarrow> correlation_repository \<Rightarrow> bool" where
  "correlation_progress r r' \<longleftrightarrow>
     (\<forall>k c. correlation_at k r = Some c \<longrightarrow> (\<exists>c'. correlation_at k r' = Some c'
        \<and> endpoint c' = endpoint c \<and> state_rank c \<le> state_rank c'))
     \<and> (\<forall>q. closed_request q r \<longrightarrow> closed_request q r')"

lemma put_progress:
  assumes inv: "correlation_inv r" and put: "put_request_correlation d r = (Inr stored, r')"
  shows "correlation_progress r r'"
proof -
  note ok = put_request_correlation_ok [OF inv put]
  let ?k = "rc_correlation_id d"
  have rank: "endpoint stored = endpoint c \<and> state_rank c \<le> state_rank stored"
    if "correlation_at ?k r = Some c" for c
    using merge_correlation_old [OF ok(1) [unfolded that]] by (cases "rc_state c") auto
  have closed: "rc_state stored \<noteq> RRS_OPEN" if cl: "closed_request (rc_request_ref d) r"
  proof (cases "correlation_at ?k r")
    case None
    obtain c where "c \<in> set (correlations_of (rc_request_ref d) r)" "rc_state c \<noteq> RRS_OPEN"
      using cl correlation_invD(2) [OF inv]
      unfolding closed_request_def correlations_of_iff [OF inv] by blast
    then show ?thesis using merge_correlation_new [OF ok(1) [unfolded None]] by auto
  next
    case (Some c)
    then have "rc_state c \<noteq> RRS_OPEN"
      using cl merge_correlation_old [OF ok(1) [unfolded Some]] by (auto simp: closed_request_def)
    then show ?thesis using merge_correlation_old [OF ok(1) [unfolded Some]] by simp
  qed
  have "closed_request q r'" if cl: "closed_request q r" for q
  proof -
    obtain k c where c: "correlation_at k r = Some c" "rc_request_ref c = q"
      using cl by (auto simp: closed_request_def)
    have "\<exists>k c. correlation_at k r' = Some c \<and> rc_request_ref c = q"
      using c rank by (cases "k = ?k") (auto simp: ok(4))
    moreover have "rc_state c' \<noteq> RRS_OPEN" if "correlation_at l r' = Some c'" "rc_request_ref c' = q" for l c'
      using that cl closed ok(3) by (auto simp: ok(4) closed_request_def split: if_splits)
    ultimately show ?thesis by (simp add: closed_request_def)
  qed
  with rank show ?thesis by (auto simp: correlation_progress_def ok(4))
qed

lemma open_iff_rank: "rc_state c = RRS_OPEN \<longleftrightarrow> state_rank c = 0"
  by (cases "rc_state c") auto

lemma transition_progress:
  assumes inv: "correlation_inv r"
    and ok: "transition_request_correlations q es s t r = (Inr cs, r')"
  shows "correlation_progress r r'"
proof (rule transition_ok [OF inv ok])
  fix f
  assume f: "f = id \<or> f = moved s t"
    and get: "\<And>k. correlation_at k r' =
          map_option (\<lambda>c. if rc_request_ref c = q then f c else c) (correlation_at k r)"
    and new: "\<And>c. c \<in> set (correlations_of q r) \<Longrightarrow> rc_state (f c) = s
          \<and> (f c = c \<or> rc_state c \<in> set es \<and> state_rank c \<le> request_state_precedence s)
          \<and> validate_request_route_correlation (f c) = None"
  have ends: "endpoint (f c) = endpoint c" for c using f by auto
  have step: "endpoint (f c) = endpoint c \<and> state_rank c \<le> state_rank (f c)"
    if "correlation_at k r = Some c" "rc_request_ref c = q" for k c
    using that new [of c] ends correlation_invD(2) [OF inv that(1)]
    by (auto simp: correlations_of_iff [OF inv])
  have progress: "\<exists>c'. correlation_at k r' = Some c' \<and> endpoint c' = endpoint c
      \<and> state_rank c \<le> state_rank c'" if "correlation_at k r = Some c" for k c
    using that step [OF that] by (simp add: get)
  have before: "\<exists>c. correlation_at k r = Some c \<and> endpoint c' = endpoint c
      \<and> state_rank c \<le> state_rank c'" if "correlation_at k r' = Some c'" for k c'
    using that step by (cases "correlation_at k r") (auto simp: get)
  have "closed_request q' r'" if cl: "closed_request q' r" for q'
    unfolding closed_request_def open_iff_rank
  proof (intro conjI allI impI)
    obtain k c where "correlation_at k r = Some c" "rc_request_ref c = q'"
      using cl by (auto simp: closed_request_def)
    with progress show "\<exists>k c. correlation_at k r' = Some c \<and> rc_request_ref c = q'" by fastforce
    fix k c'
    assume "correlation_at k r' = Some c'" "rc_request_ref c' = q'"
    with before cl show "state_rank c' \<noteq> 0"
      unfolding closed_request_def open_iff_rank by fastforce
  qed
  with progress show ?thesis unfolding correlation_progress_def by blast
qed

interpretation memory_correlations_mono:
  monotone_ops correlation_exec correlation_inv "\<lambda>c. \<not> deletes_correlations c" correlation_progress
proof
  fix r c
  assume inv: "correlation_inv r" and "\<not> deletes_correlations c"
  then show "correlation_progress r (snd (correlation_exec c r))"
  proof (cases rule: correlation_exec_cases [of c r])
    case failed
    then show ?thesis by (simp add: correlation_progress_def)
  qed (auto simp: deletes_correlations_def put_progress transition_progress)
next
  fix r s t
  assume rs: "correlation_progress r s" and st: "correlation_progress s t"
  have "\<exists>c''. correlation_at k t = Some c'' \<and> endpoint c'' = endpoint c \<and> state_rank c \<le> state_rank c''"
    if c: "correlation_at k r = Some c" for k c
  proof -
    obtain c' where c': "correlation_at k s = Some c'" "endpoint c' = endpoint c"
        "state_rank c \<le> state_rank c'"
      using rs c unfolding correlation_progress_def by blast
    then obtain c'' where "correlation_at k t = Some c''" "endpoint c'' = endpoint c'"
        "state_rank c' \<le> state_rank c''"
      using st unfolding correlation_progress_def by blast
    with c' show ?thesis by auto
  qed
  with rs st show "correlation_progress r t" unfolding correlation_progress_def by blast
qed (simp add: correlation_progress_def)

section \<open>One native answer per request\<close>

lemma closed_request_correlations:
  assumes inv: "correlation_inv r"
  shows "closed_request q r \<longleftrightarrow>
    correlations_of q r \<noteq> [] \<and> (\<forall>c \<in> set (correlations_of q r). rc_state c \<noteq> RRS_OPEN)"
proof -
  have "correlations_of q r \<noteq> [] \<longleftrightarrow> (\<exists>k c. correlation_at k r = Some c \<and> rc_request_ref c = q)"
    using correlations_of_iff [OF inv, of _ q] correlation_invD(2) [OF inv]
    by (metis list.set_intros(1) list.set_cases neq_Nil_conv)
  then show ?thesis
    using correlations_of_iff [OF inv] correlation_invD(2) [OF inv]
    unfolding closed_request_def by metis
qed

text \<open>A response to a closed request is refused before anything else happens.\<close>

lemma closed_request_refused:
  assumes inv: "correlation_inv r" and closed: "closed_request (ro_request_ref op) r"
  shows "\<exists>e \<in> {UnauthorizedDestination, RequestDuplicateError, RequestResolvedError, RequestStaleError}.
    authorized_response_destination now op r = (Inl e, r)"
proof -
  have cs: "correlations_of (ro_request_ref op) r \<noteq> []"
      "\<And>c. c \<in> set (correlations_of (ro_request_ref op) r) \<Longrightarrow> rc_state c \<noteq> RRS_OPEN"
    using closed by (auto simp: closed_request_correlations [OF inv])
  show ?thesis
  proof (cases "find (\<lambda>c. rc_conversation_ref c = ro_conversation_ref op)
      (correlations_of (ro_request_ref op) r)")
    case None
    with cs show ?thesis
      by (simp add: authorized_response_destination_def listed_are_correlations_of Let_def raises_def)
  next
    case (Some d)
    then have "d \<in> set (correlations_of (ro_request_ref op) r)" by (auto simp: find_Some_iff)
    with cs(2) have "rc_state d \<noteq> RRS_OPEN" by blast
    with Some cs(1) show ?thesis
      by (cases "rc_state d")
        (auto simp: authorized_response_destination_def listed_are_correlations_of Let_def raises_def)
  qed
qed

lemma respond_refused:
  assumes "correlation_inv (fst s)" and "closed_request (ro_request_ref op) (fst s)"
  shows "\<exists>e. respond_to_request registered execute now completed_at op s = (Inl e, s)"
  using closed_request_refused [OF assms, of now]
  by (auto simp: respond_to_request_def raises_def)

lemma transition_closes:
  assumes inv: "correlation_inv r"
    and ok: "transition_request_correlations q es s t r = (Inr cs, r')" and "s \<noteq> RRS_OPEN"
  shows "closed_request q r'"
proof (rule transition_ok [OF inv ok])
  fix f
  assume f: "f = id \<or> f = moved s t" and ne: "correlations_of q r \<noteq> []"
    and get: "\<And>k. correlation_at k r' =
          map_option (\<lambda>c. if rc_request_ref c = q then f c else c) (correlation_at k r)"
    and new: "\<And>c. c \<in> set (correlations_of q r) \<Longrightarrow> rc_state (f c) = s
          \<and> (f c = c \<or> rc_state c \<in> set es \<and> state_rank c \<le> request_state_precedence s)
          \<and> validate_request_route_correlation (f c) = None"
  have ref: "rc_request_ref (f c) = rc_request_ref c" for c using f by auto
  obtain c where c: "c \<in> set (correlations_of q r)" using ne by (cases "correlations_of q r") auto
  then have "correlation_at (rc_correlation_id c) r' = Some (f c)" "rc_request_ref (f c) = q"
    by (auto simp: get ref correlations_of_iff [OF inv])
  moreover have "rc_state c' \<noteq> RRS_OPEN" if c': "correlation_at k r' = Some c'" "rc_request_ref c' = q" for k c'
  proof -
    obtain c where c: "correlation_at k r = Some c" "c' = (if rc_request_ref c = q then f c else c)"
      using c'(1) unfolding get by (cases "correlation_at k r") auto
    then have "rc_request_ref c = q" using c'(2) by (auto simp: ref split: if_splits)
    moreover from this have "c \<in> set (correlations_of q r)"
      using c correlation_invD(2) [OF inv c(1)] by (simp add: correlations_of_iff [OF inv])
    ultimately show ?thesis using new c(2) assms(3) by simp
  qed
  ultimately show ?thesis unfolding closed_request_def by blast
qed

text \<open>
  After a response that was routed successfully the request is closed for every Conversation,
  whatever else was written while the native application ran.
\<close>

lemma respond_success_closes:
  assumes inv: "correlation_inv r"
    and native: "\<And>q a t s'. correlation_inv (fst s') \<Longrightarrow> correlation_inv (fst (snd (execute q a t s')))"
    and ok: "respond_to_request registered execute now completed_at op (r, w) = (Inr (), s')"
  shows "correlation_inv (fst s') \<and> closed_request (ro_request_ref op) (fst s')"
proof -
  let ?q = "ro_request_ref op"
  obtain d r1 where auth: "authorized_response_destination now op r = (Inr d, r1)"
    using ok by (auto simp: respond_to_request_def split: prod.splits sum.splits)
  then have r1: "r1 = r"
    by (auto simp: authorized_response_destination_def Let_def outcome_simps
        split: if_splits option.splits request_route_state.splits prod.splits sum.splits)
  obtain r2 w2 where exec: "execute ?q (ro_response op) (rc_turn_ref d) (r, w) = (Inr RequestResponded, (r2, w2))"
    using ok auth r1
    by (auto simp: respond_to_request_def split: prod.splits sum.splits if_splits native_response.splits)
  have inv2: "correlation_inv r2" using native [of "(r, w)"] inv exec by (metis fst_conv snd_conv)
  obtain x r3 where trans: "transition_request_correlations ?q [RRS_OPEN] RRS_RESPONDED completed_at r2 = (x, r3)"
    by fastforce
  show ?thesis
  proof (cases x)
    case (Inr cs)
    then have "s' = (r3, w2)"
      using ok auth r1 exec trans by (auto simp: respond_to_request_def split: if_splits)
    then show ?thesis
      using transition_inv [OF inv2] transition_closes [OF inv2] trans Inr by auto
  next
    case (Inl e)
    then have r3: "r3 = r2"
      using trans by (auto simp: transition_request_correlations_def with_res_def split: sum.splits)
    from ok auth r1 exec trans Inl r3
    have "s' = (r2, w2)" "correlations_of ?q r2 \<noteq> []"
        "\<forall>c \<in> set (correlations_of ?q r2). rc_state c \<in> {RRS_RESPONDED, RRS_RESOLVED}"
      by (cases e; auto simp: respond_to_request_def listed_are_correlations_of Let_def
            split: if_splits)+
    then show ?thesis using inv2 by (auto simp: closed_request_correlations [OF inv2])
  qed
qed

lemma second_response_refused:
  assumes inv: "correlation_inv r"
    and native: "\<And>q a t s'. correlation_inv (fst s') \<Longrightarrow> correlation_inv (fst (snd (execute q a t s')))"
    and first: "respond_to_request registered execute now completed_at op (r, w) = (Inr (), (r', w'))"
    and later: "\<forall>c \<in> set cs. \<not> deletes_correlations c"
    and same: "ro_request_ref op' = ro_request_ref op"
  shows "\<exists>e. respond_to_request registered' execute' now' completed_at' op'
               (run_ops correlation_exec cs r', w'') = (Inl e, (run_ops correlation_exec cs r', w''))"
proof -
  have closed: "correlation_inv r'" "closed_request (ro_request_ref op) r'"
    using respond_success_closes [OF inv native first] by auto
  then have "correlation_progress r' (run_ops correlation_exec cs r')"
    using later by (intro memory_correlations_mono.run_le)
  then have "closed_request (ro_request_ref op') (run_ops correlation_exec cs r')"
    using closed(2) same by (simp add: correlation_progress_def)
  then show ?thesis
    using memory_correlations_inv.run_inv [OF closed(1)] by (intro respond_refused) simp_all
qed

section \<open>Authority follows delivery\<close>

text \<open>
  What entitles a stored correlation: a request with the correlation's identity was presented as
  answerable for the correlation's own conversation and delivery, and the record \<open>sent\<close> of the
  outbound deliveries holds that presentation with a final outcome.
\<close>

definition entitled ::
  "(string \<Rightarrow> string) \<Rightarrow>
   (interactive_request \<Rightarrow> conversation_ref \<Rightarrow> string \<Rightarrow> string option \<Rightarrow> ('m \<times> bool) res) \<Rightarrow>
   ('m \<times> idempotency_claim_status) list \<Rightarrow> request_route_correlation \<Rightarrow> bool" where
  "entitled sha256 present sent c \<longleftrightarrow>
     (\<exists>request reply message outcome.
        request_ref_of request = rc_request_ref c \<and> turn_ref_of request = rc_turn_ref c
        \<and> expires_at_of request = rc_expires_at c
        \<and> derive_request_response_shape request = Inr (rc_response_shape c)
        \<and> rc_delivery_id c = derive_request_delivery_id sha256 (rc_request_ref c) (rc_conversation_ref c)
        \<and> present request (rc_conversation_ref c) (rc_delivery_id c) reply = Inr (message, True)
        \<and> (message, outcome) \<in> set sent \<and> outcome \<noteq> CLAIM_IN_FLIGHT)"

definition entitled_state ::
  "(string \<Rightarrow> string) \<Rightarrow>
   (interactive_request \<Rightarrow> conversation_ref \<Rightarrow> string \<Rightarrow> string option \<Rightarrow> ('m \<times> bool) res) \<Rightarrow>
   ('w \<Rightarrow> ('m \<times> idempotency_claim_status) list) \<Rightarrow> correlation_repository \<times> 'w \<Rightarrow> bool" where
  "entitled_state sha256 present sent s \<longleftrightarrow> correlation_inv (fst s)
     \<and> (\<forall>k c. correlation_at k (fst s) = Some c \<longrightarrow> entitled sha256 present (sent (snd s)) c)"

text \<open>
  What a publication relies on while it waits: an awaited call, with whatever other tasks do
  meanwhile, keeps the invariant and forgets no delivery; a delivery that returns an outcome is on
  record; and a route identifier belongs to one conversation.
\<close>

definition waits_safely ::
  "('r \<times> 'w \<Rightarrow> bool) \<Rightarrow> ('w \<Rightarrow> 'd list) \<Rightarrow> ('r \<times> 'w \<Rightarrow> ('r \<times> 'w, 'a) outcome) \<Rightarrow> bool" where
  "waits_safely keeps sent f \<longleftrightarrow>
     (\<forall>s. keeps s \<longrightarrow> keeps (snd (f s)) \<and> set (sent (snd s)) \<subseteq> set (sent (snd (snd (f s)))))"

definition publisher_rely ::
  "(correlation_repository \<times> 'w \<Rightarrow> bool) \<Rightarrow> ('w \<Rightarrow> ('m \<times> idempotency_claim_status) list) \<Rightarrow>
   (string \<Rightarrow> conversation_ref) \<Rightarrow> ('m, correlation_repository \<times> 'w) publisher \<Rightarrow> bool" where
  "publisher_rely keeps sent home p \<longleftrightarrow>
     (\<forall>ensure t i. pu_ensure p = Some ensure \<longrightarrow> waits_safely keeps sent (ensure t i))
     \<and> (\<forall>t i. waits_safely keeps sent (pu_turn p t i)) \<and> (\<forall>t. waits_safely keeps sent (pu_active p t))
     \<and> (\<forall>m. waits_safely keeps sent (pu_deliver p m)) \<and> (\<forall>d m. waits_safely keeps sent (pu_deliver_within p d m))
     \<and> (\<forall>m s outcome s'. pu_deliver p m s = (Inr outcome, s') \<longrightarrow> (m, outcome) \<in> set (sent (snd s')))
     \<and> (\<forall>d m s outcome s'. pu_deliver_within p d m s = (Inr (Some outcome), s') \<longrightarrow> (m, outcome) \<in> set (sent (snd s')))
     \<and> (\<forall>t s routes s'. pu_active p t s = (Inr routes, s') \<longrightarrow>
          (\<forall>x \<in> set routes. pr_conversation_ref x = home (pr_route_id x)))"

lemma waits_safelyD:
  assumes "waits_safely keeps sent f" "keeps s" "f s = (x, s')"
  shows "keeps s'" "set (sent (snd s)) \<subseteq> set (sent (snd s'))"
  using assms unfolding waits_safely_def by (metis snd_conv)+

lemma publisher_relyD:
  assumes "publisher_rely keeps sent home p"
  shows "pu_ensure p = Some ensure \<Longrightarrow> waits_safely keeps sent (ensure t i)"
    and "waits_safely keeps sent (pu_turn p t i)" and "waits_safely keeps sent (pu_active p t)"
    and "waits_safely keeps sent (pu_deliver p m)" and "waits_safely keeps sent (pu_deliver_within p d m)"
    and "pu_deliver p m s = (Inr outcome, s') \<Longrightarrow> (m, outcome) \<in> set (sent (snd s'))"
    and "pu_deliver_within p d m s = (Inr (Some outcome), s') \<Longrightarrow> (m, outcome) \<in> set (sent (snd s'))"
    and "pu_active p t s = (Inr routes, s') \<Longrightarrow> x \<in> set routes \<Longrightarrow> pr_conversation_ref x = home (pr_route_id x)"
  using assms by (simp_all add: publisher_rely_def) blast

lemma entitled_same:
  assumes "entitled sha256 present sent c"
    and "rc_request_ref c' = rc_request_ref c" "rc_turn_ref c' = rc_turn_ref c" "rc_expires_at c' = rc_expires_at c"
    and "rc_response_shape c' = rc_response_shape c" "rc_delivery_id c' = rc_delivery_id c"
    and "rc_conversation_ref c' = rc_conversation_ref c"
  shows "entitled sha256 present sent c'"
  using assms(1) unfolding entitled_def by (simp only: assms(2-))

lemma entitled_put:
  assumes inv: "entitled_state sha256 present sent (r, w)"
    and put: "put_request_correlation c r = (Inr stored, r')" and new: "entitled sha256 present (sent w) c"
  shows "entitled_state sha256 present sent (r', w)"
proof -
  have r: "correlation_inv r" using inv by (simp add: entitled_state_def)
  note ok = put_request_correlation_ok [OF r put]
  have "entitled sha256 present (sent w) stored"
  proof (cases "correlation_at (rc_correlation_id c) r")
    case None
    then show ?thesis
      using merge_correlation_new [OF ok(1) [unfolded None]] new by (auto intro: entitled_same [OF new])
  next
    case (Some old)
    then have "entitled sha256 present (sent w) old" using inv by (simp add: entitled_state_def)
    then show ?thesis using merge_correlation_old [OF ok(1) [unfolded Some]] new by blast
  qed
  then show ?thesis using inv ok(4,5) by (simp add: entitled_state_def split: if_splits)
qed

lemma entitled_op:
  assumes inv: "entitled_state sha256 present sent (r, w)" and op: "\<forall>d. c \<noteq> PutCorrelation d"
  shows "entitled_state sha256 present sent (snd (correlation_exec c r), w)"
proof -
  have r: "correlation_inv r" and old: "\<And>k d. correlation_at k r = Some d \<Longrightarrow> entitled sha256 present (sent w) d"
    using inv by (simp_all add: entitled_state_def)
  have "entitled sha256 present (sent w) d" if d: "correlation_at k (snd (correlation_exec c r)) = Some d" for k d
  proof (cases rule: correlation_exec_cases [of c r])
    case failed
    then show ?thesis using old d by simp
  next
    case (put e stored)
    then show ?thesis using op by blast
  next
    case (moved q es s t cs)
    obtain f where f: "f = id \<or> f = moved s t"
      and get: "\<And>k. correlation_at k (snd (correlation_exec c r)) =
          map_option (\<lambda>c. if rc_request_ref c = q then f c else c) (correlation_at k r)"
      by (rule transition_ok [OF r moved(2)]) (rule that)
    obtain e where e: "correlation_at k r = Some e" "d = (if rc_request_ref e = q then f e else e)"
      using d unfolding get by (cases "correlation_at k r") auto
    have "d = e \<or> d = moved s t e" using f e(2) by auto
    then show ?thesis
      using old [OF e(1)] entitled_same [OF old [OF e(1)], of "moved s t e"]
      by (auto simp: moved_def)
  next
    case (deleted q t e o1)
    then have "correlation_at k r = Some d"
      using d correlation_invD(1) [OF r]
      by (auto simp: delete_request_correlations_def guarded_snd Let_def dict_get_filter
          split: option.splits if_splits)
    then show ?thesis by (rule old)
  qed
  then show ?thesis using memory_correlations_inv.exec_inv [OF r] by (simp add: entitled_state_def)
qed

lemma deliver_presented_rely:
  assumes rely: "publisher_rely keeps sent home p" and "keeps s"
    and deliver: "deliver_presented p deadline request m s = (x, s')"
  shows "keeps s'" and "x = Inr (Some outcome) \<Longrightarrow> (m, outcome) \<in> set (sent (snd s'))"
proof -
  note waits = waits_safelyD(1) [OF publisher_relyD(4) [OF rely] \<open>keeps s\<close>]
    waits_safelyD(1) [OF publisher_relyD(5) [OF rely] \<open>keeps s\<close>]
  show "keeps s'"
    using deliver waits \<open>keeps s\<close>
    by (auto simp: deliver_presented_def Let_def returns_def raises_def split: option.splits prod.splits sum.splits if_splits)
  show "(m, outcome) \<in> set (sent (snd s'))" if "x = Inr (Some outcome)"
    using deliver that publisher_relyD(6,7) [OF rely]
    by (auto simp: deliver_presented_def Let_def returns_def raises_def split: option.splits prod.splits sum.splits if_splits)
qed

lemma persist_publication_entitled:
  assumes rely: "publisher_rely (entitled_state sha256 present sent) sent home p"
    and inv: "entitled_state sha256 present sent s" and home: "pr_conversation_ref route = home (pr_route_id route)"
    and shown: "present request (pr_conversation_ref route)
        (derive_request_delivery_id sha256 (request_ref_of request) (pr_conversation_ref route)) reply
      = Inr (m, response_supported)"
    and recorded: "(m, outcome) \<in> set (sent (snd s))"
  shows "entitled_state sha256 present sent (snd (persist_publication p sha256 clock route request
    (derive_request_delivery_id sha256 (request_ref_of request) (pr_conversation_ref route))
    response_supported outcome s))" (is "entitled_state _ _ _ (snd ?run)")
proof (cases "outcome = CLAIM_IN_FLIGHT \<or> \<not> response_supported \<or> request_expired (pc_after clock) request")
  case True
  then show ?thesis using inv by (auto simp: persist_publication_def)
next
  case False
  obtain x s1 where active: "pu_active p (pr_thread_ref route) s = (x, s1)" by fastforce
  note s1 = waits_safelyD [OF publisher_relyD(3) [OF rely] inv active]
  show ?thesis
  proof (cases "\<exists>routes current shape. x = Inr routes
      \<and> find (\<lambda>candidate. pr_route_id candidate = pr_route_id route) routes = Some current
      \<and> derive_request_response_shape request = Inr shape")
    case None: False
    then have "snd ?run = s1"
      using False active
      by (cases x) (auto simp: persist_publication_def with_res_def split: option.splits sum.splits)
    with s1 show ?thesis by simp
  next
    case True
    then obtain routes current shape where x: "x = Inr routes"
      and current: "find (\<lambda>candidate. pr_route_id candidate = pr_route_id route) routes = Some current"
      and shape: "derive_request_response_shape request = Inr shape" by blast
    let ?i = "derive_request_delivery_id sha256 (request_ref_of request) (pr_conversation_ref route)"
    let ?c = "opened_correlation sha256 (pc_now clock) request current ?i shape"
    have conv: "pr_conversation_ref current = pr_conversation_ref route"
      using find_SomeD [OF current] publisher_relyD(8) [OF rely active [unfolded x]] home by simp
    have new: "entitled sha256 present (sent (snd s1)) ?c"
      unfolding entitled_def
      using False shown shape subsetD [OF s1(2) recorded]
      by (intro exI [of _ request] exI [of _ reply] exI [of _ m] exI [of _ outcome])
        (simp add: opened_correlation_def conv)
    obtain y r where put: "put_request_correlation ?c (fst s1) = (y, r)" by fastforce
    have run: "snd ?run = (r, snd s1)"
      using False active x current shape put
      by (auto simp: persist_publication_def with_res_def split: sum.splits)
    show ?thesis
    proof (cases y)
      case (Inl e)
      then have "r = fst s1" using put memory_correlations_atomic.fail_frame [of "PutCorrelation ?c" "fst s1" e] by simp
      then show ?thesis using run s1 by simp
    next
      case (Inr stored)
      then show ?thesis
        using entitled_put [of sha256 present sent "fst s1" "snd s1", OF _ put [unfolded Inr] new] s1(1) run by simp
    qed
  qed
qed

lemma publish_request_entitled:
  assumes rely: "publisher_rely (entitled_state sha256 present sent) sent home p"
    and presenter: "pu_presenter p = Some present"
    and inv: "entitled_state sha256 present sent s" and home: "pr_conversation_ref route = home (pr_route_id route)"
  shows "entitled_state sha256 present sent (snd (publish_request p sha256 clock route request s))"
proof -
  let ?t = "tn_thread_ref (turn_ref_of request)" and ?i = "tn_turn_id (turn_ref_of request)"
  obtain x1 s1 where ensure: "ensure_turn_correlation p request s = (x1, s1)" by fastforce
  have s1: "entitled_state sha256 present sent s1"
    using ensure inv waits_safelyD(1) [OF publisher_relyD(1) [OF rely] inv]
    by (auto simp: ensure_turn_correlation_def returns_def split: option.splits)
  obtain x2 s2 where turn: "pu_turn p ?t ?i s1 = (x2, s2)" by fastforce
  note s2 = waits_safelyD(1) [OF publisher_relyD(2) [OF rely] s1 turn]
  have delivered: "entitled_state sha256 present sent s3"
      "y = Inr (Some outcome) \<Longrightarrow> present request (pr_conversation_ref route)
         (derive_request_delivery_id sha256 (request_ref_of request) (pr_conversation_ref route)) reply = Inr (m, b) \<Longrightarrow>
       entitled_state sha256 present sent (snd (persist_publication p sha256 clock route request
         (derive_request_delivery_id sha256 (request_ref_of request) (pr_conversation_ref route)) b outcome s3))"
    if "deliver_presented p (pc_deadline clock) request m s2 = (y, s3)" for m y s3 outcome b reply
    using deliver_presented_rely [OF rely s2 that] persist_publication_entitled [OF rely _ home] by auto
  show ?thesis
    unfolding publish_request_def
    using inv s1 s2 delivered
    by (auto simp: ensure presenter turn Let_def with_res_def split: sum.splits prod.splits option.splits)
qed

text \<open>
  The life of a request runtime as a sequence of events: publications of any requests on any
  routes, and the repository operations of the rest of the runtime.
\<close>

datatype authority_event =
    Publication publication_clock thread_projection_route interactive_request
  | Maintenance correlation_op

fun authority_exec ::
  "('m, correlation_repository \<times> 'w) publisher \<Rightarrow> (string \<Rightarrow> string) \<Rightarrow> authority_event \<Rightarrow>
   correlation_repository \<times> 'w \<Rightarrow> (correlation_repository \<times> 'w, unit) outcome" where
  "authority_exec p sha256 (Publication clock route request) s = publish_request p sha256 clock route request s"
| "authority_exec p sha256 (Maintenance c) s =
     (case correlation_exec c (fst s) of (x, r) \<Rightarrow> (x, (r, snd s)))"

definition authority_event_ok :: "(string \<Rightarrow> conversation_ref) \<Rightarrow> authority_event \<Rightarrow> bool" where
  "authority_event_ok home ev \<longleftrightarrow> (case ev of
     Publication clock route request \<Rightarrow> pr_conversation_ref route = home (pr_route_id route)
   | Maintenance (PutCorrelation c) \<Rightarrow> False
   | Maintenance c \<Rightarrow> True)"

lemma authority_run_entitled:
  assumes rely: "publisher_rely (entitled_state sha256 present sent) sent home p"
    and presenter: "pu_presenter p = Some present"
  shows "entitled_state sha256 present sent s \<Longrightarrow> \<forall>ev \<in> set evs. authority_event_ok home ev \<Longrightarrow>
    entitled_state sha256 present sent (run_ops (authority_exec p sha256) evs s)"
proof (induction evs arbitrary: s)
  case (Cons ev evs)
  have "entitled_state sha256 present sent (snd (authority_exec p sha256 ev s))"
  proof (cases ev)
    case (Publication clock route request)
    then show ?thesis
      using publish_request_entitled [OF rely presenter Cons.prems(1)] Cons.prems(2) by (simp add: authority_event_ok_def)
  next
    case (Maintenance c)
    then have "\<forall>d. c \<noteq> PutCorrelation d" using Cons.prems(2) by (auto simp: authority_event_ok_def)
    from entitled_op [OF _ this, of sha256 present sent "fst s" "snd s"] Cons.prems(1) show ?thesis
      by (simp add: Maintenance case_prod_unfold)
  qed
  then show ?case using Cons by simp
qed simp

section \<open>Properties\<close>

text \<open>
  C11: a request is answered natively at most once. After a response was routed successfully, every
  later response to the same request, from any conversation and after any interleaving of
  repository writes that does not delete correlations, is refused without reaching the native
  application and without changing anything, whatever was written while the first native call ran.
\<close>

theorem one_native_answer:
  assumes "correlation_inv r"
    and "\<And>q a t s'. correlation_inv (fst s') \<Longrightarrow> correlation_inv (fst (snd (execute q a t s')))"
    and "respond_to_request registered execute now completed_at operation (r, w) = (Inr (), (r', w'))"
    and "\<forall>c \<in> set cs. \<not> deletes_correlations c"
    and "ro_request_ref operation' = ro_request_ref operation"
  shows "\<exists>e. respond_to_request registered' execute' now' completed_at' operation'
      (run_ops correlation_exec cs r', w'') = (Inl e, (run_ops correlation_exec cs r', w''))"
  using assms by (rule second_response_refused)

theorem one_native_answer_witness:
  "let operation = \<lparr>ro_conversation_ref = sample_conversation, ro_request_ref = sample_request,
         ro_response = ApprovalResponse ''yes''\<rparr>;
       r' = \<lparr>rr_correlations = [(''c'', moved RRS_RESPONDED (utc 2) sample_correlation)]\<rparr>
   in \<exists>e. respond_to_request (\<lambda>_. True) (\<lambda>q a t s. returns RequestResponded s) (utc 3) (utc 4) operation
        (run_ops correlation_exec [TransitionCorrelations sample_request [RRS_RESPONDED] RRS_RESOLVED (utc 3)] r', ())
      = (Inl e, (run_ops correlation_exec
          [TransitionCorrelations sample_request [RRS_RESPONDED] RRS_RESOLVED (utc 3)] r', ()))"
proof -
  let ?operation = "\<lparr>ro_conversation_ref = sample_conversation, ro_request_ref = sample_request,
      ro_response = ApprovalResponse ''yes''\<rparr>"
  let ?r = "\<lparr>rr_correlations = [(''c'', sample_correlation)]\<rparr>"
  have "validate_request_route_correlation sample_correlation = None" by code_simp
  moreover have "rc_correlation_id sample_correlation = ''c''" by code_simp
  ultimately have inv: "correlation_inv ?r" by (simp add: correlation_inv_def)
  have first: "respond_to_request (\<lambda>_. True) (\<lambda>q a t s. returns RequestResponded s) (utc 1) (utc 2)
      ?operation (?r, ()) =
      (Inr (), (\<lparr>rr_correlations = [(''c'', moved RRS_RESPONDED (utc 2) sample_correlation)]\<rparr>, ()))"
    by code_simp
  show ?thesis
    unfolding Let_def
    by (rule one_native_answer [OF inv _ first]) (simp_all add: deletes_correlations_def)
qed

text \<open>
  C18: request correlations only move forward. Along every interleaving without deletions each
  correlation stays under its identifier with its request and conversation, in a state of the same
  or a higher precedence (open, responded, stale, resolved), and a request none of whose
  correlations is open stays closed.
\<close>

theorem correlations_only_advance:
  assumes "correlation_inv r" and "\<forall>x \<in> set cs. \<not> deletes_correlations x"
    and "correlation_at k r = Some c"
  shows "(\<exists>c'. correlation_at k (run_ops correlation_exec cs r) = Some c'
      \<and> rc_request_ref c' = rc_request_ref c \<and> rc_conversation_ref c' = rc_conversation_ref c
      \<and> request_state_precedence (rc_state c) \<le> request_state_precedence (rc_state c'))
    \<and> (closed_request q r \<longrightarrow> closed_request q (run_ops correlation_exec cs r))"
  using memory_correlations_mono.run_le [OF assms(1,2)] assms(3)
  unfolding correlation_progress_def by fastforce

theorem correlations_only_advance_witness:
  "let cs = [TransitionCorrelations sample_request [RRS_OPEN] RRS_STALE (utc 3),
             TransitionCorrelations sample_request [RRS_STALE] RRS_RESPONDED (utc 4),
             PutCorrelation sample_correlation];
       r = \<lparr>rr_correlations = [(''c'', sample_correlation)]\<rparr>
   in (\<exists>c'. correlation_at ''c'' (run_ops correlation_exec cs r) = Some c'
        \<and> rc_request_ref c' = rc_request_ref sample_correlation
        \<and> rc_conversation_ref c' = rc_conversation_ref sample_correlation
        \<and> request_state_precedence (rc_state sample_correlation) \<le> request_state_precedence (rc_state c'))
      \<and> (closed_request sample_request r \<longrightarrow> closed_request sample_request (run_ops correlation_exec cs r))"
  unfolding Let_def
  by (rule correlations_only_advance)
    (simp add: correlation_inv_def deletes_correlations_def sample_defs validate_request_route_correlation_def
        validate_request_ref_def validate_turn_ref_def validate_thread_ref_def validate_project_ref_def
        validate_conversation_ref_def validate_choice_count_def request_limits dt_less_def)+

text \<open>
  C19: authority to answer follows delivery. In every life of the runtime, from an empty
  repository through any publications, transitions and deletions, with whatever other tasks of the
  same kind do during each await, a stored correlation exists only for a request that was
  presented as answerable for the correlation's own conversation, under the delivery identifier of
  that request and conversation, and whose presentation the outbound delivery was really given
  and ended with a final outcome (acquired or already completed, not in flight); its Turn, its
  expiry and the shape of the accepted answers are those of the presented request.
\<close>

theorem authority_follows_delivery:
  assumes "publisher_rely (entitled_state sha256 present sent) sent home p" and "pu_presenter p = Some present"
    and "\<forall>ev \<in> set evs. authority_event_ok home ev"
    and "run_ops (authority_exec p sha256) evs (empty_correlations, w) = (r', w')"
    and "correlation_at k r' = Some c"
  shows "\<exists>request reply message outcome.
      request_ref_of request = rc_request_ref c \<and> turn_ref_of request = rc_turn_ref c
      \<and> expires_at_of request = rc_expires_at c
      \<and> derive_request_response_shape request = Inr (rc_response_shape c)
      \<and> rc_delivery_id c = derive_request_delivery_id sha256 (rc_request_ref c) (rc_conversation_ref c)
      \<and> present request (rc_conversation_ref c) (rc_delivery_id c) reply = Inr (message, True)
      \<and> (message, outcome) \<in> set (sent w') \<and> outcome \<noteq> CLAIM_IN_FLIGHT"
proof -
  have "entitled_state sha256 present sent (empty_correlations, w)"
    by (simp add: entitled_state_def correlation_inv_def empty_correlations_def)
  from authority_run_entitled [OF assms(1,2) this assms(3)] assms(4,5)
  show ?thesis by (simp add: entitled_state_def entitled_def)
qed

text \<open>
  A publisher that records each delivery: the message is its delivery identifier, every delivery is
  acquired, and the sample route is active.
\<close>

definition sample_publisher ::
  "(string, correlation_repository \<times> (string \<times> idempotency_claim_status) list) publisher" where
  "sample_publisher = \<lparr>pu_ensure = None, pu_presenter = Some (\<lambda>request conv i reply. Inr (i, True)),
     pu_deliver = (\<lambda>m (r, sent). returns CLAIM_ACQUIRED (r, sent @ [(m, CLAIM_ACQUIRED)])),
     pu_deliver_within = (\<lambda>d m (r, sent). returns (Some CLAIM_ACQUIRED) (r, sent @ [(m, CLAIM_ACQUIRED)])),
     pu_active = (\<lambda>t s. returns [sample_route] s), pu_turn = (\<lambda>t i s. returns None s)\<rparr>"

definition sample_events :: "authority_event list" where
  "sample_events = [
     Publication \<lparr>pc_before = utc 0, pc_deadline = utc 1, pc_after = utc 2, pc_now = utc 3\<rparr> sample_route sample_approval,
     Maintenance (TransitionCorrelations sample_request [RRS_OPEN] RRS_RESPONDED (utc 4))]"

lemma entitled_state_grows:
  "entitled_state sha256 present sent (r, w) \<Longrightarrow> set (sent w) \<subseteq> set (sent w') \<Longrightarrow>
   entitled_state sha256 present sent (r, w')"
  unfolding entitled_state_def entitled_def by fastforce

lemma sample_publisher_rely:
  "publisher_rely (entitled_state sha256 present (\<lambda>sent. sent)) (\<lambda>sent. sent) (\<lambda>_. sample_conversation) sample_publisher"
proof -
  have "entitled_state sha256 present (\<lambda>sent. sent) (r, sent @ [d])"
    if "entitled_state sha256 present (\<lambda>sent. sent) (r, sent)" for r sent d
    using that by (rule entitled_state_grows) auto
  then show ?thesis
    by (auto simp: publisher_rely_def waits_safely_def sample_publisher_def returns_def sample_route_def)
qed

theorem authority_follows_delivery_witness:
  "let s' = run_ops (authority_exec sample_publisher (\<lambda>_. ''h'')) sample_events (empty_correlations, []) in
   \<exists>c. correlation_at (derive_request_correlation_id (\<lambda>_. ''h'') sample_request sample_conversation) (fst s') = Some c
     \<and> rc_state c = RRS_RESPONDED
     \<and> (\<exists>request reply message outcome. request_ref_of request = rc_request_ref c
         \<and> rc_delivery_id c = derive_request_delivery_id (\<lambda>_. ''h'') (rc_request_ref c) (rc_conversation_ref c)
         \<and> (\<lambda>request conv i reply. Inr (i, True)) request (rc_conversation_ref c) (rc_delivery_id c) reply
             = (Inr (message, True) :: (string \<times> bool) res)
         \<and> (message, outcome) \<in> set (snd s') \<and> outcome \<noteq> CLAIM_IN_FLIGHT)"
proof -
  let ?s' = "run_ops (authority_exec sample_publisher (\<lambda>_. ''h'')) sample_events (empty_correlations, [])"
  let ?k = "derive_request_correlation_id (\<lambda>_. ''h'') sample_request sample_conversation"
  have "map_option rc_state (correlation_at ?k (fst ?s')) = Some RRS_RESPONDED" by code_simp
  then obtain c where c: "correlation_at ?k (fst ?s') = Some c" "rc_state c = RRS_RESPONDED" by blast
  have "\<forall>ev \<in> set sample_events. authority_event_ok (\<lambda>_. sample_conversation) ev" by code_simp
  moreover have "pu_presenter sample_publisher = Some (\<lambda>request conv i reply. Inr (i, True))"
    by (simp add: sample_publisher_def)
  ultimately show ?thesis
    using c authority_follows_delivery [OF sample_publisher_rely, of _ sample_events "\<lambda>_. ''h''" "[]" "fst ?s'" "snd ?s'" ?k c]
    unfolding Let_def by force
qed

end
