(* ===== verification/Delivery_Submissions.thy ===== *)
theory Delivery_Submissions
  imports Samples
begin

text \<open>
  Proactive delivery submissions: reservation of a delivery identity and compare-and-set of the
  state of its destinations (\<open>gateway/persistence/memory.py\<close>,
  \<open>gateway/persistence/submission_identity.py\<close>).
\<close>

section \<open>Reservation identity\<close>

definition snapshot_map ::
  "destination_delivery_record list \<Rightarrow> (string, delivery_route_snapshot) dict" where
  "snapshot_map = foldl (\<lambda>d x. dict_set d (dd_delivery_id x) (dd_snapshot x)) []"

text \<open>Equality of dictionaries does not depend on insertion order.\<close>

definition dict_equal :: "('k, 'v) dict \<Rightarrow> ('k, 'v) dict \<Rightarrow> bool" where
  "dict_equal a b \<longleftrightarrow>
     (\<forall>(k, v) \<in> set a. dict_get b k = Some v) \<and> (\<forall>(k, v) \<in> set b. dict_get a k = Some v)"

definition ensure_same_delivery_submission_reservation ::
  "delivery_submission_record \<Rightarrow> delivery_submission_record \<Rightarrow> check" where
  "ensure_same_delivery_submission_reservation existing replacement = first_error [
     raise_if (sr_submission_id existing \<noteq> sr_submission_id replacement
               \<or> sr_delivery_id existing \<noteq> sr_delivery_id replacement
               \<or> sr_origin existing \<noteq> sr_origin replacement
               \<or> sr_principal_id existing \<noteq> sr_principal_id replacement
               \<or> sr_target_fingerprint existing \<noteq> sr_target_fingerprint replacement
               \<or> sr_payload_fingerprint existing \<noteq> sr_payload_fingerprint replacement)
       DeliverySubmissionConflict,
     raise_if (\<not> dict_equal (snapshot_map (sr_destinations existing))
                 (snapshot_map (sr_destinations replacement)))
       DeliverySubmissionConflict]"

section \<open>The in-memory repository\<close>

record submission_repository =
  sb_max_records :: int
  sb_records :: "(string, delivery_submission_record) dict"

definition new_submission_repository :: "int \<Rightarrow> submission_repository res" where
  "new_submission_repository max_records =
     (if max_records < 1 then Inl ValueError
      else Inr \<lparr>sb_max_records = max_records, sb_records = []\<rparr>)"

definition get_delivery_submission ::
  "string \<Rightarrow> submission_repository \<Rightarrow> delivery_submission_record option" where
  "get_delivery_submission submission_id r = dict_get (sb_records r) submission_id"

definition reserve_delivery_submission :: "delivery_submission_record \<Rightarrow> submission_repository \<Rightarrow>
    (submission_repository, delivery_reservation) outcome" where
  "reserve_delivery_submission record r =
     guarded (validate_delivery_submission_record record) r
     (case dict_get (sb_records r) (sr_submission_id record) of
        Some existing \<Rightarrow>
          guarded (ensure_same_delivery_submission_reservation existing record) r
            (returns \<lparr>rv_acquired = False, rv_record = existing\<rparr> r)
      | None \<Rightarrow>
          if int (length (sb_records r)) \<ge> sb_max_records r
          then raises DeliverySubmissionCapacityError r
          else returns \<lparr>rv_acquired = True, rv_record = record\<rparr>
                 (r\<lparr>sb_records := dict_set (sb_records r) (sr_submission_id record) record\<rparr>))"

text \<open>The loop of \<open>_replace_destination\<close>: whether the destination was found, and the new list.\<close>

fun replace_in_destinations ::
  "string \<Rightarrow> delivery_submission_state \<Rightarrow> destination_delivery_record \<Rightarrow>
   destination_delivery_record list \<Rightarrow> (bool \<times> destination_delivery_record list) res" where
  "replace_in_destinations i expected replacement [] = Inr (False, [])"
| "replace_in_destinations i expected replacement (current # rest) =
     (let continue = (\<lambda>hit x. case replace_in_destinations i expected replacement rest of
                          Inl e \<Rightarrow> Inl e
                        | Inr (found, ds) \<Rightarrow> Inr (hit \<or> found, x # ds))
      in if dd_delivery_id current \<noteq> i then continue False current
         else if dd_state current \<noteq> expected
         then if current = replacement then continue True current
              else Inl DeliverySubmissionConflict
         else if dd_snapshot current \<noteq> dd_snapshot replacement then Inl DeliverySubmissionConflict
         else continue True replacement)"

definition replace_destination ::
  "delivery_submission_record \<Rightarrow> string \<Rightarrow> delivery_submission_state \<Rightarrow>
   destination_delivery_record \<Rightarrow> delivery_submission_record res" where
  "replace_destination record destination_delivery_id expected_state replacement =
     (if dd_delivery_id replacement \<noteq> destination_delivery_id then Inl DeliverySubmissionConflict
      else case replace_in_destinations destination_delivery_id expected_state replacement
                  (sr_destinations record) of
        Inl e \<Rightarrow> Inl e
      | Inr (found, destinations) \<Rightarrow>
          if \<not> found then Inl KeyError
          else if incomparable (sr_updated_at record) (dd_updated_at replacement) then Inl TypeError
          else Inr (record\<lparr>
            sr_destinations := destinations,
            sr_updated_at := dt_max (sr_updated_at record) (dd_updated_at replacement)\<rparr>))"

definition update_delivery_destination ::
  "string \<Rightarrow> string \<Rightarrow> delivery_submission_state \<Rightarrow> destination_delivery_record \<Rightarrow>
   submission_repository \<Rightarrow> (submission_repository, delivery_submission_record) outcome" where
  "update_delivery_destination submission_id destination_delivery_id expected_state destination r =
     (case dict_get (sb_records r) submission_id of
        None \<Rightarrow> raises KeyError r
      | Some existing \<Rightarrow>
          with_res (replace_destination existing destination_delivery_id expected_state destination) r
            (\<lambda>updated. guarded (validate_delivery_submission_record updated) r
              (returns updated (r\<lparr>sb_records := dict_set (sb_records r) submission_id updated\<rparr>))))"

datatype submission_op =
    Reserve delivery_submission_record
  | UpdateDestination string string delivery_submission_state destination_delivery_record

text \<open>The result of an operation: the record, and whether the call acquired it.\<close>

fun submission_exec :: "submission_op \<Rightarrow> submission_repository \<Rightarrow>
    (submission_repository, delivery_reservation) outcome" where
  "submission_exec (Reserve record) r = reserve_delivery_submission record r"
| "submission_exec (UpdateDestination s d e x) r =
     (case update_delivery_destination s d e x r of
        (res, r') \<Rightarrow> (map_sum id (\<lambda>v. \<lparr>rv_acquired = False, rv_record = v\<rparr>) res, r'))"

section \<open>What never changes\<close>

definition submission_root :: "delivery_submission_record \<Rightarrow>
    string \<times> string \<times> delivery_submission_origin \<times> string \<times> string \<times> string" where
  "submission_root x = (sr_submission_id x, sr_delivery_id x, sr_origin x, sr_principal_id x,
     sr_target_fingerprint x, sr_payload_fingerprint x)"

definition destination_snapshots ::
  "delivery_submission_record \<Rightarrow> (string \<times> delivery_route_snapshot) list" where
  "destination_snapshots x = map (\<lambda>d. (dd_delivery_id d, dd_snapshot d)) (sr_destinations x)"

lemma replace_in_destinations_snapshots:
  assumes "replace_in_destinations i e x ds = Inr (found, ds')" and "dd_delivery_id x = i"
  shows "map (\<lambda>d. (dd_delivery_id d, dd_snapshot d)) ds' = map (\<lambda>d. (dd_delivery_id d, dd_snapshot d)) ds
    \<and> (found \<longleftrightarrow> i \<in> dd_delivery_id ` set ds)"
  using assms
  by (induction ds arbitrary: found ds')
    (auto simp: Let_def split: if_splits sum.splits prod.splits)

lemma replace_destination_ok:
  assumes "replace_destination x i e d = Inr y"
  shows "submission_root y = submission_root x" "destination_snapshots y = destination_snapshots x"
    "i \<in> dd_delivery_id ` set (sr_destinations x)" "dd_delivery_id d = i"
  using assms replace_in_destinations_snapshots [of i e d "sr_destinations x"]
  by (auto simp: replace_destination_def submission_root_def destination_snapshots_def
      split: if_splits sum.splits prod.splits)

definition submission_inv :: "submission_repository \<Rightarrow> bool" where
  "submission_inv r \<longleftrightarrow>
     dict_ok (sb_records r) \<and> int (length (sb_records r)) \<le> sb_max_records r
     \<and> (\<forall>k x. dict_get (sb_records r) k = Some x \<longrightarrow>
           k = sr_submission_id x \<and> validate_delivery_submission_record x = None)"

definition submissions_kept :: "submission_repository \<Rightarrow> submission_repository \<Rightarrow> bool" where
  "submissions_kept r r' \<longleftrightarrow> sb_max_records r' = sb_max_records r
     \<and> (\<forall>k x. dict_get (sb_records r) k = Some x \<longrightarrow>
         (\<exists>y. dict_get (sb_records r') k = Some y \<and> submission_root y = submission_root x
            \<and> destination_snapshots y = destination_snapshots x))"

lemma reserve_ok:
  assumes "reserve_delivery_submission x r = (Inr v, r')"
  shows "rv_acquired v \<longleftrightarrow> dict_get (sb_records r) (sr_submission_id x) = None"
    and "\<not> rv_acquired v \<Longrightarrow> r' = r \<and> dict_get (sb_records r) (sr_submission_id x) = Some (rv_record v)"
    and "rv_acquired v \<Longrightarrow> rv_record v = x \<and> validate_delivery_submission_record x = None
           \<and> int (length (sb_records r)) < sb_max_records r
           \<and> r' = r\<lparr>sb_records := dict_set (sb_records r) (sr_submission_id x) x\<rparr>"
  using assms
  by (auto simp: reserve_delivery_submission_def outcome_simps not_le split: option.splits if_splits)

lemma update_ok:
  assumes "update_delivery_destination s i e d r = (Inr y, r')"
  obtains x where "dict_get (sb_records r) s = Some x" "replace_destination x i e d = Inr y"
    "validate_delivery_submission_record y = None"
    "r' = r\<lparr>sb_records := dict_set (sb_records r) s y\<rparr>"
  using assms by (auto simp: update_delivery_destination_def outcome_simps split: option.splits)

section \<open>Interleavings\<close>

lemma submission_exec_rolls_back: "rolls_back r (submission_exec c r)"
  by (cases c)
    (simp_all only: submission_exec.simps reserve_delivery_submission_def
      update_delivery_destination_def, (intro rolls_back_intros)+)

interpretation memory_submissions_atomic: failure_atomic submission_exec
  by unfold_locales (rule rolls_backD [OF submission_exec_rolls_back])

lemma submission_exec_cases:
  obtains (same) "snd (submission_exec c r) = r"
  | (reserved) x v where "c = Reserve x"
      "reserve_delivery_submission x r = (Inr v, snd (submission_exec c r))"
  | (updated) s i e d y where "c = UpdateDestination s i e d"
      "update_delivery_destination s i e d r = (Inr y, snd (submission_exec c r))"
proof (cases "fst (submission_exec c r)")
  case (Inl e)
  then show thesis using that(1) memory_submissions_atomic.fail_frame by blast
next
  case (Inr v)
  then show thesis using that(2,3) by (cases c) (auto simp: prod_eq_iff split: prod.splits)
qed

interpretation memory_submissions_inv: op_system submission_exec submission_inv
proof
  fix r c
  assume inv: "submission_inv r"
  show "submission_inv (snd (submission_exec c r))"
  proof (cases rule: submission_exec_cases [of c r])
    case same
    with inv show ?thesis by simp
  next
    case (reserved x v)
    then show ?thesis
      using inv reserve_ok [OF reserved(2)]
      by (cases "rv_acquired v") (auto simp: submission_inv_def length_dict_set_new)
  next
    case (updated s i e d y)
    then show ?thesis
    proof (rule_tac update_ok [OF updated(2)])
      fix x
      assume x: "dict_get (sb_records r) s = Some x" "replace_destination x i e d = Inr y"
        "validate_delivery_submission_record y = None"
        "snd (submission_exec c r) = r\<lparr>sb_records := dict_set (sb_records r) s y\<rparr>"
      have "sr_submission_id y = s"
        using inv x(1) replace_destination_ok(1) [OF x(2)]
        by (auto simp: submission_inv_def submission_root_def)
      then show ?thesis
        using inv x by (auto simp: submission_inv_def length_dict_set_old)
    qed
  qed
qed

interpretation memory_submissions_mono:
  monotone_ops submission_exec submission_inv "\<lambda>_. True" submissions_kept
proof
  fix r c
  assume inv: "submission_inv r"
  show "submissions_kept r (snd (submission_exec c r))"
  proof (cases rule: submission_exec_cases [of c r])
    case same
    then show ?thesis by (simp add: submissions_kept_def)
  next
    case (reserved x v)
    then show ?thesis
      using reserve_ok [OF reserved(2)] by (cases "rv_acquired v") (auto simp: submissions_kept_def)
  next
    case (updated s i e d y)
    then show ?thesis
      by (rule_tac update_ok [OF updated(2)])
        (auto simp: submissions_kept_def replace_destination_ok(1,2))
  qed
next
  fix r s t
  assume "submissions_kept r s" "submissions_kept s t"
  then show "submissions_kept r t" unfolding submissions_kept_def by metis
qed (simp add: submissions_kept_def)

text \<open>
  A submission is acquired once: after the call that acquired it, no call in any later
  interleaving acquires it again, and every retry is told the reserved record.
\<close>

lemma acquired_once:
  assumes inv: "submission_inv r"
    and first: "submission_exec (Reserve x) r = (Inr v, r')"
    and again: "submission_exec (Reserve y) (run_ops submission_exec cs r') = (Inr w, r'')"
    and same: "sr_submission_id y = sr_submission_id x"
  shows "\<not> rv_acquired w \<and> submission_root (rv_record w) = submission_root (rv_record v)
    \<and> destination_snapshots (rv_record w) = destination_snapshots (rv_record v)"
proof -
  have inv': "submission_inv r'"
    using memory_submissions_inv.exec_inv [OF inv, of "Reserve x"] first by simp
  have "dict_get (sb_records r') (sr_submission_id x) = Some (rv_record v)"
    using reserve_ok [of x r v r'] first by (cases "rv_acquired v") auto
  moreover have "submissions_kept r' (run_ops submission_exec cs r')"
    using inv' by (intro memory_submissions_mono.run_le) auto
  ultimately obtain z where z: "dict_get (sb_records (run_ops submission_exec cs r')) (sr_submission_id x) = Some z"
      "submission_root z = submission_root (rv_record v)"
      "destination_snapshots z = destination_snapshots (rv_record v)"
    unfolding submissions_kept_def by blast
  from again have "reserve_delivery_submission y (run_ops submission_exec cs r') = (Inr w, r'')" by simp
  note ok = reserve_ok(1,2) [OF this]
  have "\<not> rv_acquired w" using ok(1) z(1) same by simp
  with ok(2) z same show ?thesis by simp
qed

text \<open>Two workers that saw a destination in the same state: the second outcome is refused.\<close>

lemma replace_in_destinations_stale:
  assumes "cur \<in> set ds" "dd_delivery_id cur = i" "dd_state cur \<noteq> e" "cur \<noteq> x"
    and "distinct (map dd_delivery_id ds)"
  shows "replace_in_destinations i e x ds = Inl DeliverySubmissionConflict"
  using assms
proof (induction ds)
  case (Cons d ds)
  show ?case
  proof (cases "d = cur")
    case False
    with Cons.prems have "cur \<in> set ds" "dd_delivery_id d \<noteq> i" by (auto simp: image_iff)
    with Cons show ?thesis by simp
  qed (use Cons.prems in simp)
qed simp

lemma replace_in_destinations_mem:
  assumes "replace_in_destinations i e x ds = Inr (found, ds')" and "dd_delivery_id x = i"
    and "i \<in> dd_delivery_id ` set ds"
  shows "x \<in> set ds'"
  using assms
  by (induction ds arbitrary: found ds')
    (auto simp: Let_def split: if_splits sum.splits prod.splits)

lemma second_update_conflicts:
  assumes inv: "submission_inv r"
    and first: "update_delivery_destination s i e d r = (Inr y, r')"
    and "dd_state d \<noteq> e" and "d' \<noteq> d" and "dd_delivery_id d' = i"
  shows "update_delivery_destination s i e d' r' = (Inl DeliverySubmissionConflict, r')"
proof (rule update_ok [OF first])
  fix x
  assume x: "dict_get (sb_records r) s = Some x" "replace_destination x i e d = Inr y"
    "validate_delivery_submission_record y = None"
    and r': "r' = r\<lparr>sb_records := dict_set (sb_records r) s y\<rparr>"
  have "d \<in> set (sr_destinations y)" "dd_delivery_id d = i"
    using x(2) replace_destination_ok(3,4) [OF x(2)]
      replace_in_destinations_mem [of i e d "sr_destinations x"]
    by (auto simp: replace_destination_def split: if_splits sum.splits prod.splits)
  moreover have "distinct (map dd_delivery_id (sr_destinations y))"
    using x(3) validate_destinations_distinct [of "{}" "sr_destinations y"]
    by (auto simp: validate_delivery_submission_record_def)
  ultimately have "replace_in_destinations i e d' (sr_destinations y) = Inl DeliverySubmissionConflict"
    using assms(3,4) by (intro replace_in_destinations_stale [of d]) auto
  then show ?thesis
    using assms(5) by (simp add: update_delivery_destination_def replace_destination_def r' raises_def)
qed

section \<open>Properties\<close>

text \<open>
  C20: a proactive submission is acquired once. After any successful reservation, a later
  reservation with the same submission identity never acquires it again, in any interleaving; it is
  told the record of the first one, whose root identity and destination snapshots never changed.
\<close>

theorem submission_acquired_once:
  assumes "submission_inv r"
    and "submission_exec (Reserve x) r = (Inr v, r')"
    and "submission_exec (Reserve y) (run_ops submission_exec cs r') = (Inr w, r'')"
    and "sr_submission_id y = sr_submission_id x"
  shows "\<not> rv_acquired w \<and> submission_root (rv_record w) = submission_root (rv_record v)
    \<and> destination_snapshots (rv_record w) = destination_snapshots (rv_record v)"
  using assms by (rule acquired_once)

theorem submission_acquired_once_witness:
  "let cs = [UpdateDestination ''s'' ''dd'' SUB_IN_FLIGHT
         (sample_destination\<lparr>dd_state := SUB_ACCEPTED, dd_updated_at := utc 2\<rparr>)];
       w = \<lparr>rv_acquired = False, rv_record = sample_submission\<lparr>sr_updated_at := utc 2,
         sr_destinations := [sample_destination\<lparr>dd_state := SUB_ACCEPTED, dd_updated_at := utc 2\<rparr>]\<rparr>\<rparr>;
       v = \<lparr>rv_acquired = True, rv_record = sample_submission\<rparr>
   in \<not> rv_acquired w \<and> submission_root (rv_record w) = submission_root (rv_record v)
    \<and> destination_snapshots (rv_record w) = destination_snapshots (rv_record v)"
  unfolding Let_def
  by (rule submission_acquired_once [where r = "\<lparr>sb_max_records = 4, sb_records = []\<rparr>"
        and x = sample_submission and y = sample_submission
        and cs = "[UpdateDestination ''s'' ''dd'' SUB_IN_FLIGHT
         (sample_destination\<lparr>dd_state := SUB_ACCEPTED, dd_updated_at := utc 2\<rparr>)]"])
    (simp add: submission_inv_def; fail | code_simp)+

text \<open>
  The state of a destination is a compare-and-set. Once an update moved a destination away from
  the expected state, a different update from the same expected state is refused with
  \<open>DeliverySubmissionConflict\<close> and changes nothing.
\<close>

theorem second_destination_update_conflicts:
  assumes "submission_inv r" and "update_delivery_destination s i e d r = (Inr y, r')"
    and "dd_state d \<noteq> e" and "d' \<noteq> d" and "dd_delivery_id d' = i"
  shows "update_delivery_destination s i e d' r' = (Inl DeliverySubmissionConflict, r')"
  using assms by (rule second_update_conflicts)

theorem second_destination_update_conflicts_witness:
  "let r = \<lparr>sb_max_records = 4, sb_records = [(''s'', sample_submission)]\<rparr>;
       d = sample_destination\<lparr>dd_state := SUB_ACCEPTED, dd_updated_at := utc 2\<rparr>;
       d' = sample_destination\<lparr>dd_state := SUB_UNKNOWN, dd_updated_at := utc 3\<rparr>;
       r' = snd (update_delivery_destination ''s'' ''dd'' SUB_IN_FLIGHT d r)
   in update_delivery_destination ''s'' ''dd'' SUB_IN_FLIGHT d' r' = (Inl DeliverySubmissionConflict, r')"
  unfolding Let_def
  by (rule second_destination_update_conflicts
      [where r = "\<lparr>sb_max_records = 4, sb_records = [(''s'', sample_submission)]\<rparr>"
        and d = "sample_destination\<lparr>dd_state := SUB_ACCEPTED, dd_updated_at := utc 2\<rparr>"
        and y = "sample_submission\<lparr>sr_updated_at := utc 2,
           sr_destinations := [sample_destination\<lparr>dd_state := SUB_ACCEPTED, dd_updated_at := utc 2\<rparr>]\<rparr>"])
    (simp add: submission_inv_def sample_defs validate_delivery_submission_record_def
        validate_delivery_submission_destination_count_def MAX_DELIVERY_SUBMISSION_DESTINATIONS_def
        validate_delivery_route_snapshot_def validate_conversation_ref_def dt_less_def; fail
      | code_simp)+

end
