(* ===== verification/Queue_Receipts.thy ===== *)
theory Queue_Receipts
  imports Samples
begin

text \<open>
  The pure merge of queued-input evidence (\<open>gateway/persistence/queue_receipts.py\<close>): evidence
  only accumulates, and an admitted or cancelled input stays so.
\<close>

section \<open>The merge\<close>

definition check_turn_evidence ::
  "queued_input_origin \<Rightarrow> queued_input_receipt \<Rightarrow> turn_reply_correlation option \<Rightarrow> check" where
  "check_turn_evidence origin receipt turn_correlation =
     (if qr_state receipt = QIS_ADMITTED
      then case turn_correlation of
             None \<Rightarrow> Some QueuedInputReceiptConflict
           | Some turn \<Rightarrow> first_error [
               validate_turn_reply_correlation turn,
               require_identifier (tc_correlation_id turn),
               raise_if (\<not> aware (tc_created_at turn)) ContractViolation,
               raise_if (Some (tc_turn_ref turn) \<noteq> qr_turn_ref receipt
                         \<or> tc_client_message_id turn \<noteq> qo_client_message_id origin
                         \<or> tc_conversation_ref turn \<noteq> qo_conversation_ref origin
                         \<or> tc_reply_to_message_id turn \<noteq> qo_message_id origin)
                 QueuedInputReceiptConflict]
      else raise_if (turn_correlation \<noteq> None) QueuedInputReceiptConflict)"

text \<open>The comparison with the evidence stored before.\<close>

datatype receipt_step = KeepStored | RefuseReceipt | ReplaceReceipt

definition compare_receipts ::
  "queued_input_receipt option \<Rightarrow> queued_input_receipt \<Rightarrow> receipt_step" where
  "compare_receipts previous receipt =
     (case previous of
        None \<Rightarrow> ReplaceReceipt
      | Some p \<Rightarrow>
          if qr_queued_item_id p \<noteq> qr_queued_item_id receipt then RefuseReceipt
          else if qr_state p \<noteq> QIS_QUEUED \<and> qr_state receipt = QIS_QUEUED then KeepStored
          else if qr_state p \<noteq> QIS_QUEUED \<and> p \<noteq> receipt then RefuseReceipt
          else if p = receipt then KeepStored
          else ReplaceReceipt)"

definition merge_queued_receipt ::
  "queued_input_correlation \<Rightarrow> queued_input_origin \<Rightarrow> queued_input_receipt \<Rightarrow>
   turn_reply_correlation option \<Rightarrow> datetime \<Rightarrow> queued_input_correlation res" where
  "merge_queued_receipt stored origin receipt turn_correlation now =
     (case first_error [
        validate_queued_input_origin origin,
        validate_queued_input_receipt receipt,
        validate_queued_input_correlation stored,
        raise_if (qc_origin stored \<noteq> origin) QueuedInputReceiptConflict,
        raise_if (qr_thread_ref receipt \<noteq> qo_thread_ref origin
                  \<or> qr_client_message_id receipt \<noteq> qo_client_message_id origin
                  \<or> qr_input_fingerprint receipt \<noteq> qo_input_fingerprint origin)
          QueuedInputReceiptConflict,
        check_turn_evidence origin receipt turn_correlation] of
        Some e \<Rightarrow> Inl e
      | None \<Rightarrow>
          (case compare_receipts (qc_receipt stored) receipt of
             KeepStored \<Rightarrow> Inr stored
           | RefuseReceipt \<Rightarrow> Inl QueuedInputReceiptConflict
           | ReplaceReceipt \<Rightarrow>
               if incomparable (qc_updated_at stored) now then Inl TypeError
               else let result = stored\<lparr>
                      qc_receipt := Some receipt,
                      qc_updated_at := dt_max (qc_updated_at stored) now\<rparr>
                    in case validate_queued_input_correlation result of
                         Some e \<Rightarrow> Inl e
                       | None \<Rightarrow> Inr result))"

section \<open>Monotone evidence\<close>

text \<open>Progress of the evidence: none, queued, then one final state that never changes.\<close>

definition receipt_le :: "queued_input_receipt option \<Rightarrow> queued_input_receipt option \<Rightarrow> bool" where
  "receipt_le a b \<longleftrightarrow>
     (case a of
        None \<Rightarrow> True
      | Some p \<Rightarrow>
          (case b of
             None \<Rightarrow> False
           | Some q \<Rightarrow> qr_queued_item_id q = qr_queued_item_id p \<and> (qr_state p \<noteq> QIS_QUEUED \<longrightarrow> q = p)))"

lemma receipt_le_refl [simp]: "receipt_le a a"
  by (simp add: receipt_le_def split: option.splits)

lemma receipt_le_trans: "receipt_le a b \<Longrightarrow> receipt_le b c \<Longrightarrow> receipt_le a c"
  by (auto simp: receipt_le_def split: option.splits)

lemma merge_queued_receipt_ok:
  assumes "merge_queued_receipt stored origin receipt turn now = Inr result"
  shows "qc_origin result = qc_origin stored" and "qc_origin stored = origin"
    and "qc_created_at result = qc_created_at stored"
    and "receipt_le (qc_receipt stored) (qc_receipt result)"
    and "\<exists>p. qc_receipt result = Some p \<and> (p = receipt \<or> qc_receipt stored = Some p
            \<and> qr_state p \<noteq> QIS_QUEUED \<and> qr_state receipt = QIS_QUEUED)"
    and "validate_queued_input_correlation result = None"
    and "qr_state receipt = QIS_ADMITTED \<Longrightarrow> \<exists>t. turn = Some t"
  using assms
  by (auto simp: merge_queued_receipt_def compare_receipts_def receipt_le_def check_turn_evidence_def
      Let_def split: option.splits if_splits receipt_step.splits)

text \<open>Offering the same evidence again is accepted and changes nothing.\<close>

lemma merge_queued_receipt_idempotent:
  assumes "merge_queued_receipt stored origin receipt turn now = Inr result"
    and "qc_receipt result = Some receipt"
  shows "merge_queued_receipt result origin receipt turn later = Inr result"
  using assms merge_queued_receipt_ok(1,2,6) [OF assms(1)]
  by (auto simp: merge_queued_receipt_def compare_receipts_def split: option.splits if_splits)

section \<open>Properties\<close>

text \<open>
  Queue evidence accumulates and is idempotent. A merge that returns keeps the origin, creation
  time and queue item, never replaces an admitted or cancelled receipt by a different one, yields a
  valid record, and merging the stored evidence once more, at any later time, changes nothing.
\<close>

theorem queue_evidence_accumulates:
  assumes "merge_queued_receipt stored origin receipt turn now = Inr result"
  shows "qc_origin result = origin \<and> qc_created_at result = qc_created_at stored
    \<and> receipt_le (qc_receipt stored) (qc_receipt result)
    \<and> validate_queued_input_correlation result = None
    \<and> (qc_receipt result = Some receipt \<longrightarrow>
         merge_queued_receipt result origin receipt turn later = Inr result)"
  using merge_queued_receipt_ok [OF assms] merge_queued_receipt_idempotent [OF assms] by simp

theorem queue_evidence_accumulates_witness:
  "let result = sample_queued\<lparr>qc_receipt := Some sample_receipt, qc_updated_at := utc 5\<rparr>
   in qc_origin result = sample_origin \<and> qc_created_at result = qc_created_at sample_queued
    \<and> receipt_le (qc_receipt sample_queued) (qc_receipt result)
    \<and> validate_queued_input_correlation result = None
    \<and> (qc_receipt result = Some sample_receipt \<longrightarrow>
         merge_queued_receipt result sample_origin sample_receipt None (utc 9) = Inr result)"
  unfolding Let_def
  by (rule queue_evidence_accumulates [where now = "utc 5"]) code_simp

end
