(* ===== verification/Effects.thy ===== *)
theory Effects
  imports Identities
begin

text \<open>
  Action fingerprints, effect receipts and mutation plans (\<open>gateway/persistence/effects.py\<close>) and
  the outcome algebra they carry (\<open>gateway/outcomes.py\<close>): the data, every validator, stable
  references and the stored form of outcomes with their round trips, and the framed text that
  an action key is the digest of.
\<close>

section \<open>Data\<close>

datatype effect_category = EC_GATEWAY | EC_NATIVE | EC_REQUEST_RESPONSE | EC_WORKFLOW

datatype effect_phase = RESERVED | NATIVE_SIDE_EFFECT_STARTED | NATIVE_RESULT_KNOWN | TERMINAL

datatype action_error_code =
    AE_CONFLICT
  | AE_CAPACITY_EXHAUSTED
  | AE_STALE_RUNTIME
  | AE_STALE_BINDING
  | AE_UNSUPPORTED
  | AE_NATIVE_REJECTED
  | AE_NATIVE_OUTCOME_UNKNOWN
  | AE_STORE_FAILURE
  | AE_QUEUE_ALREADY_ADMITTED

datatype operation_error_code =
    OE_INVALID_OPERATION
  | OE_UNSUPPORTED
  | OE_NOT_FOUND
  | OE_MISSING_BINDING
  | OE_STALE_BINDING
  | OE_CONFLICT
  | OE_ADAPTER_FAILURE
  | OE_CAPACITY_EXHAUSTED
  | OE_UNAUTHORIZED_DESTINATION
  | OE_REQUEST_DUPLICATE
  | OE_REQUEST_RESOLVED
  | OE_REQUEST_STALE
  | OE_REQUEST_DELIVERY_PENDING

datatype stable_reference_kind = SRK_APPLICATION | SRK_PROJECT | SRK_THREAD | SRK_TURN | SRK_REQUEST

text \<open>The string values of the enumerations that are stored, and their lookup by value.\<close>

fun action_error_code_value :: "action_error_code \<Rightarrow> string" where
  "action_error_code_value AE_CONFLICT = ''conflict''"
| "action_error_code_value AE_CAPACITY_EXHAUSTED = ''capacity_exhausted''"
| "action_error_code_value AE_STALE_RUNTIME = ''stale_runtime''"
| "action_error_code_value AE_STALE_BINDING = ''stale_binding''"
| "action_error_code_value AE_UNSUPPORTED = ''unsupported''"
| "action_error_code_value AE_NATIVE_REJECTED = ''native_rejected''"
| "action_error_code_value AE_NATIVE_OUTCOME_UNKNOWN = ''native_outcome_unknown''"
| "action_error_code_value AE_STORE_FAILURE = ''store_failure''"
| "action_error_code_value AE_QUEUE_ALREADY_ADMITTED = ''queue_already_admitted''"

definition action_error_code_members :: "action_error_code list" where
  "action_error_code_members = [AE_CONFLICT, AE_CAPACITY_EXHAUSTED, AE_STALE_RUNTIME, AE_STALE_BINDING, AE_UNSUPPORTED, AE_NATIVE_REJECTED, AE_NATIVE_OUTCOME_UNKNOWN, AE_STORE_FAILURE, AE_QUEUE_ALREADY_ADMITTED]"

fun operation_error_code_value :: "operation_error_code \<Rightarrow> string" where
  "operation_error_code_value OE_INVALID_OPERATION = ''invalid_operation''"
| "operation_error_code_value OE_UNSUPPORTED = ''unsupported''"
| "operation_error_code_value OE_NOT_FOUND = ''not_found''"
| "operation_error_code_value OE_MISSING_BINDING = ''missing_binding''"
| "operation_error_code_value OE_STALE_BINDING = ''stale_binding''"
| "operation_error_code_value OE_CONFLICT = ''conflict''"
| "operation_error_code_value OE_ADAPTER_FAILURE = ''adapter_failure''"
| "operation_error_code_value OE_CAPACITY_EXHAUSTED = ''capacity_exhausted''"
| "operation_error_code_value OE_UNAUTHORIZED_DESTINATION = ''unauthorized_destination''"
| "operation_error_code_value OE_REQUEST_DUPLICATE = ''request_duplicate''"
| "operation_error_code_value OE_REQUEST_RESOLVED = ''request_resolved''"
| "operation_error_code_value OE_REQUEST_STALE = ''request_stale''"
| "operation_error_code_value OE_REQUEST_DELIVERY_PENDING = ''request_delivery_pending''"

definition operation_error_code_members :: "operation_error_code list" where
  "operation_error_code_members = [OE_INVALID_OPERATION, OE_UNSUPPORTED, OE_NOT_FOUND, OE_MISSING_BINDING, OE_STALE_BINDING, OE_CONFLICT, OE_ADAPTER_FAILURE, OE_CAPACITY_EXHAUSTED, OE_UNAUTHORIZED_DESTINATION, OE_REQUEST_DUPLICATE, OE_REQUEST_RESOLVED, OE_REQUEST_STALE, OE_REQUEST_DELIVERY_PENDING]"

fun reference_kind_value :: "stable_reference_kind \<Rightarrow> string" where
  "reference_kind_value SRK_APPLICATION = ''application''"
| "reference_kind_value SRK_PROJECT = ''project''"
| "reference_kind_value SRK_THREAD = ''thread''"
| "reference_kind_value SRK_TURN = ''turn''"
| "reference_kind_value SRK_REQUEST = ''request''"

definition reference_kind_members :: "stable_reference_kind list" where
  "reference_kind_members = [SRK_APPLICATION, SRK_PROJECT, SRK_THREAD, SRK_TURN, SRK_REQUEST]"

definition enum_of_value :: "('e \<Rightarrow> string) \<Rightarrow> 'e list \<Rightarrow> string \<Rightarrow> 'e option" where
  "enum_of_value value_of members s = find (\<lambda>e. value_of e = s) members"

record action_error =
  ae_code :: action_error_code
  ae_operation_error_code :: "operation_error_code option"

record stable_reference =
  sf_kind :: stable_reference_kind
  sf_application_instance_id :: string
  sf_project_id :: "string option"
  sf_thread_id :: "string option"
  sf_turn_id :: "string option"
  sf_native_request_id :: "string option"

datatype reference_value =
    ApplicationValue application_ref
  | ProjectValue project_ref
  | ThreadValue thread_ref
  | TurnValue turn_ref
  | RequestValue request_ref

record effect_value =
  ev_reference :: "stable_reference option"
  ev_conversation_ref :: "conversation_ref option"
  ev_binding_generation :: "int option"
  ev_route_id :: "string option"

datatype action_outcome =
    Succeeded effect_value
  | Failed action_error
  | Partial effect_value action_error
  | OutcomeUnknown action_error

record action_identity =
  ai_gateway_id :: string
  ai_principal_id :: string
  ai_action_kind :: string
  ai_action_id :: string
  ai_conversation_ref :: "conversation_ref option"

record action_fingerprint =
  af_action_kind :: string
  af_action_key :: string
  af_payload_fingerprint :: string

record binding_target =
  bt_conversation_ref :: conversation_ref
  bt_application_ref :: "application_ref option"
  bt_project_ref :: "project_ref option"
  bt_thread_ref :: "thread_ref option"

datatype binding_clear_scope = CLEAR_THREAD | CLEAR_PROJECT | CLEAR_APPLICATION

datatype route_delete_condition = UNLESS_BOUND_TO_ROUTE_THREAD

record store_mutation_plan =
  mp_conversation_ref :: conversation_ref
  mp_binding_target :: "binding_target option"
  mp_binding_clear :: "binding_clear_scope option"
  mp_route_upsert :: "thread_projection_route option"
  mp_route_delete_id :: "string option"
  mp_route_delete_condition :: "route_delete_condition option"
  mp_expected_generation :: "int option"

record store_mutation_request =
  mr_fingerprint :: action_fingerprint
  mr_plan :: store_mutation_plan

record native_mutation_request =
  nm_fingerprint :: action_fingerprint
  nm_category :: effect_category

datatype create_binding_workflow_kind = CREATE_AND_SELECT_PROJECT | CREATE_AND_BIND_THREAD

record create_binding_workflow_request =
  wf_fingerprint :: action_fingerprint
  wf_conversation_ref :: conversation_ref
  wf_kind :: create_binding_workflow_kind
  wf_application_ref :: application_ref
  wf_project_ref :: "project_ref option"
  wf_foreground_route :: bool

record effect_receipt =
  er_gateway_id :: string
  er_action_kind :: string
  er_action_key :: string
  er_payload_fingerprint :: string
  er_category :: effect_category
  er_phase :: effect_phase
  er_native_phase_id :: "string option"
  er_binding_generation :: "int option"
  er_outcome :: "action_outcome option"
  er_created_at :: datetime
  er_updated_at :: datetime

definition MAX_ACTION_KIND_LENGTH :: nat where
  "MAX_ACTION_KIND_LENGTH = 128"

definition MAX_ACTION_FINGERPRINT_FIELDS :: nat where
  "MAX_ACTION_FINGERPRINT_FIELDS = 128"

definition MAX_ACTION_FINGERPRINT_VALUES :: int where
  "MAX_ACTION_FINGERPRINT_VALUES = 1024"

definition MAX_ACTION_FINGERPRINT_PAYLOAD_BYTES :: nat where
  "MAX_ACTION_FINGERPRINT_PAYLOAD_BYTES = 1048576"

section \<open>Stable references\<close>

text \<open>\<open>StableReference.from_value\<close>.\<close>

fun reference_of_value :: "reference_value \<Rightarrow> stable_reference" where
  "reference_of_value (ApplicationValue a) = \<lparr>
     sf_kind = SRK_APPLICATION, sf_application_instance_id = ar_application_instance_id a,
     sf_project_id = None, sf_thread_id = None, sf_turn_id = None, sf_native_request_id = None\<rparr>"
| "reference_of_value (ProjectValue p) = \<lparr>
     sf_kind = SRK_PROJECT, sf_application_instance_id = pj_application_instance_id p,
     sf_project_id = Some (pj_project_id p), sf_thread_id = None, sf_turn_id = None,
     sf_native_request_id = None\<rparr>"
| "reference_of_value (ThreadValue t) = \<lparr>
     sf_kind = SRK_THREAD,
     sf_application_instance_id = pj_application_instance_id (th_project_ref t),
     sf_project_id = Some (pj_project_id (th_project_ref t)),
     sf_thread_id = Some (th_thread_id t), sf_turn_id = None, sf_native_request_id = None\<rparr>"
| "reference_of_value (TurnValue u) = \<lparr>
     sf_kind = SRK_TURN,
     sf_application_instance_id = pj_application_instance_id (th_project_ref (tn_thread_ref u)),
     sf_project_id = Some (pj_project_id (th_project_ref (tn_thread_ref u))),
     sf_thread_id = Some (th_thread_id (tn_thread_ref u)),
     sf_turn_id = Some (tn_turn_id u), sf_native_request_id = None\<rparr>"
| "reference_of_value (RequestValue q) = \<lparr>
     sf_kind = SRK_REQUEST,
     sf_application_instance_id = ar_application_instance_id (rq_application_ref q),
     sf_project_id = None, sf_thread_id = None, sf_turn_id = None,
     sf_native_request_id = Some (rq_native_request_id q)\<rparr>"

text \<open>\<open>x or ""\<close> for an optional string.\<close>

definition or_empty :: "string option \<Rightarrow> string" where
  "or_empty x = (case x of None \<Rightarrow> [] | Some s \<Rightarrow> s)"

definition to_value_unchecked :: "stable_reference \<Rightarrow> reference_value" where
  "to_value_unchecked r =
     (let application = \<lparr>ar_application_instance_id = sf_application_instance_id r\<rparr>;
          project = \<lparr>pj_application_instance_id = sf_application_instance_id r,
                     pj_project_id = or_empty (sf_project_id r)\<rparr>;
          thread = \<lparr>th_project_ref = project, th_thread_id = or_empty (sf_thread_id r)\<rparr>
      in case sf_kind r of
           SRK_APPLICATION \<Rightarrow> ApplicationValue application
         | SRK_REQUEST \<Rightarrow> RequestValue \<lparr>rq_application_ref = application,
                            rq_native_request_id = or_empty (sf_native_request_id r)\<rparr>
         | SRK_PROJECT \<Rightarrow> ProjectValue project
         | SRK_THREAD \<Rightarrow> ThreadValue thread
         | SRK_TURN \<Rightarrow> TurnValue \<lparr>tn_thread_ref = thread, tn_turn_id = or_empty (sf_turn_id r)\<rparr>)"

text \<open>Which of project, thread, turn and request a reference of each kind must carry.\<close>

fun required_by_kind :: "stable_reference_kind \<Rightarrow> bool \<times> bool \<times> bool \<times> bool" where
  "required_by_kind SRK_APPLICATION = (False, False, False, False)"
| "required_by_kind SRK_PROJECT = (True, False, False, False)"
| "required_by_kind SRK_THREAD = (True, True, False, False)"
| "required_by_kind SRK_TURN = (True, True, True, False)"
| "required_by_kind SRK_REQUEST = (False, False, False, True)"

fun validate_reference_value :: "reference_value \<Rightarrow> check" where
  "validate_reference_value (ApplicationValue a) = None"
| "validate_reference_value (ProjectValue p) = validate_project_ref p"
| "validate_reference_value (ThreadValue t) = validate_thread_ref t"
| "validate_reference_value (TurnValue u) = validate_turn_ref u"
| "validate_reference_value (RequestValue q) = validate_request_ref q"

definition validate_stable_reference :: "stable_reference \<Rightarrow> check" where
  "validate_stable_reference r = first_error [
     require_identifier (sf_application_instance_id r),
     raise_if ((sf_project_id r \<noteq> None, sf_thread_id r \<noteq> None, sf_turn_id r \<noteq> None,
                sf_native_request_id r \<noteq> None) \<noteq> required_by_kind (sf_kind r)) ContractViolation,
     validate_reference_value (to_value_unchecked r)]"

definition to_value :: "stable_reference \<Rightarrow> reference_value res" where
  "to_value r = (case validate_stable_reference r of
                   Some e \<Rightarrow> Inl e
                 | None \<Rightarrow> Inr (to_value_unchecked r))"

section \<open>Validators\<close>

definition validate_action_identity :: "action_identity \<Rightarrow> check" where
  "validate_action_identity identity = first_error [
     require_identifier (ai_gateway_id identity),
     require_identifier (ai_principal_id identity),
     require_identifier (ai_action_id identity),
     require_identifier (ai_action_kind identity),
     raise_if (length (ai_action_kind identity) > MAX_ACTION_KIND_LENGTH) ContractViolation,
     on_some validate_conversation_ref (ai_conversation_ref identity)]"

definition validate_action_fingerprint :: "action_fingerprint \<Rightarrow> check" where
  "validate_action_fingerprint fingerprint = first_error [
     require_identifier (af_action_kind fingerprint),
     raise_if (length (af_action_kind fingerprint) > MAX_ACTION_KIND_LENGTH) ContractViolation,
     raise_if (\<not> is_lowercase_sha256 (af_action_key fingerprint)) ContractViolation,
     raise_if (\<not> is_lowercase_sha256 (af_payload_fingerprint fingerprint)) ContractViolation]"

text \<open>\<open>validate_action_error\<close> checks only types, which the model has by construction.\<close>

definition validate_action_error :: "action_error \<Rightarrow> check" where
  "validate_action_error e = None"

definition validate_effect_value :: "effect_value \<Rightarrow> check" where
  "validate_effect_value v = first_error [
     on_some validate_stable_reference (ev_reference v),
     on_some validate_conversation_ref (ev_conversation_ref v),
     on_some validate_generation (ev_binding_generation v),
     on_some require_identifier (ev_route_id v)]"

definition validate_binding_target :: "binding_target \<Rightarrow> check" where
  "validate_binding_target target = first_error [
     validate_conversation_ref (bt_conversation_ref target),
     on_some (\<lambda>project. first_error [
       validate_project_ref project,
       raise_if (map_option ar_application_instance_id (bt_application_ref target)
                 \<noteq> Some (pj_application_instance_id project)) ContractViolation])
       (bt_project_ref target),
     on_some (\<lambda>thread. first_error [
       validate_thread_ref thread,
       raise_if (bt_project_ref target \<noteq> Some (th_project_ref thread)) ContractViolation])
       (bt_thread_ref target)]"

definition validate_store_mutation_request :: "store_mutation_request \<Rightarrow> check" where
  "validate_store_mutation_request request = (let plan = mr_plan request in first_error [
     validate_action_fingerprint (mr_fingerprint request),
     validate_conversation_ref (mp_conversation_ref plan),
     raise_if (mp_binding_target plan = None \<and> mp_binding_clear plan = None
               \<and> mp_route_upsert plan = None \<and> mp_route_delete_id plan = None) ContractViolation,
     raise_if (mp_binding_target plan \<noteq> None \<and> mp_binding_clear plan \<noteq> None) ContractViolation,
     on_some (\<lambda>target. first_error [
       validate_binding_target target,
       raise_if (bt_conversation_ref target \<noteq> mp_conversation_ref plan) ContractViolation])
       (mp_binding_target plan),
     on_some (\<lambda>route. first_error [
       validate_projection_route route,
       raise_if (pr_conversation_ref route \<noteq> mp_conversation_ref plan) ContractViolation,
       raise_if (\<exists>target \<in> set_option (mp_binding_target plan).
           \<exists>thread \<in> set_option (bt_thread_ref target). pr_thread_ref route \<noteq> thread)
         ContractViolation]) (mp_route_upsert plan),
     raise_if (mp_route_upsert plan \<noteq> None \<and> mp_route_delete_id plan \<noteq> None) ContractViolation,
     on_some require_identifier (mp_route_delete_id plan),
     raise_if (mp_route_delete_condition plan \<noteq> None \<and> mp_route_delete_id plan = None)
       ContractViolation,
     on_some validate_generation (mp_expected_generation plan)])"

definition validate_native_mutation_request :: "native_mutation_request \<Rightarrow> check" where
  "validate_native_mutation_request request = first_error [
     validate_action_fingerprint (nm_fingerprint request),
     raise_if (nm_category request \<notin> {EC_NATIVE, EC_REQUEST_RESPONSE}) ContractViolation]"

definition validate_create_binding_workflow_request ::
  "create_binding_workflow_request \<Rightarrow> check" where
  "validate_create_binding_workflow_request request = first_error [
     validate_action_fingerprint (wf_fingerprint request),
     validate_conversation_ref (wf_conversation_ref request),
     require_identifier (ar_application_instance_id (wf_application_ref request)),
     (case wf_kind request of
        CREATE_AND_SELECT_PROJECT \<Rightarrow> raise_if (wf_project_ref request \<noteq> None) ContractViolation
      | CREATE_AND_BIND_THREAD \<Rightarrow>
          (case wf_project_ref request of
             None \<Rightarrow> Some ContractViolation
           | Some project \<Rightarrow> first_error [
               validate_project_ref project,
               raise_if (pj_application_instance_id project
                         \<noteq> ar_application_instance_id (wf_application_ref request))
                 ContractViolation]))]"

fun is_succeeded :: "action_outcome \<Rightarrow> bool" where
  "is_succeeded (Succeeded v) = True"
| "is_succeeded _ = False"

fun is_partial :: "action_outcome \<Rightarrow> bool" where
  "is_partial (Partial v e) = True"
| "is_partial _ = False"

fun is_failed :: "action_outcome \<Rightarrow> bool" where
  "is_failed (Failed e) = True"
| "is_failed _ = False"

fun is_unknown :: "action_outcome \<Rightarrow> bool" where
  "is_unknown (OutcomeUnknown e) = True"
| "is_unknown _ = False"

fun validate_outcome_payload :: "action_outcome \<Rightarrow> check" where
  "validate_outcome_payload (Succeeded v) = validate_effect_value v"
| "validate_outcome_payload (Failed e) = validate_action_error e"
| "validate_outcome_payload (Partial v e) = first_error [validate_effect_value v, validate_action_error e]"
| "validate_outcome_payload (OutcomeUnknown e) = validate_action_error e"

text \<open>Whether an optional outcome is one of the variants the predicate accepts.\<close>

definition outcome_is :: "(action_outcome \<Rightarrow> bool) \<Rightarrow> action_outcome option \<Rightarrow> bool" where
  "outcome_is P x = (case x of None \<Rightarrow> False | Some y \<Rightarrow> P y)"

definition receipt_fingerprint :: "effect_receipt \<Rightarrow> action_fingerprint" where
  "receipt_fingerprint receipt = \<lparr>
     af_action_kind = er_action_kind receipt, af_action_key = er_action_key receipt,
     af_payload_fingerprint = er_payload_fingerprint receipt\<rparr>"

definition validate_effect_receipt :: "effect_receipt \<Rightarrow> check" where
  "validate_effect_receipt receipt = first_error [
     require_identifier (er_gateway_id receipt),
     validate_action_fingerprint (receipt_fingerprint receipt),
     on_some require_identifier (er_native_phase_id receipt),
     on_some validate_generation (er_binding_generation receipt),
     raise_if (\<not> aware (er_created_at receipt) \<or> \<not> aware (er_updated_at receipt)) ContractViolation,
     raise_if (dt_less (er_updated_at receipt) (er_created_at receipt)) ContractViolation,
     (if er_category receipt = EC_GATEWAY
      then raise_if (er_phase receipt \<noteq> TERMINAL \<or> er_native_phase_id receipt \<noteq> None
                     \<or> er_outcome receipt = None \<or> er_binding_generation receipt \<noteq> None)
             ContractViolation
      else raise_if (er_native_phase_id receipt = None) ContractViolation),
     raise_if (er_category receipt \<noteq> EC_WORKFLOW \<and> er_binding_generation receipt \<noteq> None)
       ContractViolation,
     raise_if (er_phase receipt = RESERVED \<and> er_outcome receipt \<noteq> None) ContractViolation,
     raise_if (er_phase receipt = NATIVE_SIDE_EFFECT_STARTED \<and> er_outcome receipt \<noteq> None
               \<and> \<not> outcome_is is_unknown (er_outcome receipt)) ContractViolation,
     raise_if (er_phase receipt = NATIVE_RESULT_KNOWN
               \<and> (er_category receipt \<noteq> EC_WORKFLOW \<or> \<not> outcome_is is_succeeded (er_outcome receipt)))
       ContractViolation,
     raise_if (er_phase receipt = TERMINAL \<and> er_outcome receipt = None) ContractViolation,
     on_some validate_outcome_payload (er_outcome receipt),
     raise_if (er_category receipt = EC_GATEWAY
               \<and> \<not> outcome_is (\<lambda>x. is_succeeded x \<or> is_failed x) (er_outcome receipt))
       ContractViolation,
     raise_if (er_category receipt \<in> {EC_NATIVE, EC_REQUEST_RESPONSE} \<and> er_phase receipt = TERMINAL
               \<and> \<not> outcome_is (\<lambda>x. is_succeeded x \<or> is_failed x) (er_outcome receipt))
       ContractViolation,
     raise_if (er_category receipt = EC_WORKFLOW \<and> er_phase receipt = TERMINAL
               \<and> \<not> outcome_is (\<lambda>x. is_succeeded x \<or> is_failed x \<or> is_partial x) (er_outcome receipt))
       ContractViolation]"

end
