(* ===== verification/Memory_Store.thy ===== *)
theory Memory_Store
  imports Request_Correlations Delivery_Submissions Queue_Receipts Effects
begin

text \<open>
  The coherent process-local store (\<open>gateway/persistence/memory_store.py\<close>): runtime leases with
  epochs, the fence that every mutation passes, workspace identities, queued inputs, effect
  receipts and the atomic commits that tie receipts to bindings and routes. The repositories of
  the other theories are its parts. Every operation runs under the store's lock; the readings of
  its clock are parameters (\<open>fence_time\<close> for the fence, \<open>now\<close> for the operation).
\<close>

section \<open>State\<close>

record runtime_lease =
  ls_gateway_id :: string
  ls_owner_token :: string
  ls_epoch :: int
  ls_expires_at :: datetime

type_synonym queued_key = "conversation_ref \<times> string"

record memory_store =
  ms_max_effect_receipts :: int
  ms_namespace_id :: "string option"
  ms_lease :: "runtime_lease option"
  ms_epoch :: int
  ms_closed :: bool
  ms_bindings :: binding_repository
  ms_projections :: projection_repository
  ms_idempotency :: idempotency_repository
  ms_request_correlations :: correlation_repository
  ms_delivery_submissions :: submission_repository
  ms_workspace_identities :: "(project_ref, string) dict"
  ms_effect_receipts :: "(string, effect_receipt) dict"
  ms_queued_inputs :: "(queued_key, queued_input_correlation) dict"

definition new_memory_store :: "int \<Rightarrow> int \<Rightarrow> int \<Rightarrow> memory_store res" where
  "new_memory_store max_effect_receipts max_idempotency_records max_delivery_submission_records =
     (if max_effect_receipts < 1 \<or> max_idempotency_records < 1 \<or> max_delivery_submission_records < 1
      then Inl ValueError
      else Inr \<lparr>
        ms_max_effect_receipts = max_effect_receipts,
        ms_namespace_id = None, ms_lease = None, ms_epoch = 0, ms_closed = False,
        ms_bindings = empty_bindings,
        ms_projections = empty_projections,
        ms_idempotency = \<lparr>ir_max_records = max_idempotency_records, ir_records = []\<rparr>,
        ms_request_correlations = empty_correlations,
        ms_delivery_submissions = \<lparr>sb_max_records = max_delivery_submission_records, sb_records = []\<rparr>,
        ms_workspace_identities = [], ms_effect_receipts = [], ms_queued_inputs = []\<rparr>)"

section \<open>Leases and the fence\<close>

definition validate_lease_duration :: "duration \<Rightarrow> check" where
  "validate_lease_duration d =
     (case d of NonFinite \<Rightarrow> Some ValueError | Micros t \<Rightarrow> raise_if (t \<le> 0) ValueError)"

definition validate_runtime_lease :: "runtime_lease \<Rightarrow> check" where
  "validate_runtime_lease lease = first_error [
     require_identifier (ls_gateway_id lease),
     require_identifier (ls_owner_token lease),
     raise_if (ls_epoch lease < 1) ContractViolation,
     raise_if (\<not> aware (ls_expires_at lease)) ContractViolation]"

text \<open>\<open>now + timedelta(seconds=d)\<close>, for a duration that is a whole number of microseconds.\<close>

fun later_by :: "datetime \<Rightarrow> duration \<Rightarrow> datetime" where
  "later_by t (Micros d) = t\<lparr>instant := instant t + d\<rparr>"
| "later_by t NonFinite = t"

definition require_open :: "memory_store \<Rightarrow> check" where
  "require_open s = raise_if (ms_closed s) RuntimeError"

definition now_locked :: "datetime \<Rightarrow> check" where
  "now_locked t = raise_if (\<not> aware t) ValueError"

definition assert_fence :: "datetime \<Rightarrow> runtime_lease \<Rightarrow> memory_store \<Rightarrow> check" where
  "assert_fence fence_time fence s = first_error [
     require_open s,
     now_locked fence_time,
     raise_if (case ms_lease s of
         None \<Rightarrow> True
       | Some current \<Rightarrow>
           ls_gateway_id current \<noteq> ls_gateway_id fence
           \<or> ls_owner_token current \<noteq> ls_owner_token fence
           \<or> ls_epoch current \<noteq> ls_epoch fence
           \<or> \<not> dt_less fence_time (ls_expires_at current)) StaleRuntimeFence]"

definition acquire_runtime :: "datetime \<Rightarrow> string \<Rightarrow> string \<Rightarrow> duration \<Rightarrow> memory_store \<Rightarrow>
    (memory_store, runtime_lease) outcome" where
  "acquire_runtime now gateway_id owner_token lease_duration s =
     guarded (first_error [
       require_identifier gateway_id,
       require_identifier owner_token,
       validate_lease_duration lease_duration,
       require_open s,
       raise_if (ms_namespace_id s \<notin> {None, Some gateway_id}) GatewayNamespaceConflict]) s
     (let s1 = s\<lparr>ms_namespace_id := Some gateway_id\<rparr>
      in guarded (now_locked now) s1
         (let held = (case ms_lease s1 of
                        None \<Rightarrow> None
                      | Some current \<Rightarrow>
                          if dt_less now (ls_expires_at current) then Some current else None)
          in if (case held of None \<Rightarrow> False | Some current \<Rightarrow> ls_owner_token current \<noteq> owner_token)
             then raises RuntimeLeaseUnavailable s1
             else let epoch = (case held of None \<Rightarrow> ms_epoch s1 + 1 | Some current \<Rightarrow> ls_epoch current);
                      s2 = (case held of None \<Rightarrow> s1\<lparr>ms_epoch := epoch\<rparr> | Some _ \<Rightarrow> s1);
                      lease = \<lparr>ls_gateway_id = gateway_id, ls_owner_token = owner_token,
                               ls_epoch = epoch, ls_expires_at = later_by now lease_duration\<rparr>
                  in guarded (validate_runtime_lease lease) s2
                       (returns lease (s2\<lparr>ms_lease := Some lease\<rparr>))))"

definition close_store :: "memory_store \<Rightarrow> (memory_store, unit) outcome" where
  "close_store s = returns () (s\<lparr>ms_closed := True\<rparr>)"

definition renew_lease :: "datetime \<Rightarrow> datetime \<Rightarrow> runtime_lease \<Rightarrow> duration \<Rightarrow> memory_store \<Rightarrow>
    (memory_store, runtime_lease) outcome" where
  "renew_lease fence_time now fence lease_duration s =
     guarded (first_error [
       validate_lease_duration lease_duration,
       assert_fence fence_time fence s,
       now_locked now]) s
     (let renewed = fence\<lparr>ls_expires_at := later_by now lease_duration\<rparr>
      in returns renewed (s\<lparr>ms_lease := Some renewed\<rparr>))"

definition release_lease :: "datetime \<Rightarrow> datetime \<Rightarrow> runtime_lease \<Rightarrow> memory_store \<Rightarrow>
    (memory_store, unit) outcome" where
  "release_lease fence_time now fence s =
     guarded (first_error [assert_fence fence_time fence s, now_locked now]) s
       (returns () (s\<lparr>ms_lease := Some (fence\<lparr>ls_expires_at := now\<rparr>)\<rparr>))"

text \<open>\<open>_mutate\<close>: a call of one of the repositories behind the fence.\<close>

definition mutate ::
  "datetime \<Rightarrow> runtime_lease \<Rightarrow> (memory_store \<Rightarrow> 'r) \<Rightarrow> ('r \<Rightarrow> memory_store \<Rightarrow> memory_store) \<Rightarrow>
   ('r \<Rightarrow> ('r, 'a) outcome) \<Rightarrow> memory_store \<Rightarrow> (memory_store, 'a) outcome" where
  "mutate fence_time fence part set_part call s =
     guarded (assert_fence fence_time fence s) s
       (case call (part s) of (res, r') \<Rightarrow> (res, set_part r' s))"

section \<open>Workspace identities\<close>

fun stage_identities ::
  "workspace_identity list \<Rightarrow> (project_ref, string) dict \<Rightarrow> (project_ref, string) dict res" where
  "stage_identities [] staged = Inr staged"
| "stage_identities (identity # identities) staged =
     (if dict_get staged (wi_project_ref identity) \<notin> {None, Some (wi_root_fingerprint identity)}
      then Inl WorkspaceIdentityConflict
      else stage_identities identities
             (dict_set staged (wi_project_ref identity) (wi_root_fingerprint identity)))"

definition check_workspace_identities ::
  "datetime \<Rightarrow> runtime_lease \<Rightarrow> workspace_identity list \<Rightarrow> memory_store \<Rightarrow>
   (memory_store, unit) outcome" where
  "check_workspace_identities fence_time fence identities s =
     guarded (first_error [
       first_error (map validate_workspace_identity identities),
       assert_fence fence_time fence s]) s
     (with_res (stage_identities identities (ms_workspace_identities s)) s
       (\<lambda>staged. returns () (s\<lparr>ms_workspace_identities := staged\<rparr>)))"

section \<open>Queued inputs\<close>

definition reserve_capacity :: "memory_store \<Rightarrow> check" where
  "reserve_capacity s =
     raise_if (int (length (ms_effect_receipts s)) + int (length (ms_queued_inputs s))
               \<ge> ms_max_effect_receipts s) EffectReceiptCapacityError"

definition get_binding_generation :: "conversation_ref \<Rightarrow> memory_store \<Rightarrow> int res" where
  "get_binding_generation conversation_ref s =
     (case require_open s of
        Some e \<Rightarrow> Inl e
      | None \<Rightarrow> Inr (generation_from_maps conversation_ref (bd_bindings (ms_bindings s))
                     (bd_floors (ms_bindings s))))"

definition queued_binding_current :: "queued_input_origin \<Rightarrow> binding_repository \<Rightarrow> bool" where
  "queued_binding_current origin r =
     (case dict_get (bd_bindings r) (qo_conversation_ref origin) of
        None \<Rightarrow> False
      | Some binding \<Rightarrow>
          cb_thread_ref binding = Some (qo_thread_ref origin)
          \<and> cb_generation binding = qo_binding_generation origin
          \<and> \<not> (case dict_get (bd_floors r) (qo_conversation_ref origin) of None \<Rightarrow> 0 | Some g \<Rightarrow> g)
               > qo_binding_generation origin)"

definition fence_queued_input ::
  "datetime \<Rightarrow> datetime \<Rightarrow> runtime_lease \<Rightarrow> queued_input_origin \<Rightarrow> claim_id \<Rightarrow> string \<Rightarrow>
   memory_store \<Rightarrow> (memory_store, queued_input_correlation) outcome" where
  "fence_queued_input fence_time now fence origin claim_ref owner_token s =
     (let key = (qo_conversation_ref origin, qo_message_id origin);
          record = \<lparr>qc_origin = origin, qc_receipt = None, qc_created_at = now, qc_updated_at = now\<rparr>
      in guarded (first_error [
           validate_queued_input_origin origin,
           require_identifier owner_token,
           raise_if (claim_ref \<noteq> inbound_idempotency_identity (qo_conversation_ref origin)
                       (qo_message_id origin)) QueuedInputFenceConflict,
           assert_fence fence_time fence s,
           raise_if (dict_get (ms_queued_inputs s) key \<noteq> None) QueuedInputFenceConflict,
           raise_if (dict_get (ir_records (ms_idempotency s)) claim_ref \<noteq> Some (in_flight, Some owner_token))
             QueuedInputFenceConflict,
           raise_if (\<not> queued_binding_current origin (ms_bindings s)) QueuedInputFenceConflict,
           reserve_capacity s,
           now_locked now,
           validate_queued_input_correlation record]) s
         (returns record (s\<lparr>
           ms_queued_inputs := dict_set (ms_queued_inputs s) key record,
           ms_idempotency := (ms_idempotency s)\<lparr>ir_records :=
             dict_set (ir_records (ms_idempotency s)) claim_ref (side_effect_started, Some owner_token)\<rparr>\<rparr>)))"

definition get_queued_input ::
  "conversation_ref \<Rightarrow> string \<Rightarrow> memory_store \<Rightarrow> queued_input_correlation option res" where
  "get_queued_input conversation_ref message_id s =
     (case first_error [validate_queued_input_lookup conversation_ref message_id, require_open s] of
        Some e \<Rightarrow> Inl e
      | None \<Rightarrow> Inr (dict_get (ms_queued_inputs s) (conversation_ref, message_id)))"

definition list_queued_inputs ::
  "thread_ref option \<Rightarrow> memory_store \<Rightarrow> queued_input_correlation list res" where
  "list_queued_inputs thread_ref s =
     (case first_error [on_some validate_thread_ref thread_ref, require_open s] of
        Some e \<Rightarrow> Inl e
      | None \<Rightarrow> Inr (filter (\<lambda>record. thread_ref = None
                     \<or> thread_ref = Some (qo_thread_ref (qc_origin record)))
                   (dict_values (ms_queued_inputs s))))"

text \<open>The Turn correlation that admitted evidence brings along: kept, added, or refused.\<close>

definition stage_turn_correlation ::
  "turn_reply_correlation option \<Rightarrow> (turn_key, turn_reply_correlation) dict \<Rightarrow>
   (turn_key, turn_reply_correlation) dict res" where
  "stage_turn_correlation turn_correlation turns =
     (case turn_correlation of
        None \<Rightarrow> Inr turns
      | Some turn \<Rightarrow>
          (case dict_get turns (turn_key turn) of
             Some existing \<Rightarrow>
               if \<not> same_turn_reply_correlation existing turn then Inl TurnReplyCorrelationConflict
               else Inr turns
           | None \<Rightarrow>
               if \<exists>item \<in> set (dict_values turns). tc_correlation_id item = tc_correlation_id turn
               then Inl TurnReplyCorrelationConflict
               else Inr (dict_set turns (turn_key turn) turn)))"

definition merge_queued_input_receipt ::
  "datetime \<Rightarrow> datetime \<Rightarrow> runtime_lease \<Rightarrow> queued_input_origin \<Rightarrow> queued_input_receipt \<Rightarrow>
   turn_reply_correlation option \<Rightarrow> memory_store \<Rightarrow> (memory_store, queued_input_correlation) outcome" where
  "merge_queued_input_receipt fence_time now fence origin receipt turn_correlation s =
     (let key = (qo_conversation_ref origin, qo_message_id origin)
      in guarded (first_error [
           validate_queued_input_origin origin,
           assert_fence fence_time fence s]) s
         (case dict_get (ms_queued_inputs s) key of
            None \<Rightarrow> raises KeyError s
          | Some current \<Rightarrow>
              guarded (now_locked now) s
              (with_res (merge_queued_receipt current origin receipt turn_correlation now) s (\<lambda>merged.
               with_res (stage_turn_correlation turn_correlation
                           (pp_turn_correlations (ms_projections s))) s (\<lambda>turns.
               returns merged (s\<lparr>
                 ms_queued_inputs := dict_set (ms_queued_inputs s) key merged,
                 ms_projections := (ms_projections s)\<lparr>pp_turn_correlations := turns\<rparr>\<rparr>))))))"

section \<open>Effect receipts\<close>

definition check_fingerprint :: "effect_receipt \<Rightarrow> action_fingerprint \<Rightarrow> check" where
  "check_fingerprint receipt fingerprint =
     raise_if (er_action_kind receipt \<noteq> af_action_kind fingerprint
               \<or> er_payload_fingerprint receipt \<noteq> af_payload_fingerprint fingerprint)
       EffectReceiptConflict"

definition existing_receipt ::
  "action_fingerprint \<Rightarrow> effect_category \<Rightarrow> memory_store \<Rightarrow> effect_receipt option res" where
  "existing_receipt fingerprint category s =
     (case dict_get (ms_effect_receipts s) (af_action_key fingerprint) of
        None \<Rightarrow> Inr None
      | Some existing \<Rightarrow>
          (case first_error [
             check_fingerprint existing fingerprint,
             raise_if (er_category existing \<noteq> category) EffectReceiptConflict] of
             Some e \<Rightarrow> Inl e
           | None \<Rightarrow> Inr (Some existing)))"

definition require_receipt :: "action_fingerprint \<Rightarrow> memory_store \<Rightarrow> effect_receipt res" where
  "require_receipt fingerprint s =
     (case validate_action_fingerprint fingerprint of
        Some e \<Rightarrow> Inl e
      | None \<Rightarrow>
          (case dict_get (ms_effect_receipts s) (af_action_key fingerprint) of
             None \<Rightarrow> Inl KeyError
           | Some receipt \<Rightarrow>
               (case check_fingerprint receipt fingerprint of
                  Some e \<Rightarrow> Inl e
                | None \<Rightarrow> Inr receipt)))"

definition new_receipt ::
  "action_fingerprint \<Rightarrow> effect_category \<Rightarrow> effect_phase \<Rightarrow> string option \<Rightarrow> int option \<Rightarrow>
   action_outcome option \<Rightarrow> datetime \<Rightarrow> memory_store \<Rightarrow> effect_receipt res" where
  "new_receipt fingerprint category phase native_phase_id binding_generation x now s =
     (case ms_namespace_id s of
        None \<Rightarrow> Inl RuntimeError
      | Some gateway_id \<Rightarrow>
          let receipt = \<lparr>
                er_gateway_id = gateway_id,
                er_action_kind = af_action_kind fingerprint,
                er_action_key = af_action_key fingerprint,
                er_payload_fingerprint = af_payload_fingerprint fingerprint,
                er_category = category,
                er_phase = phase,
                er_native_phase_id = native_phase_id,
                er_binding_generation = binding_generation,
                er_outcome = x,
                er_created_at = now,
                er_updated_at = now\<rparr>
          in case validate_effect_receipt receipt of Some e \<Rightarrow> Inl e | None \<Rightarrow> Inr receipt)"

definition put_receipt :: "effect_receipt \<Rightarrow> memory_store \<Rightarrow> memory_store" where
  "put_receipt receipt s =
     s\<lparr>ms_effect_receipts := dict_set (ms_effect_receipts s) (er_action_key receipt) receipt\<rparr>"

definition get_effect_receipt :: "action_fingerprint \<Rightarrow> memory_store \<Rightarrow> effect_receipt option res" where
  "get_effect_receipt fingerprint s =
     (case first_error [validate_action_fingerprint fingerprint, require_open s] of
        Some e \<Rightarrow> Inl e
      | None \<Rightarrow>
          (case dict_get (ms_effect_receipts s) (af_action_key fingerprint) of
             None \<Rightarrow> Inr None
           | Some existing \<Rightarrow>
               (case check_fingerprint existing fingerprint of
                  Some e \<Rightarrow> Inl e
                | None \<Rightarrow> Inr (Some existing))))"

definition get_store_mutation_receipt ::
  "datetime \<Rightarrow> runtime_lease \<Rightarrow> action_fingerprint \<Rightarrow> memory_store \<Rightarrow> effect_receipt option res" where
  "get_store_mutation_receipt fence_time fence fingerprint s =
     (case first_error [validate_action_fingerprint fingerprint, assert_fence fence_time fence s] of
        Some e \<Rightarrow> Inl e
      | None \<Rightarrow> existing_receipt fingerprint EC_GATEWAY s)"

definition failed_with :: "action_error_code \<Rightarrow> action_outcome" where
  "failed_with code = Failed \<lparr>ae_code = code, ae_operation_error_code = None\<rparr>"

definition commit_store_preflight_failure ::
  "datetime \<Rightarrow> datetime \<Rightarrow> runtime_lease \<Rightarrow> action_fingerprint \<Rightarrow> action_error \<Rightarrow> memory_store \<Rightarrow>
   (memory_store, effect_receipt) outcome" where
  "commit_store_preflight_failure fence_time now fence fingerprint err s =
     guarded (first_error [
       validate_action_fingerprint fingerprint,
       validate_action_error err,
       assert_fence fence_time fence s]) s
     (with_res (existing_receipt fingerprint EC_GATEWAY s) s (\<lambda>existing.
        case existing of
          Some receipt \<Rightarrow> returns receipt s
        | None \<Rightarrow>
            guarded (first_error [reserve_capacity s, now_locked now]) s
            (with_res (new_receipt fingerprint EC_GATEWAY TERMINAL None None (Some (Failed err)) now s) s
              (\<lambda>receipt. returns receipt (put_receipt receipt s)))))"

subsection \<open>Store mutations\<close>

definition resolve_binding_change ::
  "store_mutation_plan \<Rightarrow> conversation_binding option \<Rightarrow> binding_target option \<times> bool \<times> bool" where
  "resolve_binding_change plan current =
     (case mp_binding_target plan of
        Some target \<Rightarrow> (Some target, False, True)
      | None \<Rightarrow>
          (case mp_binding_clear plan of
             None \<Rightarrow> (None, False, False)
           | Some scope \<Rightarrow>
               if scope = CLEAR_APPLICATION then (None, True, True)
               else case current of
                      None \<Rightarrow> (None, True, True)
                    | Some binding \<Rightarrow>
                        (Some \<lparr>
                           bt_conversation_ref = cb_conversation_ref binding,
                           bt_application_ref = cb_application_ref binding,
                           bt_project_ref =
                             (if scope = CLEAR_THREAD then cb_project_ref binding else None),
                           bt_thread_ref = None\<rparr>, False, True)))"

type_synonym routes_dict = "(route_key, thread_projection_route) dict"

definition upsert_route :: "thread_projection_route \<Rightarrow> routes_dict \<Rightarrow>
    (thread_projection_route \<times> routes_dict) res" where
  "upsert_route candidate routes =
     (case reject_conflicting_route_id (dict_values routes) candidate of
        Some e \<Rightarrow> Inl e
      | None \<Rightarrow>
          (case merge_projection_route (dict_get routes (route_key candidate)) candidate of
             Inl e \<Rightarrow> Inl e
           | Inr stored \<Rightarrow> Inr (stored, dict_set routes (route_key candidate) stored)))"

definition apply_route_plan ::
  "store_mutation_plan \<Rightarrow> conversation_binding option \<Rightarrow> datetime \<Rightarrow> routes_dict \<Rightarrow>
   (thread_projection_route option \<times> routes_dict) res" where
  "apply_route_plan plan binding now routes =
     (case mp_route_upsert plan of
        Some route \<Rightarrow>
          map_sum id (\<lambda>(stored, routes'). (Some stored, routes'))
            (upsert_route (route\<lparr>pr_updated_at := Some now\<rparr>) routes)
      | None \<Rightarrow>
          (case mp_route_delete_id plan of
             None \<Rightarrow> Inr (None, routes)
           | Some route_id \<Rightarrow>
               (case find (\<lambda>(key, route). pr_route_id route = route_id) routes of
                  None \<Rightarrow> Inr (None, routes)
                | Some (key, route) \<Rightarrow>
                    if pr_conversation_ref route \<noteq> mp_conversation_ref plan
                    then Inl ProjectionRouteConflict
                    else if mp_route_delete_condition plan = Some UNLESS_BOUND_TO_ROUTE_THREAD
                            \<and> (case binding of
                                 None \<Rightarrow> False
                               | Some b \<Rightarrow> cb_thread_ref b = Some (pr_thread_ref route))
                    then Inr (Some route, routes)
                    else Inr (Some route, dict_pop routes key))))"

definition binding_or_route_reference ::
  "binding_target option \<Rightarrow> thread_projection_route option \<Rightarrow> stable_reference option" where
  "binding_or_route_reference target route =
     (let bound = (case target of
            None \<Rightarrow> None
          | Some t \<Rightarrow>
              (case bt_thread_ref t of
                 Some thread \<Rightarrow> Some (ThreadValue thread)
               | None \<Rightarrow>
                   (case bt_project_ref t of
                      Some project \<Rightarrow> Some (ProjectValue project)
                    | None \<Rightarrow> map_option ApplicationValue (bt_application_ref t))))
      in case bound of
           Some v \<Rightarrow> Some (reference_of_value v)
         | None \<Rightarrow> map_option (\<lambda>r. reference_of_value (ThreadValue (pr_thread_ref r))) route)"

definition bound_to :: "binding_target \<Rightarrow> int \<Rightarrow> datetime \<Rightarrow> conversation_binding" where
  "bound_to target generation now = \<lparr>
     cb_conversation_ref = bt_conversation_ref target,
     cb_application_ref = bt_application_ref target,
     cb_project_ref = bt_project_ref target,
     cb_thread_ref = bt_thread_ref target,
     cb_generation = generation,
     cb_updated_at = Some now\<rparr>"

text \<open>
  The staged part of a mutation: the new bindings and floors, then the new routes and the value
  of the receipt; nothing is published yet.
\<close>

definition stage_binding ::
  "store_mutation_plan \<Rightarrow> datetime \<Rightarrow> binding_repository \<Rightarrow>
   (binding_target option \<times> int \<times> binding_repository) res" where
  "stage_binding plan now r =
     (let conversation = mp_conversation_ref plan;
          observed = generation_from_maps conversation (bd_bindings r) (bd_floors r);
          (target, delete_binding, binding_changed) =
            resolve_binding_change plan (dict_get (bd_bindings r) conversation);
          generation = (if binding_changed then observed + 1 else observed)
      in if target \<noteq> None \<and> binding_changed
         then let t = the target; stored = bound_to t generation now
              in case validate_binding stored of
                   Some e \<Rightarrow> Inl e
                 | None \<Rightarrow> Inr (target, generation, \<lparr>
                     bd_bindings = dict_set (bd_bindings r) (bt_conversation_ref t) stored,
                     bd_floors = dict_set (bd_floors r) (bt_conversation_ref t) generation\<rparr>)
         else if delete_binding
         then Inr (target, generation, \<lparr>
                bd_bindings = dict_pop (bd_bindings r) conversation,
                bd_floors = dict_set (bd_floors r) conversation generation\<rparr>)
         else Inr (target, generation, r))"

definition stage_mutation ::
  "store_mutation_plan \<Rightarrow> datetime \<Rightarrow> binding_repository \<Rightarrow> routes_dict \<Rightarrow>
   (effect_value \<times> binding_repository \<times> routes_dict) res" where
  "stage_mutation plan now r routes =
     (case stage_binding plan now r of
        Inl e \<Rightarrow> Inl e
      | Inr (target, generation, r') \<Rightarrow>
          (case apply_route_plan plan (dict_get (bd_bindings r') (mp_conversation_ref plan)) now routes of
             Inl e \<Rightarrow> Inl e
           | Inr (stored_route, routes') \<Rightarrow>
               Inr (\<lparr>ev_reference = binding_or_route_reference target stored_route,
                     ev_conversation_ref = Some (mp_conversation_ref plan),
                     ev_binding_generation = Some generation,
                     ev_route_id = (case stored_route of
                         Some route \<Rightarrow> Some (pr_route_id route)
                       | None \<Rightarrow> mp_route_delete_id plan)\<rparr>, r', routes')))"

definition publish :: "binding_repository \<Rightarrow> routes_dict \<Rightarrow> memory_store \<Rightarrow> memory_store" where
  "publish r routes s = s\<lparr>
     ms_bindings := r,
     ms_projections := (ms_projections s)\<lparr>pp_routes := routes\<rparr>\<rparr>"

definition is_route_conflict :: "error \<Rightarrow> bool" where
  "is_route_conflict e \<longleftrightarrow> e = ProjectionCheckpointConflict \<or> e = ProjectionRouteConflict"

text \<open>The outcome of a mutation and the store after its publication.\<close>

definition perform_mutation ::
  "store_mutation_plan \<Rightarrow> datetime \<Rightarrow> memory_store \<Rightarrow> (action_outcome \<times> memory_store) res" where
  "perform_mutation plan now s =
     (let r = ms_bindings s;
          current = generation_from_maps (mp_conversation_ref plan) (bd_bindings r) (bd_floors r)
      in if mp_expected_generation plan \<notin> {None, Some current}
         then Inr (failed_with AE_STALE_BINDING, s)
         else case stage_mutation plan now r (pp_routes (ms_projections s)) of
                Inr (value, r', routes') \<Rightarrow> Inr (Succeeded value, publish r' routes' s)
              | Inl e \<Rightarrow>
                  if is_route_conflict e then Inr (failed_with AE_CONFLICT, s) else Inl e)"

definition commit_store_mutation ::
  "datetime \<Rightarrow> datetime \<Rightarrow> runtime_lease \<Rightarrow> store_mutation_request \<Rightarrow> memory_store \<Rightarrow>
   (memory_store, effect_receipt) outcome" where
  "commit_store_mutation fence_time now fence request s =
     guarded (first_error [
       validate_store_mutation_request request,
       assert_fence fence_time fence s]) s
     (with_res (existing_receipt (mr_fingerprint request) EC_GATEWAY s) s (\<lambda>existing.
        case existing of
          Some receipt \<Rightarrow> returns receipt s
        | None \<Rightarrow>
            guarded (first_error [reserve_capacity s, now_locked now]) s
            (with_res (perform_mutation (mr_plan request) now s) s (\<lambda>(x, s').
              with_res (new_receipt (mr_fingerprint request) EC_GATEWAY TERMINAL None None (Some x) now s')
                s' (\<lambda>receipt. returns receipt (put_receipt receipt s'))))))"

subsection \<open>Native effects\<close>

definition reserve_effect ::
  "datetime \<Rightarrow> datetime \<Rightarrow> runtime_lease \<Rightarrow> action_fingerprint \<Rightarrow> effect_category \<Rightarrow> string \<Rightarrow>
   conversation_ref option \<Rightarrow> memory_store \<Rightarrow> (memory_store, effect_receipt) outcome" where
  "reserve_effect fence_time now fence fingerprint category native_phase_id conversation_ref s =
     guarded (first_error [
       validate_action_fingerprint fingerprint,
       require_identifier native_phase_id,
       raise_if (category \<notin> {EC_NATIVE, EC_REQUEST_RESPONSE, EC_WORKFLOW}) ValueError,
       assert_fence fence_time fence s]) s
     (with_res (existing_receipt fingerprint category s) s (\<lambda>existing.
        case existing of
          Some receipt \<Rightarrow>
            if er_native_phase_id receipt \<noteq> Some native_phase_id then raises EffectReceiptConflict s
            else returns receipt s
        | None \<Rightarrow>
            guarded (first_error [reserve_capacity s, now_locked now]) s
            (let generation = map_option (\<lambda>c. generation_from_maps c (bd_bindings (ms_bindings s))
                   (bd_floors (ms_bindings s))) conversation_ref
             in with_res (new_receipt fingerprint category RESERVED (Some native_phase_id) generation
                            None now s) s
                  (\<lambda>receipt. returns receipt (put_receipt receipt s)))))"

definition mark_native_side_effect_started ::
  "datetime \<Rightarrow> datetime \<Rightarrow> runtime_lease \<Rightarrow> action_fingerprint \<Rightarrow> memory_store \<Rightarrow>
   (memory_store, effect_receipt \<times> bool) outcome" where
  "mark_native_side_effect_started fence_time now fence fingerprint s =
     guarded (assert_fence fence_time fence s) s
     (with_res (require_receipt fingerprint s) s (\<lambda>receipt.
        if er_phase receipt \<noteq> RESERVED then returns (receipt, False) s
        else guarded (now_locked now) s
          (let updated = receipt\<lparr>er_phase := NATIVE_SIDE_EFFECT_STARTED, er_updated_at := now\<rparr>
           in returns (updated, True) (put_receipt updated s))))"

definition record_effect_outcome ::
  "datetime \<Rightarrow> datetime \<Rightarrow> runtime_lease \<Rightarrow> action_fingerprint \<Rightarrow> effect_phase \<Rightarrow> action_outcome \<Rightarrow>
   memory_store \<Rightarrow> (memory_store, effect_receipt) outcome" where
  "record_effect_outcome fence_time now fence fingerprint phase x s =
     guarded (first_error [
       raise_if (phase = RESERVED) ValueError,
       raise_if (phase = NATIVE_SIDE_EFFECT_STARTED \<and> \<not> is_unknown x) ValueError,
       assert_fence fence_time fence s]) s
     (with_res (require_receipt fingerprint s) s (\<lambda>receipt.
        if er_phase receipt = TERMINAL then returns receipt s
        else guarded (first_error [
          raise_if (er_phase receipt = RESERVED) RuntimeError,
          raise_if (phase = NATIVE_RESULT_KNOWN
                    \<and> (er_category receipt \<noteq> EC_WORKFLOW \<or> \<not> is_succeeded x)) RuntimeError,
          raise_if (er_phase receipt = NATIVE_RESULT_KNOWN) RuntimeError,
          raise_if (er_category receipt = EC_WORKFLOW \<and> phase = TERMINAL \<and> is_succeeded x) RuntimeError,
          now_locked now]) s
          (let updated = receipt\<lparr>er_phase := phase, er_outcome := Some x, er_updated_at := now\<rparr>
           in guarded (validate_effect_receipt updated) s
                (returns updated (put_receipt updated s)))))"

definition record_effect_preflight_failure ::
  "datetime \<Rightarrow> datetime \<Rightarrow> runtime_lease \<Rightarrow> action_fingerprint \<Rightarrow> action_error \<Rightarrow> memory_store \<Rightarrow>
   (memory_store, effect_receipt) outcome" where
  "record_effect_preflight_failure fence_time now fence fingerprint err s =
     guarded (first_error [
       validate_action_error err,
       assert_fence fence_time fence s]) s
     (with_res (require_receipt fingerprint s) s (\<lambda>receipt.
        if er_phase receipt \<noteq> RESERVED then returns receipt s
        else guarded (now_locked now) s
          (let updated = receipt\<lparr>er_phase := TERMINAL, er_outcome := Some (Failed err),
                 er_updated_at := now\<rparr>
           in guarded (validate_effect_receipt updated) s
                (returns updated (put_receipt updated s)))))"

text \<open>
  The binding part of a workflow: nothing else than the staging may fail before publication, but
  the receipt is validated only after it.
\<close>

definition stage_workflow_binding ::
  "binding_target \<Rightarrow> thread_projection_route option \<Rightarrow> int \<Rightarrow> datetime \<Rightarrow> binding_repository \<Rightarrow>
   routes_dict \<Rightarrow> (thread_projection_route option \<times> binding_repository \<times> routes_dict) res" where
  "stage_workflow_binding target route observed now r routes =
     (let stored = bound_to target (observed + 1) now
      in case validate_binding stored of
           Some e \<Rightarrow> Inl e
         | None \<Rightarrow>
             let r' = \<lparr>bd_bindings = dict_set (bd_bindings r) (bt_conversation_ref target) stored,
                       bd_floors = dict_set (bd_floors r) (bt_conversation_ref target)
                         (observed + 1)\<rparr>
             in case route of
                  None \<Rightarrow> Inr (None, r', routes)
                | Some v \<Rightarrow>
                    (case reject_conflicting_route_id (dict_values routes) v of
                       Some e \<Rightarrow> Inl e
                     | None \<Rightarrow>
                         (case merge_projection_route (dict_get routes (route_key v))
                                 (v\<lparr>pr_updated_at := Some now\<rparr>) of
                            Inl e \<Rightarrow> Inl e
                          | Inr stored_route \<Rightarrow>
                              Inr (Some stored_route, r', dict_set routes (route_key v) stored_route))))"

definition commit_workflow_binding ::
  "datetime \<Rightarrow> datetime \<Rightarrow> runtime_lease \<Rightarrow> action_fingerprint \<Rightarrow> binding_target \<Rightarrow>
   thread_projection_route option \<Rightarrow> memory_store \<Rightarrow> (memory_store, effect_receipt) outcome" where
  "commit_workflow_binding fence_time now fence fingerprint target route s =
     guarded (first_error [
       validate_binding_target target,
       on_some (\<lambda>v. first_error [
         validate_projection_route v,
         raise_if (pr_conversation_ref v \<noteq> bt_conversation_ref target) ValueError]) route,
       assert_fence fence_time fence s]) s
     (with_res (require_receipt fingerprint s) s (\<lambda>receipt.
        if er_category receipt \<noteq> EC_WORKFLOW then raises EffectReceiptConflict s
        else if er_phase receipt = TERMINAL then returns receipt s
        else case (er_phase receipt, er_outcome receipt) of
          (NATIVE_RESULT_KNOWN, Some (Succeeded created)) \<Rightarrow>
            guarded (now_locked now) s
            (let r = ms_bindings s;
                 current = generation_from_maps (bt_conversation_ref target) (bd_bindings r) (bd_floors r);
                 finish = (\<lambda>x s'. let updated = receipt\<lparr>er_phase := TERMINAL, er_outcome := Some x,
                              er_updated_at := now\<rparr>
                            in guarded (validate_effect_receipt updated) s'
                                 (returns updated (put_receipt updated s')))
             in if Some current \<noteq> er_binding_generation receipt
                then finish (Partial created
                       \<lparr>ae_code = AE_STALE_BINDING, ae_operation_error_code = None\<rparr>) s
                else case stage_workflow_binding target route current now r
                            (pp_routes (ms_projections s)) of
                  Inr (stored_route, r', routes') \<Rightarrow>
                    finish (Succeeded (created\<lparr>
                      ev_conversation_ref := Some (bt_conversation_ref target),
                      ev_binding_generation := Some (current + 1),
                      ev_route_id := map_option pr_route_id stored_route\<rparr>)) (publish r' routes' s)
                | Inl e \<Rightarrow>
                    if is_route_conflict e
                    then finish (Partial created
                           \<lparr>ae_code = AE_CONFLICT, ae_operation_error_code = None\<rparr>) s
                    else raises e s)
        | _ \<Rightarrow> raises RuntimeError s))"

end
