(* ===== verification/Store_Runs.thy ===== *)
theory Store_Runs
  imports Memory_Store
begin

text \<open>
  Executions of the coherent store: every mutating operation as a value, the invariant that all
  of them keep, the fence that stale runtimes cannot pass, and the monotone life of an effect
  receipt.
\<close>

section \<open>Operations\<close>

datatype fenced_op =
    RenewLease duration
  | ReleaseLease
  | CheckWorkspaceIdentities "workspace_identity list"
  | FenceQueuedInput queued_input_origin claim_id string
  | MergeQueuedReceipt queued_input_origin queued_input_receipt "turn_reply_correlation option"
  | CommitPreflightFailure action_fingerprint action_error
  | CommitStoreMutation store_mutation_request
  | ReserveEffect action_fingerprint effect_category string "conversation_ref option"
  | MarkStarted action_fingerprint
  | RecordOutcome action_fingerprint effect_phase action_outcome
  | RecordPreflightFailure action_fingerprint action_error
  | CommitWorkflowBinding action_fingerprint binding_target "thread_projection_route option"
  | BindingOp binding_op
  | ProjectionOp projection_op
  | ClaimOp claim_op
  | CorrelationOp correlation_op
  | SubmissionOp submission_op

datatype store_result =
    NoResult
  | LeaseResult runtime_lease
  | ReceiptResult effect_receipt
  | MarkResult effect_receipt bool
  | QueuedResult queued_input_correlation
  | BindingResult "conversation_binding option"
  | ClaimResult "idempotency_claim_status option"
  | ReservationResult delivery_reservation

definition as_result :: "('a \<Rightarrow> store_result) \<Rightarrow> ('s, 'a) outcome \<Rightarrow> ('s, store_result) outcome" where
  "as_result f k = (map_sum id f (fst k), snd k)"

fun fenced_exec :: "datetime \<Rightarrow> datetime \<Rightarrow> runtime_lease \<Rightarrow> fenced_op \<Rightarrow> memory_store \<Rightarrow>
    (memory_store, store_result) outcome" where
  "fenced_exec ft now l (RenewLease d) s = as_result LeaseResult (renew_lease ft now l d s)"
| "fenced_exec ft now l ReleaseLease s = as_result (\<lambda>_. NoResult) (release_lease ft now l s)"
| "fenced_exec ft now l (CheckWorkspaceIdentities is) s =
     as_result (\<lambda>_. NoResult) (check_workspace_identities ft l is s)"
| "fenced_exec ft now l (FenceQueuedInput q c t) s =
     as_result QueuedResult (fence_queued_input ft now l q c t s)"
| "fenced_exec ft now l (MergeQueuedReceipt q r t) s =
     as_result QueuedResult (merge_queued_input_receipt ft now l q r t s)"
| "fenced_exec ft now l (CommitPreflightFailure f e) s =
     as_result ReceiptResult (commit_store_preflight_failure ft now l f e s)"
| "fenced_exec ft now l (CommitStoreMutation req) s =
     as_result ReceiptResult (commit_store_mutation ft now l req s)"
| "fenced_exec ft now l (ReserveEffect f c i conv) s =
     as_result ReceiptResult (reserve_effect ft now l f c i conv s)"
| "fenced_exec ft now l (MarkStarted f) s =
     as_result (\<lambda>(r, b). MarkResult r b) (mark_native_side_effect_started ft now l f s)"
| "fenced_exec ft now l (RecordOutcome f p x) s =
     as_result ReceiptResult (record_effect_outcome ft now l f p x s)"
| "fenced_exec ft now l (RecordPreflightFailure f e) s =
     as_result ReceiptResult (record_effect_preflight_failure ft now l f e s)"
| "fenced_exec ft now l (CommitWorkflowBinding f t r) s =
     as_result ReceiptResult (commit_workflow_binding ft now l f t r s)"
| "fenced_exec ft now l (BindingOp c) s =
     as_result BindingResult (mutate ft l ms_bindings (\<lambda>r s. s\<lparr>ms_bindings := r\<rparr>) (binding_exec c) s)"
| "fenced_exec ft now l (ProjectionOp c) s =
     as_result (\<lambda>_. NoResult)
       (mutate ft l ms_projections (\<lambda>r s. s\<lparr>ms_projections := r\<rparr>) (projection_exec c) s)"
| "fenced_exec ft now l (ClaimOp c) s =
     as_result ClaimResult
       (mutate ft l ms_idempotency (\<lambda>r s. s\<lparr>ms_idempotency := r\<rparr>) (claim_exec c) s)"
| "fenced_exec ft now l (CorrelationOp c) s =
     as_result (\<lambda>_. NoResult)
       (mutate ft l ms_request_correlations (\<lambda>r s. s\<lparr>ms_request_correlations := r\<rparr>)
          (correlation_exec c) s)"
| "fenced_exec ft now l (SubmissionOp c) s =
     as_result ReservationResult
       (mutate ft l ms_delivery_submissions (\<lambda>r s. s\<lparr>ms_delivery_submissions := r\<rparr>)
          (submission_exec c) s)"

datatype store_op =
    Acquire datetime string string duration
  | CloseStore
  | Fenced datetime datetime runtime_lease fenced_op

fun store_exec :: "store_op \<Rightarrow> memory_store \<Rightarrow> (memory_store, store_result) outcome" where
  "store_exec (Acquire now g t d) s = as_result LeaseResult (acquire_runtime now g t d s)"
| "store_exec CloseStore s = as_result (\<lambda>_. NoResult) (close_store s)"
| "store_exec (Fenced ft now l c) s = fenced_exec ft now l c s"

lemma as_result_simps [simp]:
  "snd (as_result f k) = snd k" "fst (as_result f k) = Inl e \<longleftrightarrow> fst k = Inl e"
  by (cases "fst k"; simp add: as_result_def)+

lemma as_result_Inr: "fst (as_result f k) = Inr v \<longleftrightarrow> (\<exists>u. fst k = Inr u \<and> v = f u)"
  by (cases "fst k") (auto simp: as_result_def)

lemma rolls_back_as_result [rolls_back_intros]: "rolls_back s k \<Longrightarrow> rolls_back s (as_result f k)"
  by (simp add: rolls_back_def)

section \<open>Behind the fence\<close>

lemmas store_op_defs =
  renew_lease_def release_lease_def check_workspace_identities_def fence_queued_input_def
  merge_queued_input_receipt_def commit_store_preflight_failure_def commit_store_mutation_def
  reserve_effect_def mark_native_side_effect_started_def record_effect_outcome_def
  record_effect_preflight_failure_def commit_workflow_binding_def mutate_def

text \<open>An operation whose fence fails changes nothing and returns nothing.\<close>

lemma fenced_exec_stale:
  assumes "assert_fence ft l s \<noteq> None"
  shows "snd (fenced_exec ft now l c s) = s" "\<exists>e. fst (fenced_exec ft now l c s) = Inl e"
proof -
  have stop: "snd (guarded chk s k) = s \<and> (\<exists>e. fst (guarded chk s k) = Inl e)"
    if "chk \<noteq> None" for chk and k :: "(memory_store, 'a) outcome"
    using that by (cases chk) auto
  have "snd (fenced_exec ft now l c s) = s \<and> (\<exists>e. fst (fenced_exec ft now l c s) = Inl e)"
    by (cases c) (simp_all add: store_op_defs stop assms Let_def)
  then show "snd (fenced_exec ft now l c s) = s" "\<exists>e. fst (fenced_exec ft now l c s) = Inl e"
    by blast+
qed

definition lease_inv :: "memory_store \<Rightarrow> bool" where
  "lease_inv s \<longleftrightarrow> 0 \<le> ms_epoch s
     \<and> on_some require_identifier (ms_namespace_id s) = None
     \<and> (\<forall>l. ms_lease s = Some l \<longrightarrow> ls_epoch l = ms_epoch s \<and> 1 \<le> ls_epoch l
           \<and> aware (ls_expires_at l) \<and> ms_namespace_id s = Some (ls_gateway_id l))"

lemma assert_fence_stale_epoch:
  "lease_inv s \<Longrightarrow> ls_epoch l < ms_epoch s \<Longrightarrow> assert_fence ft l s \<noteq> None"
  by (auto simp: assert_fence_def lease_inv_def split: option.splits)

lemma assert_fence_current:
  assumes "assert_fence ft l s = None"
  obtains c where "ms_lease s = Some c" "ls_gateway_id c = ls_gateway_id l"
    "ls_owner_token c = ls_owner_token l" "ls_epoch c = ls_epoch l"
    "dt_less ft (ls_expires_at c)" "\<not> ms_closed s" "aware ft"
  using assms
  by (auto simp: assert_fence_def require_open_def now_locked_def split: option.splits)

lemma ends_in_as_result [ends_in_intros]: "ends_in P k \<Longrightarrow> ends_in P (as_result f k)"
  by (simp add: ends_in_def)

lemma ends_in_phase [ends_in_intros]:
  "(\<And>v. p = (NATIVE_RESULT_KNOWN, Some (Succeeded v)) \<Longrightarrow> ends_in P (f v)) \<Longrightarrow> ends_in P k \<Longrightarrow>
   ends_in P (case p of (NATIVE_RESULT_KNOWN, Some (Succeeded v)) \<Rightarrow> f v | _ \<Rightarrow> k)"
  by (cases p) (auto split: effect_phase.splits option.splits action_outcome.splits)

text \<open>No fenced operation touches the epoch, the namespace or the capacity.\<close>

definition same_authority :: "memory_store \<Rightarrow> memory_store \<Rightarrow> bool" where
  "same_authority s s' \<longleftrightarrow> ms_epoch s' = ms_epoch s \<and> ms_namespace_id s' = ms_namespace_id s
     \<and> ms_max_effect_receipts s' = ms_max_effect_receipts s \<and> ms_closed s' = ms_closed s"

lemma same_authority_simps [simp]:
  "same_authority s s"
  "same_authority s (s'\<lparr>ms_lease := a\<rparr>) = same_authority s s'"
  "same_authority s (s'\<lparr>ms_bindings := b\<rparr>) = same_authority s s'"
  "same_authority s (s'\<lparr>ms_projections := c\<rparr>) = same_authority s s'"
  "same_authority s (s'\<lparr>ms_idempotency := d\<rparr>) = same_authority s s'"
  "same_authority s (s'\<lparr>ms_request_correlations := e\<rparr>) = same_authority s s'"
  "same_authority s (s'\<lparr>ms_delivery_submissions := f\<rparr>) = same_authority s s'"
  "same_authority s (s'\<lparr>ms_workspace_identities := g\<rparr>) = same_authority s s'"
  "same_authority s (s'\<lparr>ms_effect_receipts := h\<rparr>) = same_authority s s'"
  "same_authority s (s'\<lparr>ms_queued_inputs := i\<rparr>) = same_authority s s'"
  "same_authority s (put_receipt r s') = same_authority s s'"
  "same_authority s (publish b' routes s') = same_authority s s'"
  by (simp_all add: same_authority_def put_receipt_def publish_def)

lemma perform_mutation_authority:
  "perform_mutation plan now s = Inr (x, s') \<Longrightarrow> same_authority s s'"
  by (auto simp: perform_mutation_def Let_def split: if_splits sum.splits prod.splits)

lemma fenced_exec_authority: "same_authority s (snd (fenced_exec ft now l c s))"
proof -
  have "ends_in (same_authority s) (fenced_exec ft now l c s)"
    by (cases c; simp only: fenced_exec.simps store_op_defs; intro ends_in_intros)
      (auto dest: perform_mutation_authority)
  then show ?thesis by (rule ends_inD)
qed

section \<open>The store invariant\<close>

abbreviation receipt_at :: "string \<Rightarrow> memory_store \<Rightarrow> effect_receipt option" where
  "receipt_at k s \<equiv> dict_get (ms_effect_receipts s) k"

abbreviation queued_at :: "queued_key \<Rightarrow> memory_store \<Rightarrow> queued_input_correlation option" where
  "queued_at k s \<equiv> dict_get (ms_queued_inputs s) k"

text \<open>
  A stored receipt satisfies \<open>validate_effect_receipt\<close> except that its update time may precede
  its creation, when the clock went back between the two.
\<close>

definition receipt_ok :: "effect_receipt \<Rightarrow> bool" where
  "receipt_ok r \<longleftrightarrow> aware (er_updated_at r) \<and> validate_effect_receipt (r\<lparr>er_updated_at := er_created_at r\<rparr>) = None"

definition receipts_inv :: "memory_store \<Rightarrow> bool" where
  "receipts_inv s \<longleftrightarrow> dict_ok (ms_effect_receipts s)
     \<and> (\<forall>k r. receipt_at k s = Some r \<longrightarrow>
           k = er_action_key r \<and> ms_namespace_id s = Some (er_gateway_id r) \<and> receipt_ok r)"

definition queued_inv :: "memory_store \<Rightarrow> bool" where
  "queued_inv s \<longleftrightarrow> dict_ok (ms_queued_inputs s)
     \<and> (\<forall>k q. queued_at k s = Some q \<longrightarrow>
           k = (qo_conversation_ref (qc_origin q), qo_message_id (qc_origin q))
           \<and> validate_queued_input_correlation q = None)"

definition capacity_inv :: "memory_store \<Rightarrow> bool" where
  "capacity_inv s \<longleftrightarrow> int (length (ms_effect_receipts s)) + int (length (ms_queued_inputs s))
     \<le> ms_max_effect_receipts s"

definition parts_inv :: "memory_store \<Rightarrow> bool" where
  "parts_inv s \<longleftrightarrow> binding_inv (ms_bindings s) \<and> projection_inv (ms_projections s)
     \<and> claim_inv (ms_idempotency s) \<and> correlation_inv (ms_request_correlations s)
     \<and> submission_inv (ms_delivery_submissions s) \<and> dict_ok (ms_workspace_identities s)"

definition store_inv :: "memory_store \<Rightarrow> bool" where
  "store_inv s \<longleftrightarrow> lease_inv s \<and> parts_inv s \<and> receipts_inv s \<and> queued_inv s \<and> capacity_inv s"

lemmas store_inv_defs = store_inv_def lease_inv_def parts_inv_def receipts_inv_def queued_inv_def capacity_inv_def

lemma new_memory_store_inv: "new_memory_store a b c = Inr s \<Longrightarrow> store_inv s"
  by (auto simp: new_memory_store_def store_inv_defs binding_inv_def projection_inv_def routes_inv_def
      turn_replies_inv_def claim_inv_def correlation_inv_def submission_inv_def empty_bindings_def
      empty_projections_def empty_correlations_def split: if_splits)

subsection \<open>Changes of the state that keep it\<close>

lemma store_inv_parts:
  "store_inv s \<Longrightarrow> binding_inv b \<Longrightarrow> store_inv (s\<lparr>ms_bindings := b\<rparr>)"
  "store_inv s \<Longrightarrow> projection_inv p \<Longrightarrow> store_inv (s\<lparr>ms_projections := p\<rparr>)"
  "store_inv s \<Longrightarrow> claim_inv c \<Longrightarrow> store_inv (s\<lparr>ms_idempotency := c\<rparr>)"
  "store_inv s \<Longrightarrow> correlation_inv q \<Longrightarrow> store_inv (s\<lparr>ms_request_correlations := q\<rparr>)"
  "store_inv s \<Longrightarrow> submission_inv d \<Longrightarrow> store_inv (s\<lparr>ms_delivery_submissions := d\<rparr>)"
  "store_inv s \<Longrightarrow> dict_ok w \<Longrightarrow> store_inv (s\<lparr>ms_workspace_identities := w\<rparr>)"
  by (auto simp: store_inv_defs)

lemma store_inv_lease:
  assumes "store_inv s" "assert_fence ft l s = None" "aware t"
  shows "store_inv (s\<lparr>ms_lease := Some (l\<lparr>ls_expires_at := t\<rparr>)\<rparr>)"
  using assms(1,3) by (rule_tac assert_fence_current [OF assms(2)]) (auto simp: store_inv_defs)

lemma store_inv_publish:
  assumes "store_inv s" "binding_inv r" "routes_inv routes"
  shows "store_inv (publish r routes s)"
  using assms by (auto simp: publish_def store_inv_defs projection_inv_def)

lemma store_inv_new_receipt:
  assumes "store_inv s" "receipt_at (er_action_key r) s = None" "reserve_capacity s = None"
    and "ms_namespace_id s = Some (er_gateway_id r)" "receipt_ok r"
  shows "store_inv (put_receipt r s)"
  using assms
  by (auto simp: put_receipt_def store_inv_defs reserve_capacity_def length_dict_set_new)

lemma store_inv_update_receipt:
  assumes "store_inv s" "receipt_at (er_action_key r) s = Some old"
    and "er_gateway_id r = er_gateway_id old" "receipt_ok r"
  shows "store_inv (put_receipt r s)"
proof -
  have ns: "ms_namespace_id s = Some (er_gateway_id r)"
    using assms(1-3) by (simp add: store_inv_def receipts_inv_def)
  have rest: "lease_inv s" "parts_inv s" "queued_inv s" "capacity_inv s" "receipts_inv s"
    using assms(1) by (simp_all add: store_inv_def)
  have "receipts_inv (put_receipt r s)"
    using rest(5) ns assms(4) unfolding receipts_inv_def put_receipt_def
    by (auto split: if_splits)
  moreover have "capacity_inv (put_receipt r s)"
    using rest(4) assms(2) by (simp add: capacity_inv_def put_receipt_def length_dict_set_old)
  ultimately show ?thesis
    using rest(1-3)
    by (auto simp: store_inv_def put_receipt_def lease_inv_def parts_inv_def queued_inv_def)
qed

subsection \<open>Receipts\<close>

lemma receipt_okI: "validate_effect_receipt r = None \<Longrightarrow> receipt_ok r"
  by (cases "er_category r = EC_GATEWAY")
    (simp_all add: receipt_ok_def validate_effect_receipt_def receipt_fingerprint_def dt_less_def)

lemma receipt_ok_started:
  "receipt_ok r \<Longrightarrow> er_phase r = RESERVED \<Longrightarrow> aware now \<Longrightarrow>
   receipt_ok (r\<lparr>er_phase := NATIVE_SIDE_EFFECT_STARTED, er_updated_at := now\<rparr>)"
  by (auto simp: receipt_ok_def validate_effect_receipt_def receipt_fingerprint_def)

lemma new_receipt_ok:
  assumes "new_receipt f category phase i g x now s = Inr r"
  shows "er_action_key r = af_action_key f" "ms_namespace_id s = Some (er_gateway_id r)" "receipt_ok r"
    "er_category r = category" "er_phase r = phase" "er_outcome r = x" "er_native_phase_id r = i"
    "er_binding_generation r = g" "receipt_fingerprint r = f"
  using assms
  by (auto simp: new_receipt_def Let_def receipt_fingerprint_def intro: receipt_okI split: option.splits)

lemma existing_receipt_None: "existing_receipt f c s = Inr None \<longleftrightarrow> receipt_at (af_action_key f) s = None"
  by (auto simp: existing_receipt_def split: option.splits)

lemma require_receipt_ok:
  assumes "require_receipt f s = Inr r"
  shows "receipt_at (af_action_key f) s = Some r"
  using assms by (auto simp: require_receipt_def split: option.splits)

lemma store_inv_receiptD:
  assumes "store_inv s" "receipt_at k s = Some r"
  shows "k = er_action_key r" "receipt_ok r" "ms_namespace_id s = Some (er_gateway_id r)"
  using assms by (auto simp: store_inv_def receipts_inv_def)

lemma store_inv_updated:
  assumes inv: "store_inv s" and r: "require_receipt f s = Inr r"
    and "er_action_key r' = er_action_key r" "er_gateway_id r' = er_gateway_id r" "receipt_ok r'"
  shows "store_inv (put_receipt r' s)"
  using assms require_receipt_ok [OF r] store_inv_receiptD(1) [OF inv require_receipt_ok [OF r]]
  by (intro store_inv_update_receipt [where old = r]) auto

subsection \<open>Staged bindings and routes\<close>

lemma binding_inv_bind:
  assumes "binding_inv r" "validate_binding b = None"
  shows "binding_inv \<lparr>
    bd_bindings = dict_set (bd_bindings r) (cb_conversation_ref b) b,
    bd_floors = dict_set (bd_floors r) (cb_conversation_ref b) (cb_generation b)\<rparr>"
proof -
  have "0 \<le> cb_generation b" using assms(2) by (simp add: validate_binding_def Let_def)
  with assms show ?thesis by (auto simp: binding_inv_def)
qed

lemma binding_inv_unbind:
  assumes "binding_inv r" "0 \<le> g"
  shows "binding_inv \<lparr>bd_bindings = dict_pop (bd_bindings r) c, bd_floors = dict_set (bd_floors r) c g\<rparr>"
  using assms by (auto simp: binding_inv_def)

lemma bound_to_simps [simp]:
  "cb_conversation_ref (bound_to t g now) = bt_conversation_ref t"
  "cb_application_ref (bound_to t g now) = bt_application_ref t"
  "cb_project_ref (bound_to t g now) = bt_project_ref t"
  "cb_thread_ref (bound_to t g now) = bt_thread_ref t"
  "cb_generation (bound_to t g now) = g"
  by (simp_all add: bound_to_def)

lemma validate_projection_route_stamp [simp]:
  "validate_projection_route (v\<lparr>pr_updated_at := t\<rparr>) = validate_projection_route v"
  by (simp add: validate_projection_route_def)

lemma upsert_route_put:
  assumes "upsert_route v routes = Inr (stored, routes')" "validate_projection_route v = None"
  shows "put_projection_route v \<lparr>pp_routes = routes, pp_turn_correlations = []\<rparr>
    = (Inr stored, \<lparr>pp_routes = routes', pp_turn_correlations = []\<rparr>)"
  using assms
  by (auto simp: upsert_route_def put_projection_route_def split: option.splits sum.splits)

lemma upsert_route_inv:
  assumes "routes_inv routes" "upsert_route v routes = Inr (stored, routes')"
    "validate_projection_route v = None"
  shows "routes_inv routes'" "validate_projection_route stored = None"
proof -
  have inv: "projection_inv \<lparr>pp_routes = routes, pp_turn_correlations = []\<rparr>"
    using assms(1) by (simp add: projection_inv_def turn_replies_inv_def)
  note put = upsert_route_put [OF assms(2,3)]
  from put_projection_route_ok(2) [OF inv put] show "routes_inv routes'"
    by (simp add: projection_inv_def)
  from projection_invD(3) [OF put_projection_route_ok(2) [OF inv put], of "route_key v" stored]
  show "validate_projection_route stored = None"
    using put_projection_route_ok(3) [OF inv put, of "route_key v"] by simp
qed

lemma routes_inv_pop: "routes_inv routes \<Longrightarrow> routes_inv (dict_pop routes k)"
  by (rule routes_inv_subset [of routes]) (auto simp: routes_inv_def split: if_splits)

lemma routes_inv_find:
  assumes "routes_inv routes"
    and "find (\<lambda>(key, route). pr_route_id route = i) routes = Some (k, v)"
  shows "dict_get routes k = Some v" "pr_route_id v = i" "validate_projection_route v = None"
proof -
  have inv: "projection_inv \<lparr>pp_routes = routes, pp_turn_correlations = []\<rparr>"
    using assms(1) by (simp add: projection_inv_def turn_replies_inv_def)
  show "dict_get routes k = Some v" "pr_route_id v = i"
    using find_route [OF inv, of i k v] assms(2) by simp_all
  then show "validate_projection_route v = None"
    using projection_invD(3) [OF inv, of k v] by simp
qed

lemma apply_route_plan_inv:
  assumes routes: "routes_inv routes" and ok: "apply_route_plan plan b now routes = Inr (stored, routes')"
    and valid: "on_some validate_projection_route (mp_route_upsert plan) = None"
  shows "routes_inv routes'" "on_some validate_projection_route stored = None"
proof -
  have "routes_inv routes' \<and> on_some validate_projection_route stored = None"
  proof (cases "mp_route_upsert plan")
    case (Some v)
    then obtain u where "upsert_route (v\<lparr>pr_updated_at := Some now\<rparr>) routes = Inr (u, routes')" "stored = Some u"
      using ok by (auto simp: apply_route_plan_def)
    then show ?thesis using upsert_route_inv [OF routes] valid Some by simp
  next
    case upsert: None
    show ?thesis
    proof (cases "mp_route_delete_id plan")
      case None
      with upsert ok routes show ?thesis by (auto simp: apply_route_plan_def)
    next
      case (Some i)
      show ?thesis
      proof (cases "find (\<lambda>(key, route). pr_route_id route = i) routes")
        case None
        with upsert ok routes Some show ?thesis by (simp add: apply_route_plan_def)
      next
        case (Some kv)
        obtain k v where kv: "kv = (k, v)" by (cases kv)
        have "stored = Some v" "routes' = routes \<or> routes' = dict_pop routes k"
          using upsert ok \<open>mp_route_delete_id plan = Some i\<close> Some kv
          by (auto simp: apply_route_plan_def split: if_splits)
        then show ?thesis
          using routes routes_inv_pop [OF routes, of k] routes_inv_find(3) [OF routes Some [unfolded kv]] by auto
      qed
    qed
  qed
  then show "routes_inv routes'" "on_some validate_projection_route stored = None" by simp_all
qed

lemma binding_inv_bound:
  assumes "binding_inv r" "validate_binding (bound_to t g now) = None"
  shows "binding_inv \<lparr>
    bd_bindings = dict_set (bd_bindings r) (bt_conversation_ref t) (bound_to t g now),
    bd_floors = dict_set (bd_floors r) (bt_conversation_ref t) g\<rparr>"
  using binding_inv_bind [OF assms] by simp

text \<open>What a staged binding change can be: a new binding, no binding, or no change.\<close>

lemma stage_binding_cases:
  assumes "stage_binding plan now r = Inr (target, g, r')"
  obtains (bound) t where "target = Some t" "g = current_generation (mp_conversation_ref plan) r + 1"
      "validate_binding (bound_to t g now) = None"
      "r' = \<lparr>bd_bindings = dict_set (bd_bindings r) (bt_conversation_ref t) (bound_to t g now),
             bd_floors = dict_set (bd_floors r) (bt_conversation_ref t) g\<rparr>"
      "mp_binding_target plan = Some t \<or> mp_binding_target plan = None
         \<and> (\<exists>b. dict_get (bd_bindings r) (mp_conversation_ref plan) = Some b
              \<and> bt_conversation_ref t = cb_conversation_ref b \<and> bt_application_ref t = cb_application_ref b
              \<and> bt_thread_ref t = None \<and> bt_project_ref t \<in> {None, cb_project_ref b})"
  | (unbound) "target = None" "g = current_generation (mp_conversation_ref plan) r + 1"
      "r' = \<lparr>bd_bindings = dict_pop (bd_bindings r) (mp_conversation_ref plan),
             bd_floors = dict_set (bd_floors r) (mp_conversation_ref plan) g\<rparr>"
  | (unchanged) "target = None" "g = current_generation (mp_conversation_ref plan) r" "r' = r"
proof (cases "mp_binding_target plan")
  case (Some t)
  then show thesis
    using assms
    by (intro bound [of t])
      (auto simp: stage_binding_def resolve_binding_change_def Let_def split: option.splits)
next
  case target: None
  show thesis
  proof (cases "mp_binding_clear plan")
    case None
    then show thesis
      using assms target by (intro unchanged) (auto simp: stage_binding_def resolve_binding_change_def Let_def)
  next
    case (Some scope)
    show thesis
    proof (cases "scope = CLEAR_APPLICATION \<or> dict_get (bd_bindings r) (mp_conversation_ref plan) = None")
      case True
      then show thesis
        using assms target Some
        by (intro unbound)
          (auto simp: stage_binding_def resolve_binding_change_def Let_def split: if_splits option.splits)
    next
      case False
      then obtain b where b: "dict_get (bd_bindings r) (mp_conversation_ref plan) = Some b" by auto
      show thesis
        using assms target Some False b
        by (intro bound [of "the target"])
          (auto simp: stage_binding_def resolve_binding_change_def Let_def split: if_splits option.splits)
    qed
  qed
qed

lemma stage_mutation_cases:
  assumes "stage_mutation plan now r routes = Inr (v, r', routes')"
  obtains target g stored where "stage_binding plan now r = Inr (target, g, r')"
    "apply_route_plan plan (dict_get (bd_bindings r') (mp_conversation_ref plan)) now routes = Inr (stored, routes')"
    "v = \<lparr>ev_reference = binding_or_route_reference target stored,
          ev_conversation_ref = Some (mp_conversation_ref plan), ev_binding_generation = Some g,
          ev_route_id = (case stored of Some route \<Rightarrow> Some (pr_route_id route) | None \<Rightarrow> mp_route_delete_id plan)\<rparr>"
  using assms by (auto simp: stage_mutation_def split: sum.splits prod.splits)

lemma stage_binding_inv:
  assumes binv: "binding_inv r" and ok: "stage_binding plan now r = Inr (target, g, r')"
  shows "binding_inv r'" "0 \<le> g"
  using generation_nonneg [OF binv, of "mp_conversation_ref plan"] binv
  by (cases rule: stage_binding_cases [OF ok]; simp add: binding_inv_bound binding_inv_unbind)+


subsection \<open>Every operation keeps it\<close>

lemma later_by_aware [simp]: "aware (later_by t d) = aware t"
  by (cases d) simp_all

lemma store_inv_namespace:
  assumes "store_inv s" "ms_namespace_id s \<in> {None, Some g}" "require_identifier g = None"
  shows "store_inv (s\<lparr>ms_namespace_id := Some g\<rparr>)"
  using assms by (auto simp: store_inv_defs)

text \<open>The lease that an acquisition builds is always valid, so the new epoch never stays unused.\<close>

lemma acquired_lease_valid:
  assumes "store_inv s" "require_identifier g = None" "require_identifier t = None" "now_locked now = None"
    and "held = None \<or> held = ms_lease s"
    and "l = \<lparr>ls_gateway_id = g, ls_owner_token = t,
        ls_epoch = (case held of None \<Rightarrow> ms_epoch s + 1 | Some c \<Rightarrow> ls_epoch c),
        ls_expires_at = later_by now d\<rparr>"
  shows "validate_runtime_lease l = None"
  using assms by (auto simp: validate_runtime_lease_def store_inv_def lease_inv_def now_locked_def
      split: option.splits)

lemma acquire_runtime_inv:
  assumes inv: "store_inv s"
  shows "ends_in store_inv (acquire_runtime now g t d s)"
proof -
  have lease: "store_inv (s\<lparr>ms_namespace_id := Some g, ms_lease := Some l\<rparr>)"
    if "ms_namespace_id s \<in> {None, Some g}" "require_identifier g = None" "ms_lease s = Some c"
      "now_locked now = None"
      "l = \<lparr>ls_gateway_id = g, ls_owner_token = t, ls_epoch = ls_epoch c, ls_expires_at = later_by now d\<rparr>"
    for l c
    using inv that by (auto simp: store_inv_defs now_locked_def)
  have fresh: "store_inv (s\<lparr>ms_namespace_id := Some g, ms_epoch := ms_epoch s + 1, ms_lease := Some l\<rparr>)"
    if "ms_namespace_id s \<in> {None, Some g}" "require_identifier g = None" "now_locked now = None"
      "l = \<lparr>ls_gateway_id = g, ls_owner_token = t, ls_epoch = ms_epoch s + 1,
            ls_expires_at = later_by now d\<rparr>" for l
    using inv that by (auto simp: store_inv_defs now_locked_def)
  note valid = acquired_lease_valid [OF inv _ _ _ _ refl]
  show ?thesis
  proof (cases "first_error [require_identifier g, require_identifier t, validate_lease_duration d,
      require_open s, raise_if (ms_namespace_id s \<notin> {None, Some g}) GatewayNamespaceConflict]")
    case (Some e)
    then show ?thesis using inv by (simp add: acquire_runtime_def ends_in_def)
  next
    case None
    then have ids: "require_identifier g = None" "require_identifier t = None"
      "ms_namespace_id s \<in> {None, Some g}" by auto
    note ns = store_inv_namespace [OF inv ids(3,1)]
    show ?thesis
    proof (cases "now_locked now")
      case (Some e)
      then show ?thesis
        using inv ns by (auto simp: acquire_runtime_def ends_in_def guarded_snd Let_def)
    next
      case clock: None
      show ?thesis
        using ns inv ids clock None valid [OF ids(1,2) clock, of None d] fresh [OF ids(3,1) clock refl]
          valid [OF ids(1,2) clock, of "ms_lease s" d] lease [OF ids(3,1) _ clock refl]
        by (cases "ms_lease s") (simp_all add: acquire_runtime_def ends_in_def guarded_snd Let_def)
    qed
  qed
qed


lemma store_inv_queued_new:
  assumes "store_inv s" "queued_at k s = None" "reserve_capacity s = None"
    and "k = (qo_conversation_ref (qc_origin q), qo_message_id (qc_origin q))"
    and "validate_queued_input_correlation q = None"
  shows "store_inv (s\<lparr>ms_queued_inputs := dict_set (ms_queued_inputs s) k q\<rparr>)"
  using assms by (auto simp: store_inv_defs reserve_capacity_def length_dict_set_new)

lemma store_inv_queued_old:
  assumes "store_inv s" "queued_at k s = Some old" "qc_origin q = qc_origin old"
    and "validate_queued_input_correlation q = None"
  shows "store_inv (s\<lparr>ms_queued_inputs := dict_set (ms_queued_inputs s) k q\<rparr>)"
proof -
  have rest: "lease_inv s" "parts_inv s" "receipts_inv s" "queued_inv s" "capacity_inv s"
    using assms(1) by (simp_all add: store_inv_def)
  have "queued_inv (s\<lparr>ms_queued_inputs := dict_set (ms_queued_inputs s) k q\<rparr>)"
    using rest(4) assms(2-4) unfolding queued_inv_def by (auto split: if_splits)
  moreover have "capacity_inv (s\<lparr>ms_queued_inputs := dict_set (ms_queued_inputs s) k q\<rparr>)"
    using rest(5) assms(2) by (simp add: capacity_inv_def length_dict_set_old)
  ultimately show ?thesis
    using rest(1-3) by (auto simp: store_inv_def lease_inv_def parts_inv_def receipts_inv_def)
qed

lemma claim_inv_phase:
  assumes "claim_inv r" "claim_view r i = Some old"
  shows "claim_inv (r\<lparr>ir_records := dict_set (ir_records r) i v\<rparr>)"
  using assms by (simp add: claim_inv_def length_dict_set_old)

lemma fence_queued_input_inv:
  assumes inv: "store_inv s"
  shows "ends_in store_inv (fence_queued_input ft now l q c t s)"
proof -
  have claims: "claim_inv (ms_idempotency s)" using inv by (simp add: store_inv_def parts_inv_def)
  show ?thesis
    unfolding fence_queued_input_def Let_def
    by (intro ends_in_intros inv)
      (auto intro!: store_inv_parts(3) [where s = "s\<lparr>ms_queued_inputs := x\<rparr>" for x, simplified]
        store_inv_queued_new inv claim_inv_phase claims)
qed

lemma turn_replies_inv_set:
  assumes "turn_replies_inv d" "validate_turn_reply_correlation c = None"
  shows "turn_replies_inv (dict_set d (turn_key c) c)"
proof -
  have "k = turn_key v \<and> validate_turn_reply_correlation v = None"
    if "dict_get (dict_set d (turn_key c) c) k = Some v" for k v
  proof (cases "k = turn_key c")
    case False
    then have "dict_get d k = Some v" using that by simp
    then show ?thesis using assms(1) unfolding turn_replies_inv_def by blast
  qed (use that assms(2) in simp)
  moreover have "dict_ok (dict_set d (turn_key c) c)"
    using assms(1) by (simp add: turn_replies_inv_def)
  ultimately show ?thesis unfolding turn_replies_inv_def by blast
qed

lemma stage_turn_correlation_inv:
  assumes "turn_replies_inv turns" "stage_turn_correlation t turns = Inr turns'"
    and "on_some validate_turn_reply_correlation t = None"
  shows "turn_replies_inv turns'"
proof -
  have "turns' = turns \<or> (\<exists>c. t = Some c \<and> turns' = dict_set turns (turn_key c) c)"
    using assms(2) by (auto simp: stage_turn_correlation_def split: option.splits if_splits)
  then show ?thesis using assms(1,3) turn_replies_inv_set by auto
qed

lemma merge_queued_receipt_turn:
  assumes "merge_queued_receipt stored origin receipt turn now = Inr result"
  shows "on_some validate_turn_reply_correlation turn = None"
  using assms
  by (auto simp: merge_queued_receipt_def check_turn_evidence_def on_some_eq_None
      split: option.splits if_splits)

lemma merge_queued_input_receipt_inv:
  assumes inv: "store_inv s"
  shows "ends_in store_inv (merge_queued_input_receipt ft now l q r t s)"
proof -
  have "store_inv (s\<lparr>ms_queued_inputs := dict_set (ms_queued_inputs s) k merged,
      ms_projections := (ms_projections s)\<lparr>pp_turn_correlations := turns\<rparr>\<rparr>)"
    if "queued_at k s = Some cur" "merge_queued_receipt cur q r t now = Inr merged"
      "stage_turn_correlation t (pp_turn_correlations (ms_projections s)) = Inr turns" for k cur merged turns
  proof -
    have "projection_inv (ms_projections s)" using inv by (simp add: store_inv_def parts_inv_def)
    then have "projection_inv ((ms_projections s)\<lparr>pp_turn_correlations := turns\<rparr>)"
      using stage_turn_correlation_inv [OF _ that(3) merge_queued_receipt_turn [OF that(2)]]
      by (simp add: projection_inv_def)
    moreover have "store_inv (s\<lparr>ms_queued_inputs := dict_set (ms_queued_inputs s) k merged\<rparr>)"
      using store_inv_queued_old [OF inv that(1)] merge_queued_receipt_ok [OF that(2)] by simp
    ultimately show ?thesis
      using store_inv_parts(2) [of "s\<lparr>ms_queued_inputs := dict_set (ms_queued_inputs s) k merged\<rparr>"]
      by simp
  qed
  then show ?thesis
    unfolding merge_queued_input_receipt_def Let_def
    by (intro ends_in_intros inv) auto
qed

lemma stage_identities_ok: "dict_ok d \<Longrightarrow> stage_identities is d = Inr d' \<Longrightarrow> dict_ok d'"
  by (induction "is" d rule: stage_identities.induct) (auto split: if_splits)

lemma perform_mutation_cases:
  assumes "perform_mutation plan now s = Inr (x, s')"
  obtains (refused) "s' = s" "x = failed_with AE_STALE_BINDING \<or> x = failed_with AE_CONFLICT"
  | (performed) v r' routes' where
      "stage_mutation plan now (ms_bindings s) (pp_routes (ms_projections s)) = Inr (v, r', routes')"
      "s' = publish r' routes' s" "x = Succeeded v"
proof (cases "stage_mutation plan now (ms_bindings s) (pp_routes (ms_projections s))")
  case (Inl e)
  with assms show thesis by (intro refused) (auto simp: perform_mutation_def Let_def split: if_splits)
next
  case (Inr y)
  obtain v r' routes' where y: "y = (v, r', routes')" by (cases y)
  show thesis
  proof (cases "mp_expected_generation plan
      \<in> {None, Some (current_generation (mp_conversation_ref plan) (ms_bindings s))}")
    case True
    with Inr y assms show thesis
      by (intro performed [of v r' routes']) (auto simp: perform_mutation_def Let_def)
  next
    case False
    with Inr y assms show thesis by (intro refused) (auto simp: perform_mutation_def Let_def)
  qed
qed

lemma perform_mutation_inv:
  assumes inv: "store_inv s" and ok: "perform_mutation plan now s = Inr (x, s')"
    and valid: "on_some validate_projection_route (mp_route_upsert plan) = None"
  shows "store_inv s'" "ms_effect_receipts s' = ms_effect_receipts s"
    "ms_queued_inputs s' = ms_queued_inputs s"
proof -
  have "store_inv s' \<and> ms_effect_receipts s' = ms_effect_receipts s
      \<and> ms_queued_inputs s' = ms_queued_inputs s"
    using ok
  proof (cases rule: perform_mutation_cases)
    case (performed v r' routes')
    have parts: "binding_inv (ms_bindings s)" "routes_inv (pp_routes (ms_projections s))"
      using inv by (simp_all add: store_inv_def parts_inv_def projection_inv_def)
    obtain target g stored where staged: "stage_binding plan now (ms_bindings s) = Inr (target, g, r')"
        "apply_route_plan plan (dict_get (bd_bindings r') (mp_conversation_ref plan)) now
           (pp_routes (ms_projections s)) = Inr (stored, routes')"
      using performed(1) by (rule stage_mutation_cases)
    have "binding_inv r'" "routes_inv routes'"
      using stage_binding_inv(1) [OF parts(1) staged(1)]
        apply_route_plan_inv(1) [OF parts(2) staged(2) valid] .
    then show ?thesis using performed(2) store_inv_publish [OF inv] by (simp add: publish_def)
  qed (use inv in simp)
  then show "store_inv s'" "ms_effect_receipts s' = ms_effect_receipts s"
    "ms_queued_inputs s' = ms_queued_inputs s" by simp_all
qed


lemma store_inv_created:
  assumes "store_inv s" "existing_receipt f category s = Inr None" "reserve_capacity s = None"
    and "new_receipt f category' phase i g x now s = Inr r"
  shows "store_inv (put_receipt r s)"
  using store_inv_new_receipt [OF assms(1)] new_receipt_ok [OF assms(4)] assms(2,3)
  by (simp add: existing_receipt_None)

lemma commit_store_mutation_inv:
  assumes inv: "store_inv s"
  shows "ends_in store_inv (commit_store_mutation ft now l req s)"
proof -
  have step: "store_inv s' \<and> (\<forall>r. new_receipt f EC_GATEWAY TERMINAL None None (Some x) now s' = Inr r \<longrightarrow>
      store_inv (put_receipt r s'))"
    if "perform_mutation (mr_plan req) now s = Inr (x, s')" "validate_store_mutation_request req = None"
      "existing_receipt f EC_GATEWAY s = Inr None" "reserve_capacity s = None" for x s' f
  proof -
    have valid: "on_some validate_projection_route (mp_route_upsert (mr_plan req)) = None"
      using that(2) by (auto simp: validate_store_mutation_request_def Let_def on_some_eq_None)
    note after = perform_mutation_inv [OF inv that(1) valid]
    have "existing_receipt f EC_GATEWAY s' = Inr None" "reserve_capacity s' = None"
      using that(3,4) after(2,3) perform_mutation_authority [OF that(1)]
      by (simp_all add: existing_receipt_None reserve_capacity_def same_authority_def)
    then show ?thesis using after(1) store_inv_created by blast
  qed
  show ?thesis
    unfolding commit_store_mutation_def
    by (intro ends_in_intros inv) (auto dest!: step)
qed

text \<open>The receipts of a store that only had bindings and routes published are the same.\<close>

lemma publish_receipts [simp]:
  "ms_effect_receipts (publish r routes s) = ms_effect_receipts s"
  "ms_queued_inputs (publish r routes s) = ms_queued_inputs s"
  "require_receipt f (publish r routes s) = require_receipt f s"
  by (simp_all add: publish_def require_receipt_def cong: option.case_cong)

lemma stage_workflow_binding_inv:
  assumes "binding_inv r" "routes_inv routes" "on_some validate_projection_route route = None"
    and ok: "stage_workflow_binding target route g now r routes = Inr (stored, r', routes')"
  shows "binding_inv r'" "routes_inv routes'"
proof -
  have bound: "validate_binding (bound_to target (g + 1) now) = None"
    "r' = \<lparr>bd_bindings = dict_set (bd_bindings r) (bt_conversation_ref target) (bound_to target (g + 1) now),
           bd_floors = dict_set (bd_floors r) (bt_conversation_ref target) (g + 1)\<rparr>"
    using ok by (auto simp: stage_workflow_binding_def Let_def split: option.splits sum.splits)
  then show "binding_inv r'" using binding_inv_bound [OF assms(1)] by simp
  show "routes_inv routes'"
  proof (cases route)
    case None
    with ok assms(2) bound(1) show ?thesis by (simp add: stage_workflow_binding_def Let_def)
  next
    case (Some v)
    then obtain u where "upsert_route (v\<lparr>pr_updated_at := Some now\<rparr>) routes = Inr (u, routes')"
      using ok bound(1)
      by (auto simp: stage_workflow_binding_def upsert_route_def reject_conflicting_route_id_def Let_def
          split: option.splits sum.splits)
    with upsert_route_inv(1) [OF assms(2)] assms(3) Some show ?thesis by simp
  qed
qed

lemma commit_workflow_binding_inv:
  assumes inv: "store_inv s"
  shows "ends_in store_inv (commit_workflow_binding ft now l f target route s)"
proof -
  have parts: "binding_inv (ms_bindings s)" "routes_inv (pp_routes (ms_projections s))"
    using inv by (simp_all add: store_inv_def parts_inv_def projection_inv_def)
  have finish: "ends_in store_inv
      (let updated = receipt\<lparr>er_phase := TERMINAL, er_outcome := Some x, er_updated_at := now\<rparr>
       in guarded (validate_effect_receipt updated) s' (returns updated (put_receipt updated s')))"
    if "store_inv s'" "require_receipt f s' = Inr receipt" for s' x receipt
    unfolding Let_def
    by (intro ends_in_intros that(1)) (auto intro!: store_inv_updated [OF that] receipt_okI)
  have staged: "store_inv (publish r' routes' s)"
    if "stage_workflow_binding target route g now (ms_bindings s) (pp_routes (ms_projections s))
          = Inr (stored, r', routes')"
      "on_some (\<lambda>v. first_error [validate_projection_route v,
         raise_if (pr_conversation_ref v \<noteq> bt_conversation_ref target) ValueError]) route = None"
    for g stored r' routes'
  proof -
    have "on_some validate_projection_route route = None" using that(2) by (simp add: on_some_eq_None)
    with stage_workflow_binding_inv [OF parts _ that(1)] show ?thesis
      by (intro store_inv_publish inv) simp_all
  qed
  show ?thesis
    unfolding commit_workflow_binding_def Let_def
    by (intro ends_in_intros inv finish [unfolded Let_def]) (auto intro: staged)
qed

lemma mutate_inv:
  assumes "store_inv s" "store_inv (set_part (snd (call (part s))) s)"
  shows "ends_in store_inv (mutate ft l part set_part call s)"
  using assms unfolding mutate_def by (intro ends_in_intros) (auto simp: ends_in_def split: prod.splits)

lemmas part_mutations_inv =
  store_inv_parts(1) [OF _ memory_bindings_inv.exec_inv] store_inv_parts(2) [OF _ memory_projections_inv.exec_inv]
  store_inv_parts(3) [OF _ memory_claims_inv.exec_inv] store_inv_parts(4) [OF _ memory_correlations_inv.exec_inv]
  store_inv_parts(5) [OF _ memory_submissions_inv.exec_inv]

lemma receipt_ops_inv:
  assumes inv: "store_inv s"
  shows "ends_in store_inv (commit_store_preflight_failure ft now l f e s)"
    and "ends_in store_inv (reserve_effect ft now l f c i conv s)"
    and "ends_in store_inv (mark_native_side_effect_started ft now l f s)"
    and "ends_in store_inv (record_effect_outcome ft now l f p x s)"
    and "ends_in store_inv (record_effect_preflight_failure ft now l f e s)"
proof -
  note created = store_inv_created [OF inv]
  note updated = store_inv_updated [OF inv]
  have ok: "receipt_ok r" if "require_receipt f s = Inr r" for r
    using store_inv_receiptD(2) [OF inv require_receipt_ok [OF that]] .
  show "ends_in store_inv (commit_store_preflight_failure ft now l f e s)"
    unfolding commit_store_preflight_failure_def
    by (intro ends_in_intros inv) (auto intro: created)
  show "ends_in store_inv (reserve_effect ft now l f c i conv s)"
    unfolding reserve_effect_def
    by (intro ends_in_intros inv) (auto intro: created)
  show "ends_in store_inv (mark_native_side_effect_started ft now l f s)"
    unfolding mark_native_side_effect_started_def
    by (intro ends_in_intros inv)
      (auto intro!: updated receipt_ok_started dest: ok simp: now_locked_def)
  show "ends_in store_inv (record_effect_outcome ft now l f p x s)"
    unfolding record_effect_outcome_def
    by (intro ends_in_intros inv) (auto intro!: updated receipt_okI)
  show "ends_in store_inv (record_effect_preflight_failure ft now l f e s)"
    unfolding record_effect_preflight_failure_def
    by (intro ends_in_intros inv) (auto intro!: updated receipt_okI)
qed

lemma lease_ops_inv:
  assumes inv: "store_inv s"
  shows "ends_in store_inv (renew_lease ft now l d s)"
    and "ends_in store_inv (release_lease ft now l s)"
    and "ends_in store_inv (check_workspace_identities ft l is s)"
proof -
  show "ends_in store_inv (renew_lease ft now l d s)"
    unfolding renew_lease_def
    by (intro ends_in_intros inv) (auto intro!: store_inv_lease [OF inv] simp: now_locked_def)
  show "ends_in store_inv (release_lease ft now l s)"
    unfolding release_lease_def
    by (intro ends_in_intros inv) (auto intro!: store_inv_lease [OF inv] simp: now_locked_def)
  have "dict_ok (ms_workspace_identities s)" using inv by (simp add: store_inv_def parts_inv_def)
  then show "ends_in store_inv (check_workspace_identities ft l is s)"
    unfolding check_workspace_identities_def
    by (intro ends_in_intros inv) (auto intro!: store_inv_parts(6) [OF inv] dest: stage_identities_ok)
qed

lemma store_inv_partsD:
  assumes "store_inv s"
  shows "binding_inv (ms_bindings s)" "projection_inv (ms_projections s)" "claim_inv (ms_idempotency s)"
    "correlation_inv (ms_request_correlations s)" "submission_inv (ms_delivery_submissions s)"
  using assms by (simp_all add: store_inv_def parts_inv_def)

interpretation memory_store_inv: op_system store_exec store_inv
proof
  fix s c
  assume inv: "store_inv s"
  note parts = store_inv_partsD [OF inv]
  have fenced: "ends_in store_inv (fenced_exec ft now l d s)" for ft now l d
    by (cases d)
      (auto intro!: ends_in_as_result acquire_runtime_inv fence_queued_input_inv
        merge_queued_input_receipt_inv commit_store_mutation_inv commit_workflow_binding_inv
        receipt_ops_inv lease_ops_inv mutate_inv part_mutations_inv inv parts)
  have "ends_in store_inv (store_exec c s)"
  proof (cases c)
    case CloseStore
    with inv show ?thesis by (auto simp: ends_in_def close_store_def store_inv_defs)
  qed (auto intro!: ends_in_as_result acquire_runtime_inv inv fenced)
  then show "store_inv (snd (store_exec c s))" by (rule ends_inD)
qed

end
