(* ===== verification/Store_Progress.thy ===== *)
theory Store_Progress
  imports Store_Runs
begin

text \<open>
  What the coherent store never takes back: epochs only grow, an effect receipt keeps its identity
  and moves forward through its phases until it is terminal, queued inputs keep their origin and
  accumulate evidence, workspace identities are fixed once recorded. On top of this order: a
  superseded runtime can never write again, a native side effect is started at most once, a store
  mutation is committed entirely or not at all and its retry returns the first receipt.
\<close>

section \<open>The order\<close>

fun phase_rank :: "effect_phase \<Rightarrow> nat" where
  "phase_rank RESERVED = 0"
| "phase_rank NATIVE_SIDE_EFFECT_STARTED = 1"
| "phase_rank NATIVE_RESULT_KNOWN = 2"
| "phase_rank TERMINAL = 3"

text \<open>A later version of a receipt: same identity, no earlier phase, final once terminal.\<close>

definition receipt_advances :: "effect_receipt \<Rightarrow> effect_receipt \<Rightarrow> bool" where
  "receipt_advances r r' \<longleftrightarrow>
     receipt_fingerprint r' = receipt_fingerprint r \<and> er_gateway_id r' = er_gateway_id r
     \<and> er_category r' = er_category r \<and> er_native_phase_id r' = er_native_phase_id r
     \<and> er_binding_generation r' = er_binding_generation r \<and> er_created_at r' = er_created_at r
     \<and> phase_rank (er_phase r) \<le> phase_rank (er_phase r')
     \<and> (er_phase r = TERMINAL \<longrightarrow> r' = r)"

definition queued_advances :: "queued_input_correlation \<Rightarrow> queued_input_correlation \<Rightarrow> bool" where
  "queued_advances q q' \<longleftrightarrow> qc_origin q' = qc_origin q \<and> qc_created_at q' = qc_created_at q
     \<and> receipt_le (qc_receipt q) (qc_receipt q')"

definition store_progress :: "memory_store \<Rightarrow> memory_store \<Rightarrow> bool" where
  "store_progress s s' \<longleftrightarrow>
     ms_epoch s \<le> ms_epoch s'
     \<and> (\<forall>k r. receipt_at k s = Some r \<longrightarrow> (\<exists>r'. receipt_at k s' = Some r' \<and> receipt_advances r r'))
     \<and> (\<forall>k q. queued_at k s = Some q \<longrightarrow> (\<exists>q'. queued_at k s' = Some q' \<and> queued_advances q q'))
     \<and> (\<forall>p f. dict_get (ms_workspace_identities s) p = Some f \<longrightarrow>
           dict_get (ms_workspace_identities s') p = Some f)"

lemma receipt_advances_refl [simp]: "receipt_advances r r"
  by (simp add: receipt_advances_def)

lemma phase_rank_terminal: "phase_rank TERMINAL \<le> phase_rank p \<longleftrightarrow> p = TERMINAL"
  by (cases p) simp_all

lemma phase_rank_reserved [simp]: "phase_rank p \<le> phase_rank RESERVED \<longleftrightarrow> p = RESERVED"
  by (cases p) simp_all

lemma receipt_advances_trans: "receipt_advances a b \<Longrightarrow> receipt_advances b c \<Longrightarrow> receipt_advances a c"
  unfolding receipt_advances_def by (metis order_trans)

lemma queued_advances_refl [simp]: "queued_advances q q"
  by (simp add: queued_advances_def)

lemma queued_advances_trans: "queued_advances a b \<Longrightarrow> queued_advances b c \<Longrightarrow> queued_advances a c"
  unfolding queued_advances_def by (metis receipt_le_trans)

lemma store_progress_refl [simp]: "store_progress s s"
  by (simp add: store_progress_def)

lemma store_progress_trans:
  assumes "store_progress s t" "store_progress t u"
  shows "store_progress s u"
  using assms unfolding store_progress_def
  by (meson order_trans receipt_advances_trans queued_advances_trans)

text \<open>Changes of the other parts of the state are invisible to the order.\<close>

lemma store_progress_parts [simp]:
  "store_progress s (s'\<lparr>ms_namespace_id := n\<rparr>) = store_progress s s'"
  "store_progress s (s'\<lparr>ms_lease := a\<rparr>) = store_progress s s'"
  "store_progress s (s'\<lparr>ms_closed := cl\<rparr>) = store_progress s s'"
  "store_progress s (s'\<lparr>ms_bindings := b\<rparr>) = store_progress s s'"
  "store_progress s (s'\<lparr>ms_projections := c\<rparr>) = store_progress s s'"
  "store_progress s (s'\<lparr>ms_idempotency := d\<rparr>) = store_progress s s'"
  "store_progress s (s'\<lparr>ms_request_correlations := e\<rparr>) = store_progress s s'"
  "store_progress s (s'\<lparr>ms_delivery_submissions := f\<rparr>) = store_progress s s'"
  "store_progress s (publish b' routes s') = store_progress s s'"
  by (simp_all add: store_progress_def publish_def)

lemma store_progress_receipt:
  assumes "\<And>old. receipt_at (er_action_key r) s = Some old \<Longrightarrow> receipt_advances old r"
    and "ms_effect_receipts s' = ms_effect_receipts s" "store_progress s s'"
  shows "store_progress s (put_receipt r s')"
  using assms by (auto simp: store_progress_def put_receipt_def)

lemma store_progress_queued:
  assumes "\<And>old. queued_at k s = Some old \<Longrightarrow> queued_advances old q"
  shows "store_progress s (s\<lparr>ms_queued_inputs := dict_set (ms_queued_inputs s) k q\<rparr>)"
  using assms by (auto simp: store_progress_def)

section \<open>Every operation moves forward\<close>

lemma stage_identities_extends:
  "stage_identities is d = Inr d' \<Longrightarrow> dict_get d p = Some f \<Longrightarrow> dict_get d' p = Some f"
proof (induction "is" d rule: stage_identities.induct)
  case (2 i "is" d)
  have free: "dict_get d (wi_project_ref i) \<in> {None, Some (wi_root_fingerprint i)}"
    using "2.prems"(1) by (simp split: if_splits)
  then have "stage_identities is (dict_set d (wi_project_ref i) (wi_root_fingerprint i)) = Inr d'"
    using "2.prems"(1) by simp
  moreover have "dict_get (dict_set d (wi_project_ref i) (wi_root_fingerprint i)) p = Some f"
    using free "2.prems"(2) by auto
  ultimately show ?case using "2.IH" free by blast
qed simp

lemma created_progress:
  assumes "existing_receipt f c s = Inr None" "new_receipt f c' ph i g x now s' = Inr r"
    and "ms_effect_receipts s' = ms_effect_receipts s" "store_progress s s'"
  shows "store_progress s (put_receipt r s')"
  using assms new_receipt_ok(1) [OF assms(2)]
  by (intro store_progress_receipt) (auto simp: existing_receipt_None)

lemma require_receipt_key:
  assumes "store_inv s" "require_receipt f s = Inr r"
  shows "receipt_at (er_action_key r) s = Some r"
  using require_receipt_ok [OF assms(2)] store_inv_receiptD(1) [OF assms(1) require_receipt_ok [OF assms(2)]]
  by simp

lemma updated_progress:
  assumes "store_inv s" "require_receipt f s = Inr r" "er_phase r \<noteq> TERMINAL"
    and "phase_rank (er_phase r) \<le> phase_rank p"
    and "r' = r\<lparr>er_phase := p, er_outcome := x, er_updated_at := now\<rparr>"
    and "ms_effect_receipts s' = ms_effect_receipts s" "store_progress s s'"
  shows "store_progress s (put_receipt r' s')"
  using assms(3-) require_receipt_key [OF assms(1,2)]
  by (intro store_progress_receipt) (auto simp: receipt_advances_def receipt_fingerprint_def)

lemma perform_mutation_progress:
  assumes "perform_mutation plan now s = Inr (x, s')"
  shows "store_progress s s'" "ms_effect_receipts s' = ms_effect_receipts s"
  using assms by (auto elim: perform_mutation_cases)

lemma receipt_ops_progress:
  assumes inv: "store_inv s"
  shows "ends_in (store_progress s) (commit_store_preflight_failure ft now l f e s)"
    and "ends_in (store_progress s) (commit_store_mutation ft now l req s)"
    and "ends_in (store_progress s) (reserve_effect ft now l f c i conv s)"
    and "ends_in (store_progress s) (mark_native_side_effect_started ft now l f s)"
    and "ends_in (store_progress s) (record_effect_outcome ft now l f p x s)"
    and "ends_in (store_progress s) (record_effect_preflight_failure ft now l f e s)"
    and "ends_in (store_progress s) (commit_workflow_binding ft now l f target route s)"
proof -
  note updated = updated_progress [OF inv]
  show "ends_in (store_progress s) (commit_store_preflight_failure ft now l f e s)"
    unfolding commit_store_preflight_failure_def
    by (intro ends_in_intros store_progress_refl) (auto intro: created_progress)
  show "ends_in (store_progress s) (commit_store_mutation ft now l req s)"
    unfolding commit_store_mutation_def
    by (intro ends_in_intros store_progress_refl)
      (auto intro: created_progress dest: perform_mutation_progress)
  show "ends_in (store_progress s) (reserve_effect ft now l f c i conv s)"
    unfolding reserve_effect_def
    by (intro ends_in_intros store_progress_refl) (auto intro: created_progress)
  have started: "store_progress s
      (put_receipt (r\<lparr>er_phase := NATIVE_SIDE_EFFECT_STARTED, er_updated_at := now\<rparr>) s)"
    if "require_receipt f s = Inr r" "er_phase r = RESERVED" for r
    using that
    by (intro updated [where r = r and p = NATIVE_SIDE_EFFECT_STARTED and x = "er_outcome r"]) auto
  then show "ends_in (store_progress s) (mark_native_side_effect_started ft now l f s)"
    unfolding mark_native_side_effect_started_def
    by (intro ends_in_intros store_progress_refl) auto
  have "store_progress s (put_receipt (r\<lparr>er_phase := p, er_outcome := Some x, er_updated_at := now\<rparr>) s)"
    if "require_receipt f s = Inr r" "er_phase r \<notin> {RESERVED, NATIVE_RESULT_KNOWN, TERMINAL}" "p \<noteq> RESERVED" for r
  proof -
    have "er_phase r \<noteq> TERMINAL" using that(2) by simp
    moreover have "phase_rank (er_phase r) \<le> phase_rank p"
      using that(2,3) by (cases "er_phase r"; cases p) simp_all
    ultimately show ?thesis by (rule updated [OF that(1) _ _ refl refl store_progress_refl])
  qed
  then show "ends_in (store_progress s) (record_effect_outcome ft now l f p x s)"
    unfolding record_effect_outcome_def
    by (intro ends_in_intros store_progress_refl) auto
  have terminated: "store_progress s
      (put_receipt (r\<lparr>er_phase := TERMINAL, er_outcome := y, er_updated_at := now\<rparr>) s')"
    if "require_receipt f s = Inr r" "er_phase r \<noteq> TERMINAL"
      "ms_effect_receipts s' = ms_effect_receipts s" "store_progress s s'" for r y s'
    by (rule updated [OF that(1,2) _ refl that(3,4)]) (cases "er_phase r"; simp)
  show "ends_in (store_progress s) (record_effect_preflight_failure ft now l f e s)"
    unfolding record_effect_preflight_failure_def
    by (intro ends_in_intros store_progress_refl) (auto intro: terminated)
  show "ends_in (store_progress s) (commit_workflow_binding ft now l f target route s)"
    unfolding commit_workflow_binding_def Let_def
    by (intro ends_in_intros store_progress_refl) (auto intro!: terminated)
qed

lemma queued_ops_progress:
  assumes inv: "store_inv s"
  shows "ends_in (store_progress s) (fence_queued_input ft now l q c t s)"
    and "ends_in (store_progress s) (merge_queued_input_receipt ft now l q r u s)"
    and "ends_in (store_progress s) (check_workspace_identities ft l is s)"
proof -
  show "ends_in (store_progress s) (fence_queued_input ft now l q c t s)"
    unfolding fence_queued_input_def Let_def
    by (intro ends_in_intros store_progress_refl) (auto intro!: store_progress_queued)
  have "queued_advances cur merged" if "merge_queued_receipt cur q r u now = Inr merged" for cur merged
    using merge_queued_receipt_ok [OF that] by (simp add: queued_advances_def)
  then show "ends_in (store_progress s) (merge_queued_input_receipt ft now l q r u s)"
    unfolding merge_queued_input_receipt_def Let_def
    by (intro ends_in_intros store_progress_refl) (auto intro!: store_progress_queued)
  show "ends_in (store_progress s) (check_workspace_identities ft l is s)"
    unfolding check_workspace_identities_def
    by (intro ends_in_intros store_progress_refl)
      (auto simp: store_progress_def dest: stage_identities_extends)
qed

lemma lease_ops_progress:
  "ends_in (store_progress s) (renew_lease ft now l d s)"
  "ends_in (store_progress s) (release_lease ft now l s)"
  "ends_in (store_progress s) (acquire_runtime now g t d s)"
  unfolding renew_lease_def release_lease_def acquire_runtime_def Let_def
  by (intro ends_in_intros store_progress_refl; auto simp: store_progress_def split: option.splits)+

lemma mutate_progress:
  assumes "\<And>r. store_progress s (set_part r s)"
  shows "ends_in (store_progress s) (mutate ft l part set_part call s)"
  unfolding mutate_def using assms by (intro ends_in_intros) (auto simp: ends_in_def split: prod.splits)

interpretation memory_store_mono: monotone_ops store_exec store_inv "\<lambda>_. True" store_progress
proof
  fix s c
  assume inv: "store_inv s"
  have fenced: "ends_in (store_progress s) (fenced_exec ft now l d s)" for ft now l d
    by (cases d)
      (auto intro!: ends_in_as_result receipt_ops_progress queued_ops_progress lease_ops_progress
        mutate_progress inv)
  have "ends_in (store_progress s) (store_exec c s)"
    by (cases c)
      (auto intro!: ends_in_as_result lease_ops_progress fenced simp: close_store_def ends_in_base)
  then show "store_progress s (snd (store_exec c s))" by (rule ends_inD)
qed (auto intro: store_progress_trans)


lemma run_receipt:
  assumes "store_inv s" "receipt_at k s = Some r"
  shows "\<exists>r'. receipt_at k (run_ops store_exec cs s) = Some r' \<and> receipt_advances r r'"
  using memory_store_mono.run_le [OF assms(1), of cs] assms(2) by (simp add: store_progress_def)

lemma run_queued:
  assumes "store_inv s" "queued_at k s = Some q"
  shows "\<exists>q'. queued_at k (run_ops store_exec cs s) = Some q' \<and> queued_advances q q'"
  using memory_store_mono.run_le [OF assms(1), of cs] assms(2) unfolding store_progress_def by blast

section \<open>Store mutations are atomic\<close>

lemma reference_of_value_valid:
  "validate_thread_ref t = None \<Longrightarrow> validate_stable_reference (reference_of_value (ThreadValue t)) = None"
  "validate_project_ref p = None \<Longrightarrow> validate_stable_reference (reference_of_value (ProjectValue p)) = None"
  "require_identifier (ar_application_instance_id a) = None \<Longrightarrow>
     validate_stable_reference (reference_of_value (ApplicationValue a)) = None"
  by (simp_all add: validate_stable_reference_def to_value_unchecked_def or_empty_def
      validate_thread_ref_def validate_project_ref_def)

lemma mutation_reference_valid:
  assumes "\<And>t. target = Some t \<Longrightarrow> validate_binding (bound_to t g now) = None"
    and "on_some validate_projection_route route = None"
  shows "on_some validate_stable_reference (binding_or_route_reference target route) = None"
  using assms
  by (auto simp: binding_or_route_reference_def validate_binding_def on_some_eq_None Let_def
      validate_projection_route_def reference_of_value_valid simp del: reference_of_value.simps
      split: option.splits)

lemma staged_value_valid:
  assumes binv: "binding_inv r" and rinv: "routes_inv routes"
    and req: "validate_store_mutation_request req = None"
    and ok: "stage_mutation (mr_plan req) now r routes = Inr (v, r', routes')"
  shows "validate_effect_value v = None"
proof -
  let ?plan = "mr_plan req"
  have plan: "validate_conversation_ref (mp_conversation_ref ?plan) = None"
    "on_some validate_projection_route (mp_route_upsert ?plan) = None"
    "on_some require_identifier (mp_route_delete_id ?plan) = None"
    using req by (auto simp: validate_store_mutation_request_def Let_def on_some_eq_None)
  obtain target g stored where staged: "stage_binding ?plan now r = Inr (target, g, r')"
      "apply_route_plan ?plan (dict_get (bd_bindings r') (mp_conversation_ref ?plan)) now routes = Inr (stored, routes')"
      "v = \<lparr>ev_reference = binding_or_route_reference target stored,
          ev_conversation_ref = Some (mp_conversation_ref ?plan), ev_binding_generation = Some g,
          ev_route_id = (case stored of Some route \<Rightarrow> Some (pr_route_id route) | None \<Rightarrow> mp_route_delete_id ?plan)\<rparr>"
    using ok by (rule stage_mutation_cases)
  have route: "on_some validate_projection_route stored = None"
    using apply_route_plan_inv(2) [OF rinv staged(2) plan(2)] .
  have "validate_binding (bound_to t g now) = None" if "target = Some t" for t
    using staged(1) that by (cases rule: stage_binding_cases) simp_all
  then have "on_some validate_stable_reference (binding_or_route_reference target stored) = None"
    using route by (rule mutation_reference_valid)
  moreover have "0 \<le> g" using stage_binding_inv(2) [OF binv staged(1)] .
  moreover have "on_some require_identifier (ev_route_id v) = None"
    using route plan(3) staged(3)
    by (cases stored) (auto simp: on_some_eq_None validate_projection_route_def)
  ultimately show ?thesis using staged(3) plan(1) by (simp add: validate_effect_value_def)
qed

lemma performed_outcome_valid:
  assumes inv: "store_inv s" and req: "validate_store_mutation_request req = None"
    and ok: "perform_mutation (mr_plan req) now s = Inr (x, s')"
  shows "validate_outcome_payload x = None" "is_succeeded x \<or> is_failed x"
proof -
  have parts: "binding_inv (ms_bindings s)" "routes_inv (pp_routes (ms_projections s))"
    using inv by (simp_all add: store_inv_def parts_inv_def projection_inv_def)
  have "validate_outcome_payload x = None \<and> (is_succeeded x \<or> is_failed x)"
    using ok
    by (cases rule: perform_mutation_cases)
      (auto simp: failed_with_def validate_action_error_def staged_value_valid [OF parts req])
  then show "validate_outcome_payload x = None" "is_succeeded x \<or> is_failed x" by simp_all
qed

lemma mutation_receipt_created:
  assumes inv: "store_inv s" and fence: "assert_fence ft l s = None" and clock: "now_locked now = None"
    and req: "validate_store_mutation_request req = None"
    and ok: "perform_mutation (mr_plan req) now s = Inr (x, s')"
  shows "\<exists>r. new_receipt (mr_fingerprint req) EC_GATEWAY TERMINAL None None (Some x) now s' = Inr r"
proof -
  obtain c where c: "ms_lease s = Some c" using fence by (rule assert_fence_current)
  have ns: "ms_namespace_id s' = Some (ls_gateway_id c)" "require_identifier (ls_gateway_id c) = None"
    using inv c perform_mutation_authority [OF ok] by (auto simp: store_inv_def lease_inv_def same_authority_def)
  have "validate_action_fingerprint (mr_fingerprint req) = None"
    using req by (simp add: validate_store_mutation_request_def Let_def)
  then have "validate_effect_receipt \<lparr>er_gateway_id = ls_gateway_id c,
      er_action_kind = af_action_kind (mr_fingerprint req), er_action_key = af_action_key (mr_fingerprint req),
      er_payload_fingerprint = af_payload_fingerprint (mr_fingerprint req), er_category = EC_GATEWAY,
      er_phase = TERMINAL, er_native_phase_id = None, er_binding_generation = None, er_outcome = Some x,
      er_created_at = now, er_updated_at = now\<rparr> = None"
    using ns(2) clock performed_outcome_valid [OF inv req ok]
    by (simp add: validate_effect_receipt_def receipt_fingerprint_def validate_action_fingerprint_def
        now_locked_def dt_less_def outcome_is_def)
  then show ?thesis using ns(1) by (simp add: new_receipt_def)
qed

lemma commit_store_mutation_rolls_back:
  assumes inv: "store_inv s"
  shows "rolls_back s (commit_store_mutation ft now l req s)"
proof -
  have created: "rolls_back s (with_res
      (new_receipt (mr_fingerprint req) EC_GATEWAY TERMINAL None None (Some x) now s') s'
      (\<lambda>receipt. returns receipt (put_receipt receipt s')))"
    if "perform_mutation (mr_plan req) now s = Inr (x, s')" "validate_store_mutation_request req = None"
      "assert_fence ft l s = None" "now_locked now = None" for x s'
    using mutation_receipt_created [OF inv that(3,4,2,1)] by (auto simp: rolls_back_def)
  show ?thesis
    unfolding commit_store_mutation_def
    by (intro rolls_back_intros) (auto intro: created)
qed

lemma check_fingerprint_self: "check_fingerprint r (receipt_fingerprint r) = None"
  by (simp add: check_fingerprint_def receipt_fingerprint_def)

text \<open>What a commit that returns leaves in the store.\<close>

lemma committed_receipt:
  assumes inv: "store_inv s" and ok: "commit_store_mutation ft now l req s = (Inr r, s')"
  shows "receipt_at (af_action_key (mr_fingerprint req)) s' = Some r \<and> er_phase r = TERMINAL
    \<and> check_fingerprint r (mr_fingerprint req) = None \<and> er_category r = EC_GATEWAY"
proof (cases "receipt_at (af_action_key (mr_fingerprint req)) s")
  case None
  then obtain x t where made: "new_receipt (mr_fingerprint req) EC_GATEWAY TERMINAL None None (Some x) now t = Inr r"
      "s' = put_receipt r t"
    using ok by (auto simp: commit_store_mutation_def existing_receipt_def outcome_simps)
  then show ?thesis
    using new_receipt_ok [OF made(1)] check_fingerprint_self [of r] by (simp add: put_receipt_def)
next
  case (Some old)
  then have "r = old" "s' = s" "check_fingerprint old (mr_fingerprint req) = None" "er_category old = EC_GATEWAY"
    using ok by (auto simp: commit_store_mutation_def existing_receipt_def outcome_simps split: option.splits)
  moreover have "er_phase old = TERMINAL"
    using store_inv_receiptD(2) [OF inv Some] calculation(4)
    by (simp add: receipt_ok_def validate_effect_receipt_def)
  ultimately show ?thesis using Some by simp
qed

section \<open>Properties\<close>

text \<open>A store that one runtime has acquired, for concrete instances.\<close>

definition sample_new_store :: memory_store where
  "sample_new_store = (case new_memory_store 8 8 8 of Inr s \<Rightarrow> s | Inl e \<Rightarrow> undefined)"

definition sample_lease :: runtime_lease where
  "sample_lease = \<lparr>ls_gateway_id = ''g'', ls_owner_token = ''a'', ls_epoch = 1, ls_expires_at = utc 100\<rparr>"

definition sample_store :: memory_store where
  "sample_store = snd (store_exec (Acquire (utc 0) ''g'' ''a'' (Micros 100)) sample_new_store)"

lemma sample_new_store: "new_memory_store 8 8 8 = Inr sample_new_store"
  by (simp add: sample_new_store_def new_memory_store_def)

lemma sample_store_inv: "store_inv sample_store"
  unfolding sample_store_def
  by (rule memory_store_inv.exec_inv) (rule new_memory_store_inv [OF sample_new_store])

lemma sample_store_lease: "ms_lease sample_store = Some sample_lease"
  unfolding sample_store_def sample_new_store_def new_memory_store_def by code_simp

definition sample_fingerprint :: action_fingerprint where
  "sample_fingerprint = \<lparr>af_action_kind = ''send'', af_action_key = sample_sha256,
     af_payload_fingerprint = sample_sha256\<rparr>"

definition sample_error :: action_error where
  "sample_error = \<lparr>ae_code = AE_CONFLICT, ae_operation_error_code = None\<rparr>"

definition sample_reserved :: effect_receipt where
  "sample_reserved = \<lparr>er_gateway_id = ''g'', er_action_kind = ''send'', er_action_key = sample_sha256,
     er_payload_fingerprint = sample_sha256, er_category = EC_NATIVE, er_phase = RESERVED,
     er_native_phase_id = Some ''n'', er_binding_generation = None, er_outcome = None,
     er_created_at = utc 1, er_updated_at = utc 1\<rparr>"

definition sample_reserved_store :: memory_store where
  "sample_reserved_store = snd (store_exec
     (Fenced (utc 1) (utc 1) sample_lease (ReserveEffect sample_fingerprint EC_NATIVE ''n'' None)) sample_store)"

lemma sample_reserved_inv: "store_inv sample_reserved_store"
  unfolding sample_reserved_store_def by (rule memory_store_inv.exec_inv [OF sample_store_inv])

lemma sample_reserved_at: "receipt_at sample_sha256 sample_reserved_store = Some sample_reserved"
  unfolding sample_reserved_store_def sample_store_def sample_new_store_def new_memory_store_def
  by code_simp

text \<open>
  C9: the coherent store keeps its invariant. From a new store, after every interleaving of lease
  acquisitions, closing and fenced operations of any runtimes with any clock readings, the lease
  carries the current epoch, every binding, route, correlation, claim and submission satisfies its
  repository's invariant, every effect receipt and queued input is stored under its own key and
  validates, and receipts and queued inputs together stay within the configured capacity.
\<close>

theorem store_invariant_holds:
  assumes "new_memory_store a b c = Inr s"
  shows "store_inv (run_ops store_exec cs s)"
  using new_memory_store_inv [OF assms] by (rule memory_store_inv.run_inv)

theorem store_invariant_holds_witness:
  "store_inv (run_ops store_exec
     [Acquire (utc 0) ''g'' ''a'' (Micros 100),
      Fenced (utc 1) (utc 1) sample_lease (BindingOp (PutBinding (utc 1) sample_binding None)),
      Acquire (utc 500) ''g'' ''b'' (Micros 100), CloseStore] sample_new_store)"
  using sample_new_store by (rule store_invariant_holds)

text \<open>
  C1: a superseded runtime can never write again. Once another owner acquired the store after the
  lease \<open>l\<close> had run out, every fenced operation under \<open>l\<close>, after any further interleaving and with
  any clock readings, raises and leaves the store unchanged.
\<close>

theorem superseded_runtime_fenced:
  assumes inv: "store_inv s" and held: "ms_lease s = Some l" and other: "t \<noteq> ls_owner_token l"
    and taken: "fst (store_exec (Acquire now g t d) s) = Inr r"
    and after: "s' = run_ops store_exec cs (snd (store_exec (Acquire now g t d) s))"
  shows "snd (store_exec (Fenced ft now' l x) s') = s' \<and> (\<exists>e. fst (store_exec (Fenced ft now' l x) s') = Inl e)"
proof -
  have "ls_epoch l = ms_epoch s" using inv held by (simp add: store_inv_def lease_inv_def)
  moreover have "ms_epoch (snd (store_exec (Acquire now g t d) s)) = ms_epoch s + 1"
    using taken held other
    by (auto simp: acquire_runtime_def as_result_Inr guarded_fst_Inr guarded_snd Let_def split: if_splits)
  moreover have inv1: "store_inv (snd (store_exec (Acquire now g t d) s))"
    by (rule memory_store_inv.exec_inv [OF inv])
  then have "store_progress (snd (store_exec (Acquire now g t d) s)) s'"
    unfolding after by (rule memory_store_mono.run_le) simp
  ultimately have "ls_epoch l < ms_epoch s'" by (simp add: store_progress_def)
  moreover have "lease_inv s'"
    using memory_store_inv.run_inv [OF inv1, of cs] unfolding after store_inv_def by blast
  ultimately show ?thesis
    using assert_fence_stale_epoch fenced_exec_stale by simp
qed

theorem superseded_runtime_fenced_witness:
  "let s' = run_ops store_exec [] (snd (store_exec (Acquire (utc 200) ''g'' ''b'' (Micros 100)) sample_store))
   in snd (store_exec (Fenced (utc 50) (utc 50) sample_lease (MarkStarted undefined)) s') = s'
     \<and> (\<exists>e. fst (store_exec (Fenced (utc 50) (utc 50) sample_lease (MarkStarted undefined)) s') = Inl e)"
  unfolding Let_def
proof (rule superseded_runtime_fenced [OF sample_store_inv sample_store_lease, where cs = "[]"])
  show "fst (store_exec (Acquire (utc 200) ''g'' ''b'' (Micros 100)) sample_store) = Inr (LeaseResult
      \<lparr>ls_gateway_id = ''g'', ls_owner_token = ''b'', ls_epoch = 2, ls_expires_at = utc 300\<rparr>)"
    unfolding sample_store_def sample_new_store_def new_memory_store_def by code_simp
qed (simp_all add: sample_lease_def)

text \<open>
  C10: effect receipts only move forward. In every execution of the store a receipt stays under its
  key with the same fingerprint, category, native phase and creation time, its phase never goes
  back (reserved, side effect started, native result known, terminal), and a terminal receipt never
  changes at all.
\<close>

theorem receipts_only_advance:
  assumes "store_inv s" and "receipt_at k s = Some r"
  shows "\<exists>r'. receipt_at k (run_ops store_exec cs s) = Some r' \<and> receipt_advances r r'"
  using assms by (rule run_receipt)

theorem receipts_only_advance_witness:
  "\<exists>r'. receipt_at sample_sha256 (run_ops store_exec
      [Fenced (utc 2) (utc 2) sample_lease (MarkStarted sample_fingerprint),
       Fenced (utc 3) (utc 3) sample_lease (RecordPreflightFailure sample_fingerprint sample_error)]
      sample_reserved_store) = Some r'
    \<and> receipt_advances sample_reserved r'"
  using sample_reserved_inv sample_reserved_at by (rule receipts_only_advance)

text \<open>
  C2: a native side effect is started at most once. After \<open>mark_native_side_effect_started\<close> told a
  caller that it made the transition, no later call for the same action key, by any runtime and in
  any interleaving, is told so again.
\<close>

theorem native_start_at_most_once:
  assumes inv: "store_inv s"
    and first: "store_exec (Fenced ft now l (MarkStarted f)) s = (Inr (MarkResult r True), s')"
    and key: "af_action_key f' = af_action_key f"
  shows "fst (store_exec (Fenced ft' now' l' (MarkStarted f')) (run_ops store_exec cs s'))
    \<noteq> Inr (MarkResult r' True)"
proof -
  have inv': "store_inv s'" using memory_store_inv.exec_inv [OF inv, of "Fenced ft now l (MarkStarted f)"] first
    by (simp del: store_exec.simps)
  have "receipt_at (af_action_key f) s' = Some r \<and> er_phase r = NATIVE_SIDE_EFFECT_STARTED"
    using first inv
    by (auto simp: mark_native_side_effect_started_def as_result_def guarded_def with_res_def Let_def
        put_receipt_def dest!: require_receipt_ok store_inv_receiptD(1) split: option.splits sum.splits if_splits)
  moreover from this obtain r2 where r2: "receipt_at (af_action_key f) (run_ops store_exec cs s') = Some r2"
      "receipt_advances r r2"
    using run_receipt [OF inv', of "af_action_key f" r cs] by blast
  ultimately have "er_phase r2 \<noteq> RESERVED" by (auto simp: receipt_advances_def)
  note r2 = r2(1) this
  show ?thesis
  proof
    assume "fst (store_exec (Fenced ft' now' l' (MarkStarted f')) (run_ops store_exec cs s')) = Inr (MarkResult r' True)"
    then obtain r3 where "require_receipt f' (run_ops store_exec cs s') = Inr r3" "er_phase r3 = RESERVED"
      by (auto simp: mark_native_side_effect_started_def as_result_Inr guarded_fst_Inr with_res_fst_Inr
          split: if_splits)
    with r2 key show False by (auto dest!: require_receipt_ok)
  qed
qed

theorem native_start_at_most_once_witness:
  "fst (store_exec (Fenced (utc 3) (utc 3) sample_lease (MarkStarted sample_fingerprint))
      (run_ops store_exec [] (snd (store_exec (Fenced (utc 2) (utc 2) sample_lease
         (MarkStarted sample_fingerprint)) sample_reserved_store))))
    \<noteq> Inr (MarkResult sample_reserved True)"
proof (rule native_start_at_most_once [OF sample_reserved_inv])
  show "store_exec (Fenced (utc 2) (utc 2) sample_lease (MarkStarted sample_fingerprint)) sample_reserved_store
      = (Inr (MarkResult (sample_reserved\<lparr>er_phase := NATIVE_SIDE_EFFECT_STARTED, er_updated_at := utc 2\<rparr>) True),
         snd (store_exec (Fenced (utc 2) (utc 2) sample_lease (MarkStarted sample_fingerprint)) sample_reserved_store))"
    unfolding sample_reserved_store_def sample_store_def sample_new_store_def new_memory_store_def
    by code_simp
qed simp

text \<open>
  C7: a store mutation is all or nothing. Whenever \<open>commit_store_mutation\<close> raises, for whatever
  reason, the store is as it was before; in particular there is no state in which bindings or routes
  were published and the receipt was not.
\<close>

theorem store_mutation_atomic:
  assumes "store_inv s" and "commit_store_mutation ft now l req s = (Inl e, s')"
  shows "s' = s"
  using rolls_backD [OF commit_store_mutation_rolls_back [OF assms(1)]] assms(2)
  by (metis fst_conv snd_conv)

definition sample_request_with :: "application_ref \<Rightarrow> store_mutation_request" where
  "sample_request_with application = \<lparr>mr_fingerprint = sample_fingerprint,
     mr_plan = \<lparr>mp_conversation_ref = sample_conversation,
       mp_binding_target = Some \<lparr>bt_conversation_ref = sample_conversation,
         bt_application_ref = Some application, bt_project_ref = None, bt_thread_ref = None\<rparr>,
       mp_binding_clear = None, mp_route_upsert = None, mp_route_delete_id = None,
       mp_route_delete_condition = None, mp_expected_generation = Some 0\<rparr>\<rparr>"

theorem store_mutation_atomic_witness:
  "snd (commit_store_mutation (utc 1) (utc 1) sample_lease
      (sample_request_with \<lparr>ar_application_instance_id = []\<rparr>) sample_store) = sample_store"
proof (rule store_mutation_atomic [OF sample_store_inv])
  show "commit_store_mutation (utc 1) (utc 1) sample_lease
      (sample_request_with \<lparr>ar_application_instance_id = []\<rparr>) sample_store
    = (Inl ContractViolation, snd (commit_store_mutation (utc 1) (utc 1) sample_lease
        (sample_request_with \<lparr>ar_application_instance_id = []\<rparr>) sample_store))"
    unfolding sample_store_def sample_new_store_def new_memory_store_def by code_simp
qed

text \<open>
  C8: a committed store mutation is replayed, not repeated. After a commit returned a receipt, a
  later commit of the same request, in any interleaving and under any lease that passes the fence,
  returns the very same receipt and writes nothing.
\<close>

theorem store_mutation_replayed:
  assumes inv: "store_inv s" and first: "commit_store_mutation ft now l req s = (Inr r, s')"
    and cs: "t = run_ops store_exec cs s'" and fence: "assert_fence ft' l' t = None"
  shows "commit_store_mutation ft' now' l' req t = (Inr r, t)"
proof -
  have inv': "store_inv s'" using ends_inD [OF commit_store_mutation_inv [OF inv, of ft now l req]] first by simp
  have stored: "receipt_at (af_action_key (mr_fingerprint req)) s' = Some r" "er_phase r = TERMINAL"
    "check_fingerprint r (mr_fingerprint req) = None" "er_category r = EC_GATEWAY"
    using committed_receipt [OF inv first] by simp_all
  then have "receipt_at (af_action_key (mr_fingerprint req)) t = Some r"
    using run_receipt [OF inv' stored(1), of cs] unfolding cs by (auto simp: receipt_advances_def)
  moreover have "validate_store_mutation_request req = None"
    using first by (auto simp: commit_store_mutation_def outcome_simps)
  ultimately show ?thesis
    using fence stored by (simp add: commit_store_mutation_def existing_receipt_def)
qed

theorem store_mutation_replayed_witness:
  "let req = sample_request_with sample_application;
       s' = snd (commit_store_mutation (utc 1) (utc 1) sample_lease req sample_store);
       t = run_ops store_exec [Fenced (utc 2) (utc 2) sample_lease
             (BindingOp (PutBinding (utc 2) sample_binding None))] s';
       r = sample_reserved\<lparr>er_category := EC_GATEWAY, er_phase := TERMINAL, er_native_phase_id := None,
             er_outcome := Some (Succeeded \<lparr>
               ev_reference = Some (reference_of_value (ApplicationValue sample_application)),
               ev_conversation_ref = Some sample_conversation, ev_binding_generation = Some 1,
               ev_route_id = None\<rparr>)\<rparr>
   in commit_store_mutation (utc 3) (utc 3) sample_lease req t = (Inr r, t)"
  unfolding Let_def
  by (rule store_mutation_replayed [OF sample_store_inv _ refl, where ft = "utc 1" and now = "utc 1"
        and l = sample_lease];
      unfold sample_store_def sample_new_store_def new_memory_store_def; code_simp)

text \<open>
  A queued input is fenced once and its origin is permanent. After an input was fenced for the
  queue, no later call fences the same message again, in any interleaving, and the stored record
  keeps the origin it was fenced with.
\<close>

theorem queued_input_fenced_once:
  assumes inv: "store_inv s"
    and first: "fence_queued_input ft now l q c t s = (Inr record, s')"
    and same: "qo_conversation_ref q' = qo_conversation_ref q" "qo_message_id q' = qo_message_id q"
  shows "fst (fence_queued_input ft' now' l' q' c' t' (run_ops store_exec cs s')) \<noteq> Inr record'
    \<and> (\<exists>record''. queued_at (qo_conversation_ref q, qo_message_id q) (run_ops store_exec cs s')
          = Some record'' \<and> qc_origin record'' = q)"
proof -
  have inv': "store_inv s'" using ends_inD [OF fence_queued_input_inv [OF inv, of ft now l q c t]] first by simp
  have "queued_at (qo_conversation_ref q, qo_message_id q) s' = Some record" "qc_origin record = q"
    using first by (auto simp: fence_queued_input_def Let_def outcome_simps)
  then obtain record'' where "queued_at (qo_conversation_ref q, qo_message_id q) (run_ops store_exec cs s')
      = Some record''" "qc_origin record'' = q"
    using run_queued [OF inv', of _ "record" cs] by (auto simp: queued_advances_def)
  then show ?thesis
    using same by (auto simp: fence_queued_input_def Let_def guarded_fst_Inr)
qed

definition sample_claimed_store :: memory_store where
  "sample_claimed_store = run_ops store_exec
     [Fenced (utc 1) (utc 1) sample_lease (BindingOp (PutBinding (utc 1) sample_binding None)),
      Fenced (utc 1) (utc 1) sample_lease (ClaimOp (Claim (''inbound:tg'', ''42:m'') (Some ''o'')))] sample_store"

theorem queued_input_fenced_once_witness:
  "let s' = snd (fence_queued_input (utc 2) (utc 2) sample_lease sample_origin (''inbound:tg'', ''42:m'')
         ''o'' sample_claimed_store)
   in fst (fence_queued_input (utc 3) (utc 3) sample_lease sample_origin (''inbound:tg'', ''42:m'') ''o''
         (run_ops store_exec [] s')) \<noteq> Inr sample_queued
    \<and> (\<exists>record''. queued_at (qo_conversation_ref sample_origin, qo_message_id sample_origin)
          (run_ops store_exec [] s') = Some record'' \<and> qc_origin record'' = sample_origin)"
  unfolding Let_def
proof (rule queued_input_fenced_once)
  show "store_inv sample_claimed_store"
    unfolding sample_claimed_store_def by (rule memory_store_inv.run_inv [OF sample_store_inv])
  show "fence_queued_input (utc 2) (utc 2) sample_lease sample_origin (''inbound:tg'', ''42:m'') ''o''
      sample_claimed_store = (Inr (sample_queued\<lparr>qc_created_at := utc 2, qc_updated_at := utc 2\<rparr>),
        snd (fence_queued_input (utc 2) (utc 2) sample_lease sample_origin (''inbound:tg'', ''42:m'') ''o''
          sample_claimed_store))"
    unfolding sample_claimed_store_def sample_store_def sample_new_store_def new_memory_store_def by code_simp
qed simp_all

definition sample_workflow_store :: memory_store where
  "sample_workflow_store = run_ops store_exec
     [Fenced (utc 5) (utc 5) sample_lease
        (ReserveEffect sample_fingerprint EC_WORKFLOW ''n'' (Some sample_conversation)),
      Fenced (utc 6) (utc 6) sample_lease (MarkStarted sample_fingerprint),
      Fenced (utc 7) (utc 7) sample_lease (RecordOutcome sample_fingerprint NATIVE_RESULT_KNOWN
        (Succeeded \<lparr>ev_reference = None, ev_conversation_ref = None, ev_binding_generation = None,
           ev_route_id = None\<rparr>))] sample_store"

text \<open>
  C35: a workflow commit is not atomic when the clock steps back. There is a reachable store in which
  \<open>commit_workflow_binding\<close> raises after it has published the new binding: the receipt it builds,
  with an update time before its creation time, is rejected only after the publication, so the
  binding has moved to the next generation while the receipt still waits for its binding.
\<close>

theorem workflow_commit_not_atomic:
  "\<exists>cs s s'. s = run_ops store_exec cs sample_new_store
     \<and> commit_workflow_binding (utc 1) (utc 1) sample_lease sample_fingerprint
          \<lparr>bt_conversation_ref = sample_conversation, bt_application_ref = Some sample_application,
           bt_project_ref = None, bt_thread_ref = None\<rparr> None s = (Inl ContractViolation, s')
     \<and> binding_get sample_conversation (ms_bindings s) = None
     \<and> binding_get sample_conversation (ms_bindings s') \<noteq> None
     \<and> map_option er_phase (receipt_at sample_sha256 s') = Some NATIVE_RESULT_KNOWN"
proof -
  define op where "op = commit_workflow_binding (utc 1) (utc 1) sample_lease sample_fingerprint
      \<lparr>bt_conversation_ref = sample_conversation, bt_application_ref = Some sample_application,
       bt_project_ref = None, bt_thread_ref = None\<rparr> None sample_workflow_store"
  have facts: "fst op = Inl ContractViolation"
    "binding_get sample_conversation (ms_bindings sample_workflow_store) = None"
    "binding_get sample_conversation (ms_bindings (snd op)) \<noteq> None"
    "map_option er_phase (receipt_at sample_sha256 (snd op)) = Some NATIVE_RESULT_KNOWN"
    unfolding op_def sample_workflow_store_def sample_store_def sample_new_store_def new_memory_store_def
    by code_simp+
  moreover have "\<exists>cs. sample_workflow_store = run_ops store_exec cs sample_new_store"
    unfolding sample_workflow_store_def sample_store_def
    by (metis run_ops.simps(2))
  ultimately show ?thesis unfolding op_def by (metis prod.collapse)
qed

end
