(* ===== verification/Effect_Execution.thy ===== *)
theory Effect_Execution
  imports Store_Progress Effect_Codec
begin

text \<open>
  Execution of effects through a store session (\<open>gateway/effect_execution.py\<close>): store mutations,
  native mutations and create-and-bind workflows, with replay, recovery after failures and
  cancellation.

  Everything an execution awaits is a parameter over a world of any type: the session's calls
  (\<open>effect_session\<close>) and the callbacks of the action (\<open>effect_callbacks\<close>). Each of them may return
  \<open>CancelledError\<close>. Between and during the awaits other runtimes may use the store; the locale
  \<open>store_session\<close> of \<open>Effect_Guarantees\<close> says what the calls have to do with the coherent store.
\<close>

section \<open>Session and callbacks\<close>

record 'w effect_session =
  es_call :: "fenced_op \<Rightarrow> 'w \<Rightarrow> ('w, store_result) outcome"
  es_get_effect_receipt :: "action_fingerprint \<Rightarrow> 'w \<Rightarrow> ('w, effect_receipt option) outcome"
  es_get_store_mutation_receipt :: "action_fingerprint \<Rightarrow> 'w \<Rightarrow> ('w, effect_receipt option) outcome"

text \<open>
  A commit fence is an asynchronous context manager: entering it yields an error or nothing, leaving
  it may raise, and it does not suppress exceptions.
\<close>

record 'w commit_fence =
  cf_enter :: "'w \<Rightarrow> ('w, action_error option) outcome"
  cf_exit :: "'w \<Rightarrow> check \<times> 'w"

type_synonym 'w native_preflight = "('w \<Rightarrow> ('w, action_error option) outcome) option"
type_synonym 'w native_invoker = "string \<Rightarrow> 'w \<Rightarrow> ('w, action_outcome) outcome"
type_synonym 'w native_reconciler = "(string \<Rightarrow> 'w \<Rightarrow> ('w, action_outcome option) outcome) option"

record 'w effect_callbacks =
  cb_invoke :: "'w native_invoker"
  cb_preflight :: "'w native_preflight"
  cb_reconcile :: "'w native_reconciler"
  cb_commit_fence :: "(string \<Rightarrow> 'w commit_fence) option"

text \<open>The calls of the session that return a receipt.\<close>

definition session_receipt :: "'w effect_session \<Rightarrow> fenced_op \<Rightarrow> 'w \<Rightarrow> ('w, effect_receipt) outcome" where
  "session_receipt io op w =
     (case es_call io op w of
        (Inl e, w) \<Rightarrow> (Inl e, w)
      | (Inr x, w) \<Rightarrow> ((case x of ReceiptResult r \<Rightarrow> Inr r | _ \<Rightarrow> Inl TypeError), w))"

definition session_mark :: "'w effect_session \<Rightarrow> action_fingerprint \<Rightarrow> 'w \<Rightarrow> ('w, effect_receipt \<times> bool) outcome" where
  "session_mark io fingerprint w =
     (case es_call io (MarkStarted fingerprint) w of
        (Inl e, w) \<Rightarrow> (Inl e, w)
      | (Inr x, w) \<Rightarrow> ((case x of MarkResult r b \<Rightarrow> Inr (r, b) | _ \<Rightarrow> Inl TypeError), w))"

section \<open>Helpers\<close>

fun store_error_code :: "error \<Rightarrow> action_error_code" where
  "store_error_code EffectReceiptConflict = AE_CONFLICT"
| "store_error_code EffectReceiptCapacityError = AE_CAPACITY_EXHAUSTED"
| "store_error_code StaleRuntimeFence = AE_STALE_RUNTIME"
| "store_error_code _ = AE_STORE_FAILURE"

definition required_outcome :: "effect_receipt \<Rightarrow> action_outcome res" where
  "required_outcome receipt = (case er_outcome receipt of None \<Rightarrow> Inl RuntimeError | Some x \<Rightarrow> Inr x)"

definition plain_error :: "action_error_code \<Rightarrow> action_error" where
  "plain_error code = \<lparr>ae_code = code, ae_operation_error_code = None\<rparr>"

definition unknown_outcome :: "action_error_code \<Rightarrow> action_outcome" where
  "unknown_outcome code = OutcomeUnknown (plain_error code)"

fun validate_known_native_outcome :: "action_outcome \<Rightarrow> check" where
  "validate_known_native_outcome (Succeeded v) = validate_effect_value v"
| "validate_known_native_outcome (Failed e) = validate_action_error e"
| "validate_known_native_outcome _ = Some TypeError"

definition validate_workflow_created_value :: "create_binding_workflow_request \<Rightarrow> effect_value \<Rightarrow> check" where
  "validate_workflow_created_value request v =
     (case ev_reference v of
        None \<Rightarrow> Some ValueError
      | Some reference \<Rightarrow>
          (case wf_kind request of
             CREATE_AND_SELECT_PROJECT \<Rightarrow>
               raise_if (sf_kind reference \<noteq> SRK_PROJECT \<or>
                 sf_application_instance_id reference \<noteq> ar_application_instance_id (wf_application_ref request)) ValueError
           | CREATE_AND_BIND_THREAD \<Rightarrow>
               (case wf_project_ref request of
                  None \<Rightarrow> Some ValueError
                | Some project \<Rightarrow>
                    raise_if (sf_kind reference \<noteq> SRK_THREAD \<or>
                      sf_application_instance_id reference \<noteq> pj_application_instance_id project \<or>
                      sf_project_id reference \<noteq> Some (pj_project_id project)) ValueError)))"

fun validate_workflow_known_outcome :: "create_binding_workflow_request \<Rightarrow> action_outcome \<Rightarrow> check" where
  "validate_workflow_known_outcome request (Succeeded v) = validate_workflow_created_value request v"
| "validate_workflow_known_outcome request _ = None"

definition workflow_binding_plan ::
  "(string \<Rightarrow> string) \<Rightarrow> create_binding_workflow_request \<Rightarrow> effect_value \<Rightarrow>
   (binding_target \<times> thread_projection_route option) res" where
  "workflow_binding_plan sha256 request v =
     (case ev_reference v of
        None \<Rightarrow> Inl ValueError
      | Some reference \<Rightarrow>
          and_then (to_value reference) (\<lambda>resource.
            case wf_kind request of
              CREATE_AND_SELECT_PROJECT \<Rightarrow>
                (case resource of
                   ProjectValue project \<Rightarrow>
                     Inr (\<lparr>bt_conversation_ref = wf_conversation_ref request,
                           bt_application_ref = Some (wf_application_ref request),
                           bt_project_ref = Some project, bt_thread_ref = None\<rparr>, None)
                 | _ \<Rightarrow> Inl ValueError)
            | CREATE_AND_BIND_THREAD \<Rightarrow>
                (case resource of
                   ThreadValue thread \<Rightarrow>
                     Inr (\<lparr>bt_conversation_ref = wf_conversation_ref request,
                           bt_application_ref = Some (wf_application_ref request),
                           bt_project_ref = Some (th_project_ref thread), bt_thread_ref = Some thread\<rparr>,
                          if wf_foreground_route request
                          then Some \<lparr>pr_route_id = derive_projection_route_id sha256 thread (wf_conversation_ref request),
                                     pr_thread_ref = thread, pr_conversation_ref = wf_conversation_ref request,
                                     pr_reply_to_message_id = None, pr_checkpoint_agent_item_id = None,
                                     pr_checkpointed_at = None, pr_updated_at = None\<rparr>
                          else None)
                 | _ \<Rightarrow> Inl ValueError)))"

text \<open>
  A shielded read finishes although its caller is cancelled; only a second cancellation, or an
  error of the read, makes it return nothing.
\<close>

definition shielded_receipt_read ::
  "'w effect_session \<Rightarrow> action_fingerprint \<Rightarrow> 'w \<Rightarrow> effect_receipt option \<times> 'w" where
  "shielded_receipt_read io fingerprint w =
     (case es_get_effect_receipt io fingerprint w of
        (Inr receipt, w) \<Rightarrow> (receipt, w)
      | (Inl e, w) \<Rightarrow> (None, w))"

definition shielded_store_receipt_read ::
  "'w effect_session \<Rightarrow> action_fingerprint \<Rightarrow> 'w \<Rightarrow> ('w, effect_receipt option) outcome" where
  "shielded_store_receipt_read io fingerprint w =
     (case es_get_store_mutation_receipt io fingerprint w of
        (Inr receipt, w) \<Rightarrow> (Inr receipt, w)
      | (Inl e, w) \<Rightarrow> (if e = EffectReceiptConflict then Inl e else Inr None, w))"

text \<open>What every handler of a failed call does first: a terminal receipt decides.\<close>

definition terminal_or :: "'w effect_session \<Rightarrow> action_fingerprint \<Rightarrow> action_outcome \<Rightarrow> 'w \<Rightarrow> ('w, action_outcome) outcome" where
  "terminal_or io fingerprint fallback w =
     (case shielded_receipt_read io fingerprint w of
        (Some receipt, w) \<Rightarrow>
          (if er_phase receipt = TERMINAL then required_outcome receipt else Inr fallback, w)
      | (None, w) \<Rightarrow> (Inr fallback, w))"

section \<open>Store mutations\<close>

definition read_store_mutation_receipt ::
  "'w effect_session \<Rightarrow> action_fingerprint \<Rightarrow> 'w \<Rightarrow> ('w, action_outcome option) outcome" where
  "read_store_mutation_receipt io fingerprint w =
     (case es_get_store_mutation_receipt io fingerprint w of
        (Inl e, w) \<Rightarrow>
          (if e = CancelledError then Inl e else Inr (Some (Failed (plain_error (store_error_code e)))), w)
      | (Inr None, w) \<Rightarrow> (Inr None, w)
      | (Inr (Some receipt), w) \<Rightarrow>
          (if er_phase receipt \<noteq> TERMINAL then Inl RuntimeError else map_sum id Some (required_outcome receipt), w))"

definition replay_store_mutation ::
  "'w effect_session \<Rightarrow> store_mutation_request \<Rightarrow> 'w \<Rightarrow> ('w, action_outcome option) outcome" where
  "replay_store_mutation io request w =
     guarded (validate_store_mutation_request request) w
       (read_store_mutation_receipt io (mr_fingerprint request) w)"

definition recover_store_mutation_outcome ::
  "'w effect_session \<Rightarrow> action_fingerprint \<Rightarrow> 'w \<Rightarrow> ('w, action_outcome option) outcome" where
  "recover_store_mutation_outcome io fingerprint w =
     (case shielded_store_receipt_read io fingerprint w of
        (Inl e, w) \<Rightarrow> (Inr (Some (Failed (plain_error AE_CONFLICT))), w)
      | (Inr None, w) \<Rightarrow> (Inr None, w)
      | (Inr (Some receipt), w) \<Rightarrow>
          (if er_phase receipt \<noteq> TERMINAL then Inr (Some (Failed (plain_error AE_STORE_FAILURE)))
           else map_sum id Some (required_outcome receipt), w))"

text \<open>The handlers of a failed store call: a recovered outcome, or the error itself.\<close>

definition recover_or ::
  "'w effect_session \<Rightarrow> action_fingerprint \<Rightarrow> error \<Rightarrow> 'w \<Rightarrow> ('w, action_outcome) outcome" where
  "recover_or io fingerprint e w =
     (case recover_store_mutation_outcome io fingerprint w of
        (Inl e', w) \<Rightarrow> (Inl e', w)
      | (Inr (Some x), w) \<Rightarrow> (Inr x, w)
      | (Inr None, w) \<Rightarrow>
          (if e = CancelledError then Inl e else Inr (Failed (plain_error (store_error_code e))), w))"

definition commit_store_result ::
  "'w effect_session \<Rightarrow> store_mutation_request \<Rightarrow> action_error option \<Rightarrow> 'w \<Rightarrow> ('w, effect_receipt) outcome" where
  "commit_store_result io request preflight_error w =
     (case preflight_error of
        None \<Rightarrow> session_receipt io (CommitStoreMutation request) w
      | Some err \<Rightarrow> session_receipt io (CommitPreflightFailure (mr_fingerprint request) err) w)"

datatype preflight_result = Passed | Refused action_error | Decided action_outcome

definition run_store_preflight ::
  "'w effect_session \<Rightarrow> action_fingerprint \<Rightarrow> ('w \<Rightarrow> ('w, action_error option) outcome) \<Rightarrow> 'w \<Rightarrow>
   ('w, preflight_result) outcome" where
  "run_store_preflight io fingerprint preflight w =
     (case preflight w of
        (Inl e, w) \<Rightarrow>
          if e = CancelledError
          then (case recover_store_mutation_outcome io fingerprint w of
                  (Inl e', w) \<Rightarrow> (Inl e', w)
                | (Inr (Some x), w) \<Rightarrow> (Inr (Decided x), w)
                | (Inr None, w) \<Rightarrow> (Inl e, w))
          else (Inr (Decided (Failed (plain_error AE_STORE_FAILURE))), w)
      | (Inr None, w) \<Rightarrow> (Inr Passed, w)
      | (Inr (Some err), w) \<Rightarrow> guarded (validate_action_error err) w (Inr (Refused err), w))"

definition unfenced ::
  "('w \<Rightarrow> ('w, effect_receipt) outcome) \<Rightarrow> 'w \<Rightarrow> ('w, effect_receipt + action_error) outcome" where
  "unfenced commit w = (case commit w of (r, w) \<Rightarrow> (map_sum id Inl r, w))"

text \<open>A commit inside an entered commit fence; an error of the fence replaces the commit.\<close>

definition within_fence ::
  "'w commit_fence \<Rightarrow> ('w \<Rightarrow> ('w, effect_receipt) outcome) \<Rightarrow> 'w \<Rightarrow> ('w, effect_receipt + action_error) outcome" where
  "within_fence fence commit w =
     (case cf_enter fence w of
        (Inl e, w) \<Rightarrow> (Inl e, w)
      | (Inr fence_error, w) \<Rightarrow>
          (case (case fence_error of
                   Some err \<Rightarrow> guarded (validate_action_error err) w (Inr (Inr err), w)
                 | None \<Rightarrow> unfenced commit w)
           of (r, w) \<Rightarrow> (case cf_exit fence w of (None, w) \<Rightarrow> (r, w) | (Some e, w) \<Rightarrow> (Inl e, w))))"

text \<open>The body of the \<open>try\<close>: the commit, inside the commit fence when there is one.\<close>

definition fenced_commit ::
  "'w effect_session \<Rightarrow> store_mutation_request \<Rightarrow> action_error option \<Rightarrow> 'w commit_fence option \<Rightarrow> 'w \<Rightarrow>
   ('w, effect_receipt + action_error) outcome" where
  "fenced_commit io request preflight_error fence =
     (case fence of
        None \<Rightarrow> unfenced (commit_store_result io request preflight_error)
      | Some f \<Rightarrow> within_fence f (commit_store_result io request preflight_error))"

definition commit_or_recover ::
  "'w effect_session \<Rightarrow> store_mutation_request \<Rightarrow> 'w commit_fence option \<Rightarrow> action_error option \<Rightarrow> 'w \<Rightarrow>
   ('w, action_outcome) outcome" where
  "commit_or_recover io request commit_fence preflight_error w =
     (case fenced_commit io request preflight_error commit_fence w of
        (Inr (Inl receipt), w) \<Rightarrow> (required_outcome receipt, w)
      | (Inr (Inr fence_error), w) \<Rightarrow> (Inr (Failed fence_error), w)
      | (Inl e, w) \<Rightarrow> recover_or io (mr_fingerprint request) e w)"

definition checked_commit ::
  "'w effect_session \<Rightarrow> store_mutation_request \<Rightarrow> 'w native_preflight \<Rightarrow> 'w commit_fence option \<Rightarrow> 'w \<Rightarrow>
   ('w, action_outcome) outcome" where
  "checked_commit io request preflight commit_fence w =
     (case preflight of
        None \<Rightarrow> commit_or_recover io request commit_fence None w
      | Some p \<Rightarrow>
          (case run_store_preflight io (mr_fingerprint request) p w of
             (Inl e, w) \<Rightarrow> (Inl e, w)
           | (Inr (Decided x), w) \<Rightarrow> (Inr x, w)
           | (Inr (Refused err), w) \<Rightarrow> commit_or_recover io request commit_fence (Some err) w
           | (Inr Passed, w) \<Rightarrow> commit_or_recover io request commit_fence None w))"

definition execute_store_mutation ::
  "'w effect_session \<Rightarrow> store_mutation_request \<Rightarrow> 'w native_preflight \<Rightarrow> 'w commit_fence option \<Rightarrow> 'w \<Rightarrow>
   ('w, action_outcome) outcome" where
  "execute_store_mutation io request preflight commit_fence w =
     guarded (validate_store_mutation_request request) w
       (if Option.is_none preflight \<and> Option.is_none commit_fence
        then checked_commit io request preflight commit_fence w
        else case read_store_mutation_receipt io (mr_fingerprint request) w of
            (Inl e, w) \<Rightarrow> (Inl e, w)
          | (Inr (Some x), w) \<Rightarrow> (Inr x, w)
          | (Inr None, w) \<Rightarrow> checked_commit io request preflight commit_fence w)"

section \<open>Native mutations\<close>

definition persist_unknown :: "'w effect_session \<Rightarrow> action_fingerprint \<Rightarrow> 'w \<Rightarrow> ('w, action_outcome) outcome" where
  "persist_unknown io fingerprint w =
     (let unknown = unknown_outcome AE_NATIVE_OUTCOME_UNKNOWN in
      case session_receipt io (RecordOutcome fingerprint NATIVE_SIDE_EFFECT_STARTED unknown) w of
        (Inr receipt, w) \<Rightarrow> (required_outcome receipt, w)
      | (Inl e, w) \<Rightarrow> (Inr unknown, w))"

text \<open>A preflight that was interrupted: only a receipt that is still reserved lets the cancellation through.\<close>

definition interrupted_preflight ::
  "'w effect_session \<Rightarrow> action_fingerprint \<Rightarrow> 'w \<Rightarrow> ('w, action_outcome option) outcome" where
  "interrupted_preflight io fingerprint w =
     (case shielded_receipt_read io fingerprint w of
        (Some receipt, w) \<Rightarrow>
          (if er_phase receipt = TERMINAL then map_sum id Some (required_outcome receipt)
           else if er_phase receipt \<noteq> RESERVED then Inr (Some (unknown_outcome AE_NATIVE_OUTCOME_UNKNOWN))
           else Inl CancelledError, w)
      | (None, w) \<Rightarrow> (Inl CancelledError, w))"

definition as_decided :: "('w, 'a) outcome \<Rightarrow> ('w, 'a option) outcome" where
  "as_decided k = (map_sum id Some (fst k), snd k)"

definition run_native_preflight ::
  "'w effect_session \<Rightarrow> action_fingerprint \<Rightarrow> 'w native_preflight \<Rightarrow> 'w \<Rightarrow> ('w, action_outcome option) outcome" where
  "run_native_preflight io fingerprint preflight w =
     (case preflight of
        None \<Rightarrow> (Inr None, w)
      | Some p \<Rightarrow>
          (case p w of
             (Inl e, w) \<Rightarrow>
               if e = CancelledError then interrupted_preflight io fingerprint w
               else (Inr (Some (Failed (plain_error AE_STORE_FAILURE))), w)
           | (Inr None, w) \<Rightarrow> (Inr None, w)
           | (Inr (Some err), w) \<Rightarrow>
               guarded (validate_action_error err) w
               (case session_receipt io (RecordPreflightFailure fingerprint err) w of
                  (Inr receipt, w) \<Rightarrow>
                    (if er_phase receipt = TERMINAL then map_sum id Some (required_outcome receipt)
                     else Inr (Some (unknown_outcome AE_NATIVE_OUTCOME_UNKNOWN)), w)
                | (Inl e, w) \<Rightarrow>
                    if e = CancelledError then interrupted_preflight io fingerprint w
                    else if e = StaleRuntimeFence then (Inr (Some (Failed (plain_error AE_STALE_RUNTIME))), w)
                    else as_decided (terminal_or io fingerprint (Failed (plain_error AE_STORE_FAILURE)) w))))"

text \<open>Whether this execution made the transition to a started side effect, or an outcome that ends it.\<close>

definition enter_native_fence ::
  "'w effect_session \<Rightarrow> action_fingerprint \<Rightarrow> 'w \<Rightarrow> ('w, bool \<times> action_outcome option) outcome" where
  "enter_native_fence io fingerprint w =
     (case session_mark io fingerprint w of
        (Inr (receipt, acquired), w) \<Rightarrow>
          (Inr (if er_phase receipt = RESERVED then (False, Some (Failed (plain_error AE_STORE_FAILURE)))
                else (acquired, None)), w)
      | (Inl e, w) \<Rightarrow>
          if e = CancelledError
          then (case shielded_receipt_read io fingerprint w of
                  (None, w) \<Rightarrow> (Inl e, w)
                | (Some receipt, w) \<Rightarrow>
                    if er_phase receipt = RESERVED then (Inl e, w)
                    else (case (if er_phase receipt = TERMINAL then (required_outcome receipt, w)
                                else persist_unknown io fingerprint w) of
                            (r, w) \<Rightarrow> (map_sum id (\<lambda>x. (False, Some x)) r, w)))
          else (Inr (False, Some (Failed (plain_error
                  (if e = StaleRuntimeFence then AE_STALE_RUNTIME else AE_STORE_FAILURE)))), w))"

fun record_failure_code :: "error \<Rightarrow> action_error_code" where
  "record_failure_code CancelledError = AE_NATIVE_OUTCOME_UNKNOWN"
| "record_failure_code StaleRuntimeFence = AE_STALE_RUNTIME"
| "record_failure_code _ = AE_STORE_FAILURE"

text \<open>Recording a known outcome as terminal, with the handlers of a failed record.\<close>

definition record_terminal ::
  "'w effect_session \<Rightarrow> action_fingerprint \<Rightarrow> action_outcome \<Rightarrow> 'w \<Rightarrow> ('w, action_outcome) outcome" where
  "record_terminal io fingerprint known w =
     (case session_receipt io (RecordOutcome fingerprint TERMINAL known) w of
        (Inr receipt, w) \<Rightarrow> (required_outcome receipt, w)
      | (Inl e, w) \<Rightarrow> terminal_or io fingerprint (unknown_outcome (record_failure_code e)) w)"

text \<open>The handlers of a failed record in \<open>_reconcile_native\<close>.\<close>

definition reconcile_failed ::
  "'w effect_session \<Rightarrow> action_fingerprint \<Rightarrow> bool \<Rightarrow> action_outcome \<Rightarrow> error \<Rightarrow> 'w \<Rightarrow> ('w, action_outcome) outcome" where
  "reconcile_failed io fingerprint terminal known e w =
     (case shielded_receipt_read io fingerprint w of
        (receipt, w) \<Rightarrow>
          (let pending = (case known of Succeeded v \<Rightarrow> if terminal then None else Some v | _ \<Rightarrow> None) in
           (case receipt of
              Some r \<Rightarrow>
                if er_phase r = TERMINAL then required_outcome r
                else (case pending of
                   Some v \<Rightarrow>
                     if e = StaleRuntimeFence then Inr (Partial v (plain_error AE_STALE_RUNTIME))
                     else if er_phase r = NATIVE_RESULT_KNOWN then Inr known
                     else if e = CancelledError then Inr (Partial v (plain_error AE_STORE_FAILURE))
                     else Inr (unknown_outcome AE_STORE_FAILURE)
                 | None \<Rightarrow> Inr (unknown_outcome (record_failure_code e)))
            | None \<Rightarrow>
                (case pending of
                   Some v \<Rightarrow>
                     if e = StaleRuntimeFence then Inr (Partial v (plain_error AE_STALE_RUNTIME))
                     else if e = CancelledError then Inr (Partial v (plain_error AE_STORE_FAILURE))
                     else Inr (unknown_outcome AE_STORE_FAILURE)
                 | None \<Rightarrow> Inr (unknown_outcome (record_failure_code e))), w)))"

definition reconcile_native ::
  "'w effect_session \<Rightarrow> action_fingerprint \<Rightarrow> string \<Rightarrow> 'w native_reconciler \<Rightarrow> bool \<Rightarrow>
   (action_outcome \<Rightarrow> check) \<Rightarrow> 'w \<Rightarrow> ('w, action_outcome) outcome" where
  "reconcile_native io fingerprint phase reconcile terminal known_validator w =
     (case reconcile of
        None \<Rightarrow> persist_unknown io fingerprint w
      | Some f \<Rightarrow>
          (case f phase w of
             (Inl e, w) \<Rightarrow> persist_unknown io fingerprint w
           | (Inr None, w) \<Rightarrow> persist_unknown io fingerprint w
           | (Inr (Some known), w) \<Rightarrow>
               if first_error [validate_known_native_outcome known, known_validator known] \<noteq> None
               then persist_unknown io fingerprint w
               else (case session_receipt io (RecordOutcome fingerprint
                         (if terminal \<or> is_failed known then TERMINAL else NATIVE_RESULT_KNOWN) known) w of
                       (Inr receipt, w) \<Rightarrow> (required_outcome receipt, w)
                     | (Inl e, w) \<Rightarrow> reconcile_failed io fingerprint terminal known e w)))"

text \<open>
  The native call. An error of it, a cancellation of it and an outcome that is not valid all leave
  the effect unknown.
\<close>

definition invoke_native ::
  "'w native_invoker \<Rightarrow> string \<Rightarrow> (action_outcome \<Rightarrow> check) \<Rightarrow> 'w \<Rightarrow> action_outcome option \<times> 'w" where
  "invoke_native invoke phase validate w =
     (case invoke phase w of
        (Inl e, w) \<Rightarrow> (None, w)
      | (Inr known, w) \<Rightarrow>
          (if first_error [validate_known_native_outcome known, validate known] = None then Some known else None, w))"

text \<open>
  \<open>execute_native_mutation\<close> calls itself when another execution entered the fence first. The number
  bounds the calls; \<open>None\<close> means that it was too small.
\<close>

fun execute_native_mutation ::
  "nat \<Rightarrow> 'w effect_session \<Rightarrow> (nat list \<Rightarrow> string) \<Rightarrow> native_mutation_request \<Rightarrow> 'w effect_callbacks \<Rightarrow> 'w \<Rightarrow>
   ('w, action_outcome) outcome option" where
  "execute_native_mutation 0 io digest request cb w = None"
| "execute_native_mutation (Suc n) io digest request cb w =
     (let fingerprint = nm_fingerprint request in
      case validate_native_mutation_request request of Some e \<Rightarrow> Some (Inl e, w) | None \<Rightarrow>
      case phase_id digest fingerprint ''native'' of Inl e \<Rightarrow> Some (Inl e, w) | Inr phase \<Rightarrow>
      case session_receipt io (ReserveEffect fingerprint (nm_category request) phase None) w of
        (Inl e, w) \<Rightarrow>
          Some (if e = CancelledError then Inl e else Inr (Failed (plain_error (store_error_code e))), w)
      | (Inr receipt, w) \<Rightarrow>
          (case er_phase receipt of
             TERMINAL \<Rightarrow> Some (required_outcome receipt, w)
           | NATIVE_SIDE_EFFECT_STARTED \<Rightarrow>
               Some (reconcile_native io fingerprint phase (cb_reconcile cb) True (\<lambda>_. None) w)
           | NATIVE_RESULT_KNOWN \<Rightarrow> Some (Inl RuntimeError, w)
           | RESERVED \<Rightarrow>
               (case run_native_preflight io fingerprint (cb_preflight cb) w of
                  (Inl e, w) \<Rightarrow> Some (Inl e, w)
                | (Inr (Some x), w) \<Rightarrow> Some (Inr x, w)
                | (Inr None, w) \<Rightarrow>
                    (case enter_native_fence io fingerprint w of
                       (Inl e, w) \<Rightarrow> Some (Inl e, w)
                     | (Inr (acquired, Some x), w) \<Rightarrow> Some (Inr x, w)
                     | (Inr (acquired, None), w) \<Rightarrow>
                         if \<not> acquired then execute_native_mutation n io digest request cb w
                         else (case invoke_native (cb_invoke cb) phase (\<lambda>_. None) w of
                                 (None, w) \<Rightarrow> Some (persist_unknown io fingerprint w)
                               | (Some known, w) \<Rightarrow> Some (record_terminal io fingerprint known w))))))"

section \<open>Workflows\<close>

fun commit_failure_code :: "error \<Rightarrow> action_error_code" where
  "commit_failure_code StaleRuntimeFence = AE_STALE_RUNTIME"
| "commit_failure_code _ = AE_STORE_FAILURE"

text \<open>The commit of a workflow, inside the commit fence when there is one and a route.\<close>

definition fenced_workflow_commit ::
  "'w effect_session \<Rightarrow> action_fingerprint \<Rightarrow> binding_target \<Rightarrow> thread_projection_route option \<Rightarrow>
   (string \<Rightarrow> 'w commit_fence) option \<Rightarrow> 'w \<Rightarrow> ('w, effect_receipt + action_error) outcome" where
  "fenced_workflow_commit io fingerprint target route commit_fence =
     (let commit = session_receipt io (CommitWorkflowBinding fingerprint target route) in
      case (route, commit_fence) of
        (Some v, Some fence) \<Rightarrow> within_fence (fence (pr_route_id v)) commit
      | _ \<Rightarrow> unfenced commit)"

definition commit_known_workflow ::
  "'w effect_session \<Rightarrow> (string \<Rightarrow> string) \<Rightarrow> create_binding_workflow_request \<Rightarrow> effect_receipt \<Rightarrow>
   (string \<Rightarrow> 'w commit_fence) option \<Rightarrow> 'w \<Rightarrow> ('w, action_outcome) outcome" where
  "commit_known_workflow io sha256 request receipt commit_fence w =
     (case er_outcome receipt of
        Some (Succeeded v) \<Rightarrow>
          if validate_workflow_created_value request v \<noteq> None
          then (Inr (Partial v (plain_error AE_STORE_FAILURE)), w)
          else (case workflow_binding_plan sha256 request v of
                  Inl e \<Rightarrow> (Inl e, w)
                | Inr (target, route) \<Rightarrow>
                    (case fenced_workflow_commit io (wf_fingerprint request) target route commit_fence w of
                       (Inr (Inl terminal), w) \<Rightarrow> (required_outcome terminal, w)
                     | (Inr (Inr fence_error), w) \<Rightarrow> (Inr (Partial v fence_error), w)
                     | (Inl e, w) \<Rightarrow>
                         terminal_or io (wf_fingerprint request) (Partial v (plain_error (commit_failure_code e))) w))
      | _ \<Rightarrow> (Inl RuntimeError, w))"

text \<open>Recording the created reference, with the handlers of a failed record.\<close>

definition record_created ::
  "'w effect_session \<Rightarrow> (string \<Rightarrow> string) \<Rightarrow> create_binding_workflow_request \<Rightarrow> effect_value \<Rightarrow>
   (string \<Rightarrow> 'w commit_fence) option \<Rightarrow> 'w \<Rightarrow> ('w, action_outcome) outcome" where
  "record_created io sha256 request v commit_fence w =
     (let fingerprint = wf_fingerprint request in
      case session_receipt io (RecordOutcome fingerprint NATIVE_RESULT_KNOWN (Succeeded v)) w of
        (Inr receipt, w) \<Rightarrow> commit_known_workflow io sha256 request receipt commit_fence w
      | (Inl e, w) \<Rightarrow>
          (case shielded_receipt_read io fingerprint w of
             (Some receipt, w) \<Rightarrow>
               if er_phase receipt = TERMINAL then (required_outcome receipt, w)
               else if er_phase receipt = NATIVE_RESULT_KNOWN \<and> e \<noteq> CancelledError \<and> e \<noteq> StaleRuntimeFence
               then commit_known_workflow io sha256 request receipt commit_fence w
               else (Inr (Partial v (plain_error (commit_failure_code e))), w)
           | (None, w) \<Rightarrow> (Inr (Partial v (plain_error (commit_failure_code e))), w)))"

fun execute_create_binding_workflow ::
  "nat \<Rightarrow> 'w effect_session \<Rightarrow> (nat list \<Rightarrow> string) \<Rightarrow> (string \<Rightarrow> string) \<Rightarrow> create_binding_workflow_request \<Rightarrow>
   'w effect_callbacks \<Rightarrow> 'w \<Rightarrow> ('w, action_outcome) outcome option" where
  "execute_create_binding_workflow 0 io digest sha256 request cb w = None"
| "execute_create_binding_workflow (Suc n) io digest sha256 request cb w =
     (let fingerprint = wf_fingerprint request in
      case validate_create_binding_workflow_request request of Some e \<Rightarrow> Some (Inl e, w) | None \<Rightarrow>
      case phase_id digest fingerprint ''native_create'' of Inl e \<Rightarrow> Some (Inl e, w) | Inr phase \<Rightarrow>
      case session_receipt io (ReserveEffect fingerprint EC_WORKFLOW phase (Some (wf_conversation_ref request))) w of
        (Inl e, w) \<Rightarrow>
          Some (if e = CancelledError then Inl e else Inr (Failed (plain_error (store_error_code e))), w)
      | (Inr receipt, w) \<Rightarrow>
          (case er_phase receipt of
             TERMINAL \<Rightarrow> Some (required_outcome receipt, w)
           | NATIVE_RESULT_KNOWN \<Rightarrow> Some (commit_known_workflow io sha256 request receipt (cb_commit_fence cb) w)
           | NATIVE_SIDE_EFFECT_STARTED \<Rightarrow>
               (case reconcile_native io fingerprint phase (cb_reconcile cb) False
                       (validate_workflow_known_outcome request) w of
                  (Inl e, w) \<Rightarrow> Some (Inl e, w)
                | (Inr (Succeeded v), w) \<Rightarrow>
                    (case es_get_effect_receipt io fingerprint w of
                       (Inl e, w) \<Rightarrow> Some (Inl e, w)
                     | (Inr None, w) \<Rightarrow> Some (Inr (unknown_outcome AE_STORE_FAILURE), w)
                     | (Inr (Some receipt), w) \<Rightarrow>
                         Some (if er_phase receipt = TERMINAL then (required_outcome receipt, w)
                               else commit_known_workflow io sha256 request receipt (cb_commit_fence cb) w))
                | (Inr x, w) \<Rightarrow> Some (Inr x, w))
           | RESERVED \<Rightarrow>
               (case run_native_preflight io fingerprint (cb_preflight cb) w of
                  (Inl e, w) \<Rightarrow> Some (Inl e, w)
                | (Inr (Some x), w) \<Rightarrow> Some (Inr x, w)
                | (Inr None, w) \<Rightarrow>
                    (case enter_native_fence io fingerprint w of
                       (Inl e, w) \<Rightarrow> Some (Inl e, w)
                     | (Inr (acquired, Some x), w) \<Rightarrow> Some (Inr x, w)
                     | (Inr (acquired, None), w) \<Rightarrow>
                         if \<not> acquired then execute_create_binding_workflow n io digest sha256 request cb w
                         else (case invoke_native (cb_invoke cb) phase (validate_workflow_known_outcome request) w of
                                 (None, w) \<Rightarrow> Some (persist_unknown io fingerprint w)
                               | (Some (Succeeded v), w) \<Rightarrow>
                                   Some (record_created io sha256 request v (cb_commit_fence cb) w)
                               | (Some known, w) \<Rightarrow> Some (record_terminal io fingerprint known w))))))"

end
