(* ===== verification/Effect_Guarantees.thy ===== *)
theory Effect_Guarantees
  imports Effect_Execution
begin

text \<open>
  What the executions of \<open>Effect_Execution\<close> guarantee over the coherent store of \<open>Memory_Store\<close>. The
  locale \<open>store_session\<close> is the interface: what a call of the session does to the store, with other
  runtimes at work before and after it and with cancellation at any point. Proved in it once: an
  execution calls the native application at most once and only after it made the transition to a
  started effect itself, what it reports is stored or says so, and it ends.
\<close>

section \<open>What the store calls tell\<close>

definition evolves :: "memory_store \<Rightarrow> memory_store \<Rightarrow> bool" where
  "evolves s t \<longleftrightarrow> (\<exists>cs. t = run_ops store_exec cs s)"

lemma evolves_run: "evolves s (run_ops store_exec cs s)"
  by (auto simp: evolves_def)

lemma evolves_refl [simp]: "evolves s s"
  using evolves_run [of s "[]"] by simp

lemma evolves_trans [trans]: "evolves s t \<Longrightarrow> evolves t u \<Longrightarrow> evolves s u"
  unfolding evolves_def by (metis run_ops_append)

lemma evolves_exec: "evolves s (snd (fenced_exec ft now l op s))"
  using evolves_run [of s "[Fenced ft now l op]"] by simp

lemma evolves_inv: "evolves s t \<Longrightarrow> store_inv s \<Longrightarrow> store_inv t"
  unfolding evolves_def using memory_store_inv.run_inv by blast

lemma evolves_receipt:
  assumes "evolves s t" and "store_inv s" and "receipt_at k s = Some r"
  obtains r' where "receipt_at k t = Some r'" "receipt_advances r r'"
  using assms run_receipt unfolding evolves_def by blast

text \<open>An action is started once its receipt left the phase \<open>RESERVED\<close>, and its outcome is durable once
  a terminal receipt holds it.\<close>

definition started :: "string \<Rightarrow> memory_store \<Rightarrow> bool" where
  "started k s \<longleftrightarrow> (\<exists>r. receipt_at k s = Some r \<and> er_phase r \<noteq> RESERVED)"

definition durable :: "string \<Rightarrow> action_outcome \<Rightarrow> memory_store \<Rightarrow> bool" where
  "durable k x s \<longleftrightarrow> (\<exists>r. receipt_at k s = Some r \<and> er_phase r = TERMINAL \<and> er_outcome r = Some x)"

lemma phase_rank_zero [simp]: "phase_rank p = 0 \<longleftrightarrow> p = RESERVED"
  by (cases p) simp_all

lemma started_evolves: "evolves s t \<Longrightarrow> store_inv s \<Longrightarrow> started k s \<Longrightarrow> started k t"
  unfolding started_def by (auto elim!: evolves_receipt simp: receipt_advances_def)

lemma durable_evolves: "evolves s t \<Longrightarrow> store_inv s \<Longrightarrow> durable k x s \<Longrightarrow> durable k x t"
  unfolding durable_def by (auto elim!: evolves_receipt simp: receipt_advances_def)

lemma terminal_outcome:
  assumes "store_inv s" and "receipt_at k s = Some r" and "er_phase r = TERMINAL"
  obtains x where "er_outcome r = Some x" "required_outcome r = Inr x" "durable k x s"
proof -
  have "er_outcome r \<noteq> None"
    using store_inv_receiptD(2) [OF assms(1,2)] assms(3) by (simp add: receipt_ok_def validate_effect_receipt_def)
  with assms that show thesis by (auto simp: required_outcome_def durable_def)
qed

lemma result_receipt: "as_result ReceiptResult k = (Inr (ReceiptResult r), t) \<longleftrightarrow> k = (Inr r, t)"
  by (cases k; cases "fst k") (auto simp: as_result_def)

lemma result_mark: "as_result (\<lambda>(r, b). MarkResult r b) k = (Inr (MarkResult r b), t) \<longleftrightarrow> k = (Inr (r, b), t)"
  by (cases k; cases "fst k") (auto simp: as_result_def)

lemma result_mark_receipt: "as_result (\<lambda>(r, b). MarkResult r b) k \<noteq> (Inr (ReceiptResult r'), t)"
  by (cases k; cases "fst k") (auto simp: as_result_def)

lemma reserved_receipt:
  assumes "store_inv s" and "reserve_effect ft now l f c i conv s = (Inr r, t)"
  shows "receipt_at (af_action_key f) t = Some r" and "er_category r = c"
proof -
  have "receipt_at (af_action_key f) t = Some r \<and> er_category r = c"
  proof (cases "receipt_at (af_action_key f) s")
    case None
    then obtain g where "new_receipt f c RESERVED (Some i) g None now s = Inr r" "t = put_receipt r s"
      using assms(2) by (auto simp: reserve_effect_def existing_receipt_def outcome_simps Let_def)
    then show ?thesis using new_receipt_ok by (auto simp: put_receipt_def)
  next
    case (Some old)
    then have "r = old \<and> t = s \<and> er_category old = c"
      using assms(2)
      by (auto simp: reserve_effect_def existing_receipt_def outcome_simps split: option.splits if_splits)
    with Some show ?thesis by simp
  qed
  then show "receipt_at (af_action_key f) t = Some r" "er_category r = c" by simp_all
qed

lemma put_back:
  assumes "store_inv s" and "require_receipt f s = Inr r" and "er_action_key r' = er_action_key r"
  shows "receipt_at (af_action_key f) (put_receipt r' s') = Some r'"
  using store_inv_receiptD(1) [OF assms(1) require_receipt_ok [OF assms(2)]] assms(3)
  by (simp add: put_receipt_def)

lemma marked_receipt:
  assumes "store_inv s" and "mark_native_side_effect_started ft now l f s = (Inr (r, b), t)"
  shows "receipt_at (af_action_key f) t = Some r" and "er_phase r \<noteq> RESERVED"
proof -
  obtain old where old: "require_receipt f s = Inr old"
      "(if er_phase old \<noteq> RESERVED then returns (old, False) s
        else guarded (now_locked now) s
          (let updated = old\<lparr>er_phase := NATIVE_SIDE_EFFECT_STARTED, er_updated_at := now\<rparr>
           in returns (updated, True) (put_receipt updated s))) = (Inr (r, b), t)"
    using assms(2) unfolding mark_native_side_effect_started_def guarded_Inr with_res_Inr_iff by blast
  note stored = require_receipt_ok [OF old(1)] put_back [OF assms(1) old(1)]
  show "receipt_at (af_action_key f) t = Some r" "er_phase r \<noteq> RESERVED"
    using old(2) stored by (cases "er_phase old = RESERVED"; auto simp: guarded_Inr returns_def Let_def)+
qed

lemma recorded_receipt:
  assumes "store_inv s" and "record_effect_outcome ft now l f p x s = (Inr r, t)"
  shows "receipt_at (af_action_key f) t = Some r" and "er_phase r = TERMINAL \<or> er_phase r = p \<and> er_outcome r = Some x"
proof -
  obtain old where old: "require_receipt f s = Inr old"
    and cases: "er_phase old = TERMINAL \<and> r = old \<and> t = s \<or>
      r = old\<lparr>er_phase := p, er_outcome := Some x, er_updated_at := now\<rparr> \<and> t = put_receipt r s"
    using assms(2) unfolding record_effect_outcome_def guarded_Inr with_res_Inr_iff Let_def
    by (auto simp: guarded_Inr returns_def simp del: first_error_Cons_None split: if_splits)
  note stored = require_receipt_ok [OF old] put_back [OF assms(1) old]
  show "receipt_at (af_action_key f) t = Some r" "er_phase r = TERMINAL \<or> er_phase r = p \<and> er_outcome r = Some x"
    using cases stored by auto
qed

lemma preflight_receipt:
  assumes "store_inv s" and "record_effect_preflight_failure ft now l f e s = (Inr r, t)"
  shows "receipt_at (af_action_key f) t = Some r"
proof -
  obtain old where old: "require_receipt f s = Inr old"
    and cases: "r = old \<and> t = s \<or>
      r = old\<lparr>er_phase := TERMINAL, er_outcome := Some (Failed e), er_updated_at := now\<rparr> \<and> t = put_receipt r s"
    using assms(2) unfolding record_effect_preflight_failure_def guarded_Inr with_res_Inr_iff Let_def
    by (auto simp: guarded_Inr returns_def simp del: first_error_Cons_None split: if_splits)
  then show ?thesis using require_receipt_ok [OF old] put_back [OF assms(1) old] by auto
qed

lemma workflow_receipt:
  assumes "store_inv s" and "commit_workflow_binding ft now l f target route s = (Inr r, t)"
  shows "receipt_at (af_action_key f) t = Some r" and "er_phase r = TERMINAL"
proof -
  obtain old where old: "require_receipt f s = Inr old"
    and cases: "er_phase old = TERMINAL \<and> r = old \<and> t = s \<or>
      (\<exists>x s'. r = old\<lparr>er_phase := TERMINAL, er_outcome := Some x, er_updated_at := now\<rparr> \<and> t = put_receipt r s')"
    using assms(2) unfolding commit_workflow_binding_def guarded_Inr with_res_Inr_iff Let_def
    by (auto simp: guarded_Inr returns_def raises_def simp del: first_error_Cons_None
        split: if_splits effect_phase.splits option.splits action_outcome.splits sum.splits prod.splits)
  then show "receipt_at (af_action_key f) t = Some r" "er_phase r = TERMINAL"
    using require_receipt_ok [OF old] put_back [OF assms(1) old] by auto
qed

lemma preflight_commit_receipt:
  assumes "store_inv s" and "commit_store_preflight_failure ft now l f e s = (Inr r, t)"
  shows "receipt_at (af_action_key f) t = Some r" and "er_phase r = TERMINAL"
proof -
  have "receipt_at (af_action_key f) t = Some r \<and> er_phase r = TERMINAL"
  proof (cases "receipt_at (af_action_key f) s")
    case None
    then obtain x where "new_receipt f EC_GATEWAY TERMINAL None None x now s = Inr r" "t = put_receipt r s"
      using assms(2) by (auto simp: commit_store_preflight_failure_def existing_receipt_def outcome_simps)
    then show ?thesis using new_receipt_ok by (auto simp: put_receipt_def)
  next
    case (Some old)
    then have "r = old \<and> t = s \<and> er_category old = EC_GATEWAY"
      using assms(2)
      by (auto simp: commit_store_preflight_failure_def existing_receipt_def outcome_simps split: option.splits if_splits)
    with store_inv_receiptD(2) [OF assms(1) Some] Some show ?thesis
      by (simp add: receipt_ok_def validate_effect_receipt_def)
  qed
  then show "receipt_at (af_action_key f) t = Some r" "er_phase r = TERMINAL" by simp_all
qed

lemma read_receipt: "get_effect_receipt f s = Inr (Some r) \<Longrightarrow> receipt_at (af_action_key f) s = Some r"
  by (auto simp: get_effect_receipt_def split: option.splits)

lemma read_store_receipt:
  assumes "store_inv s" and "get_store_mutation_receipt ft l f s = Inr (Some r)"
  shows "receipt_at (af_action_key f) s = Some r" and "er_phase r = TERMINAL"
proof -
  have "receipt_at (af_action_key f) s = Some r \<and> er_category r = EC_GATEWAY"
    using assms(2) by (auto simp: get_store_mutation_receipt_def existing_receipt_def split: option.splits)
  moreover from this have "receipt_ok r" using store_inv_receiptD(2) [OF assms(1)] by blast
  ultimately show "receipt_at (af_action_key f) s = Some r" "er_phase r = TERMINAL"
    by (simp_all add: receipt_ok_def validate_effect_receipt_def)
qed

text \<open>The receipt calls with the action they are about, and what their result shows.\<close>

fun op_key :: "fenced_op \<Rightarrow> string option" where
  "op_key (CommitPreflightFailure f e) = Some (af_action_key f)"
| "op_key (CommitStoreMutation req) = Some (af_action_key (mr_fingerprint req))"
| "op_key (ReserveEffect f c i conv) = Some (af_action_key f)"
| "op_key (MarkStarted f) = Some (af_action_key f)"
| "op_key (RecordOutcome f p x) = Some (af_action_key f)"
| "op_key (RecordPreflightFailure f e) = Some (af_action_key f)"
| "op_key (CommitWorkflowBinding f t r) = Some (af_action_key f)"
| "op_key _ = None"

fun op_result :: "fenced_op \<Rightarrow> effect_receipt \<Rightarrow> bool" where
  "op_result (CommitPreflightFailure f e) r \<longleftrightarrow> er_phase r = TERMINAL"
| "op_result (CommitStoreMutation req) r \<longleftrightarrow> er_phase r = TERMINAL"
| "op_result (CommitWorkflowBinding f t v) r \<longleftrightarrow> er_phase r = TERMINAL"
| "op_result (RecordOutcome f p x) r \<longleftrightarrow> er_phase r = TERMINAL \<or> er_phase r = p \<and> er_outcome r = Some x"
| "op_result (ReserveEffect f c i conv) r \<longleftrightarrow> er_category r = c"
| "op_result _ r \<longleftrightarrow> True"

lemma receipt_result:
  assumes "store_inv s" and "fenced_exec ft now l op s = (Inr (ReceiptResult r), t)" and "op_key op = Some k"
  shows "receipt_at k t = Some r \<and> op_result op r"
  using assms
  by (cases op)
    (auto simp: result_receipt result_mark_receipt dest: reserved_receipt recorded_receipt preflight_receipt workflow_receipt
      preflight_commit_receipt committed_receipt)

lemma mark_result:
  assumes "store_inv s" and "fenced_exec ft now l (MarkStarted f) s = (Inr (MarkResult r b), t)"
  shows "receipt_at (af_action_key f) t = Some r" and "er_phase r \<noteq> RESERVED"
  using assms marked_receipt by (auto simp: result_mark)

section \<open>Executions over the coherent store\<close>

text \<open>
  What a session does with the store: a call runs its operation once under the session's lease,
  with arbitrary operations of other runtimes before and after it, and reports its result; or it is
  cancelled, before or after the operation ran. Reads are the same without an effect. \<open>calls\<close> counts
  the calls of the native application, which no call of the session makes.
\<close>

locale store_session =
  fixes io :: "'w effect_session"
    and store :: "'w \<Rightarrow> memory_store"
    and calls :: "'w \<Rightarrow> nat"
    and lease :: runtime_lease
  assumes session_call: "es_call io op w = (r, w') \<Longrightarrow> calls w' = calls w \<and>
      (\<exists>s t ft now. evolves (store w) s \<and> evolves t (store w') \<and>
        (t = snd (fenced_exec ft now lease op s) \<and> (r = fst (fenced_exec ft now lease op s) \<or> r = Inl CancelledError) \<or>
         t = s \<and> r = Inl CancelledError))"
    and session_get: "es_get_effect_receipt io f w = (x, w') \<Longrightarrow> calls w' = calls w \<and>
      (\<exists>s. evolves (store w) s \<and> evolves s (store w') \<and> (x = get_effect_receipt f s \<or> x = Inl CancelledError))"
    and session_get_store: "es_get_store_mutation_receipt io f w = (x, w') \<Longrightarrow> calls w' = calls w \<and>
      (\<exists>s ft. evolves (store w) s \<and> evolves s (store w') \<and>
        (x = get_store_mutation_receipt ft lease f s \<or> x = Inl CancelledError))"

text \<open>A step of the world that makes no native call.\<close>

definition quiet :: "('w \<Rightarrow> memory_store) \<Rightarrow> ('w \<Rightarrow> nat) \<Rightarrow> 'w \<Rightarrow> 'w \<Rightarrow> bool" where
  "quiet store calls w w' \<longleftrightarrow> calls w' = calls w \<and> evolves (store w) (store w')"

lemma quiet_refl [simp]: "quiet store calls w w"
  by (simp add: quiet_def)

lemma quiet_trans [trans]: "quiet store calls u v \<Longrightarrow> quiet store calls v w \<Longrightarrow> quiet store calls u w"
  by (auto simp: quiet_def intro: evolves_trans)

text \<open>
  The callbacks of an action: every one leaves the store to store operations, and only \<open>invoke\<close>
  calls the native application, once.
\<close>

definition callbacks_ok :: "('w \<Rightarrow> memory_store) \<Rightarrow> ('w \<Rightarrow> nat) \<Rightarrow> 'w effect_callbacks \<Rightarrow> bool" where
  "callbacks_ok store calls cb \<longleftrightarrow>
     (\<forall>p w. calls (snd (cb_invoke cb p w)) = Suc (calls w) \<and> evolves (store w) (store (snd (cb_invoke cb p w)))) \<and>
     (\<forall>f w. cb_preflight cb = Some f \<longrightarrow> quiet store calls w (snd (f w))) \<and>
     (\<forall>f p w. cb_reconcile cb = Some f \<longrightarrow> quiet store calls w (snd (f p w))) \<and>
     (\<forall>f p w. cb_commit_fence cb = Some f \<longrightarrow>
        quiet store calls w (snd (cf_enter (f p) w)) \<and> quiet store calls w (snd (cf_exit (f p) w)))"

context store_session
begin

lemma call_quiet: "es_call io op w = (r, w') \<Longrightarrow> quiet store calls w w'"
  using session_call [of op w r w'] evolves_exec evolves_trans unfolding quiet_def by metis

lemma get_quiet: "es_get_effect_receipt io f w = (x, w') \<Longrightarrow> quiet store calls w w'"
  using session_get [of f w x w'] by (auto simp: quiet_def intro: evolves_trans)

lemma get_store_quiet: "es_get_store_mutation_receipt io f w = (x, w') \<Longrightarrow> quiet store calls w w'"
  using session_get_store [of f w x w'] by (auto simp: quiet_def intro: evolves_trans)

text \<open>A receipt that a call returned was in the store during the call.\<close>

lemma receipt_seen:
  assumes "session_receipt io op w = (Inr r, w')" and "store_inv (store w)" and "op_key op = Some k"
  obtains s where "evolves (store w) s" "evolves s (store w')" "store_inv s" "receipt_at k s = Some r" "op_result op r"
proof -
  have call: "es_call io op w = (Inr (ReceiptResult r), w')"
    using assms(1) by (auto simp: session_receipt_def split: prod.splits sum.splits store_result.splits)
  obtain s t ft now where s: "evolves (store w) s" "evolves t (store w')" "t = snd (fenced_exec ft now lease op s)"
    "fst (fenced_exec ft now lease op s) = Inr (ReceiptResult r)"
    using session_call [OF call] by auto
  have inv: "store_inv s" by (rule evolves_inv [OF s(1) assms(2)])
  have "fenced_exec ft now lease op s = (Inr (ReceiptResult r), t)" using s(3,4) by (simp add: prod_eq_iff)
  from receipt_result [OF inv this assms(3)] have "receipt_at k t = Some r" "op_result op r" by auto
  moreover have "evolves s t" unfolding s(3) by (rule evolves_exec)
  ultimately show thesis using that s inv evolves_trans evolves_inv by blast
qed

lemma session_receipt_quiet: "session_receipt io op w = (r, w') \<Longrightarrow> quiet store calls w w'"
  by (auto simp: session_receipt_def split: prod.splits sum.splits dest: call_quiet)

lemma session_mark_quiet: "session_mark io f w = (r, w') \<Longrightarrow> quiet store calls w w'"
  by (auto simp: session_mark_def split: prod.splits sum.splits dest: call_quiet)

lemma shielded_quiet: "shielded_receipt_read io f w = (r, w') \<Longrightarrow> quiet store calls w w'"
  by (auto simp: shielded_receipt_read_def split: prod.splits sum.splits dest: get_quiet)

lemma mark_started:
  assumes "session_mark io f w = (Inr (r, b), w')" and "store_inv (store w)"
  shows "started (af_action_key f) (store w')" and "er_phase r \<noteq> RESERVED"
proof -
  have call: "es_call io (MarkStarted f) w = (Inr (MarkResult r b), w')"
    using assms(1) by (auto simp: session_mark_def split: prod.splits sum.splits store_result.splits)
  obtain s t ft now where s: "evolves (store w) s" "evolves t (store w')" "t = snd (fenced_exec ft now lease (MarkStarted f) s)"
    "fst (fenced_exec ft now lease (MarkStarted f) s) = Inr (MarkResult r b)"
    using session_call [OF call] by auto
  have inv: "store_inv s" by (rule evolves_inv [OF s(1) assms(2)])
  have "fenced_exec ft now lease (MarkStarted f) s = (Inr (MarkResult r b), t)" using s(3,4) by (simp add: prod_eq_iff)
  from mark_result [OF inv this] have "started (af_action_key f) t" "er_phase r \<noteq> RESERVED" by (auto simp: started_def)
  moreover have "store_inv t" unfolding s(3) using evolves_inv [OF evolves_exec inv] .
  ultimately show "started (af_action_key f) (store w')" "er_phase r \<noteq> RESERVED"
    using started_evolves [OF s(2)] by auto
qed

lemma read_seen:
  assumes "shielded_receipt_read io f w = (Some r, w')" and "store_inv (store w)"
  obtains s where "evolves (store w) s" "evolves s (store w')" "store_inv s" "receipt_at (af_action_key f) s = Some r"
proof -
  have "es_get_effect_receipt io f w = (Inr (Some r), w')"
    using assms(1) by (auto simp: shielded_receipt_read_def split: prod.splits sum.splits)
  from session_get [OF this] obtain s where "evolves (store w) s" "evolves s (store w')" "get_effect_receipt f s = Inr (Some r)"
    by auto
  with that read_receipt evolves_inv assms(2) show thesis by blast
qed

lemma seen_terminal:
  assumes "evolves s t" and "store_inv s" and "receipt_at k s = Some r" and "er_phase r = TERMINAL"
  obtains x where "required_outcome r = Inr x" "durable k x t"
  using terminal_outcome [OF assms(2,3,4)] durable_evolves [OF assms(1,2)] by metis

end

text \<open>An outcome that may be reported: it is stored, or it says that the result is unknown.\<close>

definition settled :: "string \<Rightarrow> action_outcome \<Rightarrow> memory_store \<Rightarrow> bool" where
  "settled k x s \<longleftrightarrow> durable k x s \<or> is_unknown x"

lemma settled_unknown [simp]: "settled k (unknown_outcome c) s"
  by (simp add: settled_def unknown_outcome_def)

lemma settled_durable: "durable k x s \<Longrightarrow> settled k x s"
  by (simp add: settled_def)

context store_session
begin

lemma terminal_or_result:
  assumes "terminal_or io f fallback w = (r, w')" and "store_inv (store w)"
  shows "quiet store calls w w' \<and> (\<exists>x. r = Inr x \<and> (durable (af_action_key f) x (store w') \<or> x = fallback))"
proof -
  obtain receipt where read: "shielded_receipt_read io f w = (receipt, w')"
    and r: "r = (case receipt of Some rc \<Rightarrow> if er_phase rc = TERMINAL then required_outcome rc else Inr fallback | None \<Rightarrow> Inr fallback)"
    using assms(1) by (auto simp: terminal_or_def split: prod.splits option.splits)
  have "\<exists>x. required_outcome rc = Inr x \<and> durable (af_action_key f) x (store w')"
    if "receipt = Some rc" "er_phase rc = TERMINAL" for rc
    using read_seen [OF read [unfolded that(1)] assms(2)] seen_terminal that(2) by metis
  with r shielded_quiet [OF read] show ?thesis by (auto split: option.splits)
qed

lemma persist_unknown_result:
  assumes "persist_unknown io f w = (r, w')" and inv: "store_inv (store w)"
  shows "quiet store calls w w' \<and> (\<exists>x. r = Inr x \<and> settled (af_action_key f) x (store w'))"
proof -
  let ?op = "RecordOutcome f NATIVE_SIDE_EFFECT_STARTED (unknown_outcome AE_NATIVE_OUTCOME_UNKNOWN)"
  obtain y where y: "session_receipt io ?op w = (y, w')"
    and r: "r = (case y of Inr rc \<Rightarrow> required_outcome rc | Inl e \<Rightarrow> Inr (unknown_outcome AE_NATIVE_OUTCOME_UNKNOWN))"
    using assms(1) by (auto simp: persist_unknown_def Let_def split: prod.splits sum.splits)
  have "\<exists>x. required_outcome rc = Inr x \<and> settled (af_action_key f) x (store w')" if rc: "y = Inr rc" for rc
  proof -
    obtain s where s: "evolves s (store w')" "store_inv s" "receipt_at (af_action_key f) s = Some rc" "op_result ?op rc"
      using receipt_seen [OF y [unfolded rc] inv] by auto
    show ?thesis
    proof (cases "er_phase rc = TERMINAL")
      case True
      with seen_terminal [OF s(1-3)] show ?thesis by (metis settled_durable)
    next
      case False
      with s(4) show ?thesis by (simp add: required_outcome_def)
    qed
  qed
  with r session_receipt_quiet [OF y] show ?thesis by (auto split: sum.splits)
qed

lemma record_terminal_result:
  assumes "record_terminal io f known w = (r, w')" and inv: "store_inv (store w)"
  shows "quiet store calls w w' \<and> (\<exists>x. r = Inr x \<and> settled (af_action_key f) x (store w'))"
proof -
  let ?op = "RecordOutcome f TERMINAL known"
  obtain y v where y: "session_receipt io ?op w = (y, v)" by fastforce
  have q: "quiet store calls w v" by (rule session_receipt_quiet [OF y])
  then have inv_v: "store_inv (store v)" using evolves_inv inv by (auto simp: quiet_def)
  show ?thesis
  proof (cases y)
    case (Inr rc)
    then have eq: "r = required_outcome rc" "w' = v" using assms(1) y by (auto simp: record_terminal_def)
    obtain s where s: "evolves s (store v)" "store_inv s" "receipt_at (af_action_key f) s = Some rc" "op_result ?op rc"
      using receipt_seen [OF y [unfolded Inr] inv] by auto
    then have "er_phase rc = TERMINAL" by auto
    from seen_terminal [OF s(1-3) this] obtain x where "required_outcome rc = Inr x" "durable (af_action_key f) x (store v)" .
    with eq q show ?thesis by (auto intro: settled_durable)
  next
    case (Inl e)
    then have "terminal_or io f (unknown_outcome (record_failure_code e)) v = (r, w')"
      using assms(1) y by (simp add: record_terminal_def)
    from terminal_or_result [OF this inv_v] q show ?thesis by (auto intro: quiet_trans settled_durable)
  qed
qed

lemma interrupted_preflight_result:
  assumes "interrupted_preflight io f w = (r, w')" and "store_inv (store w)"
  shows "quiet store calls w w' \<and>
    (r = Inl CancelledError \<or> (\<exists>x. r = Inr (Some x) \<and> settled (af_action_key f) x (store w')))"
proof -
  obtain receipt where read: "shielded_receipt_read io f w = (receipt, w')"
    and r: "r = (case receipt of None \<Rightarrow> Inl CancelledError | Some rc \<Rightarrow>
        if er_phase rc = TERMINAL then map_sum id Some (required_outcome rc)
        else if er_phase rc \<noteq> RESERVED then Inr (Some (unknown_outcome AE_NATIVE_OUTCOME_UNKNOWN)) else Inl CancelledError)"
    using assms(1) by (auto simp: interrupted_preflight_def split: prod.splits option.splits)
  have "\<exists>x. required_outcome rc = Inr x \<and> settled (af_action_key f) x (store w')"
    if "receipt = Some rc" "er_phase rc = TERMINAL" for rc
    using read_seen [OF read [unfolded that(1)] assms(2)] seen_terminal that(2) settled_durable by metis
  with r shielded_quiet [OF read] show ?thesis by (auto split: option.splits)
qed

end

context store_session
begin

lemma quiet_inv: "quiet store calls w w' \<Longrightarrow> store_inv (store w) \<Longrightarrow> store_inv (store w')"
  by (auto simp: quiet_def intro: evolves_inv)

lemma run_native_preflight_result:
  assumes run: "run_native_preflight io f preflight w = (r, w')" and inv: "store_inv (store w)"
    and cb: "\<forall>g v. preflight = Some g \<longrightarrow> quiet store calls v (snd (g v))"
  shows "quiet store calls w w' \<and> (r = Inr None \<or> r = Inl CancelledError \<or>
    (\<exists>x. r = Inr (Some x) \<and> (settled (af_action_key f) x (store w') \<or> is_failed x)))"
proof (cases preflight)
  case None
  then show ?thesis using run by (simp add: run_native_preflight_def)
next
  case (Some p)
  obtain y v where y: "p w = (y, v)" by fastforce
  have q: "quiet store calls w v" using cb Some y by (metis snd_conv)
  have inv_v: "store_inv (store v)" by (rule quiet_inv [OF q inv])
  have interrupted: ?thesis if "interrupted_preflight io f u = (r, w')" "quiet store calls w u" "store_inv (store u)" for u
    using interrupted_preflight_result [OF that(1,3)] that(2) by (auto intro: quiet_trans)
  show ?thesis
  proof (cases y)
    case (Inl e)
    then show ?thesis
      using run Some y q interrupted [OF _ q inv_v] by (cases "e = CancelledError") (auto simp: run_native_preflight_def)
  next
    case (Inr o')
    show ?thesis
    proof (cases o')
      case None
      then show ?thesis using run Some y Inr q by (auto simp: run_native_preflight_def)
    next
      case err: (Some err)
      obtain z u where z: "session_receipt io (RecordPreflightFailure f err) v = (z, u)" by fastforce
      have qu: "quiet store calls w u" by (rule quiet_trans [OF q session_receipt_quiet [OF z]])
      have inv_u: "store_inv (store u)" by (rule quiet_inv [OF qu inv])
      note run' = run [unfolded run_native_preflight_def, simplified Some y Inr err z option.simps sum.case prod.case
          validate_action_error_def guarded_None]
      show ?thesis
      proof (cases z)
        case (Inr rc)
        have "\<exists>x. required_outcome rc = Inr x \<and> settled (af_action_key f) x (store u)" if "er_phase rc = TERMINAL"
          using receipt_seen [OF z [unfolded Inr] inv_v] seen_terminal that settled_durable by (metis op_key.simps(6))
        with run' Inr qu show ?thesis by (auto split: if_splits)
      next
        case (Inl e)
        have ?thesis if decided: "as_decided (terminal_or io f (Failed (plain_error AE_STORE_FAILURE)) u) = (r, w')"
        proof -
          obtain t where t: "terminal_or io f (Failed (plain_error AE_STORE_FAILURE)) u = (t, w')" "r = map_sum id Some t"
            using decided by (cases "terminal_or io f (Failed (plain_error AE_STORE_FAILURE)) u") (auto simp: as_decided_def)
          from terminal_or_result [OF t(1) inv_u] t(2) qu show ?thesis
            by (auto intro: quiet_trans settled_durable)
        qed
        with run' Inl qu interrupted [OF _ qu inv_u] show ?thesis by (auto split: if_splits)
      qed
    qed
  qed
qed

lemma enter_native_fence_result:
  assumes run: "enter_native_fence io f w = (r, w')" and inv: "store_inv (store w)"
  shows "quiet store calls w w' \<and> (r = Inl CancelledError \<or>
    (\<exists>b x. r = Inr (b, Some x) \<and> (settled (af_action_key f) x (store w') \<or> is_failed x)) \<or>
    (\<exists>b. r = Inr (b, None) \<and> started (af_action_key f) (store w')))"
proof -
  obtain y v where y: "session_mark io f w = (y, v)" by fastforce
  have q: "quiet store calls w v" by (rule session_mark_quiet [OF y])
  have inv_v: "store_inv (store v)" by (rule quiet_inv [OF q inv])
  show ?thesis
  proof (cases y)
    case (Inr rb)
    obtain rc b where rb: "rb = (rc, b)" by (cases rb)
    note marked = mark_started [OF y [unfolded Inr rb] inv]
    have "r = Inr (b, None)" "w' = v" using run y Inr rb marked(2) by (simp_all add: enter_native_fence_def)
    with marked(1) q show ?thesis by simp
  next
    case (Inl e)
    show ?thesis
    proof (cases "e = CancelledError")
      case False
      then have "r = Inr (False, Some (Failed (plain_error (if e = StaleRuntimeFence then AE_STALE_RUNTIME else AE_STORE_FAILURE))))"
        "w' = v"
        using run y Inl by (simp_all add: enter_native_fence_def)
      with q show ?thesis by auto
    next
      case True
      obtain receipt u where read: "shielded_receipt_read io f v = (receipt, u)" by fastforce
      have qu: "quiet store calls w u" by (rule quiet_trans [OF q shielded_quiet [OF read]])
      have inv_u: "store_inv (store u)" by (rule quiet_inv [OF qu inv])
      note run' = run [unfolded enter_native_fence_def, simplified y Inl True read prod.case sum.case simp_thms if_True]
      show ?thesis
      proof (cases receipt)
        case None
        then show ?thesis using run' qu by auto
      next
        case (Some rc)
        consider "er_phase rc = RESERVED" | "er_phase rc = TERMINAL" | "er_phase rc \<notin> {RESERVED, TERMINAL}" by auto
        then show ?thesis
        proof cases
          case 1
          then show ?thesis using run' Some qu by auto
        next
          case 2
          obtain x where "required_outcome rc = Inr x" "settled (af_action_key f) x (store u)"
            using read_seen [OF read [unfolded Some] inv_v] seen_terminal 2 settled_durable by metis
          then show ?thesis using run' Some 2 qu by auto
        next
          case 3
          obtain t u' where t: "persist_unknown io f u = (t, u')" by fastforce
          from persist_unknown_result [OF t inv_u] show ?thesis
            using run' Some 3 t qu by (auto intro: quiet_trans)
        qed
      qed
    qed
  qed
qed

lemma reconcile_failed_result:
  assumes run: "reconcile_failed io f terminal known e w = (r, w')" and inv: "store_inv (store w)"
  shows "quiet store calls w w' \<and> (\<exists>x. r = Inr x \<and>
    (settled (af_action_key f) x (store w') \<or> \<not> terminal \<and> (is_partial x \<or> is_succeeded x)))"
proof -
  obtain receipt where read: "shielded_receipt_read io f w = (receipt, w')"
    using run by (auto simp: reconcile_failed_def Let_def split: prod.splits)
  have "\<exists>x. required_outcome rc = Inr x \<and> settled (af_action_key f) x (store w')"
    if "receipt = Some rc" "er_phase rc = TERMINAL" for rc
    using read_seen [OF read [unfolded that(1)] inv] seen_terminal that(2) settled_durable by metis
  with run read shielded_quiet [OF read] show ?thesis
    by (auto simp: reconcile_failed_def Let_def split: option.splits action_outcome.splits if_splits)
qed

lemma reconcile_native_result:
  assumes run: "reconcile_native io f phase reconcile terminal validator w = (r, w')" and inv: "store_inv (store w)"
    and cb: "\<forall>g p v. reconcile = Some g \<longrightarrow> quiet store calls v (snd (g p v))"
  shows "quiet store calls w w' \<and> (\<exists>x. r = Inr x \<and>
    (settled (af_action_key f) x (store w') \<or> \<not> terminal \<and> (is_partial x \<or> is_succeeded x)))"
proof -
  have unknown: ?thesis if "persist_unknown io f v = (r, w')" "quiet store calls w v" for v
    using persist_unknown_result [OF that(1) quiet_inv [OF that(2) inv]] that(2) by (auto intro: quiet_trans)
  show ?thesis
  proof (cases reconcile)
    case None
    then show ?thesis using run unknown [of w] by (simp add: reconcile_native_def)
  next
    case (Some g)
    obtain y v where y: "g phase w = (y, v)" by fastforce
    have q: "quiet store calls w v" using cb Some y by (metis snd_conv)
    have inv_v: "store_inv (store v)" by (rule quiet_inv [OF q inv])
    consider (none) "\<nexists>known. y = Inr (Some known) \<and> first_error [validate_known_native_outcome known, validator known] = None"
      | (known) known where "y = Inr (Some known)" "first_error [validate_known_native_outcome known, validator known] = None"
      by blast
    then show ?thesis
    proof cases
      case none
      then have "persist_unknown io f v = (r, w')"
        using run Some y by (auto simp: reconcile_native_def simp del: first_error_Cons_None split: sum.splits option.splits if_splits)
      then show ?thesis using unknown q by blast
    next
      case known
      let ?op = "RecordOutcome f (if terminal \<or> is_failed known then TERMINAL else NATIVE_RESULT_KNOWN) known"
      obtain z u where z: "session_receipt io ?op v = (z, u)" by fastforce
      have qu: "quiet store calls w u" by (rule quiet_trans [OF q session_receipt_quiet [OF z]])
      have inv_u: "store_inv (store u)" by (rule quiet_inv [OF qu inv])
      note run' = run [unfolded reconcile_native_def, simplified Some y known z option.simps sum.case prod.case simp_thms if_False]
      show ?thesis
      proof (cases z)
        case (Inl e)
        with run' reconcile_failed_result [of f terminal known e u r w'] inv_u qu show ?thesis
          by (auto intro: quiet_trans)
      next
        case (Inr rc)
        have eq: "r = required_outcome rc" "w' = u" using run' Inr by auto
        obtain s where s: "evolves s (store u)" "store_inv s" "receipt_at (af_action_key f) s = Some rc" "op_result ?op rc"
          using receipt_seen [OF z [unfolded Inr] inv_v] by auto
        show ?thesis
        proof (cases "er_phase rc = TERMINAL")
          case True
          from seen_terminal [OF s(1-3) True] eq qu show ?thesis by (metis settled_durable)
        next
          case False
          then have "er_outcome rc = Some known" "\<not> terminal" "\<not> is_failed known" using s(4) by (auto split: if_splits)
          moreover have "is_succeeded known" using known(2) calculation(3) by (cases known) auto
          ultimately show ?thesis using eq qu by (auto simp: required_outcome_def)
        qed
      qed
    qed
  qed
qed

end

text \<open>
  How an execution ended: without a native call, then a failure may be reported that is stored
  nowhere; or after one, then the action had not been started before, it is started now, and the
  result is acceptable as it is.
\<close>

definition ended ::
  "('w \<Rightarrow> memory_store) \<Rightarrow> ('w \<Rightarrow> nat) \<Rightarrow> string \<Rightarrow> (action_outcome res \<Rightarrow> memory_store \<Rightarrow> bool) \<Rightarrow> 'w \<Rightarrow>
   action_outcome res \<Rightarrow> 'w \<Rightarrow> bool" where
  "ended store calls k ok w r w' \<longleftrightarrow>
     evolves (store w) (store w') \<and>
     (calls w' = calls w \<and> (\<forall>x. r = Inr x \<longrightarrow> ok r (store w') \<or> is_failed x) \<or>
      calls w' = Suc (calls w) \<and> \<not> started k (store w) \<and> started k (store w') \<and> ok r (store w'))"

text \<open>The results of native mutations and of workflows after a native call.\<close>

definition native_ok :: "string \<Rightarrow> action_outcome res \<Rightarrow> memory_store \<Rightarrow> bool" where
  "native_ok k r s \<longleftrightarrow> (\<exists>x. r = Inr x \<and> settled k x s)"

definition workflow_ok :: "string \<Rightarrow> action_outcome res \<Rightarrow> memory_store \<Rightarrow> bool" where
  "workflow_ok k r s \<longleftrightarrow>
     (case r of Inr x \<Rightarrow> settled k x s \<or> is_partial x
      | Inl e \<Rightarrow> e = RuntimeError \<and> (\<exists>x. durable k x s))"

lemma ok_settled: "settled k x s \<Longrightarrow> native_ok k (Inr x) s" "settled k x s \<Longrightarrow> workflow_ok k (Inr x) s"
  by (simp_all add: native_ok_def workflow_ok_def)

lemma ended_quiet:
  assumes "quiet store calls w w'" and "\<And>x. r = Inr x \<Longrightarrow> ok r (store w') \<or> is_failed x"
  shows "ended store calls k ok w r w'"
  using assms by (auto simp: ended_def quiet_def)

lemma ended_after:
  assumes "quiet store calls w v" and "ended store calls k ok v r w'" and "store_inv (store w)"
  shows "ended store calls k ok w r w'"
  using assms started_evolves [of "store w" "store v" k] unfolding ended_def quiet_def
  by (auto intro: evolves_trans)

lemma invoke_native_world: "snd (invoke_native invoke phase validate w) = snd (invoke phase w)"
  by (auto simp: invoke_native_def split: prod.splits sum.splits)

lemma callbacks_okD:
  assumes "callbacks_ok store calls cb"
  shows "\<forall>g v. cb_preflight cb = Some g \<longrightarrow> quiet store calls v (snd (g v))"
    and "\<forall>g p v. cb_reconcile cb = Some g \<longrightarrow> quiet store calls v (snd (g p v))"
    and "invoke_native (cb_invoke cb) phase validate w = (i, w') \<Longrightarrow>
      calls w' = Suc (calls w) \<and> evolves (store w) (store w')"
    and "cb_commit_fence cb = Some g \<Longrightarrow>
      quiet store calls w (snd (cf_enter (g p) w)) \<and> quiet store calls w (snd (cf_exit (g p) w))"
  using assms invoke_native_world [of "cb_invoke cb" phase validate w] by (auto simp: callbacks_ok_def)

context store_session
begin

lemma reserve_started:
  assumes "session_receipt io (ReserveEffect f c i conv) w = (Inr rc, v)" and "store_inv (store w)"
  shows "er_phase rc = RESERVED \<Longrightarrow> \<not> started (af_action_key f) (store w)"
    and "er_phase rc = TERMINAL \<Longrightarrow> \<exists>x. required_outcome rc = Inr x \<and> durable (af_action_key f) x (store v)"
    and "er_category rc = c" and "receipt_ok rc"
proof -
  obtain s where s: "evolves (store w) s" "evolves s (store v)" "store_inv s" "receipt_at (af_action_key f) s = Some rc"
    "op_result (ReserveEffect f c i conv) rc"
    using receipt_seen [OF assms] by auto
  show "er_phase rc = RESERVED \<Longrightarrow> \<not> started (af_action_key f) (store w)"
    using started_evolves [OF s(1) assms(2), of "af_action_key f"] s(4) by (auto simp: started_def [of _ s])
  show "\<exists>x. required_outcome rc = Inr x \<and> durable (af_action_key f) x (store v)" if "er_phase rc = TERMINAL"
    using seen_terminal [OF s(2-4) that] by metis
  show "er_category rc = c" using s(5) by simp
  show "receipt_ok rc" by (rule store_inv_receiptD(2) [OF s(3,4)])
qed

text \<open>What native mutations and workflows share: from a reserved receipt to the native call.\<close>

lemma reserved_ended:
  assumes inv: "store_inv (store w)" and q: "quiet store calls w v" and fresh: "\<not> started (af_action_key f) (store w)"
    and cb: "\<forall>g v. preflight = Some g \<longrightarrow> quiet store calls v (snd (g v))"
    and run: "(case run_native_preflight io f preflight v of
        (Inl e, w) \<Rightarrow> Some (Inl e, w)
      | (Inr (Some x), w) \<Rightarrow> Some (Inr x, w)
      | (Inr None, w) \<Rightarrow>
          (case enter_native_fence io f w of
             (Inl e, w) \<Rightarrow> Some (Inl e, w)
           | (Inr (acquired, Some x), w) \<Rightarrow> Some (Inr x, w)
           | (Inr (acquired, None), w) \<Rightarrow> if \<not> acquired then again w else go w)) = Some (r, w')"
    and again: "\<And>t. store_inv (store t) \<Longrightarrow> again t = Some (r, w') \<Longrightarrow> ended store calls (af_action_key f) ok t r w'"
    and go: "\<And>t. store_inv (store t) \<Longrightarrow> go t = Some (r, w') \<Longrightarrow>
      calls w' = Suc (calls t) \<and> evolves (store t) (store w') \<and> ok r (store w')"
    and ok: "\<And>x s. settled (af_action_key f) x s \<Longrightarrow> ok (Inr x) s"
  shows "ended store calls (af_action_key f) ok w r w'"
proof -
  let ?k = "af_action_key f"
  have inv_v: "store_inv (store v)" by (rule quiet_inv [OF q inv])
  obtain z u where z: "run_native_preflight io f preflight v = (z, u)" by fastforce
  note pre = run_native_preflight_result [OF z inv_v cb]
  have qu: "quiet store calls w u" using pre q by (auto intro: quiet_trans)
  have inv_u: "store_inv (store u)" by (rule quiet_inv [OF qu inv])
  show ?thesis
  proof (cases "z = Inr None")
    case False
    with run z pre have "w' = u" "\<And>x. r = Inr x \<Longrightarrow> settled ?k x (store w') \<or> is_failed x"
      by (auto split: sum.splits option.splits)
    with qu ok show ?thesis by (auto intro: ended_quiet)
  next
    case passed: True
    obtain m t where m: "enter_native_fence io f u = (m, t)" by fastforce
    note fence = enter_native_fence_result [OF m inv_u]
    have qt: "quiet store calls w t" using fence qu by (auto intro: quiet_trans)
    have inv_t: "store_inv (store t)" by (rule quiet_inv [OF qt inv])
    note run' = run [unfolded z passed, simplified m sum.case option.case prod.case]
    consider (stop) "w' = t" "\<And>x. r = Inr x \<Longrightarrow> settled ?k x (store t) \<or> is_failed x"
      | (more) "m = Inr (False, None)" | (call) "m = Inr (True, None)"
      using run' fence by (fastforce split: sum.splits)
    then show ?thesis
    proof cases
      case stop
      with qt ok show ?thesis by (auto intro: ended_quiet)
    next
      case more
      then have "again t = Some (r, w')" using run' by simp
      from ended_after [OF qt again [OF inv_t this] inv] show ?thesis .
    next
      case call
      then have "go t = Some (r, w')" using run' by simp
      note gone = go [OF inv_t this]
      have "started ?k (store w')"
        using started_evolves [of "store t" "store w'" ?k] gone inv_t fence call by auto
      moreover have "evolves (store w) (store w')" using qt gone by (auto simp: quiet_def intro: evolves_trans)
      ultimately show ?thesis using gone qt fresh by (auto simp: ended_def quiet_def)
    qed
  qed
qed

lemma native_ended:
  assumes "execute_native_mutation n io digest req cb w = Some (r, w')" and "store_inv (store w)"
    and cb: "callbacks_ok store calls cb"
  shows "ended store calls (af_action_key (nm_fingerprint req)) (native_ok (af_action_key (nm_fingerprint req))) w r w'"
  using assms(1,2)
proof (induction n arbitrary: w)
  case (Suc n)
  let ?f = "nm_fingerprint req" and ?k = "af_action_key (nm_fingerprint req)"
  note inv = Suc.prems(2)
  show ?case
  proof (cases "validate_native_mutation_request req = None \<and> (\<exists>phase. phase_id digest ?f ''native'' = Inr phase)")
    case False
    then have "\<exists>e. r = Inl e" "w' = w"
      using Suc.prems(1) by (auto simp: Let_def split: option.splits sum.splits)
    then show ?thesis by (auto intro: ended_quiet)
  next
    case True
    then obtain phase where phase: "validate_native_mutation_request req = None" "phase_id digest ?f ''native'' = Inr phase" by blast
    obtain y v where y: "session_receipt io (ReserveEffect ?f (nm_category req) phase None) w = (y, v)" by fastforce
    have q: "quiet store calls w v" by (rule session_receipt_quiet [OF y])
    have inv_v: "store_inv (store v)" by (rule quiet_inv [OF q inv])
    note run = Suc.prems(1) [unfolded execute_native_mutation.simps Let_def phase y option.simps sum.case prod.case]
    show ?thesis
    proof (cases y)
      case (Inl e)
      then have "w' = v" "\<forall>x. r = Inr x \<longrightarrow> is_failed x" using run by (auto split: if_splits)
      with q show ?thesis by (auto intro: ended_quiet)
    next
      case (Inr rc)
      note reserved = reserve_started [OF y [unfolded Inr] inv]
      show ?thesis
      proof (cases "er_phase rc")
        case TERMINAL
        with reserved(2) have "\<exists>x. r = Inr x \<and> settled ?k x (store w')" "w' = v"
          using run Inr by (auto intro: settled_durable)
        with q show ?thesis by (auto intro: ended_quiet ok_settled)
      next
        case NATIVE_RESULT_KNOWN
        then show ?thesis using run Inr q by (auto intro: ended_quiet)
      next
        case NATIVE_SIDE_EFFECT_STARTED
        then have rec: "reconcile_native io ?f phase (cb_reconcile cb) True (\<lambda>_. None) v = (r, w')"
          using run Inr by simp
        from reconcile_native_result [OF rec inv_v callbacks_okD(2) [OF cb]] q show ?thesis
          by (auto intro!: ended_quiet ok_settled intro: quiet_trans)
      next
        case RESERVED
        note run' = run [unfolded Inr, simplified RESERVED sum.case effect_phase.case]
        show ?thesis
        proof (rule reserved_ended [OF inv q reserved(1) [OF RESERVED] callbacks_okD(1) [OF cb] run'])
          show "ended store calls ?k (native_ok ?k) t r w'"
            if "store_inv (store t)" "execute_native_mutation n io digest req cb t = Some (r, w')" for t
            by (rule Suc.IH [OF that(2,1)])
          show "calls w' = Suc (calls t) \<and> evolves (store t) (store w') \<and> native_ok ?k r (store w')"
            if t: "store_inv (store t)" and "(case invoke_native (cb_invoke cb) phase (\<lambda>_. None) t of
                (None, w) \<Rightarrow> Some (persist_unknown io ?f w)
              | (Some known, w) \<Rightarrow> Some (record_terminal io ?f known w)) = Some (r, w')" for t
          proof -
            obtain i c where i: "invoke_native (cb_invoke cb) phase (\<lambda>_. None) t = (i, c)" by fastforce
            note c = callbacks_okD(3) [OF cb i]
            have inv_c: "store_inv (store c)" using evolves_inv c t by blast
            have "(case i of None \<Rightarrow> persist_unknown io ?f c | Some known \<Rightarrow> record_terminal io ?f known c) = (r, w')"
              using that(2) i by (simp split: option.splits)
            then have "quiet store calls c w' \<and> (\<exists>x. r = Inr x \<and> settled ?k x (store w'))"
              using persist_unknown_result [OF _ inv_c] record_terminal_result [OF _ inv_c] by (cases i) auto
            with c show ?thesis by (auto simp: quiet_def native_ok_def intro: evolves_trans)
          qed
        qed (rule ok_settled)
      qed
    qed
  qed
qed simp

end

section \<open>Executions of workflows\<close>

lemma workflow_plan_total:
  assumes "validate_workflow_created_value request v = None" and "validate_effect_value v = None"
  obtains target route where "workflow_binding_plan sha256 request v = Inr (target, route)"
proof -
  obtain reference where reference: "ev_reference v = Some reference" "validate_stable_reference reference = None"
    using assms by (auto simp: validate_workflow_created_value_def validate_effect_value_def on_some_def split: option.splits)
  have kind: "sf_kind reference = (case wf_kind request of CREATE_AND_SELECT_PROJECT \<Rightarrow> SRK_PROJECT | CREATE_AND_BIND_THREAD \<Rightarrow> SRK_THREAD)"
    using assms(1) reference(1)
    by (auto simp: validate_workflow_created_value_def split: option.splits create_binding_workflow_kind.splits)
  show thesis
    using that reference kind
    by (auto simp: workflow_binding_plan_def to_value_def to_value_unchecked_def and_then_def Let_def
        split: create_binding_workflow_kind.splits)
qed

lemma receipt_created_valid: "receipt_ok r \<Longrightarrow> er_outcome r = Some (Succeeded v) \<Longrightarrow> validate_effect_value v = None"
  by (simp add: receipt_ok_def validate_effect_receipt_def on_some_def)

text \<open>A commit that returns a receipt leaves its outcome in the store.\<close>

definition committed ::
  "('w \<Rightarrow> memory_store) \<Rightarrow> ('w \<Rightarrow> nat) \<Rightarrow> string \<Rightarrow> 'w \<Rightarrow> (effect_receipt + action_error) res \<Rightarrow> 'w \<Rightarrow> bool" where
  "committed store calls k w r w' \<longleftrightarrow> quiet store calls w w' \<and>
     (\<forall>rc. r = Inr (Inl rc) \<longrightarrow> (\<exists>x. required_outcome rc = Inr x \<and> durable k x (store w')))"

definition commits ::
  "('w \<Rightarrow> memory_store) \<Rightarrow> ('w \<Rightarrow> nat) \<Rightarrow> string \<Rightarrow> ('w \<Rightarrow> ('w, effect_receipt) outcome) \<Rightarrow> bool" where
  "commits store calls k commit \<longleftrightarrow> (\<forall>w r w'. store_inv (store w) \<longrightarrow> commit w = (r, w') \<longrightarrow>
     committed store calls k w (map_sum id Inl r) w')"

lemma committed_Inl: "committed store calls k w (map_sum id Inl r) w' \<longleftrightarrow> quiet store calls w w' \<and>
     (\<forall>rc. r = Inr rc \<longrightarrow> (\<exists>x. required_outcome rc = Inr x \<and> durable k x (store w')))"
  by (cases r) (auto simp: committed_def)

context store_session
begin

lemma workflow_commit_result:
  assumes run: "session_receipt io (CommitWorkflowBinding f target route) w = (r, w')" and inv: "store_inv (store w)"
  shows "quiet store calls w w' \<and>
    (\<forall>rc. r = Inr rc \<longrightarrow> (\<exists>x. required_outcome rc = Inr x \<and> durable (af_action_key f) x (store w')))"
proof -
  have "\<exists>x. required_outcome rc = Inr x \<and> durable (af_action_key f) x (store w')" if rc: "r = Inr rc" for rc
  proof -
    obtain s where s: "evolves s (store w')" "store_inv s" "receipt_at (af_action_key f) s = Some rc" "er_phase rc = TERMINAL"
      using receipt_seen [OF run [unfolded rc] inv] by auto
    from seen_terminal [OF this] show ?thesis by metis
  qed
  with session_receipt_quiet [OF run] show ?thesis by blast
qed

lemma unfenced_result:
  assumes "commits store calls k commit" and "unfenced commit w = (r, w')" and "store_inv (store w)"
  shows "committed store calls k w r w'"
proof -
  obtain y where y: "commit w = (y, w')" "r = map_sum id Inl y"
    using assms(2) by (auto simp: unfenced_def split: prod.splits)
  with assms(1,3) show ?thesis unfolding commits_def by blast
qed

lemma within_fence_result:
  assumes commit: "commits store calls k commit" and run: "within_fence fence commit w = (r, w')" and inv: "store_inv (store w)"
    and cb: "\<forall>v. quiet store calls v (snd (cf_enter fence v)) \<and> quiet store calls v (snd (cf_exit fence v))"
  shows "committed store calls k w r w'"
proof -
  obtain e v where e: "cf_enter fence w = (e, v)" by fastforce
  have q: "quiet store calls w v" using cb e by (metis snd_conv)
  have inv_v: "store_inv (store v)" by (rule quiet_inv [OF q inv])
  show ?thesis
  proof (cases e)
    case (Inl err)
    then show ?thesis using run e q by (auto simp: within_fence_def committed_def)
  next
    case (Inr fence_error)
    obtain y u where y: "(case fence_error of Some err \<Rightarrow> guarded (validate_action_error err) v (Inr (Inr err), v)
        | None \<Rightarrow> unfenced commit v) = (y, u)" by fastforce
    have body: "committed store calls k v y u"
      using y unfenced_result [OF commit _ inv_v]
      by (cases fence_error) (auto simp: committed_def validate_action_error_def)
    have run': "(case cf_exit fence u of (None, w) \<Rightarrow> (y, w) | (Some e, w) \<Rightarrow> (Inl e, w)) = (r, w')"
      using run y by (simp add: within_fence_def e Inr)
    obtain x t where x: "cf_exit fence u = (x, t)" by fastforce
    have qt: "quiet store calls u t" using cb x by (metis snd_conv)
    have inv_u: "store_inv (store u)" using body inv_v quiet_inv by (auto simp: committed_def)
    have "w' = t" "r = y \<or> (\<exists>e. r = Inl e)" using run' x by (auto split: option.splits)
    moreover have "quiet store calls w t" using body q qt by (auto simp: committed_def intro: quiet_trans)
    moreover have "durable k o' (store t)" if "durable k o' (store u)" for o'
      using durable_evolves [OF _ inv_u that] qt by (simp add: quiet_def)
    ultimately show ?thesis using body by (auto simp: committed_def)
  qed
qed

lemma workflow_commits: "commits store calls (af_action_key f) (session_receipt io (CommitWorkflowBinding f target route))"
  using workflow_commit_result unfolding commits_def committed_Inl by blast

lemma fenced_workflow_commit_result:
  assumes run: "fenced_workflow_commit io f target route fence w = (r, w')" and inv: "store_inv (store w)"
    and cb: "\<forall>g p v. fence = Some g \<longrightarrow>
      quiet store calls v (snd (cf_enter (g p) v)) \<and> quiet store calls v (snd (cf_exit (g p) v))"
  shows "quiet store calls w w' \<and>
    (\<forall>rc. r = Inr (Inl rc) \<longrightarrow> (\<exists>x. required_outcome rc = Inr x \<and> durable (af_action_key f) x (store w')))"
proof (cases "\<exists>rt g. route = Some rt \<and> fence = Some g")
  case False
  then have "unfenced (session_receipt io (CommitWorkflowBinding f target route)) w = (r, w')"
    using run by (auto simp: fenced_workflow_commit_def Let_def split: option.splits)
  from unfenced_result [OF workflow_commits this inv] show ?thesis by (simp add: committed_def)
next
  case True
  then obtain rt g where g: "route = Some rt" "fence = Some g" by blast
  then have "within_fence (g (pr_route_id rt)) (session_receipt io (CommitWorkflowBinding f target route)) w = (r, w')"
    using run by (simp add: fenced_workflow_commit_def Let_def)
  from within_fence_result [OF workflow_commits this inv] cb g(2) show ?thesis by (simp add: committed_def)
qed

lemma commit_known_workflow_result:
  assumes run: "commit_known_workflow io sha256 request rc fence w = (r, w')" and inv: "store_inv (store w)"
    and cb: "\<forall>g p v. fence = Some g \<longrightarrow>
      quiet store calls v (snd (cf_enter (g p) v)) \<and> quiet store calls v (snd (cf_exit (g p) v))"
    and rc: "receipt_ok rc"
  shows "quiet store calls w w' \<and>
    (r = Inl RuntimeError \<and> (\<nexists>v. er_outcome rc = Some (Succeeded v)) \<or>
     (\<exists>x. r = Inr x \<and> (durable (af_action_key (wf_fingerprint request)) x (store w') \<or> is_partial x)))"
proof (cases "\<exists>v. er_outcome rc = Some (Succeeded v)")
  case False
  then have "r = Inl RuntimeError" "w' = w"
    using run by (auto simp: commit_known_workflow_def split: option.splits action_outcome.splits)
  with False show ?thesis by simp
next
  case True
  then obtain v where v: "er_outcome rc = Some (Succeeded v)" by blast
  show ?thesis
  proof (cases "validate_workflow_created_value request v = None")
    case False
    then show ?thesis using run v by (auto simp: commit_known_workflow_def)
  next
    case valid: True
    obtain target route where plan: "workflow_binding_plan sha256 request v = Inr (target, route)"
      using workflow_plan_total [OF valid receipt_created_valid [OF rc v]] .
    obtain y u where y: "fenced_workflow_commit io (wf_fingerprint request) target route fence w = (y, u)" by fastforce
    note commit = fenced_workflow_commit_result [OF y inv cb]
    have inv_u: "store_inv (store u)" using commit quiet_inv inv by blast
    note run' = run [unfolded commit_known_workflow_def v, simplified valid plan y simp_thms if_False
        option.case action_outcome.case sum.case prod.case]
    show ?thesis
    proof (cases y)
      case (Inr t)
      then show ?thesis using run' commit by (cases t) auto
    next
      case (Inl e)
      then have "terminal_or io (wf_fingerprint request) (Partial v (plain_error (commit_failure_code e))) u = (r, w')"
        using run' by simp
      from terminal_or_result [OF this inv_u] commit show ?thesis by (auto intro: quiet_trans)
    qed
  qed
qed

end

lemma known_succeeded: "receipt_ok r \<Longrightarrow> er_phase r = NATIVE_RESULT_KNOWN \<Longrightarrow> \<exists>v. er_outcome r = Some (Succeeded v)"
  by (cases "er_outcome r"; cases "the (er_outcome r)")
    (auto simp: receipt_ok_def validate_effect_receipt_def outcome_is_def)

context store_session
begin

lemma record_created_result:
  assumes run: "record_created io sha256 request v fence w = (r, w')" and inv: "store_inv (store w)"
    and cb: "\<forall>g p v. fence = Some g \<longrightarrow>
      quiet store calls v (snd (cf_enter (g p) v)) \<and> quiet store calls v (snd (cf_exit (g p) v))"
  shows "quiet store calls w w' \<and> workflow_ok (af_action_key (wf_fingerprint request)) r (store w')"
proof -
  let ?f = "wf_fingerprint request" and ?op = "RecordOutcome (wf_fingerprint request) NATIVE_RESULT_KNOWN (Succeeded v)"
  let ?k = "af_action_key ?f"
  obtain y u where y: "session_receipt io ?op w = (y, u)" by fastforce
  have q: "quiet store calls w u" by (rule session_receipt_quiet [OF y])
  have inv_u: "store_inv (store u)" by (rule quiet_inv [OF q inv])
  have committed: ?thesis
    if "commit_known_workflow io sha256 request rc fence t = (r, w')" "quiet store calls w t" "store_inv (store t)"
      "receipt_ok rc" "er_phase rc = TERMINAL \<Longrightarrow> \<exists>x. durable ?k x (store t)"
      "er_phase rc \<noteq> TERMINAL \<Longrightarrow> \<exists>v. er_outcome rc = Some (Succeeded v)" for rc t
  proof -
    note commit = commit_known_workflow_result [OF that(1,3) cb that(4)]
    have "\<exists>x. durable ?k x (store w')" if "\<nexists>v. er_outcome rc = Some (Succeeded v)"
      using that \<open>er_phase rc \<noteq> TERMINAL \<Longrightarrow> _\<close> \<open>er_phase rc = TERMINAL \<Longrightarrow> _\<close> commit durable_evolves \<open>store_inv (store t)\<close>
      unfolding quiet_def by blast
    with commit that(2) show ?thesis
      by (auto simp: workflow_ok_def intro: quiet_trans settled_durable)
  qed
  show ?thesis
  proof (cases y)
    case (Inr rc)
    obtain s where s: "evolves s (store u)" "store_inv s" "receipt_at ?k s = Some rc" "op_result ?op rc"
      using receipt_seen [OF y [unfolded Inr] inv] by auto
    have "commit_known_workflow io sha256 request rc fence u = (r, w')" using run y Inr by (simp add: record_created_def Let_def)
    then show ?thesis
      using committed [OF _ q inv_u store_inv_receiptD(2) [OF s(2,3)]] seen_terminal [OF s(1-3)] s(4) by (metis op_result.simps(4))
  next
    case (Inl e)
    obtain receipt t where read: "shielded_receipt_read io ?f u = (receipt, t)" by fastforce
    have qt: "quiet store calls w t" by (rule quiet_trans [OF q shielded_quiet [OF read]])
    have inv_t: "store_inv (store t)" by (rule quiet_inv [OF qt inv])
    note run' = run [unfolded record_created_def Let_def, simplified y Inl read sum.case prod.case]
    show ?thesis
    proof (cases receipt)
      case None
      then show ?thesis using run' qt by (auto simp: workflow_ok_def)
    next
      case (Some rc)
      obtain s where s: "evolves s (store t)" "store_inv s" "receipt_at ?k s = Some rc"
        using read_seen [OF read [unfolded Some] inv_u] by auto
      note ok = store_inv_receiptD(2) [OF s(2,3)]
      show ?thesis
      proof (cases "er_phase rc = TERMINAL")
        case True
        obtain x where "required_outcome rc = Inr x" "durable ?k x (store t)" using seen_terminal [OF s True] .
        moreover from this have "r = Inr x" "w' = t" using run' Some True by simp_all
        ultimately show ?thesis using qt by (simp add: ok_settled settled_durable)
      next
        case False
        then show ?thesis
          using run' Some qt committed [OF _ qt inv_t ok] known_succeeded [OF ok]
          by (auto simp: workflow_ok_def split: if_splits)
      qed
    qed
  qed
qed

lemma known_commit_ended:
  assumes run: "commit_known_workflow io sha256 request rc fence v = (r, w')" and inv: "store_inv (store w)"
    and q: "quiet store calls w v" and rc: "receipt_ok rc"
    and cb: "\<forall>g p v. fence = Some g \<longrightarrow>
      quiet store calls v (snd (cf_enter (g p) v)) \<and> quiet store calls v (snd (cf_exit (g p) v))"
  shows "ended store calls k (workflow_ok (af_action_key (wf_fingerprint request))) w r w'"
  using commit_known_workflow_result [OF run quiet_inv [OF q inv] cb rc] q
  by (auto intro!: ended_quiet intro: quiet_trans simp: workflow_ok_def settled_def)

lemma started_workflow_ended:
  assumes run: "(case reconcile_native io (wf_fingerprint req) phase (cb_reconcile cb) False validator v of
        (Inl e, w) \<Rightarrow> Some (Inl e, w)
      | (Inr (Succeeded v), w) \<Rightarrow>
          (case es_get_effect_receipt io (wf_fingerprint req) w of
             (Inl e, w) \<Rightarrow> Some (Inl e, w)
           | (Inr None, w) \<Rightarrow> Some (Inr (unknown_outcome AE_STORE_FAILURE), w)
           | (Inr (Some receipt), w) \<Rightarrow>
               Some (if er_phase receipt = TERMINAL then (required_outcome receipt, w)
                     else commit_known_workflow io sha256 req receipt (cb_commit_fence cb) w))
      | (Inr x, w) \<Rightarrow> Some (Inr x, w)) = Some (r, w')"
    and inv: "store_inv (store w)" and q: "quiet store calls w v" and cb: "callbacks_ok store calls cb"
  shows "ended store calls (af_action_key (wf_fingerprint req)) (workflow_ok (af_action_key (wf_fingerprint req))) w r w'"
proof -
  let ?f = "wf_fingerprint req" and ?k = "af_action_key (wf_fingerprint req)"
  obtain y u where y: "reconcile_native io ?f phase (cb_reconcile cb) False validator v = (y, u)" by fastforce
  note rec = reconcile_native_result [OF y quiet_inv [OF q inv] callbacks_okD(2) [OF cb]]
  have qu: "quiet store calls w u" by (rule quiet_trans [OF q rec [THEN conjunct1]])
  have inv_u: "store_inv (store u)" by (rule quiet_inv [OF qu inv])
  obtain x where x: "y = Inr x" "settled ?k x (store u) \<or> is_partial x \<or> is_succeeded x" using rec by blast
  show ?thesis
  proof (cases "is_succeeded x")
    case False
    then have "r = Inr x" "w' = u" using run y x(1) by (cases x; simp)+
    moreover from this x(2) False have "workflow_ok ?k r (store w')" by (auto simp: workflow_ok_def)
    ultimately show ?thesis using qu by (intro ended_quiet) simp_all
  next
    case True
    obtain z t where z: "es_get_effect_receipt io ?f u = (z, t)" by fastforce
    have qt: "quiet store calls w t" by (rule quiet_trans [OF qu get_quiet [OF z]])
    have run': "(case z of Inl e \<Rightarrow> Some (Inl e, t) | Inr None \<Rightarrow> Some (Inr (unknown_outcome AE_STORE_FAILURE), t)
        | Inr (Some receipt) \<Rightarrow> Some (if er_phase receipt = TERMINAL then (required_outcome receipt, t)
            else commit_known_workflow io sha256 req receipt (cb_commit_fence cb) t)) = Some (r, w')"
      using run y x(1) True z by (cases x) (simp_all split: sum.splits option.splits)
    show ?thesis
    proof (cases "\<exists>rc. z = Inr (Some rc)")
      case False
      then show ?thesis using run' qt by (auto intro!: ended_quiet ok_settled split: sum.splits option.splits)
    next
      case True
      then obtain rc where rc: "z = Inr (Some rc)" by blast
      then have "shielded_receipt_read io ?f u = (Some rc, t)" using z by (simp add: shielded_receipt_read_def)
      from read_seen [OF this inv_u] obtain s where s: "evolves s (store t)" "store_inv s" "receipt_at ?k s = Some rc" by blast
      have cb_fence: "\<forall>g p v. cb_commit_fence cb = Some g \<longrightarrow>
          quiet store calls v (snd (cf_enter (g p) v)) \<and> quiet store calls v (snd (cf_exit (g p) v))"
        using callbacks_okD(4) [OF cb] by blast
      show ?thesis
      proof (cases "er_phase rc = TERMINAL")
        case True
        obtain o' where "required_outcome rc = Inr o'" "durable ?k o' (store t)" using seen_terminal [OF s True] .
        with run' rc True qt show ?thesis by (auto intro!: ended_quiet ok_settled settled_durable)
      next
        case False
        then have "commit_known_workflow io sha256 req rc (cb_commit_fence cb) t = (r, w')" using run' rc by simp
        then show ?thesis by (rule known_commit_ended [OF _ inv qt store_inv_receiptD(2) [OF s(2,3)] cb_fence])
      qed
    qed
  qed
qed

lemma workflow_ended:
  assumes "execute_create_binding_workflow n io digest sha256 req cb w = Some (r, w')" and "store_inv (store w)"
    and cb: "callbacks_ok store calls cb"
  shows "ended store calls (af_action_key (wf_fingerprint req)) (workflow_ok (af_action_key (wf_fingerprint req))) w r w'"
  using assms(1,2)
proof (induction n arbitrary: w)
  case (Suc n)
  let ?f = "wf_fingerprint req" and ?k = "af_action_key (wf_fingerprint req)"
  note inv = Suc.prems(2)
  have cb_fence: "\<forall>g p v. cb_commit_fence cb = Some g \<longrightarrow>
      quiet store calls v (snd (cf_enter (g p) v)) \<and> quiet store calls v (snd (cf_exit (g p) v))"
    using callbacks_okD(4) [OF cb] by blast
  show ?case
  proof (cases "validate_create_binding_workflow_request req = None \<and> (\<exists>phase. phase_id digest ?f ''native_create'' = Inr phase)")
    case False
    then have "\<exists>e. r = Inl e" "w' = w"
      using Suc.prems(1) by (auto simp: Let_def split: option.splits sum.splits)
    then show ?thesis by (auto intro: ended_quiet)
  next
    case True
    then obtain phase where phase: "validate_create_binding_workflow_request req = None"
      "phase_id digest ?f ''native_create'' = Inr phase" by blast
    obtain y v where y: "session_receipt io (ReserveEffect ?f EC_WORKFLOW phase (Some (wf_conversation_ref req))) w = (y, v)" by fastforce
    have q: "quiet store calls w v" by (rule session_receipt_quiet [OF y])
    have inv_v: "store_inv (store v)" by (rule quiet_inv [OF q inv])
    note run = Suc.prems(1) [unfolded execute_create_binding_workflow.simps Let_def phase y option.simps sum.case prod.case]
    show ?thesis
    proof (cases y)
      case (Inl e)
      then have "w' = v" "\<forall>x. r = Inr x \<longrightarrow> is_failed x" using run by (auto split: if_splits)
      with q show ?thesis by (auto intro: ended_quiet)
    next
      case (Inr rc)
      note reserved = reserve_started [OF y [unfolded Inr] inv]
      show ?thesis
      proof (cases "er_phase rc")
        case TERMINAL
        with reserved(2) have "\<exists>x. r = Inr x \<and> settled ?k x (store w')" "w' = v"
          using run Inr by (auto intro: settled_durable)
        with q show ?thesis by (auto intro: ended_quiet ok_settled)
      next
        case NATIVE_RESULT_KNOWN
        then have "commit_known_workflow io sha256 req rc (cb_commit_fence cb) v = (r, w')" using run Inr by simp
        then show ?thesis by (rule known_commit_ended [OF _ inv q reserved(4) cb_fence])
      next
        case NATIVE_SIDE_EFFECT_STARTED
        note run' = run [unfolded Inr, simplified NATIVE_SIDE_EFFECT_STARTED sum.case effect_phase.case]
        show ?thesis by (rule started_workflow_ended [OF run' inv q cb])
      next
        case RESERVED
        note run' = run [unfolded Inr, simplified RESERVED sum.case effect_phase.case]
        show ?thesis
        proof (rule reserved_ended [OF inv q reserved(1) [OF RESERVED] callbacks_okD(1) [OF cb] run'])
          show "ended store calls ?k (workflow_ok ?k) t r w'"
            if "store_inv (store t)" "execute_create_binding_workflow n io digest sha256 req cb t = Some (r, w')" for t
            by (rule Suc.IH [OF that(2,1)])
          show "calls w' = Suc (calls t) \<and> evolves (store t) (store w') \<and> workflow_ok ?k r (store w')"
            if t: "store_inv (store t)" and go: "(case invoke_native (cb_invoke cb) phase (validate_workflow_known_outcome req) t of
                (None, w) \<Rightarrow> Some (persist_unknown io ?f w)
              | (Some (Succeeded v), w) \<Rightarrow> Some (record_created io sha256 req v (cb_commit_fence cb) w)
              | (Some known, w) \<Rightarrow> Some (record_terminal io ?f known w)) = Some (r, w')" for t
          proof -
            obtain i c where i: "invoke_native (cb_invoke cb) phase (validate_workflow_known_outcome req) t = (i, c)" by fastforce
            note c = callbacks_okD(3) [OF cb i]
            have inv_c: "store_inv (store c)" using evolves_inv c t by blast
            consider "persist_unknown io ?f c = (r, w')" | known where "record_terminal io ?f known c = (r, w')"
              | v where "record_created io sha256 req v (cb_commit_fence cb) c = (r, w')"
              using go i by (auto split: option.splits action_outcome.splits)
            then have "quiet store calls c w' \<and> workflow_ok ?k r (store w')"
            proof cases
              case 1
              from persist_unknown_result [OF 1 inv_c] show ?thesis by (auto intro: ok_settled)
            next
              case 2
              from record_terminal_result [OF 2 inv_c] show ?thesis by (auto intro: ok_settled)
            next
              case 3
              from record_created_result [OF 3 inv_c cb_fence] show ?thesis .
            qed
            with c show ?thesis by (auto simp: quiet_def intro: evolves_trans)
          qed
        qed (rule ok_settled)
      qed
    qed
  qed
qed simp

end

section \<open>Executions end\<close>

context store_session
begin

lemma reserved_total:
  assumes inv: "store_inv (store v)"
    and cb: "\<forall>g v. preflight = Some g \<longrightarrow> quiet store calls v (snd (g v))"
    and again: "\<And>t. store_inv (store t) \<Longrightarrow> started (af_action_key f) (store t) \<Longrightarrow> again t \<noteq> None"
    and go: "\<And>t. go t \<noteq> None"
  shows "(case run_native_preflight io f preflight v of
      (Inl e, w) \<Rightarrow> Some (Inl e, w)
    | (Inr (Some x), w) \<Rightarrow> Some (Inr x, w)
    | (Inr None, w) \<Rightarrow>
        (case enter_native_fence io f w of
           (Inl e, w) \<Rightarrow> Some (Inl e, w)
         | (Inr (acquired, Some x), w) \<Rightarrow> Some (Inr x, w)
         | (Inr (acquired, None), w) \<Rightarrow> if \<not> acquired then again w else go w)) \<noteq> None"
proof -
  obtain z u where z: "run_native_preflight io f preflight v = (z, u)" by fastforce
  have inv_u: "store_inv (store u)" using run_native_preflight_result [OF z inv cb] quiet_inv inv by metis
  obtain m t where m: "enter_native_fence io f u = (m, t)" by fastforce
  note fence = enter_native_fence_result [OF m inv_u]
  have inv_t: "store_inv (store t)" by (rule quiet_inv [OF fence [THEN conjunct1] inv_u])
  have "again t \<noteq> None" if "m = Inr (False, None)" using again [OF inv_t] fence that by auto
  then show ?thesis using z m go by (auto split: sum.splits option.splits)
qed

lemma started_again:
  assumes "session_receipt io (ReserveEffect f c i conv) w = (Inr rc, v)" and "store_inv (store w)"
    and "started (af_action_key f) (store w)"
  shows "er_phase rc \<noteq> RESERVED"
  using reserve_started(1) [OF assms(1,2)] assms(3) by blast

lemma native_started_total:
  assumes "store_inv (store w)" and "started (af_action_key (nm_fingerprint req)) (store w)"
  shows "execute_native_mutation (Suc n) io digest req cb w \<noteq> None"
  using started_again [OF _ assms]
  by (auto simp: Let_def split: option.splits sum.splits prod.splits effect_phase.splits)

lemma native_total:
  assumes inv: "store_inv (store w)" and cb: "callbacks_ok store calls cb"
  shows "execute_native_mutation (Suc (Suc n)) io digest req cb w \<noteq> None"
proof -
  have path: "(case run_native_preflight io (nm_fingerprint req) (cb_preflight cb) v of
      (Inl e, w) \<Rightarrow> Some (Inl e, w)
    | (Inr (Some x), w) \<Rightarrow> Some (Inr x, w)
    | (Inr None, w) \<Rightarrow>
        (case enter_native_fence io (nm_fingerprint req) w of
           (Inl e, w) \<Rightarrow> Some (Inl e, w)
         | (Inr (acquired, Some x), w) \<Rightarrow> Some (Inr x, w)
         | (Inr (acquired, None), w) \<Rightarrow>
             if \<not> acquired then execute_native_mutation (Suc n) io digest req cb w
             else (case invoke_native (cb_invoke cb) phase (\<lambda>_. None) w of
                     (None, w) \<Rightarrow> Some (persist_unknown io (nm_fingerprint req) w)
                   | (Some known, w) \<Rightarrow> Some (record_terminal io (nm_fingerprint req) known w)))) \<noteq> None"
    if "store_inv (store v)" for v phase
    by (rule reserved_total [OF that callbacks_okD(1) [OF cb]], erule (1) native_started_total) (simp split: prod.splits option.splits)
  show ?thesis
  proof (cases "validate_native_mutation_request req = None \<and> (\<exists>phase. phase_id digest (nm_fingerprint req) ''native'' = Inr phase)")
    case False
    then show ?thesis by (subst execute_native_mutation.simps(2)) (auto simp: Let_def simp del: execute_native_mutation.simps split: option.splits sum.splits)
  next
    case True
    then obtain phase where phase: "validate_native_mutation_request req = None" "phase_id digest (nm_fingerprint req) ''native'' = Inr phase" by blast
    obtain y v where y: "session_receipt io (ReserveEffect (nm_fingerprint req) (nm_category req) phase None) w = (y, v)" by fastforce
    have "store_inv (store v)" by (rule quiet_inv [OF session_receipt_quiet [OF y] inv])
    note reserved = path [OF this, of phase]
    show ?thesis
    proof (cases y)
      case (Inl e)
      then show ?thesis by (subst execute_native_mutation.simps(2)) (simp add: Let_def phase y del: execute_native_mutation.simps)
    next
      case (Inr rc)
      show ?thesis
      proof (cases "er_phase rc = RESERVED")
        case True
        show ?thesis
          by (subst execute_native_mutation.simps(2)) (simp only: Let_def phase y Inr True option.simps sum.case prod.case effect_phase.case, rule reserved)
      next
        case False
        then show ?thesis
          by (subst execute_native_mutation.simps(2)) (cases "er_phase rc"; simp add: Let_def phase y Inr del: execute_native_mutation.simps split: prod.splits)
      qed
    qed
  qed
qed

lemma workflow_replay_total:
  assumes "\<And>phase rc v. phase_id digest (wf_fingerprint req) ''native_create'' = Inr phase \<Longrightarrow>
      session_receipt io (ReserveEffect (wf_fingerprint req) EC_WORKFLOW phase (Some (wf_conversation_ref req))) w = (Inr rc, v) \<Longrightarrow>
      er_phase rc \<noteq> RESERVED"
  shows "execute_create_binding_workflow (Suc n) io digest sha256 req cb w \<noteq> None"
proof (cases "validate_create_binding_workflow_request req = None \<and> (\<exists>phase. phase_id digest (wf_fingerprint req) ''native_create'' = Inr phase)")
  case False
  then show ?thesis by (subst execute_create_binding_workflow.simps(2)) (auto simp: Let_def simp del: execute_create_binding_workflow.simps split: option.splits sum.splits)
next
  case True
  then obtain phase where phase: "validate_create_binding_workflow_request req = None"
    "phase_id digest (wf_fingerprint req) ''native_create'' = Inr phase" by blast
  obtain y v where y: "session_receipt io (ReserveEffect (wf_fingerprint req) EC_WORKFLOW phase (Some (wf_conversation_ref req))) w = (y, v)" by fastforce
  show ?thesis
  proof (cases y)
    case (Inl e)
    then show ?thesis by (subst execute_create_binding_workflow.simps(2)) (simp add: Let_def phase y del: execute_create_binding_workflow.simps)
  next
    case (Inr rc)
    then have "er_phase rc \<noteq> RESERVED" using assms phase(2) y by blast
    then show ?thesis
      by (subst execute_create_binding_workflow.simps(2)) (cases "er_phase rc"; simp add: Let_def phase y Inr
          del: execute_create_binding_workflow.simps split: prod.splits sum.splits option.splits action_outcome.splits)
  qed
qed

lemma workflow_started_total:
  assumes "store_inv (store w)" and "started (af_action_key (wf_fingerprint req)) (store w)"
  shows "execute_create_binding_workflow (Suc n) io digest sha256 req cb w \<noteq> None"
  by (rule workflow_replay_total) (rule started_again [OF _ assms])

lemma workflow_total:
  assumes inv: "store_inv (store w)" and cb: "callbacks_ok store calls cb"
  shows "execute_create_binding_workflow (Suc (Suc n)) io digest sha256 req cb w \<noteq> None"
proof -
  have path: "(case run_native_preflight io (wf_fingerprint req) (cb_preflight cb) v of
      (Inl e, w) \<Rightarrow> Some (Inl e, w)
    | (Inr (Some x), w) \<Rightarrow> Some (Inr x, w)
    | (Inr None, w) \<Rightarrow>
        (case enter_native_fence io (wf_fingerprint req) w of
           (Inl e, w) \<Rightarrow> Some (Inl e, w)
         | (Inr (acquired, Some x), w) \<Rightarrow> Some (Inr x, w)
         | (Inr (acquired, None), w) \<Rightarrow>
             if \<not> acquired then execute_create_binding_workflow (Suc n) io digest sha256 req cb w
             else (case invoke_native (cb_invoke cb) phase (validate_workflow_known_outcome req) w of
                     (None, w) \<Rightarrow> Some (persist_unknown io (wf_fingerprint req) w)
                   | (Some (Succeeded v), w) \<Rightarrow> Some (record_created io sha256 req v (cb_commit_fence cb) w)
                   | (Some known, w) \<Rightarrow> Some (record_terminal io (wf_fingerprint req) known w)))) \<noteq> None"
    if "store_inv (store v)" for v phase
    by (rule reserved_total [OF that callbacks_okD(1) [OF cb]], erule (1) workflow_started_total)
      (simp split: prod.splits option.splits action_outcome.splits)
  show ?thesis
  proof (cases "validate_create_binding_workflow_request req = None \<and> (\<exists>phase. phase_id digest (wf_fingerprint req) ''native_create'' = Inr phase)")
    case False
    then show ?thesis by (subst execute_create_binding_workflow.simps(2)) (auto simp: Let_def simp del: execute_create_binding_workflow.simps split: option.splits sum.splits)
  next
    case True
    then obtain phase where phase: "validate_create_binding_workflow_request req = None" "phase_id digest (wf_fingerprint req) ''native_create'' = Inr phase" by blast
    obtain y v where y: "session_receipt io (ReserveEffect (wf_fingerprint req) EC_WORKFLOW phase (Some (wf_conversation_ref req))) w = (y, v)" by fastforce
    have "store_inv (store v)" by (rule quiet_inv [OF session_receipt_quiet [OF y] inv])
    note reserved = path [OF this, of phase]
    show ?thesis
    proof (cases y)
      case (Inl e)
      then show ?thesis by (subst execute_create_binding_workflow.simps(2)) (simp add: Let_def phase y del: execute_create_binding_workflow.simps)
    next
      case (Inr rc)
      show ?thesis
      proof (cases "er_phase rc = RESERVED")
        case True
        show ?thesis
          by (subst execute_create_binding_workflow.simps(2)) (simp only: Let_def phase y Inr True option.simps sum.case prod.case effect_phase.case, rule reserved)
      next
        case False
        then show ?thesis
          by (subst execute_create_binding_workflow.simps(2)) (cases "er_phase rc"; simp add: Let_def phase y Inr del: execute_create_binding_workflow.simps split: prod.splits sum.splits option.splits action_outcome.splits)
      qed
    qed
  qed
qed

end

section \<open>Repeated executions\<close>

text \<open>Executions of native mutations one after another, as retries of an action make them.\<close>

fun native_executions ::
  "'w effect_session \<Rightarrow> (nat list \<Rightarrow> string) \<Rightarrow> (native_mutation_request \<times> 'w effect_callbacks) list \<Rightarrow> 'w \<Rightarrow> 'w option" where
  "native_executions io digest [] w = Some w"
| "native_executions io digest ((request, cb) # rest) w =
     (case execute_native_mutation 2 io digest request cb w of
        None \<Rightarrow> None
      | Some (r, w) \<Rightarrow> native_executions io digest rest w)"

context store_session
begin

lemma executions_call_once:
  assumes "\<forall>(request, cb) \<in> set xs. af_action_key (nm_fingerprint request) = k \<and> callbacks_ok store calls cb"
    and "store_inv (store w)"
  shows "\<exists>w'. native_executions io digest xs w = Some w' \<and> calls w' \<le> calls w + of_bool (\<not> started k (store w))"
  using assms
proof (induction xs arbitrary: w)
  case (Cons x xs)
  obtain request cb where x: "x = (request, cb)" by (cases x)
  have key: "af_action_key (nm_fingerprint request) = k" and cb: "callbacks_ok store calls cb"
    using Cons.prems(1) by (auto simp: x)
  obtain r v where run: "execute_native_mutation 2 io digest request cb w = Some (r, v)"
    using native_total [OF Cons.prems(2) cb, of 0 digest request] by (auto simp: numeral_2_eq_2)
  note e = native_ended [OF run Cons.prems(2) cb, unfolded key]
  have inv: "store_inv (store v)" using e evolves_inv [OF _ Cons.prems(2)] by (auto simp: ended_def)
  have "\<exists>w'. native_executions io digest xs v = Some w' \<and> calls w' \<le> calls v + of_bool (\<not> started k (store v))"
    by (rule Cons.IH [OF _ inv]) (use Cons.prems(1) in simp)
  moreover have "calls v + of_bool (\<not> started k (store v)) \<le> calls w + of_bool (\<not> started k (store w))"
    using e started_evolves [of "store w" "store v" k] Cons.prems(2) by (auto simp: ended_def)
  ultimately show ?case using run by (auto simp: x intro: order_trans)
qed simp

text \<open>An outcome of a store mutation is stored, or it is a failure.\<close>

lemma store_read_result:
  assumes "es_get_store_mutation_receipt io f w = (y, w')" and "store_inv (store w)"
  shows "quiet store calls w w' \<and> (\<forall>rc. y = Inr (Some rc) \<longrightarrow>
    er_phase rc = TERMINAL \<and> (\<exists>x. required_outcome rc = Inr x \<and> durable (af_action_key f) x (store w')))"
proof -
  have "er_phase rc = TERMINAL \<and> (\<exists>x. required_outcome rc = Inr x \<and> durable (af_action_key f) x (store w'))"
    if y: "y = Inr (Some rc)" for rc
  proof -
    obtain s ft where s: "evolves (store w) s" "evolves s (store w')" "get_store_mutation_receipt ft lease f s = Inr (Some rc)"
      using session_get_store [OF assms(1)] y by auto
    have inv: "store_inv s" by (rule evolves_inv [OF s(1) assms(2)])
    note read = read_store_receipt [OF inv s(3)]
    from seen_terminal [OF s(2) inv read] read(2) show ?thesis by metis
  qed
  with get_store_quiet [OF assms(1)] show ?thesis by blast
qed

lemma recover_or_result:
  assumes "recover_or io f e w = (r, w')" and "store_inv (store w)"
  shows "quiet store calls w w' \<and> (\<forall>x. r = Inr x \<longrightarrow> durable (af_action_key f) x (store w') \<or> is_failed x)"
proof -
  obtain y where y: "es_get_store_mutation_receipt io f w = (y, w')"
    using assms(1)
    by (auto simp: recover_or_def recover_store_mutation_outcome_def shielded_store_receipt_read_def
        split: prod.splits sum.splits option.splits if_splits)
  show ?thesis
    using store_read_result [OF y assms(2)] assms(1) y
    by (auto simp: recover_or_def recover_store_mutation_outcome_def shielded_store_receipt_read_def
        split: sum.splits option.splits if_splits)
qed

lemma read_store_mutation_receipt_result:
  assumes "read_store_mutation_receipt io f w = (y, w')" and "store_inv (store w)"
  shows "quiet store calls w w' \<and> (\<forall>x. y = Inr (Some x) \<longrightarrow> durable (af_action_key f) x (store w') \<or> is_failed x)"
proof -
  obtain z where z: "es_get_store_mutation_receipt io f w = (z, w')"
    using assms(1) by (auto simp: read_store_mutation_receipt_def split: prod.splits sum.splits option.splits)
  show ?thesis
    using store_read_result [OF z assms(2)] assms(1) z
    by (auto simp: read_store_mutation_receipt_def split: sum.splits option.splits if_splits)
qed

lemma store_preflight_result:
  assumes run: "run_store_preflight io f p w = (y, w')" and inv: "store_inv (store w)"
    and pre: "\<forall>v. quiet store calls v (snd (p v))"
  shows "quiet store calls w w' \<and> (\<forall>x. y = Inr (Decided x) \<longrightarrow> durable (af_action_key f) x (store w') \<or> is_failed x)"
proof -
  obtain z v where z: "p w = (z, v)" by fastforce
  have q: "quiet store calls w v" using pre z by (metis snd_conv)
  have inv_v: "store_inv (store v)" by (rule quiet_inv [OF q inv])
  show ?thesis
  proof (cases "z = Inl CancelledError")
    case False
    then show ?thesis using run z q
      by (auto simp: run_store_preflight_def validate_action_error_def split: sum.splits option.splits)
  next
    case True
    obtain t u where t: "recover_or io f CancelledError v = (t, u)" by fastforce
    note rec = recover_or_result [OF t inv_v]
    have "w' = u" "\<forall>x. y = Inr (Decided x) \<longrightarrow> t = Inr x"
      using run z True t by (auto simp: run_store_preflight_def recover_or_def split: prod.splits sum.splits option.splits)
    with rec q show ?thesis by (auto intro: quiet_trans)
  qed
qed

lemma store_commits: "commits store calls (af_action_key (mr_fingerprint req)) (commit_store_result io req err)"
proof -
  have "\<exists>x. required_outcome rc = Inr x \<and> durable (af_action_key (mr_fingerprint req)) x (store w')"
    if run: "commit_store_result io req err w = (Inr rc, w')" and inv: "store_inv (store w)" for w rc w'
  proof -
    obtain op where op: "session_receipt io op w = (Inr rc, w')" "op_key op = Some (af_action_key (mr_fingerprint req))"
      "op_result op rc \<longleftrightarrow> er_phase rc = TERMINAL"
      using run by (cases err) (auto simp: commit_store_result_def)
    obtain s where s: "evolves s (store w')" "store_inv s" "receipt_at (af_action_key (mr_fingerprint req)) s = Some rc" "er_phase rc = TERMINAL"
      using receipt_seen [OF op(1) inv op(2)] op(3) by blast
    from seen_terminal [OF this] show ?thesis by metis
  qed
  moreover have "quiet store calls w w'" if "commit_store_result io req err w = (r, w')" for w r w'
    using that by (cases err) (auto simp: commit_store_result_def dest: session_receipt_quiet)
  ultimately show ?thesis unfolding commits_def committed_Inl by blast
qed

lemma fenced_commit_result:
  assumes "fenced_commit io req err fence w = (r, w')" and "store_inv (store w)"
    and "\<forall>f v. fence = Some f \<longrightarrow> quiet store calls v (snd (cf_enter f v)) \<and> quiet store calls v (snd (cf_exit f v))"
  shows "committed store calls (af_action_key (mr_fingerprint req)) w r w'"
  using assms unfenced_result [OF store_commits] within_fence_result [OF store_commits]
  by (cases fence) (auto simp: fenced_commit_def)

lemma store_mutation_settled:
  assumes run: "execute_store_mutation io req preflight fence w = (r, w')" and inv: "store_inv (store w)"
    and pre: "\<forall>f v. preflight = Some f \<longrightarrow> quiet store calls v (snd (f v))"
    and cb: "\<forall>f v. fence = Some f \<longrightarrow> quiet store calls v (snd (cf_enter f v)) \<and> quiet store calls v (snd (cf_exit f v))"
  shows "quiet store calls w w' \<and>
    (\<forall>x. r = Inr x \<longrightarrow> durable (af_action_key (mr_fingerprint req)) x (store w') \<or> is_failed x)"
proof (cases "validate_store_mutation_request req = None")
  case False
  then show ?thesis using run by (auto simp: execute_store_mutation_def guarded_def)
next
  case True
  let ?f = "mr_fingerprint req" and ?k = "af_action_key (mr_fingerprint req)"
  let ?commit = "commit_or_recover io req fence" and ?checked = "checked_commit io req preflight fence"
  let ?good = "\<lambda>w w'. quiet store calls w w' \<and> (\<forall>x. r = Inr x \<longrightarrow> durable ?k x (store w') \<or> is_failed x)"
  have good_after: "?good u w'" if "?good v w'" "quiet store calls u v" for u v
    using that(1) quiet_trans [OF that(2)] by blast
  have commit_good: "?good v w'" if "?commit err v = (r, w')" "store_inv (store v)" for err v
  proof -
    obtain y u where y: "fenced_commit io req err fence v = (y, u)" by fastforce
    note done' = fenced_commit_result [OF y that(2) cb, unfolded committed_def]
    have inv_u: "store_inv (store u)" by (rule quiet_inv [OF done' [THEN conjunct1] that(2)])
    show ?thesis
    proof (cases y)
      case (Inl e)
      then have "recover_or io ?f e u = (r, w')" using that(1) y by (simp add: commit_or_recover_def)
      from good_after [OF recover_or_result [OF this inv_u] done' [THEN conjunct1]] show ?thesis .
    next
      case (Inr z)
      then show ?thesis using that(1) y done' by (cases z) (auto simp: commit_or_recover_def)
    qed
  qed
  have checked_good: "?good v w'" if given: "?checked v = (r, w')" "store_inv (store v)" for v
  proof (cases preflight)
    case None
    then have "?commit None v = (r, w')" using that(1) by (simp add: checked_commit_def)
    then show ?thesis by (rule commit_good [OF _ that(2)])
  next
    case (Some p)
    obtain y u where y: "run_store_preflight io ?f p v = (y, u)" by fastforce
    have pf: "quiet store calls v u \<and> (\<forall>x. y = Inr (Decided x) \<longrightarrow> durable ?k x (store u) \<or> is_failed x)"
      by (rule store_preflight_result [OF y that(2)]) (use pre Some in blast)
    have inv_u: "store_inv (store u)" by (rule quiet_inv [OF pf [THEN conjunct1] that(2)])
    consider "w' = u" "\<forall>x. r = Inr x \<longrightarrow> y = Inr (Decided x)" | err where "?commit err u = (r, w')"
      using given(1) Some y by (auto simp: checked_commit_def split: sum.splits preflight_result.splits)
    then show ?thesis
    proof cases
      case 1
      with pf show ?thesis by auto
    next
      case 2
      from good_after [OF commit_good [OF 2 inv_u] pf [THEN conjunct1]] show ?thesis .
    qed
  qed
  note run' = run [unfolded execute_store_mutation_def True guarded_None]
  show ?thesis
  proof (cases "Option.is_none preflight \<and> Option.is_none fence")
    case True
    then have "?checked w = (r, w')" using run' by simp
    then show ?thesis by (rule checked_good [OF _ inv])
  next
    case False
    obtain y u where y: "read_store_mutation_receipt io ?f w = (y, u)" by fastforce
    note read = read_store_mutation_receipt_result [OF y inv]
    have inv_u: "store_inv (store u)" by (rule quiet_inv [OF read [THEN conjunct1] inv])
    show ?thesis
    proof (cases "y = Inr None")
      case none: True
      then have "?checked u = (r, w')" using run' False y by (simp add: case_prod_beta')
      from good_after [OF checked_good [OF this inv_u] read [THEN conjunct1]] show ?thesis .
    next
      case some: False
      then have "w' = u" "\<forall>x. r = Inr x \<longrightarrow> y = Inr (Some x)" using run' False y by (auto split: sum.splits option.splits)
      with read show ?thesis by auto
    qed
  qed
qed

end

end
