(* ===== verification/Effect_Sessions.thy ===== *)
theory Effect_Sessions
  imports Effect_Guarantees
begin

text \<open>
  The session of a runtime on \<open>MemoryGatewayStore\<close> as an instance of \<open>store_session\<close>, and the
  properties of effect execution stated over it. The world holds the store, a schedule that says for
  every await what other runtimes do around it, which clock readings it sees and whether it is
  cancelled, and the number of native calls made so far. The properties hold for every schedule.
\<close>

section \<open>The scheduled session\<close>

datatype cancellation = NotCancelled | CancelledBefore | CancelledAfter

record schedule_turn =
  tu_before :: "store_op list"
  tu_fence_time :: datetime
  tu_now :: datetime
  tu_cancelled :: cancellation
  tu_after :: "store_op list"

record effect_world =
  wd_store :: memory_store
  wd_turns :: "schedule_turn list"
  wd_calls :: nat

text \<open>When the schedule is used up nothing interferes any more.\<close>

definition quiet_turn :: schedule_turn where
  "quiet_turn = \<lparr>tu_before = [], tu_fence_time = utc 0, tu_now = utc 0, tu_cancelled = NotCancelled, tu_after = []\<rparr>"

definition next_turn :: "effect_world \<Rightarrow> schedule_turn \<times> effect_world" where
  "next_turn w =
     (case wd_turns w of
        [] \<Rightarrow> (quiet_turn, w)
      | turn # turns \<Rightarrow> (turn, w\<lparr>wd_turns := turns, wd_store := run_ops store_exec (tu_before turn) (wd_store w)\<rparr>))"

definition end_turn :: "schedule_turn \<Rightarrow> memory_store \<Rightarrow> effect_world \<Rightarrow> effect_world" where
  "end_turn turn s w = w\<lparr>wd_store := run_ops store_exec (tu_after turn) s\<rparr>"

definition scheduled_call ::
  "runtime_lease \<Rightarrow> fenced_op \<Rightarrow> effect_world \<Rightarrow> (effect_world, store_result) outcome" where
  "scheduled_call lease op w =
     (case next_turn w of
        (turn, w) \<Rightarrow>
          if tu_cancelled turn = CancelledBefore then (Inl CancelledError, end_turn turn (wd_store w) w)
          else case fenced_exec (tu_fence_time turn) (tu_now turn) lease op (wd_store w) of
              (r, s) \<Rightarrow> (if tu_cancelled turn = CancelledAfter then Inl CancelledError else r, end_turn turn s w))"

definition scheduled_read :: "(schedule_turn \<Rightarrow> memory_store \<Rightarrow> 'a res) \<Rightarrow> effect_world \<Rightarrow> (effect_world, 'a) outcome" where
  "scheduled_read read w =
     (case next_turn w of
        (turn, w) \<Rightarrow>
          (if tu_cancelled turn = NotCancelled then read turn (wd_store w) else Inl CancelledError,
           end_turn turn (wd_store w) w))"

definition scheduled_session :: "runtime_lease \<Rightarrow> effect_world effect_session" where
  "scheduled_session lease = \<lparr>
     es_call = scheduled_call lease,
     es_get_effect_receipt = (\<lambda>f. scheduled_read (\<lambda>turn. get_effect_receipt f)),
     es_get_store_mutation_receipt =
       (\<lambda>f. scheduled_read (\<lambda>turn. get_store_mutation_receipt (tu_fence_time turn) lease f))\<rparr>"

lemma next_turn_props:
  assumes "next_turn w = (turn, v)"
  shows "wd_calls v = wd_calls w" and "evolves (wd_store w) (wd_store v)"
  using assms by (auto simp: next_turn_def evolves_run split: list.splits)

lemma end_turn_props: "wd_calls (end_turn turn s w) = wd_calls w" "evolves s (wd_store (end_turn turn s w))"
  by (simp_all add: end_turn_def evolves_run)

lemma scheduled_read_props:
  assumes "scheduled_read read w = (x, w')"
  shows "wd_calls w' = wd_calls w \<and> (\<exists>s turn. evolves (wd_store w) s \<and> evolves s (wd_store w') \<and>
    (x = read turn s \<or> x = Inl CancelledError))"
proof -
  obtain turn v where v: "next_turn w = (turn, v)" by fastforce
  with assms have "w' = end_turn turn (wd_store v) v" "x = read turn (wd_store v) \<or> x = Inl CancelledError"
    by (auto simp: scheduled_read_def)
  with next_turn_props [OF v] end_turn_props [where turn = turn and s = "wd_store v" and w = v] show ?thesis by auto
qed

text \<open>A reservation returns the receipt of its own action.\<close>

lemma reserved_fingerprint:
  assumes "store_inv s" and "reserve_effect ft now l f c i conv s = (Inr r, t)"
  shows "receipt_fingerprint r = f \<and> validate_action_fingerprint f = None"
proof (cases "receipt_at (af_action_key f) s")
  case None
  then show ?thesis
    using assms(2) by (auto simp: reserve_effect_def existing_receipt_def outcome_simps Let_def dest: new_receipt_ok(9))
next
  case (Some old)
  then have "r = old \<and> check_fingerprint old f = None \<and> validate_action_fingerprint f = None"
    using assms(2)
    by (auto simp: reserve_effect_def existing_receipt_def outcome_simps split: option.splits if_splits)
  with store_inv_receiptD(1) [OF assms(1) Some] show ?thesis
    by (cases f) (auto simp: check_fingerprint_def receipt_fingerprint_def)
qed

context store_session
begin

lemma reservation_names_action:
  assumes "session_receipt io (ReserveEffect f c i conv) w = (Inr r, w')" and "store_inv (store w)"
  obtains t where "evolves t (store w')" "store_inv t" "receipt_at (af_action_key f) t = Some r"
    "receipt_fingerprint r = f" "validate_action_fingerprint f = None"
proof -
  let ?op = "ReserveEffect f c i conv"
  have call: "es_call io ?op w = (Inr (ReceiptResult r), w')"
    using assms(1) by (auto simp: session_receipt_def split: prod.splits sum.splits store_result.splits)
  obtain s t ft now where s: "evolves (store w) s" "evolves t (store w')" "t = snd (fenced_exec ft now lease ?op s)"
    "fst (fenced_exec ft now lease ?op s) = Inr (ReceiptResult r)"
    using session_call [OF call] by auto
  have inv: "store_inv s" by (rule evolves_inv [OF s(1) assms(2)])
  have "fenced_exec ft now lease ?op s = (Inr (ReceiptResult r), t)" using s(3,4) by (simp add: prod_eq_iff)
  then have reserved: "reserve_effect ft now lease f c i conv s = (Inr r, t)" by (simp add: result_receipt)
  have "store_inv t" unfolding s(3) by (rule evolves_inv [OF evolves_exec inv])
  with that s(2) reserved_receipt(1) [OF inv reserved] reserved_fingerprint [OF inv reserved] show thesis by blast
qed

end

interpretation scheduled: store_session "scheduled_session lease" wd_store wd_calls lease for lease
proof
  fix op w r w'
  assume "es_call (scheduled_session lease) op w = (r, w')"
  then have call: "scheduled_call lease op w = (r, w')" by (simp add: scheduled_session_def)
  obtain turn v where v: "next_turn w = (turn, v)" by fastforce
  note start = next_turn_props [OF v]
  let ?x = "fenced_exec (tu_fence_time turn) (tu_now turn) lease op (wd_store v)"
  consider "w' = end_turn turn (wd_store v) v" "r = Inl CancelledError"
    | "w' = end_turn turn (snd ?x) v" "r = fst ?x \<or> r = Inl CancelledError"
    using call v by (auto simp: scheduled_call_def split: prod.splits if_splits)
  then show "wd_calls w' = wd_calls w \<and> (\<exists>s t ft now. evolves (wd_store w) s \<and> evolves t (wd_store w') \<and>
      (t = snd (fenced_exec ft now lease op s) \<and> (r = fst (fenced_exec ft now lease op s) \<or> r = Inl CancelledError) \<or>
       t = s \<and> r = Inl CancelledError))"
  proof cases
    case 1
    with start end_turn_props [where turn = turn and s = "wd_store v" and w = v] show ?thesis by auto
  next
    case 2
    with start end_turn_props [where turn = turn and s = "snd ?x" and w = v] show ?thesis by metis
  qed
next
  fix f w x w'
  assume "es_get_effect_receipt (scheduled_session lease) f w = (x, w')"
  then show "wd_calls w' = wd_calls w \<and> (\<exists>s. evolves (wd_store w) s \<and> evolves s (wd_store w') \<and>
      (x = get_effect_receipt f s \<or> x = Inl CancelledError))"
    using scheduled_read_props by (fastforce simp: scheduled_session_def)
next
  fix f w x w'
  assume "es_get_store_mutation_receipt (scheduled_session lease) f w = (x, w')"
  then show "wd_calls w' = wd_calls w \<and> (\<exists>s ft. evolves (wd_store w) s \<and> evolves s (wd_store w') \<and>
      (x = get_store_mutation_receipt ft lease f s \<or> x = Inl CancelledError))"
    using scheduled_read_props by (fastforce simp: scheduled_session_def)
qed

section \<open>Properties\<close>

text \<open>
  C3: a native effect is invoked at most once, however often and by whichever runtimes it is
  retried. A sequence of executions of requests with one action key always ends, and whatever other
  runtimes do to the store meanwhile and wherever the executions are cancelled, the native
  application is called at most once in all of them, and not at all when the effect had already
  been started.
\<close>

theorem native_invoked_at_most_once:
  assumes "store_inv (wd_store w)"
    and "\<forall>(request, cb) \<in> set executions. af_action_key (nm_fingerprint request) = k \<and> callbacks_ok wd_store wd_calls cb"
  shows "\<exists>w'. native_executions (scheduled_session lease) digest executions w = Some w' \<and>
    wd_calls w' \<le> wd_calls w + (if started k (wd_store w) then 0 else 1)"
  using scheduled.executions_call_once [OF assms(2,1), of lease digest] by (cases "started k (wd_store w)") auto

text \<open>
  C4: a native mutation reports honestly. With two rounds it returns or raises; a success it reports
  is a terminal receipt of the store; a failure it reports is stored, unless the native application
  was not called; and once the native application was called it always reports an outcome, also when
  it was cancelled, at worst that the outcome is unknown.
\<close>

theorem native_outcome_honest:
  assumes "store_inv (wd_store w)" and "callbacks_ok wd_store wd_calls cb"
  shows "\<exists>r w'. execute_native_mutation 2 (scheduled_session lease) digest request cb w = Some (r, w') \<and>
    (let k = af_action_key (nm_fingerprint request); called = wd_calls w' \<noteq> wd_calls w in
     case r of
       Inl e \<Rightarrow> \<not> called
     | Inr (Succeeded v) \<Rightarrow> durable k (Succeeded v) (wd_store w')
     | Inr (Failed e) \<Rightarrow> durable k (Failed e) (wd_store w') \<or> \<not> called
     | Inr (Partial v e) \<Rightarrow> durable k (Partial v e) (wd_store w')
     | Inr (OutcomeUnknown e) \<Rightarrow> True)"
proof -
  obtain r w' where run: "execute_native_mutation 2 (scheduled_session lease) digest request cb w = Some (r, w')"
    using scheduled.native_total [OF assms, of 0 lease digest request] by (auto simp: numeral_2_eq_2)
  from scheduled.native_ended [OF run assms] show ?thesis
    unfolding run
    by (auto simp: ended_def native_ok_def settled_def Let_def split: sum.splits action_outcome.splits)
qed


text \<open>
  C6: a store mutation reports what is stored. Whatever preflight and commit fence it has and however
  it is interrupted, an outcome other than a failure that it reports is the terminal receipt of the
  action, and it never calls the native application.
\<close>

theorem store_mutation_outcome_durable:
  assumes "execute_store_mutation (scheduled_session lease) request preflight fence w = (Inr x, w')"
    and "store_inv (wd_store w)"
    and "\<forall>f v. preflight = Some f \<longrightarrow> quiet wd_store wd_calls v (snd (f v))"
    and "\<forall>f v. fence = Some f \<longrightarrow>
      quiet wd_store wd_calls v (snd (cf_enter f v)) \<and> quiet wd_store wd_calls v (snd (cf_exit f v))"
  shows "(durable (af_action_key (mr_fingerprint request)) x (wd_store w') \<or> is_failed x) \<and> wd_calls w' = wd_calls w"
  using scheduled.store_mutation_settled [OF assms] by (simp add: quiet_def)

section \<open>Concrete executions\<close>

definition flat_digest :: "nat list \<Rightarrow> string" where
  "flat_digest bytes = sample_sha256"

definition counting_callbacks :: "action_outcome \<Rightarrow> effect_world effect_callbacks" where
  "counting_callbacks x = \<lparr>cb_invoke = (\<lambda>phase w. (Inr x, w\<lparr>wd_calls := Suc (wd_calls w)\<rparr>)),
     cb_preflight = None, cb_reconcile = None, cb_commit_fence = None\<rparr>"

definition sample_world :: "schedule_turn list \<Rightarrow> effect_world" where
  "sample_world turns = \<lparr>wd_store = sample_store, wd_turns = turns, wd_calls = 0\<rparr>"

definition sample_native :: native_mutation_request where
  "sample_native = \<lparr>nm_fingerprint = sample_fingerprint, nm_category = EC_NATIVE\<rparr>"

definition empty_value :: effect_value where
  "empty_value = \<lparr>ev_reference = None, ev_conversation_ref = None, ev_binding_generation = None, ev_route_id = None\<rparr>"

lemma counting_callbacks_ok: "callbacks_ok wd_store wd_calls (counting_callbacks x)"
  by (simp add: callbacks_ok_def counting_callbacks_def)

lemma sample_world_inv: "store_inv (wd_store (sample_world turns))"
  by (simp add: sample_world_def sample_store_inv)

lemma sample_native_runs:
  "map_option (\<lambda>(r, w). (r, wd_calls w)) (execute_native_mutation 2 (scheduled_session sample_lease) flat_digest sample_native
     (counting_callbacks (Succeeded empty_value)) (sample_world [])) = Some (Inr (Succeeded empty_value), 1)"
  unfolding sample_world_def sample_store_def sample_new_store_def new_memory_store_def by code_simp

theorem native_invoked_at_most_once_witness:
  "\<exists>w'. native_executions (scheduled_session sample_lease) flat_digest
      [(sample_native, counting_callbacks (Succeeded empty_value)), (sample_native, counting_callbacks (Succeeded empty_value))]
      (sample_world []) = Some w' \<and> wd_calls w' \<le> 1"
proof -
  have "\<forall>(request, cb) \<in> set [(sample_native, counting_callbacks (Succeeded empty_value)),
      (sample_native, counting_callbacks (Succeeded empty_value))].
    af_action_key (nm_fingerprint request) = af_action_key sample_fingerprint \<and> callbacks_ok wd_store wd_calls cb"
    by (simp add: sample_native_def counting_callbacks_ok)
  from native_invoked_at_most_once [OF sample_world_inv [of "[]"] this, of sample_lease flat_digest]
  obtain w' where "native_executions (scheduled_session sample_lease) flat_digest
      [(sample_native, counting_callbacks (Succeeded empty_value)), (sample_native, counting_callbacks (Succeeded empty_value))]
      (sample_world []) = Some w'" "wd_calls w' \<le> wd_calls (sample_world []) + 1"
    by (auto split: if_splits)
  then show ?thesis by (auto simp: sample_world_def)
qed

theorem native_outcome_honest_witness:
  "\<exists>w'. execute_native_mutation 2 (scheduled_session sample_lease) flat_digest sample_native
      (counting_callbacks (Succeeded empty_value)) (sample_world []) = Some (Inr (Succeeded empty_value), w') \<and>
    wd_calls w' = 1 \<and> durable (af_action_key sample_fingerprint) (Succeeded empty_value) (wd_store w')"
  using native_outcome_honest [OF sample_world_inv [of "[]"] counting_callbacks_ok [of "Succeeded empty_value"],
      of sample_lease flat_digest sample_native] sample_native_runs
  by (auto simp: sample_native_def Let_def)

definition sample_workflow :: create_binding_workflow_request where
  "sample_workflow = \<lparr>wf_fingerprint = sample_fingerprint, wf_conversation_ref = sample_conversation,
     wf_kind = CREATE_AND_SELECT_PROJECT, wf_application_ref = sample_application,
     wf_project_ref = None, wf_foreground_route = False\<rparr>"

definition created_project :: effect_value where
  "created_project = empty_value\<lparr>ev_reference := Some (reference_of_value (ProjectValue sample_project))\<rparr>"

definition run_sample_workflow :: "schedule_turn list \<Rightarrow> (effect_world, action_outcome) outcome option" where
  "run_sample_workflow turns = execute_create_binding_workflow 2 (scheduled_session sample_lease) flat_digest id
     sample_workflow (counting_callbacks (Succeeded created_project)) (sample_world turns)"



text \<open>
  While the native call of the workflow is in flight, a retry of the same action reconciles, is told
  that nothing was created and settles the action as failed.
\<close>

definition settled_meanwhile :: "schedule_turn list" where
  "settled_meanwhile = [quiet_turn, quiet_turn, quiet_turn\<lparr>tu_before :=
     [Fenced (utc 1) (utc 1) sample_lease (RecordOutcome sample_fingerprint TERMINAL (Failed sample_error))]\<rparr>]"


lemma sample_mutation_runs:
  "map_prod (map_sum id is_succeeded) wd_calls (execute_store_mutation (scheduled_session sample_lease)
     (sample_request_with sample_application) None None (sample_world [])) = (Inr True, 0)"
  unfolding sample_world_def sample_store_def sample_new_store_def new_memory_store_def by code_simp

theorem store_mutation_outcome_durable_witness:
  "\<exists>x w'. execute_store_mutation (scheduled_session sample_lease) (sample_request_with sample_application) None None
      (sample_world []) = (Inr x, w') \<and>
    is_succeeded x \<and> durable (af_action_key sample_fingerprint) x (wd_store w') \<and> wd_calls w' = 0"
proof -
  obtain x w' where run: "execute_store_mutation (scheduled_session sample_lease) (sample_request_with sample_application)
      None None (sample_world []) = (Inr x, w')" and x: "is_succeeded x" "wd_calls w' = 0"
    using sample_mutation_runs by (cases "execute_store_mutation (scheduled_session sample_lease)
      (sample_request_with sample_application) None None (sample_world [])") (auto split: sum.splits)
  from store_mutation_outcome_durable [OF run sample_world_inv] x run show ?thesis
    by (cases x) (auto simp: sample_request_with_def)
qed

section \<open>Settled while the native call was in flight\<close>

text \<open>
  The part of a workflow up to its native call: the created value and the world after the call,
  when the request is accepted and reserved, its preflight and its fence let it pass, and the
  native application reports a success.
\<close>

definition workflow_creation ::
  "'w effect_session \<Rightarrow> (nat list \<Rightarrow> string) \<Rightarrow> create_binding_workflow_request \<Rightarrow> 'w effect_callbacks \<Rightarrow> 'w \<Rightarrow>
   (effect_value \<times> 'w) option" where
  "workflow_creation io digest request cb w =
     (let fingerprint = wf_fingerprint request in
      case validate_create_binding_workflow_request request of Some e \<Rightarrow> None | None \<Rightarrow>
      case phase_id digest fingerprint ''native_create'' of Inl e \<Rightarrow> None | Inr phase \<Rightarrow>
      case session_receipt io (ReserveEffect fingerprint EC_WORKFLOW phase (Some (wf_conversation_ref request))) w of
        (Inl e, w) \<Rightarrow> None
      | (Inr receipt, w) \<Rightarrow>
          if er_phase receipt \<noteq> RESERVED then None
          else case run_native_preflight io fingerprint (cb_preflight cb) w of
            (Inr None, w) \<Rightarrow>
              (case enter_native_fence io fingerprint w of
                 (Inr (True, None), w) \<Rightarrow>
                   (case invoke_native (cb_invoke cb) phase (validate_workflow_known_outcome request) w of
                      (Some (Succeeded v), w) \<Rightarrow> Some (v, w)
                    | _ \<Rightarrow> None)
               | _ \<Rightarrow> None)
          | _ \<Rightarrow> None)"

lemma workflow_creationE:
  assumes "workflow_creation io digest request cb w = Some (v, w4)"
  obtains phase receipt w1 w2 w3 where "validate_create_binding_workflow_request request = None"
    "phase_id digest (wf_fingerprint request) ''native_create'' = Inr phase"
    "session_receipt io (ReserveEffect (wf_fingerprint request) EC_WORKFLOW phase (Some (wf_conversation_ref request))) w
      = (Inr receipt, w1)"
    "er_phase receipt = RESERVED"
    "run_native_preflight io (wf_fingerprint request) (cb_preflight cb) w1 = (Inr None, w2)"
    "enter_native_fence io (wf_fingerprint request) w2 = (Inr (True, None), w3)"
    "invoke_native (cb_invoke cb) phase (validate_workflow_known_outcome request) w3 = (Some (Succeeded v), w4)"
  using assms unfolding workflow_creation_def Let_def
  by (auto split: option.splits sum.splits prod.splits if_splits bool.splits action_outcome.splits)

lemma workflow_after_creation:
  assumes "workflow_creation io digest request cb w = Some (v, w4)"
  shows "execute_create_binding_workflow (Suc n) io digest sha256 request cb w
    = Some (record_created io sha256 request v (cb_commit_fence cb) w4)"
  by (rule workflow_creationE [OF assms]) (simp add: Let_def)

lemma workflow_creation_result:
  assumes "workflow_creation (scheduled_session lease) digest request cb w = Some (v, w4)"
    and "store_inv (wd_store w)" and "callbacks_ok wd_store wd_calls cb"
  shows "wd_calls w4 = Suc (wd_calls w)" and "store_inv (wd_store w4)"
    and "validate_action_fingerprint (wf_fingerprint request) = None"
    and "\<exists>r. receipt_at (af_action_key (wf_fingerprint request)) (wd_store w4) = Some r
      \<and> receipt_fingerprint r = wf_fingerprint request"
proof -
  let ?f = "wf_fingerprint request"
  obtain phase receipt w1 w2 w3 where
    reserve: "session_receipt (scheduled_session lease)
        (ReserveEffect ?f EC_WORKFLOW phase (Some (wf_conversation_ref request))) w = (Inr receipt, w1)"
    and preflight: "run_native_preflight (scheduled_session lease) ?f (cb_preflight cb) w1 = (Inr None, w2)"
    and fence: "enter_native_fence (scheduled_session lease) ?f w2 = (Inr (True, None), w3)"
    and invoke: "invoke_native (cb_invoke cb) phase (validate_workflow_known_outcome request) w3 = (Some (Succeeded v), w4)"
    by (rule workflow_creationE [OF assms(1)])
  obtain t where t: "evolves t (wd_store w1)" "store_inv t" "receipt_at (af_action_key ?f) t = Some receipt"
      "receipt_fingerprint receipt = ?f" "validate_action_fingerprint ?f = None"
    by (rule scheduled.reservation_names_action [OF reserve assms(2)])
  have q1: "quiet wd_store wd_calls w w1" by (rule scheduled.session_receipt_quiet [OF reserve])
  have inv1: "store_inv (wd_store w1)" using evolves_inv [OF t(1,2)] .
  have q2: "quiet wd_store wd_calls w1 w2"
    using scheduled.run_native_preflight_result [OF preflight inv1 callbacks_okD(1) [OF assms(3)]] by blast
  have q3: "quiet wd_store wd_calls w2 w3"
    using scheduled.enter_native_fence_result [OF fence scheduled.quiet_inv [OF q2 inv1]] by blast
  have called: "wd_calls w4 = Suc (wd_calls w3) \<and> evolves (wd_store w3) (wd_store w4)"
    by (rule callbacks_okD(3) [OF assms(3) invoke])
  have evolved: "evolves t (wd_store w4)"
    using t(1) q2 q3 called unfolding quiet_def by (blast intro: evolves_trans)
  show "wd_calls w4 = Suc (wd_calls w)" using q1 q2 q3 called by (simp add: quiet_def)
  show "store_inv (wd_store w4)" by (rule evolves_inv [OF evolved t(2)])
  show "validate_action_fingerprint ?f = None" by (rule t(5))
  obtain r where "receipt_at (af_action_key ?f) (wd_store w4) = Some r" "receipt_advances receipt r"
    by (rule evolves_receipt [OF evolved t(2,3)])
  with t(4) show "\<exists>r. receipt_at (af_action_key ?f) (wd_store w4) = Some r \<and> receipt_fingerprint r = ?f"
    by (auto simp: receipt_advances_def)
qed

text \<open>Recording a result on a settled action returns the stored receipt.\<close>

lemma record_on_settled:
  assumes "assert_fence ft lease s = None" and "validate_action_fingerprint f = None"
    and "receipt_at (af_action_key f) s = Some r" "receipt_fingerprint r = f" "er_phase r = TERMINAL"
  shows "record_effect_outcome ft now lease f NATIVE_RESULT_KNOWN x s = (Inr r, s)"
proof -
  have "require_receipt f s = Inr r"
    using assms(2-4) by (auto simp: require_receipt_def check_fingerprint_def receipt_fingerprint_def)
  with assms(1,5) show ?thesis
    by (simp add: record_effect_outcome_def with_res_def returns_def guarded_def)
qed

text \<open>
  C38: a create-and-bind workflow raises although its outcome is stored. For every request, every
  callbacks and every schedule: when the native application has created the resource and, before
  the result is recorded under a lease that is still current, another execution settles the action
  with anything but a success, the workflow raises \<open>RuntimeError\<close> after its native call, while the
  store holds the terminal receipt it reports after every error of the store.
\<close>

theorem workflow_raises_after_native_call:
  assumes inv: "store_inv (wd_store w)" and cb: "callbacks_ok wd_store wd_calls cb"
    and created: "workflow_creation (scheduled_session lease) digest request cb w = Some (v, w4)"
    and turn: "next_turn w4 = (turn, w5)" "tu_cancelled turn = NotCancelled"
    and current: "assert_fence (tu_fence_time turn) lease (wd_store w5) = None"
    and settled: "durable (af_action_key (wf_fingerprint request)) x (wd_store w5)" "\<not> is_succeeded x"
  shows "\<exists>w'. execute_create_binding_workflow (Suc n) (scheduled_session lease) digest sha256 request cb w
      = Some (Inl RuntimeError, w')
    \<and> wd_calls w' = Suc (wd_calls w)
    \<and> durable (af_action_key (wf_fingerprint request)) x (wd_store w')"
proof -
  let ?f = "wf_fingerprint request"
  note w4 = workflow_creation_result [OF created inv cb]
  note w5 = next_turn_props [OF turn(1)]
  have inv5: "store_inv (wd_store w5)" by (rule evolves_inv [OF w5(2) w4(2)])
  obtain r where r: "receipt_at (af_action_key ?f) (wd_store w5) = Some r" "er_phase r = TERMINAL" "er_outcome r = Some x"
    using settled(1) by (auto simp: durable_def)
  obtain r4 where "receipt_at (af_action_key ?f) (wd_store w4) = Some r4" "receipt_fingerprint r4 = ?f"
    using w4(4) by blast
  then have "receipt_fingerprint r = ?f"
    using r(1) by (auto elim!: evolves_receipt [OF w5(2) w4(2)] simp: receipt_advances_def)
  note recorded = record_on_settled [OF current w4(3) r(1) this r(2)]
  let ?w' = "end_turn turn (wd_store w5) w5"
  have "session_receipt (scheduled_session lease) (RecordOutcome ?f NATIVE_RESULT_KNOWN (Succeeded v)) w4 = (Inr r, ?w')"
    using turn recorded
    by (simp add: session_receipt_def scheduled_session_def scheduled_call_def as_result_def)
  then have "record_created (scheduled_session lease) sha256 request v (cb_commit_fence cb) w4 = (Inl RuntimeError, ?w')"
    using settled(2) r(3) by (cases x) (simp_all add: record_created_def commit_known_workflow_def)
  moreover have "durable (af_action_key ?f) x (wd_store ?w')"
    using durable_evolves [OF end_turn_props(2) inv5 settled(1)] by blast
  ultimately show ?thesis
    using workflow_after_creation [OF created] w4(1) w5(1) by (auto simp: end_turn_props)
qed

lemma sample_creation:
  "case workflow_creation (scheduled_session sample_lease) flat_digest sample_workflow
      (counting_callbacks (Succeeded created_project)) (sample_world settled_meanwhile) of
     None \<Rightarrow> False
   | Some (v, w4) \<Rightarrow> (case next_turn w4 of (turn, w5) \<Rightarrow>
       tu_cancelled turn = NotCancelled \<and> assert_fence (tu_fence_time turn) sample_lease (wd_store w5) = None \<and>
       map_option (\<lambda>r. (er_phase r, er_outcome r)) (receipt_at (af_action_key sample_fingerprint) (wd_store w5))
         = Some (TERMINAL, Some (Failed sample_error)))"
  unfolding sample_world_def sample_store_def sample_new_store_def new_memory_store_def by code_simp

theorem workflow_raises_after_native_call_witness:
  "\<exists>w'. run_sample_workflow settled_meanwhile = Some (Inl RuntimeError, w') \<and> wd_calls w' = 1 \<and>
    durable (af_action_key sample_fingerprint) (Failed sample_error) (wd_store w')"
proof -
  obtain v w4 turn w5 where "workflow_creation (scheduled_session sample_lease) flat_digest sample_workflow
      (counting_callbacks (Succeeded created_project)) (sample_world settled_meanwhile) = Some (v, w4)"
    and "next_turn w4 = (turn, w5)" "tu_cancelled turn = NotCancelled"
    and "assert_fence (tu_fence_time turn) sample_lease (wd_store w5) = None"
    and "durable (af_action_key (wf_fingerprint sample_workflow)) (Failed sample_error) (wd_store w5)"
    using sample_creation by (auto simp: durable_def sample_workflow_def split: option.splits prod.splits)
  from workflow_raises_after_native_call [OF sample_world_inv counting_callbacks_ok this, of 1 id] show ?thesis
    by (simp add: run_sample_workflow_def sample_workflow_def sample_world_def numeral_2_eq_2)
qed

end
