(* ===== verification/Keyed_Locks.thy ===== *)
theory Keyed_Locks
  imports Prelude
begin

text \<open>
  The keyed lock registry of \<open>gateway/concurrency.py\<close>: one \<open>asyncio.Lock\<close> per active key, kept
  in a dictionary only while some call uses it, with an optional bound on the number of active
  keys. A call of \<open>hold\<close> runs without interruption from one await to the next; the model is the
  interleaving of those pieces: entering (up to the lock's acquisition or to the wait), being
  resumed by the event loop, being cancelled while it waits, and leaving the body.

  \<open>asyncio.Lock\<close> is modelled with its queue of futures: \<open>release\<close> wakes the first waiter only,
  a woken waiter takes the lock when the event loop resumes it, and a cancelled waiter passes
  the wake-up on. Lock entries are objects: the registry's dictionary and the running calls
  refer to them by address, so that the code's test \<open>self._entries.get(key) is entry\<close> is a
  comparison of addresses.
\<close>

section \<open>asyncio.Lock\<close>

datatype waiter_future = PENDING | WOKEN | CANCELLED

type_synonym call_id = nat

type_synonym waiters = "(call_id \<times> waiter_future) list"

record lock_entry =
  le_locked :: bool
  le_waiters :: waiters
  le_users :: int

definition new_lock_entry :: lock_entry where
  "new_lock_entry = \<lparr>le_locked = False, le_waiters = [], le_users = 0\<rparr>"

text \<open>\<open>acquire\<close> succeeds at once on a free lock unless a live waiter is queued.\<close>

definition acquires_at_once :: "lock_entry \<Rightarrow> bool" where
  "acquires_at_once ent \<longleftrightarrow> \<not> le_locked ent \<and> (\<forall>w \<in> set (le_waiters ent). snd w = CANCELLED)"

text \<open>\<open>_wake_up_first\<close> completes the first waiter's future unless it is done already.\<close>

fun wake_first :: "waiters \<Rightarrow> waiters" where
  "wake_first [] = []"
| "wake_first ((c, f) # ws) = (if f = PENDING then (c, WOKEN) # ws else (c, f) # ws)"

definition drop_waiter :: "call_id \<Rightarrow> waiters \<Rightarrow> waiters" where
  "drop_waiter c ws = filter (\<lambda>w. fst w \<noteq> c) ws"

definition release_lock :: "lock_entry \<Rightarrow> lock_entry" where
  "release_lock ent = ent\<lparr>le_locked := False, le_waiters := wake_first (le_waiters ent)\<rparr>"

text \<open>A waiter that was cancelled leaves the queue and hands a free lock to the next one.\<close>

definition abandon_lock :: "call_id \<Rightarrow> lock_entry \<Rightarrow> lock_entry" where
  "abandon_lock c ent =
     (let ws = drop_waiter c (le_waiters ent) in
      ent\<lparr>le_waiters := if le_locked ent then ws else wake_first ws\<rparr>)"

text \<open>A woken waiter leaves the queue and takes the lock.\<close>

definition take_lock :: "call_id \<Rightarrow> lock_entry \<Rightarrow> lock_entry" where
  "take_lock c ent = ent\<lparr>le_locked := True, le_waiters := drop_waiter c (le_waiters ent)\<rparr>"

definition cancel_future :: "call_id \<Rightarrow> lock_entry \<Rightarrow> lock_entry" where
  "cancel_future c ent =
     ent\<lparr>le_waiters := map (\<lambda>(d, f). (d, if d = c \<and> f = PENDING then CANCELLED else f))
       (le_waiters ent)\<rparr>"

section \<open>The registry\<close>

text \<open>
  A call that has entered \<open>hold\<close> keeps its key and its entry; it waits for the lock (with the
  flag that its task has been cancelled meanwhile) or it executes the body.
\<close>

datatype call_phase = Waiting bool | Holding

type_synonym 'k held_call = "'k \<times> nat \<times> call_phase"

record 'k lock_registry =
  kl_max_active_keys :: "int option"
  kl_entries :: "('k, nat) dict"
  kl_heap :: "nat \<Rightarrow> lock_entry"
  kl_next :: nat
  kl_calls :: "call_id \<Rightarrow> 'k held_call option"

definition new_registry :: "int option \<Rightarrow> 'k lock_registry res" where
  "new_registry max_active_keys =
     (case on_some (\<lambda>m. raise_if (m < 1) ValueError) max_active_keys of
        Some e \<Rightarrow> Inl e
      | None \<Rightarrow> Inr \<lparr>kl_max_active_keys = max_active_keys, kl_entries = [],
                     kl_heap = (\<lambda>_. new_lock_entry), kl_next = 0, kl_calls = (\<lambda>_. None)\<rparr>)"

definition active_key_count :: "'k lock_registry \<Rightarrow> int" where
  "active_key_count reg = int (length (kl_entries reg))"

definition at_capacity :: "'k lock_registry \<Rightarrow> bool" where
  "at_capacity reg =
     (case kl_max_active_keys reg of None \<Rightarrow> False | Some m \<Rightarrow> active_key_count reg \<ge> m)"

text \<open>
  The first piece of \<open>hold\<close>: find or create the entry, count the user, acquire or queue up.
  \<open>hold_entry\<close> is the address of the entry and the registry that contains it.
\<close>

definition hold_entry :: "'k \<Rightarrow> 'k lock_registry \<Rightarrow> ('k lock_registry, nat) outcome" where
  "hold_entry key reg =
     (case dict_get (kl_entries reg) key of
        Some a \<Rightarrow> returns a reg
      | None \<Rightarrow>
          guarded (raise_if (at_capacity reg) KeyedLockCapacityError) reg
            (returns (kl_next reg)
               (reg\<lparr>kl_entries := dict_set (kl_entries reg) key (kl_next reg),
                    kl_heap := (kl_heap reg)(kl_next reg := new_lock_entry),
                    kl_next := Suc (kl_next reg)\<rparr>)))"

definition join_entry :: "call_id \<Rightarrow> lock_entry \<Rightarrow> lock_entry \<times> call_phase" where
  "join_entry c ent =
     (let ent = ent\<lparr>le_users := le_users ent + 1\<rparr> in
      if acquires_at_once ent then (ent\<lparr>le_locked := True\<rparr>, Holding)
      else (ent\<lparr>le_waiters := le_waiters ent @ [(c, PENDING)]\<rparr>, Waiting False))"

definition set_entry ::
  "nat \<Rightarrow> lock_entry \<Rightarrow> call_id \<Rightarrow> 'k held_call option \<Rightarrow> 'k lock_registry \<Rightarrow> 'k lock_registry" where
  "set_entry a ent c call reg =
     reg\<lparr>kl_heap := (kl_heap reg)(a := ent), kl_calls := (kl_calls reg)(c := call)\<rparr>"

definition hold :: "call_id \<Rightarrow> 'k \<Rightarrow> 'k lock_registry \<Rightarrow> ('k lock_registry, call_phase) outcome" where
  "hold c key reg =
     (case hold_entry key reg of
        (Inl e, reg) \<Rightarrow> (Inl e, reg)
      | (Inr a, reg) \<Rightarrow>
          (let (ent, phase) = join_entry c (kl_heap reg a) in
           returns phase (set_entry a ent c (Some (key, a, phase)) reg)))"

text \<open>
  The end of \<open>hold\<close>'s \<open>finally\<close> block: one user fewer, and the registry forgets the entry of
  the last one, provided that the entry is still the registered one.
\<close>

definition leave_entry :: "'k \<Rightarrow> nat \<Rightarrow> 'k lock_registry \<Rightarrow> 'k lock_registry" where
  "leave_entry key a reg =
     (let ent = kl_heap reg a; ent = ent\<lparr>le_users := le_users ent - 1\<rparr>;
          reg = reg\<lparr>kl_heap := (kl_heap reg)(a := ent)\<rparr> in
      if le_users ent = 0 \<and> dict_get (kl_entries reg) key = Some a
      then reg\<lparr>kl_entries := dict_pop (kl_entries reg) key\<rparr> else reg)"

text \<open>The event loop resumes a woken waiter; a cancelled one unwinds; a holder leaves the body.\<close>

definition resume :: "call_id \<Rightarrow> 'k \<Rightarrow> nat \<Rightarrow> 'k lock_registry \<Rightarrow> 'k lock_registry" where
  "resume c key a reg = set_entry a (take_lock c (kl_heap reg a)) c (Some (key, a, Holding)) reg"

definition request_cancel :: "call_id \<Rightarrow> 'k \<Rightarrow> nat \<Rightarrow> 'k lock_registry \<Rightarrow> 'k lock_registry" where
  "request_cancel c key a reg =
     set_entry a (cancel_future c (kl_heap reg a)) c (Some (key, a, Waiting True)) reg"

definition unwind :: "call_id \<Rightarrow> 'k \<Rightarrow> nat \<Rightarrow> 'k lock_registry \<Rightarrow> 'k lock_registry" where
  "unwind c key a reg =
     leave_entry key a (set_entry a (abandon_lock c (kl_heap reg a)) c None reg)"

definition leave_body :: "call_id \<Rightarrow> 'k \<Rightarrow> nat \<Rightarrow> 'k lock_registry \<Rightarrow> 'k lock_registry" where
  "leave_body c key a reg =
     leave_entry key a (set_entry a (release_lock (kl_heap reg a)) c None reg)"

section \<open>Interleavings\<close>

datatype 'k lock_event =
    Hold call_id 'k | Resume call_id 'k | Cancel call_id 'k | Unwind call_id 'k | Leave call_id 'k

inductive lock_step :: "'k lock_registry \<Rightarrow> 'k lock_event \<Rightarrow> 'k lock_registry \<Rightarrow> bool" where
  step_hold: "kl_calls s c = None \<Longrightarrow> lock_step s (Hold c k) (snd (hold c k s))"
| step_resume:
    "kl_calls s c = Some (k, a, Waiting False) \<Longrightarrow> (c, WOKEN) \<in> set (le_waiters (kl_heap s a)) \<Longrightarrow>
     lock_step s (Resume c k) (resume c k a s)"
| step_cancel:
    "kl_calls s c = Some (k, a, Waiting False) \<Longrightarrow> lock_step s (Cancel c k) (request_cancel c k a s)"
| step_unwind:
    "kl_calls s c = Some (k, a, Waiting True) \<Longrightarrow> lock_step s (Unwind c k) (unwind c k a s)"
| step_leave:
    "kl_calls s c = Some (k, a, Holding) \<Longrightarrow> lock_step s (Leave c k) (leave_body c k a s)"

inductive_cases lock_stepE: "lock_step s ev s'"

abbreviation lock_run :: "'k lock_registry \<Rightarrow> 'k lock_event list \<Rightarrow> 'k lock_registry \<Rightarrow> bool" where
  "lock_run \<equiv> event_run lock_step"

text \<open>The states a registry can be in, whatever its callers and the event loop do.\<close>

definition lock_reachable :: "int option \<Rightarrow> 'k lock_registry \<Rightarrow> bool" where
  "lock_reachable m = reachable (\<lambda>s. new_registry m = Inr s) lock_step"

section \<open>The queue of one lock\<close>

text \<open>
  Only the first waiter is ever woken, none while the lock is taken, and a free lock with
  waiters has its first waiter on the way: no wake-up is lost.
\<close>

definition queue_ok :: "bool \<Rightarrow> waiters \<Rightarrow> bool" where
  "queue_ok locked ws \<longleftrightarrow> distinct (map fst ws) \<and> (\<forall>w \<in> set (tl ws). snd w \<noteq> WOKEN) \<and>
     (locked \<longrightarrow> (\<forall>w \<in> set ws. snd w \<noteq> WOKEN)) \<and>
     (\<not> locked \<longrightarrow> ws \<noteq> [] \<longrightarrow> snd (hd ws) \<noteq> PENDING)"

lemma wake_first_fst [simp]: "map fst (wake_first ws) = map fst ws"
  by (cases ws rule: wake_first.cases) auto

lemma wake_first_length [simp]: "length (wake_first ws) = length ws"
  by (cases ws rule: wake_first.cases) auto

lemma queue_ok_wake: "queue_ok True ws \<Longrightarrow> queue_ok False (wake_first ws)"
  by (cases ws rule: wake_first.cases) (auto simp: queue_ok_def)

lemma queue_ok_wake_tail:
  "distinct (map fst ws) \<Longrightarrow> \<forall>w \<in> set (tl ws). snd w \<noteq> WOKEN \<Longrightarrow> queue_ok False (wake_first ws)"
  by (cases ws rule: wake_first.cases) (auto simp: queue_ok_def)

lemma queue_ok_append:
  "queue_ok locked ws \<Longrightarrow> c \<notin> fst ` set ws \<Longrightarrow> locked \<or> ws \<noteq> [] \<Longrightarrow>
   queue_ok locked (ws @ [(c, PENDING)])"
  by (cases ws) (auto simp: queue_ok_def)

lemma set_tl_filter: "x \<in> set (tl (filter P ws)) \<Longrightarrow> x \<in> set (tl ws)"
  by (induction ws) (auto split: if_splits dest: list.set_sel(2)[rotated])

lemma drop_waiter_set [simp]: "set (drop_waiter c ws) = {w \<in> set ws. fst w \<noteq> c}"
  by (auto simp: drop_waiter_def)

lemma drop_waiter_tl: "x \<in> set (tl (drop_waiter c ws)) \<Longrightarrow> x \<in> set (tl ws)"
  unfolding drop_waiter_def by (rule set_tl_filter)

lemma drop_waiter_distinct: "distinct (map fst ws) \<Longrightarrow> distinct (map fst (drop_waiter c ws))"
  by (simp add: drop_waiter_def distinct_map_filter)

lemma drop_waiter_length:
  "distinct (map fst ws) \<Longrightarrow> c \<in> fst ` set ws \<Longrightarrow> Suc (length (drop_waiter c ws)) = length ws"
proof (induction ws)
  case (Cons w ws)
  have "filter (\<lambda>w. fst w \<noteq> c) ws = ws" if "c \<notin> fst ` set ws"
    using that by (intro filter_True) auto
  with Cons show ?case by (auto simp: drop_waiter_def)
qed simp

lemma queue_ok_drop_locked: "queue_ok True ws \<Longrightarrow> queue_ok True (drop_waiter c ws)"
  by (auto simp: queue_ok_def drop_waiter_distinct dest: drop_waiter_tl)

lemma queue_ok_abandon:
  assumes "queue_ok locked ws"
  shows "queue_ok locked (if locked then drop_waiter c ws else wake_first (drop_waiter c ws))"
proof (cases locked)
  case False
  have "queue_ok False (wake_first (drop_waiter c ws))"
    using assms by (intro queue_ok_wake_tail) (auto simp: queue_ok_def drop_waiter_distinct dest: drop_waiter_tl)
  with False show ?thesis by simp
qed (use assms in \<open>simp add: queue_ok_drop_locked\<close>)

text \<open>The woken waiter is the first one, so nobody else is woken once it has left.\<close>

lemma woken_is_first: "queue_ok locked ws \<Longrightarrow> (c, WOKEN) \<in> set ws \<Longrightarrow> \<exists>ws'. ws = (c, WOKEN) # ws'"
  by (cases ws) (auto simp: queue_ok_def)

lemma woken_unlocked: "queue_ok locked ws \<Longrightarrow> (c, WOKEN) \<in> set ws \<Longrightarrow> \<not> locked"
  by (auto simp: queue_ok_def)

lemma queue_ok_take:
  "queue_ok locked ws \<Longrightarrow> (c, WOKEN) \<in> set ws \<Longrightarrow> queue_ok True (drop_waiter c ws)"
  using woken_is_first [of locked ws c]
  by (auto simp: queue_ok_def drop_waiter_distinct dest: drop_waiter_tl)

lemma cancel_fst: "map fst (map (\<lambda>(d, f). (d, if d = c \<and> f = PENDING then CANCELLED else f)) ws) = map fst ws"
  by (induction ws) auto

lemma queue_ok_cancel:
  "queue_ok locked ws \<Longrightarrow>
   queue_ok locked (map (\<lambda>(d, f). (d, if d = c \<and> f = PENDING then CANCELLED else f)) ws)"
  unfolding queue_ok_def cancel_fst
  by (cases ws) (auto split: if_splits)

section \<open>The invariant of the registry\<close>

text \<open>
  An entry agrees with the calls that use it: its waiters are the waiting calls, it is locked
  exactly when one call executes its body, and that call is unique; the use count is the number
  of those calls.
\<close>

definition entry_ok :: "(call_id \<Rightarrow> 'k held_call option) \<Rightarrow> 'k \<Rightarrow> nat \<Rightarrow> lock_entry \<Rightarrow> bool" where
  "entry_ok calls k a ent \<longleftrightarrow>
     queue_ok (le_locked ent) (le_waiters ent) \<and>
     le_users ent = int (length (le_waiters ent)) + (if le_locked ent then 1 else 0) \<and>
     (\<forall>c f. (c, f) \<in> set (le_waiters ent) \<longrightarrow>
        (\<exists>b. calls c = Some (k, a, Waiting b) \<and> (f = CANCELLED \<longrightarrow> b) \<and> (f = PENDING \<longrightarrow> \<not> b))) \<and>
     (\<forall>c b. calls c = Some (k, a, Waiting b) \<longrightarrow> c \<in> fst ` set (le_waiters ent)) \<and>
     (le_locked ent \<longrightarrow> (\<exists>c. calls c = Some (k, a, Holding))) \<and>
     (\<forall>c. calls c = Some (k, a, Holding) \<longrightarrow> le_locked ent) \<and>
     (\<forall>c d. calls c = Some (k, a, Holding) \<longrightarrow> calls d = Some (k, a, Holding) \<longrightarrow> c = d)"

definition registry_core :: "'k lock_registry \<Rightarrow> bool" where
  "registry_core s \<longleftrightarrow>
     dict_ok (kl_entries s) \<and>
     (\<forall>k a. dict_get (kl_entries s) k = Some a \<longrightarrow>
        a < kl_next s \<and> entry_ok (kl_calls s) k a (kl_heap s a)) \<and>
     (\<forall>k k' a. dict_get (kl_entries s) k = Some a \<longrightarrow> dict_get (kl_entries s) k' = Some a \<longrightarrow> k = k') \<and>
     (\<forall>c k a p. kl_calls s c = Some (k, a, p) \<longrightarrow> dict_get (kl_entries s) k = Some a) \<and>
     (\<forall>m. kl_max_active_keys s = Some m \<longrightarrow> 1 \<le> m \<and> active_key_count s \<le> m)"

text \<open>Between two pieces every registered entry is in use as well.\<close>

definition registry_inv :: "'k lock_registry \<Rightarrow> bool" where
  "registry_inv s \<longleftrightarrow> registry_core s \<and>
     (\<forall>k a. dict_get (kl_entries s) k = Some a \<longrightarrow> 0 < le_users (kl_heap s a))"

lemma set_entry_simps [simp]:
  "kl_entries (set_entry a ent c call s) = kl_entries s"
  "kl_next (set_entry a ent c call s) = kl_next s"
  "kl_max_active_keys (set_entry a ent c call s) = kl_max_active_keys s"
  "kl_heap (set_entry a ent c call s) = (kl_heap s)(a := ent)"
  "kl_calls (set_entry a ent c call s) = (kl_calls s)(c := call)"
  by (simp_all add: set_entry_def)

lemma entry_ok_cong:
  "(\<And>c p. calls c = Some (k, a, p) \<longleftrightarrow> calls' c = Some (k, a, p)) \<Longrightarrow>
   entry_ok calls k a ent \<longleftrightarrow> entry_ok calls' k a ent"
  by (simp add: entry_ok_def)

lemma entry_okD:
  assumes "entry_ok calls k a ent"
  shows entry_queue: "queue_ok (le_locked ent) (le_waiters ent)"
    and entry_users: "le_users ent = int (length (le_waiters ent)) + (if le_locked ent then 1 else 0)"
    and entry_waiter: "(c, f) \<in> set (le_waiters ent) \<Longrightarrow>
      \<exists>b. calls c = Some (k, a, Waiting b) \<and> (f = CANCELLED \<longrightarrow> b) \<and> (f = PENDING \<longrightarrow> \<not> b)"
    and entry_waiting: "calls c = Some (k, a, Waiting b) \<Longrightarrow> c \<in> fst ` set (le_waiters ent)"
    and entry_held: "le_locked ent \<Longrightarrow> \<exists>c. calls c = Some (k, a, Holding)"
    and entry_locked: "calls c = Some (k, a, Holding) \<Longrightarrow> le_locked ent"
    and entry_unique: "calls c = Some (k, a, Holding) \<Longrightarrow> calls d = Some (k, a, Holding) \<Longrightarrow> c = d"
  using assms unfolding entry_ok_def by blast+

lemma registry_coreD:
  assumes "registry_core s"
  shows registry_dict: "dict_ok (kl_entries s)"
    and registry_addr: "dict_get (kl_entries s) k = Some a \<Longrightarrow> a < kl_next s"
    and registry_ok: "dict_get (kl_entries s) k = Some a \<Longrightarrow> entry_ok (kl_calls s) k a (kl_heap s a)"
    and registry_inj:
      "dict_get (kl_entries s) k = Some a \<Longrightarrow> dict_get (kl_entries s) k' = Some a \<Longrightarrow> k = k'"
    and registry_call: "kl_calls s c = Some (k, a, p) \<Longrightarrow> dict_get (kl_entries s) k = Some a"
    and registry_bound: "kl_max_active_keys s = Some m \<Longrightarrow> 1 \<le> m \<and> active_key_count s \<le> m"
  using assms unfolding registry_core_def by blast+

text \<open>A step at one entry leaves the other entries in agreement with their calls.\<close>

lemma entry_ok_other:
  assumes "\<And>k' b p. calls c = Some (k', b, p) \<Longrightarrow> b = a" and "\<And>k' b p. call = Some (k', b, p) \<Longrightarrow> b = a"
    and "a' \<noteq> a"
  shows "entry_ok (calls(c := call)) k' a' ent \<longleftrightarrow> entry_ok calls k' a' ent"
  by (rule entry_ok_cong) (use assms in \<open>auto split: if_splits\<close>)

lemma registry_core_set_entry:
  assumes inv: "registry_core s" and reg: "dict_get (kl_entries s) k = Some a"
    and old: "\<And>k' a' p. kl_calls s c = Some (k', a', p) \<Longrightarrow> k' = k \<and> a' = a"
    and new: "\<And>k' a' p. call = Some (k', a', p) \<Longrightarrow> k' = k \<and> a' = a"
    and ent: "entry_ok ((kl_calls s)(c := call)) k a ent"
  shows "registry_core (set_entry a ent c call s)"
  unfolding registry_core_def
proof (intro conjI allI impI)
  let ?t = "set_entry a ent c call s"
  show "dict_ok (kl_entries ?t)" using registry_dict [OF inv] by simp
  { fix k' a' assume at: "dict_get (kl_entries ?t) k' = Some a'"
    then show "a' < kl_next ?t" using registry_addr [OF inv] by simp
    have same_entry: "k' = k" if "a' = a" using that at reg registry_inj [OF inv] by simp
    have "entry_ok ((kl_calls s)(c := call)) k' a' (kl_heap s a')" if "a' \<noteq> a"
      using that at old new registry_ok [OF inv] by (subst entry_ok_other [of _ _ a]) auto
    then show "entry_ok (kl_calls ?t) k' a' (kl_heap ?t a')" using ent same_entry by auto
  }
  show "k1 = k2" if "dict_get (kl_entries ?t) k1 = Some b" "dict_get (kl_entries ?t) k2 = Some b" for k1 k2 b
    using that registry_inj [OF inv] by simp
  show "dict_get (kl_entries ?t) k' = Some a'" if "kl_calls ?t d = Some (k', a', p)" for d k' a' p
  proof (cases "d = c")
    case True
    with that have "call = Some (k', a', p)" by simp
    then show ?thesis using new reg by simp
  next
    case False
    with that show ?thesis using registry_call [OF inv] by simp
  qed
  show "1 \<le> m" "active_key_count ?t \<le> m" if "kl_max_active_keys ?t = Some m" for m
    using that registry_bound [OF inv] by (auto simp: active_key_count_def)
qed

lemma entry_ok_unused:
  "entry_ok calls k a ent \<Longrightarrow> le_users ent = 0 \<Longrightarrow> calls c \<noteq> Some (k, a, p)"
  by (cases p) (auto simp: entry_ok_def split: if_splits)

text \<open>Leaving forgets the entry exactly when no call uses it any more.\<close>

lemma registry_core_forget:
  assumes inv: "registry_core s" and reg: "dict_get (kl_entries s) k = Some a"
    and unused: "\<And>c p. kl_calls s c \<noteq> Some (k, a, p)"
  shows "registry_core (s\<lparr>kl_entries := dict_pop (kl_entries s) k\<rparr>)"
  unfolding registry_core_def
proof (intro conjI allI impI)
  let ?t = "s\<lparr>kl_entries := dict_pop (kl_entries s) k\<rparr>"
  show "dict_ok (kl_entries ?t)" using registry_dict [OF inv] by simp
  { fix k' a' assume at: "dict_get (kl_entries ?t) k' = Some a'"
    then have k': "dict_get (kl_entries s) k' = Some a'" by (simp split: if_splits)
    then show "a' < kl_next ?t" "entry_ok (kl_calls ?t) k' a' (kl_heap ?t a')"
      using registry_addr [OF inv] registry_ok [OF inv] by simp_all
  }
  show "k1 = k2" if "dict_get (kl_entries ?t) k1 = Some b" "dict_get (kl_entries ?t) k2 = Some b" for k1 k2 b
    using that registry_inj [OF inv] by (simp split: if_splits)
  show "dict_get (kl_entries ?t) k' = Some a'" if call: "kl_calls ?t d = Some (k', a', q)" for d k' a' q
  proof -
    have at: "dict_get (kl_entries s) k' = Some a'" using call registry_call [OF inv] by simp
    with call reg unused have "k' \<noteq> k" by auto
    with at show ?thesis by simp
  qed
  show "1 \<le> m" "active_key_count ?t \<le> m" if "kl_max_active_keys ?t = Some m" for m
    using that registry_bound [OF inv, of m] length_dict_pop_le [of k "kl_entries s"]
    by (auto simp: active_key_count_def simp del: length_dict_pop_le)
qed

lemma registry_inv_leave:
  assumes inv: "registry_inv s" and call: "kl_calls s c = Some (k, a, p)"
    and ok: "entry_ok ((kl_calls s)(c := None)) k a (ent\<lparr>le_users := le_users ent - 1\<rparr>)"
  shows "registry_inv (leave_entry k a (set_entry a ent c None s))"
proof -
  let ?ent = "ent\<lparr>le_users := le_users ent - 1\<rparr>" and ?t = "leave_entry k a (set_entry a ent c None s)"
  let ?u = "set_entry a (ent\<lparr>le_users := le_users ent - 1\<rparr>) c None s"
  have core: "registry_core s" using inv by (simp add: registry_inv_def)
  have reg: "dict_get (kl_entries s) k = Some a" by (rule registry_call [OF core call])
  have users: "0 \<le> le_users ?ent" unfolding entry_users [OF ok] by simp
  have u: "registry_core ?u"
    by (rule registry_core_set_entry [OF core reg]) (use call ok in auto)
  have t: "?t = (if le_users ?ent = 0 then ?u\<lparr>kl_entries := dict_pop (kl_entries ?u) k\<rparr> else ?u)"
    using reg by (simp add: leave_entry_def set_entry_def Let_def)
  have "registry_core ?t"
  proof (cases "le_users ?ent = 0")
    case True
    have "kl_calls ?u d \<noteq> Some (k, a, q)" for d q
      unfolding set_entry_simps by (rule entry_ok_unused [OF ok True])
    then have "registry_core (?u\<lparr>kl_entries := dict_pop (kl_entries ?u) k\<rparr>)"
      by (rule registry_core_forget [OF u, of k a, rotated]) (simp add: reg)
    then show ?thesis unfolding t if_P [OF True] .
  qed (use u in \<open>simp only: t if_False\<close>)
  moreover have "0 < le_users (kl_heap ?t a')" if at: "dict_get (kl_entries ?t) k' = Some a'" for k' a'
  proof (cases "a' = a")
    case True
    then have "k' = k" using at reg registry_inj [OF core, of k a k']
      by (auto simp: t split: if_splits)
    with True at users show ?thesis by (auto simp: t split: if_splits)
  next
    case False
    then show ?thesis using at inv by (auto simp: t registry_inv_def split: if_splits)
  qed
  ultimately show ?thesis by (simp add: registry_inv_def)
qed

section \<open>Every piece keeps the invariant\<close>

lemma entry_okI:
  assumes "queue_ok (le_locked ent) (le_waiters ent)"
    and "le_users ent = int (length (le_waiters ent)) + (if le_locked ent then 1 else 0)"
    and "\<And>c f. (c, f) \<in> set (le_waiters ent) \<Longrightarrow>
      \<exists>b. calls c = Some (k, a, Waiting b) \<and> (f = CANCELLED \<longrightarrow> b) \<and> (f = PENDING \<longrightarrow> \<not> b)"
    and "\<And>c b. calls c = Some (k, a, Waiting b) \<Longrightarrow> c \<in> fst ` set (le_waiters ent)"
    and "le_locked ent \<Longrightarrow> \<exists>c. calls c = Some (k, a, Holding)"
    and "\<And>c. calls c = Some (k, a, Holding) \<Longrightarrow> le_locked ent"
    and "\<And>c d. calls c = Some (k, a, Holding) \<Longrightarrow> calls d = Some (k, a, Holding) \<Longrightarrow> c = d"
  shows "entry_ok calls k a ent"
  using assms unfolding entry_ok_def by blast

lemma wake_first_in: "(c, f) \<in> set (wake_first ws) \<Longrightarrow> (c, f) \<in> set ws \<or> f = WOKEN \<and> (c, PENDING) \<in> set ws"
  by (cases ws rule: wake_first.cases) (auto split: if_splits)

lemma wake_first_fst_set [simp]: "fst ` set (wake_first ws) = fst ` set ws"
  by (cases ws rule: wake_first.cases) (auto split: if_splits)

text \<open>Waking the first waiter does not change what the queue says about the calls.\<close>

lemma wake_first_waiter:
  assumes "\<And>f. (c, f) \<in> set ws \<Longrightarrow> \<exists>b. calls c = Some (k, a, Waiting b) \<and> (f = CANCELLED \<longrightarrow> b) \<and> (f = PENDING \<longrightarrow> \<not> b)"
    and "(c, f) \<in> set (wake_first ws)"
  shows "\<exists>b. calls c = Some (k, a, Waiting b) \<and> (f = CANCELLED \<longrightarrow> b) \<and> (f = PENDING \<longrightarrow> \<not> b)"
  using wake_first_in [OF assms(2)] assms(1) [of f] assms(1) [of PENDING] by blast

lemma entry_ok_resume:
  assumes ok: "entry_ok calls k a ent" and call: "calls c = Some (k, a, Waiting False)"
    and woken: "(c, WOKEN) \<in> set (le_waiters ent)"
  shows "entry_ok (calls(c := Some (k, a, Holding))) k a (take_lock c ent)"
proof -
  have free: "\<not> le_locked ent" by (rule woken_unlocked [OF entry_queue [OF ok] woken])
  have nobody: "calls d \<noteq> Some (k, a, Holding)" for d using entry_locked [OF ok] free by blast
  have len: "Suc (length (drop_waiter c (le_waiters ent))) = length (le_waiters ent)"
    using entry_queue [OF ok] entry_waiting [OF ok call]
    by (intro drop_waiter_length) (auto simp: queue_ok_def)
  show ?thesis
  proof (rule entry_okI)
    show "queue_ok (le_locked (take_lock c ent)) (le_waiters (take_lock c ent))"
      using queue_ok_take [OF entry_queue [OF ok] woken] by (simp add: take_lock_def)
    show "le_users (take_lock c ent) = int (length (le_waiters (take_lock c ent))) +
        (if le_locked (take_lock c ent) then 1 else 0)"
      using entry_users [OF ok] len free by (simp add: take_lock_def)
  next
    fix d f assume "(d, f) \<in> set (le_waiters (take_lock c ent))"
    then have "(d, f) \<in> set (le_waiters ent)" "d \<noteq> c" by (simp_all add: take_lock_def)
    then show "\<exists>b. (calls(c := Some (k, a, Holding))) d = Some (k, a, Waiting b) \<and>
        (f = CANCELLED \<longrightarrow> b) \<and> (f = PENDING \<longrightarrow> \<not> b)"
      using entry_waiter [OF ok, of d f] by simp
  next
    fix d b assume "(calls(c := Some (k, a, Holding))) d = Some (k, a, Waiting b)"
    then have "d \<noteq> c" "d \<in> fst ` set (le_waiters ent)"
      using entry_waiting [OF ok, of d b] by (auto split: if_splits)
    then show "d \<in> fst ` set (le_waiters (take_lock c ent))" by (auto simp: take_lock_def)
  qed (use nobody in \<open>auto simp: take_lock_def split: if_splits\<close>)
qed

lemma entry_ok_cancel:
  assumes ok: "entry_ok calls k a ent" and call: "calls c = Some (k, a, Waiting False)"
  shows "entry_ok (calls(c := Some (k, a, Waiting True))) k a (cancel_future c ent)"
proof (rule entry_okI)
  let ?ws = "le_waiters (cancel_future c ent)"
  have same: "fst ` set ?ws = fst ` set (le_waiters ent)" by (force simp: cancel_future_def)
  show "queue_ok (le_locked (cancel_future c ent)) ?ws"
    using queue_ok_cancel [OF entry_queue [OF ok]] by (simp add: cancel_future_def)
  show "le_users (cancel_future c ent) = int (length ?ws) + (if le_locked (cancel_future c ent) then 1 else 0)"
    using entry_users [OF ok] by (simp add: cancel_future_def)
  show "d \<in> fst ` set ?ws" if "(calls(c := Some (k, a, Waiting True))) d = Some (k, a, Waiting b)" for d b
    unfolding same using that call entry_waiting [OF ok, of d] by (auto split: if_splits)
  show "\<exists>b. (calls(c := Some (k, a, Waiting True))) d = Some (k, a, Waiting b) \<and>
      (f = CANCELLED \<longrightarrow> b) \<and> (f = PENDING \<longrightarrow> \<not> b)" if "(d, f) \<in> set ?ws" for d f
  proof (cases "d = c")
    case True
    with that have "f \<noteq> PENDING" by (auto simp: cancel_future_def split: if_splits)
    with True show ?thesis by auto
  next
    case False
    with that have "(d, f) \<in> set (le_waiters ent)" by (auto simp: cancel_future_def split: if_splits)
    with False show ?thesis using entry_waiter [OF ok, of d f] by simp
  qed
  show "\<exists>d. (calls(c := Some (k, a, Waiting True))) d = Some (k, a, Holding)" if "le_locked (cancel_future c ent)"
  proof -
    have "le_locked ent" using that by (simp add: cancel_future_def)
    then obtain d where "calls d = Some (k, a, Holding)" using entry_held [OF ok] by blast
    with call have "(calls(c := Some (k, a, Waiting True))) d = Some (k, a, Holding)" by auto
    then show ?thesis by blast
  qed
  show "le_locked (cancel_future c ent)" if "(calls(c := Some (k, a, Waiting True))) d = Some (k, a, Holding)" for d
    using that entry_locked [OF ok, of d] by (simp add: cancel_future_def split: if_splits)
  show "d = e" if "(calls(c := Some (k, a, Waiting True))) d = Some (k, a, Holding)"
    "(calls(c := Some (k, a, Waiting True))) e = Some (k, a, Holding)" for d e
    using that entry_unique [OF ok, of d e] by (simp split: if_splits)
qed

lemma abandon_waiters:
  "fst ` set (le_waiters (abandon_lock c ent)) = fst ` set (le_waiters ent) - {c}"
  by (auto simp: abandon_lock_def Let_def)

lemma entry_ok_unwind:
  assumes ok: "entry_ok calls k a ent" and call: "calls c = Some (k, a, Waiting b)"
  defines "ent' \<equiv> abandon_lock c ent"
  shows "entry_ok (calls(c := None)) k a (ent'\<lparr>le_users := le_users ent' - 1\<rparr>)"
proof -
  have "Suc (length (drop_waiter c (le_waiters ent))) = length (le_waiters ent)"
    using entry_queue [OF ok] entry_waiting [OF ok call]
    by (intro drop_waiter_length) (auto simp: queue_ok_def)
  then have len: "Suc (length (le_waiters ent')) = length (le_waiters ent)"
    by (simp add: ent'_def abandon_lock_def Let_def)
  have locked: "le_locked ent' = le_locked ent" and users: "le_users ent' = le_users ent"
    by (simp_all add: ent'_def abandon_lock_def Let_def)
  have held: "(calls(c := None)) d = Some (k, a, Holding) \<longleftrightarrow> calls d = Some (k, a, Holding)" for d
    using call by auto
  show ?thesis
  proof (rule entry_okI)
    show "queue_ok (le_locked (ent'\<lparr>le_users := le_users ent' - 1\<rparr>)) (le_waiters (ent'\<lparr>le_users := le_users ent' - 1\<rparr>))"
      using queue_ok_abandon [OF entry_queue [OF ok], of c]
      by (simp add: ent'_def abandon_lock_def Let_def)
    show "le_users (ent'\<lparr>le_users := le_users ent' - 1\<rparr>) = int (length (le_waiters (ent'\<lparr>le_users := le_users ent' - 1\<rparr>))) +
        (if le_locked (ent'\<lparr>le_users := le_users ent' - 1\<rparr>) then 1 else 0)"
      using entry_users [OF ok] len by (simp add: locked users)
  next
    fix d f assume "(d, f) \<in> set (le_waiters (ent'\<lparr>le_users := le_users ent' - 1\<rparr>))"
    then have "(d, f) \<in> set (drop_waiter c (le_waiters ent)) \<or> (d, f) \<in> set (wake_first (drop_waiter c (le_waiters ent)))"
      by (auto simp: ent'_def abandon_lock_def Let_def split: if_splits)
    moreover have "\<exists>b. (calls(c := None)) d = Some (k, a, Waiting b) \<and> (g = CANCELLED \<longrightarrow> b) \<and> (g = PENDING \<longrightarrow> \<not> b)"
      if "(d, g) \<in> set (drop_waiter c (le_waiters ent))" for g
      using that entry_waiter [OF ok, of d g] by simp
    ultimately show "\<exists>b. (calls(c := None)) d = Some (k, a, Waiting b) \<and> (f = CANCELLED \<longrightarrow> b) \<and> (f = PENDING \<longrightarrow> \<not> b)"
      using wake_first_waiter [of d "drop_waiter c (le_waiters ent)" "calls(c := None)" k a f] by blast
  next
    fix d b assume "(calls(c := None)) d = Some (k, a, Waiting b)"
    then have "d \<noteq> c" "d \<in> fst ` set (le_waiters ent)"
      using entry_waiting [OF ok, of d b] by (auto split: if_splits)
    then show "d \<in> fst ` set (le_waiters (ent'\<lparr>le_users := le_users ent' - 1\<rparr>))"
      using abandon_waiters [of c ent] by (simp add: ent'_def)
  next
    show "\<exists>d. (calls(c := None)) d = Some (k, a, Holding)" if "le_locked (ent'\<lparr>le_users := le_users ent' - 1\<rparr>)"
      unfolding held using that entry_held [OF ok] by (simp add: locked)
    show "le_locked (ent'\<lparr>le_users := le_users ent' - 1\<rparr>)" if "(calls(c := None)) d = Some (k, a, Holding)" for d
      using that entry_locked [OF ok, of d] unfolding held by (simp add: locked)
    show "d = e" if "(calls(c := None)) d = Some (k, a, Holding)" "(calls(c := None)) e = Some (k, a, Holding)" for d e
      using that entry_unique [OF ok, of d e] unfolding held by simp
  qed
qed

lemma entry_ok_leave:
  assumes ok: "entry_ok calls k a ent" and call: "calls c = Some (k, a, Holding)"
  defines "ent' \<equiv> release_lock ent"
  shows "entry_ok (calls(c := None)) k a (ent'\<lparr>le_users := le_users ent' - 1\<rparr>)"
proof -
  have was: "le_locked ent" by (rule entry_locked [OF ok call])
  have ws: "le_waiters ent' = wake_first (le_waiters ent)" and free: "\<not> le_locked ent'"
    and users: "le_users ent' = le_users ent"
    by (simp_all add: ent'_def release_lock_def)
  have nobody: "(calls(c := None)) d \<noteq> Some (k, a, Holding)" for d
    using entry_unique [OF ok call, of d] by auto
  have waits: "(calls(c := None)) d = Some (k, a, Waiting b) \<longleftrightarrow> calls d = Some (k, a, Waiting b)" for d b
    using call by auto
  show ?thesis
  proof (rule entry_okI)
    show "queue_ok (le_locked (ent'\<lparr>le_users := le_users ent' - 1\<rparr>)) (le_waiters (ent'\<lparr>le_users := le_users ent' - 1\<rparr>))"
      using queue_ok_wake entry_queue [OF ok] was free by (simp add: ws)
    show "le_users (ent'\<lparr>le_users := le_users ent' - 1\<rparr>) = int (length (le_waiters (ent'\<lparr>le_users := le_users ent' - 1\<rparr>))) +
        (if le_locked (ent'\<lparr>le_users := le_users ent' - 1\<rparr>) then 1 else 0)"
      using entry_users [OF ok] was free by (simp add: users ws)
    show "\<exists>b. (calls(c := None)) d = Some (k, a, Waiting b) \<and> (f = CANCELLED \<longrightarrow> b) \<and> (f = PENDING \<longrightarrow> \<not> b)"
      if "(d, f) \<in> set (le_waiters (ent'\<lparr>le_users := le_users ent' - 1\<rparr>))" for d f
      unfolding waits by (rule wake_first_waiter [OF entry_waiter [OF ok]]) (use that in \<open>simp_all add: ws\<close>)
    show "d \<in> fst ` set (le_waiters (ent'\<lparr>le_users := le_users ent' - 1\<rparr>))"
      if "(calls(c := None)) d = Some (k, a, Waiting b)" for d b
      using that entry_waiting [OF ok, of d b] unfolding waits by (simp add: ws)
  qed (use nobody free in auto)
qed

lemma acquires_at_once_users [simp]:
  "acquires_at_once (ent\<lparr>le_users := u\<rparr>) = acquires_at_once ent"
  by (simp add: acquires_at_once_def)

lemma entry_ok_join:
  assumes ok: "entry_ok calls k a ent" and call: "calls c = None"
    and join: "join_entry c ent = (ent', p)"
  shows "entry_ok (calls(c := Some (k, a, p))) k a ent'" and "0 < le_users ent'"
proof -
  have users: "0 \<le> le_users ent" unfolding entry_users [OF ok] by simp
  have fresh: "c \<notin> fst ` set (le_waiters ent)" using entry_waiter [OF ok] call by force
  have other: "d \<noteq> c" if "calls d = Some x" for d x using that call by auto
  show "entry_ok (calls(c := Some (k, a, p))) k a ent'"
  proof (cases "acquires_at_once ent")
    case True
    then have ent': "ent' = ent\<lparr>le_users := le_users ent + 1, le_locked := True\<rparr>" "p = Holding"
      using join True by (auto simp: join_entry_def Let_def)
    have free: "\<not> le_locked ent" and dead: "\<forall>w \<in> set (le_waiters ent). snd w = CANCELLED"
      using True by (auto simp: acquires_at_once_def)
    have nobody: "calls d \<noteq> Some (k, a, Holding)" for d using entry_locked [OF ok] free by blast
    show ?thesis
    proof (rule entry_okI)
      show "queue_ok (le_locked ent') (le_waiters ent')"
        using entry_queue [OF ok] dead by (auto simp: queue_ok_def ent')
      show "le_users ent' = int (length (le_waiters ent')) + (if le_locked ent' then 1 else 0)"
        using entry_users [OF ok] free by (simp add: ent')
      show "\<exists>b. (calls(c := Some (k, a, p))) d = Some (k, a, Waiting b) \<and> (f = CANCELLED \<longrightarrow> b) \<and> (f = PENDING \<longrightarrow> \<not> b)"
        if "(d, f) \<in> set (le_waiters ent')" for d f
        using that entry_waiter [OF ok, of d f] fresh by (force simp: ent')
      show "d \<in> fst ` set (le_waiters ent')" if "(calls(c := Some (k, a, p))) d = Some (k, a, Waiting b)" for d b
        using that entry_waiting [OF ok, of d b] by (simp add: ent' split: if_splits)
    qed (use nobody ent' in \<open>auto split: if_splits\<close>)
  next
    case False
    then have ent': "ent' = ent\<lparr>le_users := le_users ent + 1, le_waiters := le_waiters ent @ [(c, PENDING)]\<rparr>"
      "p = Waiting False"
      using join False by (auto simp: join_entry_def Let_def)
    have busy: "le_locked ent \<or> le_waiters ent \<noteq> []" using False by (auto simp: acquires_at_once_def)
    have held: "(calls(c := Some (k, a, p))) d = Some (k, a, Holding) \<longleftrightarrow> calls d = Some (k, a, Holding)" for d
      using call by (simp add: ent')
    show ?thesis
    proof (rule entry_okI)
      show "queue_ok (le_locked ent') (le_waiters ent')"
        using queue_ok_append [OF entry_queue [OF ok] fresh busy] by (simp add: ent')
      show "le_users ent' = int (length (le_waiters ent')) + (if le_locked ent' then 1 else 0)"
        using entry_users [OF ok] by (simp add: ent')
      show "\<exists>b. (calls(c := Some (k, a, p))) d = Some (k, a, Waiting b) \<and> (f = CANCELLED \<longrightarrow> b) \<and> (f = PENDING \<longrightarrow> \<not> b)"
        if "(d, f) \<in> set (le_waiters ent')" for d f
      proof (cases "d = c")
        case True
        with that fresh have "f = PENDING" by (force simp: ent')
        with True show ?thesis by (auto simp: ent')
      next
        case False
        with that have "(d, f) \<in> set (le_waiters ent)" by (simp add: ent')
        with False show ?thesis using entry_waiter [OF ok, of d f] by simp
      qed
      show "d \<in> fst ` set (le_waiters ent')" if "(calls(c := Some (k, a, p))) d = Some (k, a, Waiting b)" for d b
        using that entry_waiting [OF ok, of d b] by (cases "d = c") (simp_all add: ent')
      show "\<exists>d. (calls(c := Some (k, a, p))) d = Some (k, a, Holding)" if "le_locked ent'"
        unfolding held using that entry_held [OF ok] by (simp add: ent')
      show "le_locked ent'" if "(calls(c := Some (k, a, p))) d = Some (k, a, Holding)" for d
        using that entry_locked [OF ok, of d] unfolding held by (simp add: ent')
      show "d = e" if "(calls(c := Some (k, a, p))) d = Some (k, a, Holding)"
        "(calls(c := Some (k, a, p))) e = Some (k, a, Holding)" for d e
        using that entry_unique [OF ok, of d e] unfolding held by simp
    qed
  qed
  show "0 < le_users ent'"
    using join users by (auto simp: join_entry_def Let_def split: if_splits)
qed

lemma registry_inv_set_entry:
  assumes inv: "registry_inv s" and reg: "dict_get (kl_entries s) k = Some a"
    and old: "\<And>k' a' p. kl_calls s c = Some (k', a', p) \<Longrightarrow> k' = k \<and> a' = a"
    and new: "\<And>k' a' p. call = Some (k', a', p) \<Longrightarrow> k' = k \<and> a' = a"
    and ent: "entry_ok ((kl_calls s)(c := call)) k a ent" "0 < le_users ent"
  shows "registry_inv (set_entry a ent c call s)"
  using inv ent(2) registry_core_set_entry [OF _ reg old new ent(1)]
  by (simp add: registry_inv_def)

text \<open>The entry that \<open>hold\<close> finds or creates agrees with the calls so far.\<close>

lemma hold_entry_core:
  assumes inv: "registry_inv s" and found: "hold_entry k s = (Inr a, t)"
  shows "registry_core t" and "dict_get (kl_entries t) k = Some a" and "kl_calls t = kl_calls s"
    and "dict_get (kl_entries t) k' = Some a' \<Longrightarrow> a' \<noteq> a \<Longrightarrow> 0 < le_users (kl_heap t a')"
proof -
  have core: "registry_core s" using inv by (simp add: registry_inv_def)
  note found = found [unfolded hold_entry_def]
  show "dict_get (kl_entries t) k = Some a" "kl_calls t = kl_calls s"
    using found by (auto split: option.splits simp: guarded_Inr)
  show "0 < le_users (kl_heap t a')" if "dict_get (kl_entries t) k' = Some a'" "a' \<noteq> a"
    using that found inv by (auto simp: guarded_Inr registry_inv_def split: option.splits if_splits)
  show "registry_core t"
  proof (cases "dict_get (kl_entries s) k")
    case (Some b)
    with found core show ?thesis by simp
  next
    case None
    then have a: "a = kl_next s" and space: "\<not> at_capacity s"
      and t: "t = s\<lparr>kl_entries := dict_set (kl_entries s) k a, kl_heap := (kl_heap s)(a := new_lock_entry),
                   kl_next := Suc a\<rparr>"
      using found by (auto simp: guarded_Inr)
    have fresh: "kl_calls s c \<noteq> Some (k', a, p)" for c k' p
      using registry_call [OF core, of c k' a p] registry_addr [OF core, of k' a] a by auto
    show ?thesis
      unfolding registry_core_def
    proof (intro conjI allI impI)
      show "dict_ok (kl_entries t)" using registry_dict [OF core] by (simp add: t)
      { fix k' a' assume at: "dict_get (kl_entries t) k' = Some a'"
        show "a' < kl_next t" using at registry_addr [OF core, of k' a'] a by (auto simp: t split: if_splits)
        have "entry_ok (kl_calls s) k' a new_lock_entry"
          by (rule entry_okI) (use fresh in \<open>simp_all add: new_lock_entry_def queue_ok_def\<close>)
        moreover have "dict_get (kl_entries s) k' = Some a'" if "a' \<noteq> a"
          using that at by (simp add: t split: if_splits)
        ultimately show "entry_ok (kl_calls t) k' a' (kl_heap t a')"
          using registry_ok [OF core, of k' a'] by (auto simp: t)
      }
      show "k1 = k2" if "dict_get (kl_entries t) k1 = Some b" "dict_get (kl_entries t) k2 = Some b" for k1 k2 b
        using that registry_inj [OF core, of k1 b k2] registry_addr [OF core, of k1 b] registry_addr [OF core, of k2 b] a
        by (auto simp: t split: if_splits)
      show "dict_get (kl_entries t) k' = Some a'" if "kl_calls t c = Some (k', a', p)" for c k' a' p
        using that registry_call [OF core, of c k' a' p] None by (auto simp: t)
      show "1 \<le> m" "active_key_count t \<le> m" if "kl_max_active_keys t = Some m" for m
        using that registry_bound [OF core, of m] space None
        by (auto simp: t at_capacity_def active_key_count_def length_dict_set_new)
    qed
  qed
qed

lemma hold_inv:
  assumes inv: "registry_inv s" and new: "kl_calls s c = None"
  shows "registry_inv (snd (hold c k s))"
proof (cases "hold_entry k s")
  case (Pair r t)
  show ?thesis
  proof (cases r)
    case (Inl e)
    with Pair have "t = s" by (auto simp: hold_entry_def raise_if_def split: option.splits if_splits)
    with Inl Pair inv show ?thesis by (simp add: hold_def)
  next
    case (Inr a)
    note found = Pair [unfolded Inr]
    obtain ent p where join: "join_entry c (kl_heap t a) = (ent, p)" by (cases "join_entry c (kl_heap t a)")
    have t: "registry_core t" "dict_get (kl_entries t) k = Some a" "kl_calls t = kl_calls s"
      using hold_entry_core [OF inv found] by blast+
    have ok: "entry_ok ((kl_calls t)(c := Some (k, a, p))) k a ent" and used: "0 < le_users ent"
      using entry_ok_join [OF registry_ok [OF t(1,2)] _ join] new t(3) by simp_all
    have "registry_core (set_entry a ent c (Some (k, a, p)) t)"
      by (rule registry_core_set_entry [OF t(1,2) _ _ ok]) (simp_all add: new t(3))
    moreover have "0 < le_users (kl_heap (set_entry a ent c (Some (k, a, p)) t) a')"
      if "dict_get (kl_entries t) k' = Some a'" for k' a'
      using that used hold_entry_core(4) [OF inv found] by simp
    ultimately show ?thesis by (simp add: hold_def found join registry_inv_def)
  qed
qed

lemma lock_step_inv:
  assumes step: "lock_step s ev s'" and inv: "registry_inv s"
  shows "registry_inv s'"
proof -
  have core: "registry_core s" using inv by (simp add: registry_inv_def)
  have used: "0 < le_users (kl_heap s a)" if "dict_get (kl_entries s) k = Some a" for k a
    using that inv by (simp add: registry_inv_def)
  from step show ?thesis
  proof cases
    case (step_hold c k)
    then show ?thesis using hold_inv [OF inv] by simp
  next
    case (step_resume c k a)
    have at: "dict_get (kl_entries s) k = Some a" by (rule registry_call [OF core step_resume(3)])
    show ?thesis
      unfolding step_resume(2) resume_def
      by (rule registry_inv_set_entry [OF inv at])
        (use step_resume(3) entry_ok_resume [OF registry_ok [OF core at] step_resume(3,4)] used [OF at] in
          \<open>simp_all add: take_lock_def\<close>)
  next
    case (step_cancel c k a)
    have at: "dict_get (kl_entries s) k = Some a" by (rule registry_call [OF core step_cancel(3)])
    show ?thesis
      unfolding step_cancel(2) request_cancel_def
      by (rule registry_inv_set_entry [OF inv at])
        (use step_cancel(3) entry_ok_cancel [OF registry_ok [OF core at] step_cancel(3)] used [OF at] in
          \<open>simp_all add: cancel_future_def\<close>)
  next
    case (step_unwind c k a)
    have at: "dict_get (kl_entries s) k = Some a" by (rule registry_call [OF core step_unwind(3)])
    show ?thesis
      unfolding step_unwind(2) unwind_def
      by (rule registry_inv_leave [OF inv step_unwind(3) entry_ok_unwind [OF registry_ok [OF core at] step_unwind(3)]])
  next
    case (step_leave c k a)
    have at: "dict_get (kl_entries s) k = Some a" by (rule registry_call [OF core step_leave(3)])
    show ?thesis
      unfolding step_leave(2) leave_body_def
      by (rule registry_inv_leave [OF inv step_leave(3) entry_ok_leave [OF registry_ok [OF core at] step_leave(3)]])
  qed
qed

lemma new_registry_inv: "new_registry m = Inr s \<Longrightarrow> registry_inv s"
  by (auto simp: new_registry_def registry_inv_def registry_core_def active_key_count_def on_some_eq_None
      split: option.splits)

lemma lock_step_bound: "lock_step s ev s' \<Longrightarrow> kl_max_active_keys s' = kl_max_active_keys s"
  by (induction rule: lock_step.induct)
    (auto simp: hold_def hold_entry_def raise_if_def resume_def request_cancel_def unwind_def leave_body_def
       leave_entry_def Let_def split: option.splits sum.splits prod.splits)

interpretation key_locks: event_system "\<lambda>s. new_registry m = Inr s" lock_step
  "\<lambda>s. registry_inv s \<and> kl_max_active_keys s = m" for m
proof
  show "registry_inv s \<and> kl_max_active_keys s = m" if "new_registry m = Inr s" for s :: "'a lock_registry"
    using new_registry_inv [OF that] that by (auto simp: new_registry_def split: option.splits)
  show "registry_inv t \<and> kl_max_active_keys t = m"
    if "registry_inv s \<and> kl_max_active_keys s = m" "lock_step s ev t" for s ev and t :: "'a lock_registry"
    using that lock_step_inv lock_step_bound by metis
qed

lemmas lock_reachable_inv =
  key_locks.reachable_inv [folded lock_reachable_def, THEN conjunct1]
  key_locks.reachable_inv [folded lock_reachable_def, THEN conjunct2]

section \<open>Waiting in line\<close>

text \<open>
  The rank of a waiting call counts the hand-overs still before it: two for each call ahead of
  it in the queue (it takes the lock, it gives it back), one for the holder.
\<close>

definition ahead :: "call_id \<Rightarrow> waiters \<Rightarrow> nat" where
  "ahead c ws = length (takeWhile (\<lambda>d. d \<noteq> c) (map fst ws))"

definition entry_rank :: "call_id \<Rightarrow> lock_entry \<Rightarrow> nat" where
  "entry_rank c ent = 2 * ahead c (le_waiters ent) + (if le_locked ent then 1 else 0)"

fun handover :: "'k \<Rightarrow> 'k lock_event \<Rightarrow> bool" where
  "handover k (Resume c k') \<longleftrightarrow> k' = k"
| "handover k (Leave c k') \<longleftrightarrow> k' = k"
| "handover k _ \<longleftrightarrow> False"

lemma ahead_wake [simp]: "ahead c (wake_first ws) = ahead c ws"
  by (simp add: ahead_def)

lemma ahead_append: "c \<in> fst ` set ws \<Longrightarrow> ahead c (ws @ vs) = ahead c ws"
  by (auto simp: ahead_def)

lemma ahead_drop_le: "d \<noteq> c \<Longrightarrow> ahead c (drop_waiter d ws) \<le> ahead c ws"
  by (induction ws) (auto simp: ahead_def drop_waiter_def)

lemma ahead_drop_first: "d \<noteq> c \<Longrightarrow> ahead c (drop_waiter d ((d, f) # ws)) < ahead c ((d, f) # ws)"
  using ahead_drop_le [of d c ws] by (simp add: ahead_def drop_waiter_def)

lemma ahead_cancel: "ahead c (le_waiters (cancel_future d ent)) = ahead c (le_waiters ent)"
  unfolding ahead_def cancel_future_def by (simp add: cancel_fst del: map_map)

lemma leave_entry_simps [simp]:
  "kl_calls (leave_entry k a s) = kl_calls s"
  "kl_heap (leave_entry k a s) = (kl_heap s)(a := (kl_heap s a)\<lparr>le_users := le_users (kl_heap s a) - 1\<rparr>)"
  by (simp_all add: leave_entry_def Let_def)

lemma entry_rank_users [simp]: "entry_rank c (ent\<lparr>le_users := u\<rparr>) = entry_rank c ent"
  by (simp add: entry_rank_def)

lemma entry_rank_take:
  assumes "queue_ok (le_locked ent) (le_waiters ent)" "(d, WOKEN) \<in> set (le_waiters ent)" "d \<noteq> c"
  shows "entry_rank c (take_lock d ent) < entry_rank c ent"
proof -
  obtain ws where ws: "le_waiters ent = (d, WOKEN) # ws" using woken_is_first [OF assms(1,2)] by blast
  have "\<not> le_locked ent" by (rule woken_unlocked [OF assms(1,2)])
  with ahead_drop_first [OF assms(3), of WOKEN ws] show ?thesis
    by (simp add: entry_rank_def take_lock_def ws)
qed

lemma entry_rank_release: "le_locked ent \<Longrightarrow> entry_rank c (release_lock ent) < entry_rank c ent"
  by (simp add: entry_rank_def release_lock_def)

lemma entry_rank_abandon: "d \<noteq> c \<Longrightarrow> entry_rank c (abandon_lock d ent) \<le> entry_rank c ent"
  using ahead_drop_le [of d c "le_waiters ent"] by (simp add: entry_rank_def abandon_lock_def Let_def)

lemma entry_rank_cancel: "entry_rank c (cancel_future d ent) = entry_rank c ent"
  unfolding entry_rank_def ahead_cancel by (simp add: cancel_future_def)

lemma entry_rank_join:
  assumes "c \<in> fst ` set (le_waiters ent)" "\<not> (\<forall>w \<in> set (le_waiters ent). snd w = CANCELLED)"
  shows "entry_rank c (fst (join_entry d ent)) = entry_rank c ent"
  using assms by (auto simp: join_entry_def Let_def acquires_at_once_def entry_rank_def ahead_append)

text \<open>A new call never overtakes a live waiter; a hand-over moves every waiter of the key up.\<close>

lemma waiter_alive:
  assumes "entry_ok calls k a ent" and "calls c = Some (k, a, Waiting False)"
  shows "c \<in> fst ` set (le_waiters ent)" and "\<not> (\<forall>w \<in> set (le_waiters ent). snd w = CANCELLED)"
proof -
  show "c \<in> fst ` set (le_waiters ent)" by (rule entry_waiting [OF assms])
  then obtain f where "(c, f) \<in> set (le_waiters ent)" by force
  with entry_waiter [OF assms(1) this] assms(2) show "\<not> (\<forall>w \<in> set (le_waiters ent). snd w = CANCELLED)"
    by force
qed

lemma hold_rank:
  assumes inv: "registry_inv s" and new: "kl_calls s d = None"
    and wait: "kl_calls s c = Some (k, a, Waiting False)"
  shows "kl_calls (snd (hold d k' s)) c = Some (k, a, Waiting False)"
    and "entry_rank c (kl_heap (snd (hold d k' s)) a) = entry_rank c (kl_heap s a)"
proof -
  have core: "registry_core s" using inv by (simp add: registry_inv_def)
  have at: "dict_get (kl_entries s) k = Some a" by (rule registry_call [OF core wait])
  have old: "a < kl_next s" by (rule registry_addr [OF core at])
  have join: "entry_rank c (fst (join_entry d (kl_heap s a))) = entry_rank c (kl_heap s a)"
    by (rule entry_rank_join [OF waiter_alive [OF registry_ok [OF core at] wait]])
  have "c \<noteq> d" using new wait by auto
  then show "kl_calls (snd (hold d k' s)) c = Some (k, a, Waiting False)"
    using wait
    by (auto simp: hold_def hold_entry_def raise_if_def split: option.splits sum.splits prod.splits)
  show "entry_rank c (kl_heap (snd (hold d k' s)) a) = entry_rank c (kl_heap s a)"
    using join old
    by (auto simp: hold_def hold_entry_def raise_if_def split: option.splits sum.splits prod.splits)
qed

text \<open>The calls at one address share their key.\<close>

lemma registry_key:
  "registry_core s \<Longrightarrow> kl_calls s c = Some (k, a, p) \<Longrightarrow> kl_calls s d = Some (k', a, q) \<Longrightarrow> k' = k"
  by (meson registry_call registry_inj)

lemma waiting_step:
  assumes step: "lock_step s ev s'" and inv: "registry_inv s"
    and wait: "kl_calls s c = Some (k, a, Waiting False)"
    and ev: "ev \<noteq> Resume c k" "ev \<noteq> Cancel c k"
  shows "kl_calls s' c = Some (k, a, Waiting False) \<and>
    entry_rank c (kl_heap s' a) + (if handover k ev then 1 else 0) \<le> entry_rank c (kl_heap s a)"
proof -
  have core: "registry_core s" using inv by (simp add: registry_inv_def)
  from step show ?thesis
  proof cases
    case (step_hold d k')
    then show ?thesis using hold_rank [OF inv step_hold(3) wait] by simp
  next
    case (step_resume d k' a')
    have "d \<noteq> c" using ev step_resume wait by auto
    moreover have "entry_rank c (take_lock d (kl_heap s a')) < entry_rank c (kl_heap s a')"
      using step_resume calculation registry_ok [OF core registry_call [OF core step_resume(3)]]
      by (intro entry_rank_take entry_queue)
    moreover have "k' = k \<longleftrightarrow> a' = a"
      using registry_call [OF core wait] registry_call [OF core step_resume(3)] registry_key [OF core wait] step_resume(3)
      by fastforce
    ultimately show ?thesis
      using wait unfolding step_resume(1,2) resume_def by (cases "a' = a") simp_all
  next
    case (step_cancel d k' a')
    have "d \<noteq> c" using ev step_cancel wait by auto
    then show ?thesis using wait step_cancel by (auto simp: request_cancel_def entry_rank_cancel)
  next
    case (step_unwind d k' a')
    have "d \<noteq> c" using step_unwind wait by auto
    then show ?thesis using wait step_unwind entry_rank_abandon [of d c] by (auto simp: unwind_def)
  next
    case (step_leave d k' a')
    have "d \<noteq> c" using step_leave wait by auto
    moreover have "entry_rank c (release_lock (kl_heap s a')) < entry_rank c (kl_heap s a')"
      using entry_locked [OF registry_ok [OF core registry_call [OF core step_leave(3)]] step_leave(3)]
      by (rule entry_rank_release)
    moreover have "k' = k \<longleftrightarrow> a' = a"
      using registry_call [OF core wait] registry_call [OF core step_leave(3)] registry_key [OF core wait] step_leave(3)
      by fastforce
    ultimately show ?thesis
      using wait unfolding step_leave(1,2) leave_body_def by (cases "a' = a") simp_all
  qed
qed

lemma waiting_run:
  assumes "lock_run s evs t" "registry_inv s" "kl_calls s c = Some (k, a, Waiting False)"
    and "Resume c k \<notin> set evs" "Cancel c k \<notin> set evs"
  shows "kl_calls t c = Some (k, a, Waiting False) \<and>
    entry_rank c (kl_heap t a) + length (filter (handover k) evs) \<le> entry_rank c (kl_heap s a)"
  using assms
proof (induction rule: event_run.induct)
  case (run_step s evs s' ev s'')
  have "registry_inv s'" using key_locks.event_run_inv [OF run_step.hyps(1)] run_step.prems(1) by blast
  moreover have ih: "kl_calls s' c = Some (k, a, Waiting False)"
    "entry_rank c (kl_heap s' a) + length (filter (handover k) evs) \<le> entry_rank c (kl_heap s a)"
    using run_step by auto
  ultimately have "kl_calls s'' c = Some (k, a, Waiting False) \<and>
      entry_rank c (kl_heap s'' a) + (if handover k ev then 1 else 0) \<le> entry_rank c (kl_heap s' a)"
    using run_step.prems by (intro waiting_step [OF run_step.hyps(2)]) auto
  with ih show ?case by (auto split: if_splits)
qed simp

text \<open>
  While a call waits, somebody is always able to move: the holder can leave, or the first
  waiter (woken or cancelled) can run; and that step brings the waiting call nearer or gives it
  the lock.
\<close>

lemma waiting_progress:
  assumes inv: "registry_inv s" and wait: "kl_calls s c = Some (k, a, Waiting False)"
  shows "\<exists>d ev s'. ev \<in> {Leave d k, Resume d k, Unwind d k} \<and> lock_step s ev s' \<and>
    (kl_calls s' c = Some (k, a, Holding) \<or>
     kl_calls s' c = Some (k, a, Waiting False) \<and> entry_rank c (kl_heap s' a) < entry_rank c (kl_heap s a))"
proof -
  have core: "registry_core s" using inv by (simp add: registry_inv_def)
  have ok: "entry_ok (kl_calls s) k a (kl_heap s a)" by (rule registry_ok [OF core registry_call [OF core wait]])
  show ?thesis
  proof (cases "le_locked (kl_heap s a)")
    case True
    then obtain d where d: "kl_calls s d = Some (k, a, Holding)" using entry_held [OF ok] by blast
    have "lock_step s (Leave d k) (leave_body d k a s)" by (rule lock_step.step_leave [OF d])
    moreover have "d \<noteq> c" using d wait by auto
    ultimately show ?thesis
      using entry_rank_release [OF True, of c] wait by (intro exI conjI) (auto simp: leave_body_def)
  next
    case False
    obtain d f ws where ws: "le_waiters (kl_heap s a) = (d, f) # ws"
      using entry_waiting [OF ok wait] by (cases "le_waiters (kl_heap s a)") auto
    have "f \<noteq> PENDING" using entry_queue [OF ok] False ws by (simp add: queue_ok_def)
    obtain b where b: "kl_calls s d = Some (k, a, Waiting b)" "f = CANCELLED \<longrightarrow> b"
      using entry_waiter [OF ok, of d f] ws by auto
    show ?thesis
    proof (cases b)
      case True
      have "lock_step s (Unwind d k) (unwind d k a s)" using b True by (intro lock_step.step_unwind) simp
      moreover have "d \<noteq> c" using b True wait by auto
      moreover have "entry_rank c (abandon_lock d (kl_heap s a)) < entry_rank c (kl_heap s a)"
        using ahead_drop_first [OF \<open>d \<noteq> c\<close>, of f ws] False by (simp add: entry_rank_def abandon_lock_def ws)
      ultimately show ?thesis using wait by (intro exI conjI) (auto simp: unwind_def)
    next
      case alive: False
      with b \<open>f \<noteq> PENDING\<close> have "f = WOKEN" by (cases f) auto
      then have woken: "(d, WOKEN) \<in> set (le_waiters (kl_heap s a))" using ws by simp
      have d: "kl_calls s d = Some (k, a, Waiting False)" using b alive by simp
      have step: "lock_step s (Resume d k) (resume d k a s)" by (rule lock_step.step_resume [OF d woken])
      show ?thesis
      proof (cases "d = c")
        case True
        with step show ?thesis by (intro exI conjI) (auto simp: resume_def)
      next
        case other: False
        with step entry_rank_take [OF entry_queue [OF ok] woken other] wait show ?thesis
          by (intro exI conjI) (auto simp: resume_def)
      qed
    qed
  qed
qed

section \<open>What the registry guarantees\<close>

text \<open>
  C26: mutual exclusion. In every state that a registry can reach, under any interleaving of calls,
  wake-ups and cancellations, at most one call executes the body of \<open>hold\<close> for a given key, and
  all calls for the key use the same lock entry.
\<close>

theorem lock_mutual_exclusion:
  assumes "lock_reachable m s"
    and "kl_calls s c = Some (k, a, p)" and "kl_calls s d = Some (k, b, q)"
  shows "a = b \<and> (p = Holding \<longrightarrow> q = Holding \<longrightarrow> c = d)"
proof -
  have core: "registry_core s" using lock_reachable_inv(1) [OF assms(1)] by (simp add: registry_inv_def)
  have at: "dict_get (kl_entries s) k = Some a" "dict_get (kl_entries s) k = Some b"
    using registry_call [OF core] assms(2,3) by blast+
  then show ?thesis using entry_unique [OF registry_ok [OF core at(1)], of c d] assms(2,3) by simp
qed

lemma registry_active:
  assumes inv: "registry_inv s"
  shows "(\<exists>a. dict_get (kl_entries s) k = Some a) \<longleftrightarrow> (\<exists>c a p. kl_calls s c = Some (k, a, p))"
proof
  have core: "registry_core s" using inv by (simp add: registry_inv_def)
  show "\<exists>a. dict_get (kl_entries s) k = Some a" if "\<exists>c a p. kl_calls s c = Some (k, a, p)"
    using that registry_call [OF core] by blast
  assume "\<exists>a. dict_get (kl_entries s) k = Some a"
  then obtain a where at: "dict_get (kl_entries s) k = Some a" by blast
  note ok = registry_ok [OF core at]
  have "le_locked (kl_heap s a) \<or> le_waiters (kl_heap s a) \<noteq> []"
  proof -
    have "0 < le_users (kl_heap s a)" using at inv unfolding registry_inv_def by blast
    then show ?thesis unfolding entry_users [OF ok] by (auto split: if_splits)
  qed
  then show "\<exists>c a p. kl_calls s c = Some (k, a, p)"
  proof
    assume "le_locked (kl_heap s a)" then show ?thesis using entry_held [OF ok] by blast
  next
    assume "le_waiters (kl_heap s a) \<noteq> []"
    then obtain c f ws where "le_waiters (kl_heap s a) = (c, f) # ws" by (metis list.exhaust surj_pair)
    then show ?thesis using entry_waiter [OF ok, of c f] by auto
  qed
qed

lemma hold_result:
  "fst (hold c k s) = Inl e \<longleftrightarrow>
     e = KeyedLockCapacityError \<and> dict_get (kl_entries s) k = None \<and> at_capacity s"
  by (auto simp: hold_def hold_entry_def raise_if_def split: option.splits sum.splits prod.splits)

lemma hold_raises_same: "fst (hold c k s) = Inl e \<Longrightarrow> snd (hold c k s) = s"
  by (auto simp: hold_def hold_entry_def raise_if_def split: option.splits sum.splits prod.splits)

text \<open>
  The registry remembers exactly the keys in use, so its size is bounded by the configured
  capacity and it is empty when it is idle. A call is refused only when its key is not in use and
  the capacity is exhausted, and a refused call changes nothing.
\<close>

theorem lock_registry_bounded:
  assumes "lock_reachable m s"
  shows "((\<exists>a. dict_get (kl_entries s) k = Some a) \<longleftrightarrow> (\<exists>c a p. kl_calls s c = Some (k, a, p))) \<and>
    (case m of None \<Rightarrow> fst (hold c k s) \<noteq> Inl e
     | Some bound \<Rightarrow> active_key_count s \<le> bound \<and>
         (fst (hold c k s) = Inl e \<longleftrightarrow> e = KeyedLockCapacityError \<and> active_key_count s = bound \<and>
            (\<nexists>d a p. kl_calls s d = Some (k, a, p)))) \<and>
    (fst (hold c k s) = Inl e \<longrightarrow> snd (hold c k s) = s)"
proof -
  have inv: "registry_inv s" "kl_max_active_keys s = m" using lock_reachable_inv [OF assms] by blast+
  have core: "registry_core s" using inv by (simp add: registry_inv_def)
  have "active_key_count s \<le> bound" if "m = Some bound" for bound
    using that registry_bound [OF core] inv(2) by blast
  moreover have unused: "dict_get (kl_entries s) k = None \<longleftrightarrow> (\<nexists>d a p. kl_calls s d = Some (k, a, p))"
    using registry_active [OF inv(1), of k] by (cases "dict_get (kl_entries s) k") auto
  moreover have "at_capacity s \<longleftrightarrow> (case m of None \<Rightarrow> False | Some bound \<Rightarrow> active_key_count s \<ge> bound)"
    by (simp add: at_capacity_def inv(2))
  ultimately show ?thesis
    using registry_active [OF inv(1), of k] hold_raises_same [of c k s e]
    by (cases m) (force simp: hold_result)+
qed

text \<open>
  C27: no waiting call is forgotten or overtaken without bound. Whatever happens after a state in
  which the call waits, as long as it is neither given the lock nor cancelled, it keeps waiting,
  the number of times the lock of its key changes hands is at most its rank in the queue (twice the
  number of calls ahead of it, and one for the holder), and there is always a piece of the code
  able to run (the holder leaving, or the first waiter) that brings it nearer or gives it the lock.
\<close>

theorem lock_bounded_waiting:
  assumes "lock_reachable m s" and "kl_calls s c = Some (k, a, Waiting False)"
    and "lock_run s evs t" and "Resume c k \<notin> set evs" and "Cancel c k \<notin> set evs"
  shows "kl_calls t c = Some (k, a, Waiting False) \<and>
    length (filter (handover k) evs) + entry_rank c (kl_heap t a) \<le> entry_rank c (kl_heap s a) \<and>
    (\<exists>d ev u. ev \<in> {Leave d k, Resume d k, Unwind d k} \<and> lock_step t ev u \<and>
      (kl_calls u c = Some (k, a, Holding) \<or>
       kl_calls u c = Some (k, a, Waiting False) \<and> entry_rank c (kl_heap u a) < entry_rank c (kl_heap t a)))"
proof -
  have inv: "registry_inv s" by (rule lock_reachable_inv(1) [OF assms(1)])
  have run: "kl_calls t c = Some (k, a, Waiting False)"
    "entry_rank c (kl_heap t a) + length (filter (handover k) evs) \<le> entry_rank c (kl_heap s a)"
    using waiting_run [OF assms(3) inv assms(2) assms(4,5)] by auto
  have "registry_inv t" using key_locks.event_run_inv [OF assms(3)] inv by blast
  from waiting_progress [OF this run(1)] run show ?thesis by simp
qed

subsection \<open>Concrete runs\<close>

text \<open>A registry of capacity one: call 2 holds the key, call 3 waits for it.\<close>

definition sample_registry :: "string lock_registry" where
  "sample_registry = \<lparr>kl_max_active_keys = Some 1, kl_entries = [], kl_heap = (\<lambda>_. new_lock_entry),
     kl_next = 0, kl_calls = (\<lambda>_. None)\<rparr>"

definition sample_locks :: "string lock_registry" where
  "sample_locks = snd (hold 3 ''a'' (snd (hold 2 ''a'' sample_registry)))"

lemmas lock_evals =
  sample_registry_def sample_locks_def hold_def hold_entry_def join_entry_def acquires_at_once_def
  new_lock_entry_def set_entry_def at_capacity_def active_key_count_def returns_def Let_def

lemma sample_calls:
  "kl_calls sample_registry c = None" "kl_calls (snd (hold 2 ''a'' sample_registry)) 3 = None"
  "kl_calls sample_locks 2 = Some (''a'', 0, Holding)"
  "kl_calls sample_locks 3 = Some (''a'', 0, Waiting False)"
  by (simp_all add: lock_evals)

lemma sample_locks_reachable: "lock_reachable (Some 1) sample_locks"
proof -
  have "lock_reachable (Some 1) sample_registry"
    unfolding lock_reachable_def
    by (rule reachable_init) (simp add: new_registry_def sample_registry_def raise_if_def)
  then have "lock_reachable (Some 1) (snd (hold 2 ''a'' sample_registry))"
    unfolding lock_reachable_def by (rule reachable_step) (rule lock_step.step_hold, simp add: sample_calls)
  then show ?thesis
    unfolding lock_reachable_def sample_locks_def
    by (rule reachable_step) (rule lock_step.step_hold, simp add: sample_calls)
qed

theorem lock_mutual_exclusion_witness:
  "kl_calls sample_locks 2 = Some (''a'', 0, Holding) \<and>
   kl_calls sample_locks 3 = Some (''a'', 0, Waiting False) \<and>
   kl_calls sample_locks 3 \<noteq> Some (''a'', 0, Holding)"
  using lock_mutual_exclusion [OF sample_locks_reachable sample_calls(3), of 3 0 Holding] sample_calls(3,4)
    lock_mutual_exclusion [OF sample_locks_reachable sample_calls(3) sample_calls(4)]
  by simp

theorem lock_registry_bounded_witness:
  "active_key_count sample_locks \<le> 1 \<and>
   fst (hold 4 ''b'' sample_locks) = Inl KeyedLockCapacityError \<and>
   snd (hold 4 ''b'' sample_locks) = sample_locks"
proof -
  have "fst (hold 4 ''b'' sample_locks) = Inl KeyedLockCapacityError"
    by (simp add: lock_evals)
  with lock_registry_bounded [OF sample_locks_reachable, of "''b''" 4 KeyedLockCapacityError]
  show ?thesis by simp
qed

definition sample_handed_over :: "string lock_registry" where
  "sample_handed_over = leave_body 2 ''a'' 0 sample_locks"

theorem lock_bounded_waiting_witness:
  "kl_calls sample_handed_over 3 = Some (''a'', 0, Waiting False) \<and>
   (1::nat) + entry_rank 3 (kl_heap sample_handed_over 0) \<le> entry_rank 3 (kl_heap sample_locks 0) \<and>
   entry_rank 3 (kl_heap sample_locks 0) = 1"
proof -
  have "lock_run sample_locks ([] @ [Leave 2 ''a'']) sample_handed_over"
    unfolding sample_handed_over_def
    by (rule event_run.run_step, rule event_run.run_nil, rule lock_step.step_leave, rule sample_calls(3))
  from lock_bounded_waiting [OF sample_locks_reachable sample_calls(4) this]
  have "kl_calls sample_handed_over 3 = Some (''a'', 0, Waiting False) \<and>
      length (filter (handover ''a'') [Leave 2 ''a'']) + entry_rank 3 (kl_heap sample_handed_over 0)
        \<le> entry_rank 3 (kl_heap sample_locks 0)"
    by simp
  moreover have "entry_rank 3 (kl_heap sample_locks 0) = 1"
    by (simp add: lock_evals entry_rank_def ahead_def)
  ultimately show ?thesis by simp
qed

end
