(* ===== verification/Text_Splitting.thy ===== *)
theory Text_Splitting
  imports Prelude
begin

text \<open>
  Splitting of long texts into channel-sized chunks (\<open>gateway/delivery/planning.py\<close>). A Python
  text is a list of code points, so that the three length units of a channel (code points,
  UTF-16 code units, UTF-8 bytes) can differ and one code point can be wider than a limit.
\<close>

section \<open>Texts\<close>

type_synonym pytext = "nat list"

datatype text_length_unit = CODE_POINTS | UTF16_CODE_UNITS | UTF8_BYTES

text \<open>The code points for which \<open>str.isspace\<close> holds; \<open>strip\<close> removes them.\<close>

definition is_space :: "nat \<Rightarrow> bool" where
  "is_space c \<longleftrightarrow> 9 \<le> c \<and> c \<le> 13 \<or> 28 \<le> c \<and> c \<le> 32 \<or> c = 133 \<or> c = 160 \<or> c = 5760 \<or>
     8192 \<le> c \<and> c \<le> 8202 \<or> c = 8232 \<or> c = 8233 \<or> c = 8239 \<or> c = 8287 \<or> c = 12288"

definition lstrip :: "pytext \<Rightarrow> pytext" where
  "lstrip t = dropWhile is_space t"

definition rstrip :: "pytext \<Rightarrow> pytext" where
  "rstrip t = rev (dropWhile is_space (rev t))"

definition strip :: "pytext \<Rightarrow> pytext" where
  "strip t = lstrip (rstrip t)"

text \<open>The highest position at or after \<open>start\<close> where \<open>sub\<close> occurs, or \<open>-1\<close> (\<open>str.rfind\<close>).\<close>

definition rfind :: "pytext \<Rightarrow> pytext \<Rightarrow> nat \<Rightarrow> int" where
  "rfind t sub start =
     (case filter (\<lambda>i. start \<le> i \<and> take (length sub) (drop i t) = sub) [0..<Suc (length t) - length sub] of
        [] \<Rightarrow> - 1
      | is \<Rightarrow> int (last is))"

text \<open>Encoded sizes in bytes; surrogate code points have no encoding.\<close>

definition is_surrogate :: "nat \<Rightarrow> bool" where
  "is_surrogate c \<longleftrightarrow> 55296 \<le> c \<and> c \<le> 57343"

definition utf8_size :: "nat \<Rightarrow> nat" where
  "utf8_size c = (if c < 128 then 1 else if c < 2048 then 2 else if c < 65536 then 3 else 4)"

definition utf16_size :: "nat \<Rightarrow> nat" where
  "utf16_size c = (if c < 65536 then 2 else 4)"

definition encoded_size :: "(nat \<Rightarrow> nat) \<Rightarrow> pytext \<Rightarrow> nat res" where
  "encoded_size width t =
     (if \<exists>c \<in> set t. is_surrogate c then Inl UnicodeEncodeError else Inr (sum_list (map width t)))"

section \<open>Length and splitting\<close>

definition text_length :: "pytext \<Rightarrow> text_length_unit \<Rightarrow> nat res" where
  "text_length t unit =
     (case unit of
        CODE_POINTS \<Rightarrow> Inr (length t)
      | UTF16_CODE_UNITS \<Rightarrow> map_sum id (\<lambda>n. n div 2) (encoded_size utf16_size t)
      | UTF8_BYTES \<Rightarrow> encoded_size utf8_size t)"

text \<open>The binary search of \<open>_prefix_within_limit\<close>.\<close>

function prefix_search :: "pytext \<Rightarrow> int \<Rightarrow> text_length_unit \<Rightarrow> nat \<Rightarrow> nat \<Rightarrow> nat res" where
  "prefix_search t limit unit low high =
     (if low < high then
        let midpoint = (low + high + 1) div 2 in
        case text_length (take midpoint t) unit of
          Inl e \<Rightarrow> Inl e
        | Inr n \<Rightarrow> if int n \<le> limit then prefix_search t limit unit midpoint high
                  else prefix_search t limit unit low (midpoint - 1)
      else Inr low)"
  by pat_completeness auto

termination
  by (relation "measure (\<lambda>(t, limit, unit, low, high). high - low)") auto

declare prefix_search.simps [simp del]

definition prefix_within_limit :: "pytext \<Rightarrow> int \<Rightarrow> text_length_unit \<Rightarrow> nat res" where
  "prefix_within_limit t limit unit = prefix_search t limit unit 0 (length t)"

definition chunks_exhausted :: "int option \<Rightarrow> 'a list \<Rightarrow> bool" where
  "chunks_exhausted max_chunks chunks =
     (case max_chunks of None \<Rightarrow> False | Some m \<Rightarrow> int (length chunks) \<ge> m)"

text \<open>Where one chunk ends: at the last soft boundary of the window, if it is not too early.\<close>

definition soft_break :: "pytext \<Rightarrow> nat \<Rightarrow> nat" where
  "soft_break remaining hard_end =
     (let minimum_soft_break = max 1 (hard_end div 4);
          window = take hard_end remaining;
          break_at = max (rfind window [10, 10] minimum_soft_break)
                       (max (rfind window [10] minimum_soft_break)
                          (rfind window [32] minimum_soft_break)) in
      if break_at < int minimum_soft_break then hard_end else nat break_at)"

text \<open>The chunk, and the position at which the rest of the text starts.\<close>

definition cut_chunk :: "pytext \<Rightarrow> nat \<Rightarrow> pytext \<times> nat" where
  "cut_chunk remaining hard_end =
     (let break_at = soft_break remaining hard_end;
          chunk = rstrip (take break_at remaining) in
      if chunk = [] then (take hard_end remaining, hard_end) else (chunk, break_at))"

lemma prefix_search_stop: "\<not> low < high \<Longrightarrow> prefix_search t limit unit low high = Inr low"
  by (subst prefix_search.simps) simp

lemma prefix_search_step:
  "low < high \<Longrightarrow> text_length (take ((low + high + 1) div 2) t) unit = Inr k \<Longrightarrow>
   prefix_search t limit unit low high =
     (if int k \<le> limit then prefix_search t limit unit ((low + high + 1) div 2) high
      else prefix_search t limit unit low ((low + high + 1) div 2 - 1))"
  by (subst prefix_search.simps) (simp add: Let_def)

lemma prefix_search_probe:
  "low < high \<Longrightarrow> prefix_search t limit unit low high = Inr n \<Longrightarrow>
   \<exists>k. text_length (take ((low + high + 1) div 2) t) unit = Inr k"
  by (subst (asm) prefix_search.simps) (auto simp: Let_def split: sum.splits)

lemma prefix_search_le:
  "prefix_search t limit unit low high = Inr n \<Longrightarrow> low \<le> high \<Longrightarrow> low \<le> n \<and> n \<le> high"
proof (induction t limit unit low high rule: prefix_search.induct)
  case (1 t limit unit low high)
  show ?case
  proof (cases "low < high")
    case True
    let ?m = "(low + high + 1) div 2"
    have m: "low < ?m" "?m \<le> high" using True by auto
    obtain k where k: "text_length (take ?m t) unit = Inr k" using prefix_search_probe [OF True 1(3)] by blast
    show ?thesis
    proof (cases "int k \<le> limit")
      case le: True
      with 1(1) [OF True refl k le] 1(3) m prefix_search_step [OF True k] show ?thesis by simp
    next
      case gt: False
      have "low \<le> ?m - 1" using m by linarith
      with gt 1(2) [OF True refl k gt] 1(3) prefix_search_step [OF True k]
      have "low \<le> n \<and> n \<le> ?m - 1" by simp
      with m show ?thesis by linarith
    qed
  next
    case False
    with 1(3,4) show ?thesis by (simp add: prefix_search_stop)
  qed
qed

lemma prefix_within_limit_le: "prefix_within_limit t limit unit = Inr n \<Longrightarrow> n \<le> length t"
  using prefix_search_le [of t limit unit 0 "length t" n] by (simp add: prefix_within_limit_def)

definition break_range :: "nat \<Rightarrow> nat \<Rightarrow> int \<Rightarrow> bool" where
  "break_range start stop b \<longleftrightarrow> b < int start \<or> int start \<le> b \<and> b \<le> int stop"

lemma break_range_max: "break_range s e b \<Longrightarrow> break_range s e c \<Longrightarrow> break_range s e (max b c)"
  by (auto simp: max_def)

lemma rfind_range: "break_range start (length t) (rfind t sub start)"
proof (cases "filter (\<lambda>i. start \<le> i \<and> take (length sub) (drop i t) = sub) [0..<Suc (length t) - length sub]")
  case (Cons i js)
  then have "last (i # js) \<in> set (filter (\<lambda>i. start \<le> i \<and> take (length sub) (drop i t) = sub) [0..<Suc (length t) - length sub])"
    by (metis last_in_set list.distinct(1))
  then have "start \<le> last (i # js)" "last (i # js) \<le> length t" by auto
  with Cons show ?thesis by (simp add: rfind_def break_range_def)
qed (simp add: rfind_def break_range_def)

lemma soft_break_range:
  assumes "1 \<le> hard_end" "hard_end \<le> length remaining"
  shows "1 \<le> soft_break remaining hard_end \<and> soft_break remaining hard_end \<le> hard_end"
proof -
  let ?w = "take hard_end remaining" and ?s = "max 1 (hard_end div 4)"
  define b where "b = max (rfind ?w [10, 10] ?s) (max (rfind ?w [10] ?s) (rfind ?w [32] ?s))"
  have "break_range ?s (length ?w) b" unfolding b_def by (intro break_range_max rfind_range)
  then have "b < int ?s \<or> int ?s \<le> b \<and> b \<le> int hard_end" using assms(2) by (simp add: break_range_def)
  then have "b < int ?s \<or> 1 \<le> nat b \<and> nat b \<le> hard_end" by linarith
  then show ?thesis
    using assms(1) unfolding soft_break_def Let_def b_def [symmetric] by auto
qed

lemma cut_chunk_break:
  assumes "cut_chunk remaining hard_end = (chunk, break_at)" "1 \<le> hard_end" "hard_end \<le> length remaining"
  shows "1 \<le> break_at \<and> break_at \<le> hard_end"
  using assms(1,2) soft_break_range [OF assms(2,3)] by (auto simp: cut_chunk_def Let_def split: if_splits)

lemma length_lstrip: "length (lstrip t) \<le> length t"
  by (simp add: lstrip_def length_dropWhile_le)

lemma split_decreases:
  assumes "prefix_within_limit remaining limit unit = Inr hard_end" "hard_end \<noteq> 0"
    and "(chunk, break_at) = cut_chunk remaining hard_end"
  shows "length (lstrip (drop break_at remaining)) < length remaining"
proof -
  have "1 \<le> break_at" "break_at \<le> length remaining"
    using cut_chunk_break [OF assms(3) [symmetric]] prefix_within_limit_le [OF assms(1)] assms(2) by auto
  then show ?thesis using length_lstrip [of "drop break_at remaining"] by auto
qed

function split_loop ::
  "text_length_unit \<Rightarrow> int \<Rightarrow> int option \<Rightarrow> pytext list \<Rightarrow> pytext \<Rightarrow> pytext list res" where
  "split_loop unit limit max_chunks chunks remaining =
     (case text_length remaining unit of
        Inl e \<Rightarrow> Inl e
      | Inr n \<Rightarrow>
          if int n > limit then
            if chunks_exhausted max_chunks chunks then Inl DeliveryPlanningError
            else case prefix_within_limit remaining limit unit of
                Inl e \<Rightarrow> Inl e
              | Inr hard_end \<Rightarrow>
                  if hard_end < 1 then Inl DeliveryPlanningError
                  else case cut_chunk remaining hard_end of
                      (chunk, break_at) \<Rightarrow>
                        split_loop unit limit max_chunks (chunks @ [chunk]) (lstrip (drop break_at remaining))
          else if remaining = [] then Inr chunks
          else if chunks_exhausted max_chunks chunks then Inl DeliveryPlanningError
          else Inr (chunks @ [remaining]))"
  by pat_completeness auto

termination
  by (relation "measure (\<lambda>(unit, limit, max_chunks, chunks, remaining). length remaining)")
    (auto intro!: split_decreases)

declare split_loop.simps [simp del]

definition split_text :: "pytext \<Rightarrow> int \<Rightarrow> text_length_unit \<Rightarrow> int option \<Rightarrow> pytext list res" where
  "split_text t limit unit max_chunks =
     (if limit < 1 then Inl DeliveryPlanningError
      else if (case max_chunks of None \<Rightarrow> False | Some m \<Rightarrow> m < 1) then Inl DeliveryPlanningError
      else let remaining = strip t in
        if remaining = [] then Inl DeliveryPlanningError
        else split_loop unit limit max_chunks [] remaining)"

section \<open>Widths\<close>

definition unit_width :: "text_length_unit \<Rightarrow> nat \<Rightarrow> nat" where
  "unit_width unit c =
     (case unit of CODE_POINTS \<Rightarrow> 1 | UTF16_CODE_UNITS \<Rightarrow> utf16_size c div 2 | UTF8_BYTES \<Rightarrow> utf8_size c)"

definition text_width :: "text_length_unit \<Rightarrow> pytext \<Rightarrow> nat" where
  "text_width unit t = sum_list (map (unit_width unit) t)"

definition encodable :: "text_length_unit \<Rightarrow> pytext \<Rightarrow> bool" where
  "encodable unit t \<longleftrightarrow> unit = CODE_POINTS \<or> (\<forall>c \<in> set t. \<not> is_surrogate c)"

lemma unit_width_pos: "0 < unit_width unit c"
  by (cases unit) (auto simp: unit_width_def utf16_size_def utf8_size_def)

lemma utf16_units: "sum_list (map utf16_size t) = 2 * sum_list (map (unit_width UTF16_CODE_UNITS) t)"
  by (induction t) (auto simp: unit_width_def utf16_size_def)

lemma text_length_width:
  "text_length t unit = (if encodable unit t then Inr (text_width unit t) else Inl UnicodeEncodeError)"
proof (cases unit)
  case CODE_POINTS
  have "length t = sum_list (map (unit_width CODE_POINTS) t)"
    by (induction t) (auto simp: unit_width_def)
  with CODE_POINTS show ?thesis by (simp add: text_length_def encodable_def text_width_def)
next
  case UTF16_CODE_UNITS
  then show ?thesis by (auto simp: text_length_def encodable_def text_width_def encoded_size_def utf16_units)
next
  case UTF8_BYTES
  then have "unit_width unit = utf8_size" by (auto simp: unit_width_def)
  with UTF8_BYTES show ?thesis by (auto simp: text_length_def encodable_def text_width_def encoded_size_def)
qed

lemma encodable_sub: "encodable unit t \<Longrightarrow> set u \<subseteq> set t \<Longrightarrow> encodable unit u"
  by (auto simp: encodable_def)

section \<open>The longest prefix within a limit\<close>

text \<open>The reference for the binary search: walk along the text while the budget lasts.\<close>

fun greedy_prefix :: "text_length_unit \<Rightarrow> int \<Rightarrow> pytext \<Rightarrow> nat" where
  "greedy_prefix unit budget [] = 0"
| "greedy_prefix unit budget (c # cs) =
     (if int (unit_width unit c) \<le> budget
      then Suc (greedy_prefix unit (budget - int (unit_width unit c)) cs) else 0)"

lemma greedy_prefix_le: "greedy_prefix unit budget t \<le> length t"
  by (induction t arbitrary: budget) auto

lemma prefix_fits:
  "1 \<le> m \<Longrightarrow> m \<le> length t \<Longrightarrow> int (text_width unit (take m t)) \<le> budget \<longleftrightarrow> m \<le> greedy_prefix unit budget t"
proof (induction t arbitrary: budget m)
  case (Cons c t)
  then obtain m' where m: "m = Suc m'" by (cases m) auto
  show ?case
  proof (cases "m' = 0")
    case True
    then show ?thesis by (simp add: m text_width_def)
  next
    case False
    with Cons.IH [of m' "budget - int (unit_width unit c)"] Cons.prems
    have "int (text_width unit (take m' t)) \<le> budget - int (unit_width unit c) \<longleftrightarrow>
        m' \<le> greedy_prefix unit (budget - int (unit_width unit c)) t" by (simp add: m)
    moreover have "0 \<le> int (text_width unit (take m' t))" by simp
    ultimately show ?thesis by (auto simp: m text_width_def)
  qed
qed simp

lemma prefix_search_greedy:
  "encodable unit t \<Longrightarrow> low \<le> greedy_prefix unit limit t \<Longrightarrow> greedy_prefix unit limit t \<le> high \<Longrightarrow>
   high \<le> length t \<Longrightarrow> prefix_search t limit unit low high = Inr (greedy_prefix unit limit t)"
proof (induction t limit unit low high rule: prefix_search.induct)
  case (1 t limit unit low high)
  show ?case
  proof (cases "low < high")
    case True
    let ?m = "(low + high + 1) div 2" and ?g = "greedy_prefix unit limit t"
    have m: "1 \<le> ?m" "?m \<le> length t" using True 1(6) by auto
    have k: "text_length (take ?m t) unit = Inr (text_width unit (take ?m t))"
      using encodable_sub [OF 1(3) set_take_subset] by (simp add: text_length_width)
    show ?thesis
    proof (cases "int (text_width unit (take ?m t)) \<le> limit")
      case le: True
      then have "?m \<le> ?g" using prefix_fits [OF m] by simp
      with le 1(1) [OF True refl k le 1(3)] 1(5,6) show ?thesis by (simp add: prefix_search_step [OF True k])
    next
      case gt: False
      then have "?g \<le> ?m - 1" using prefix_fits [OF m, of unit limit] by linarith
      with gt 1(2) [OF True refl k gt 1(3)] 1(4) m show ?thesis
        by (simp add: prefix_search_step [OF True k])
    qed
  next
    case False
    with 1(4,5) show ?thesis by (simp add: prefix_search_stop)
  qed
qed

lemma prefix_within_limit_greedy:
  "encodable unit t \<Longrightarrow> prefix_within_limit t limit unit = Inr (greedy_prefix unit limit t)"
  unfolding prefix_within_limit_def by (intro prefix_search_greedy) (simp_all add: greedy_prefix_le)

section \<open>White space\<close>

definition blank :: "pytext \<Rightarrow> bool" where
  "blank t \<longleftrightarrow> (\<forall>c \<in> set t. is_space c)"

lemma lstrip_Nil [simp]: "lstrip [] = []"
  by (simp add: lstrip_def)

lemma lstrip_hd: "lstrip t \<noteq> [] \<Longrightarrow> \<not> is_space (hd (lstrip t))"
  by (simp add: lstrip_def hd_dropWhile)

lemma lstrip_idem [simp]: "lstrip (lstrip t) = lstrip t"
  by (simp add: lstrip_def)

lemma lstrip_id: "t = [] \<or> \<not> is_space (hd t) \<Longrightarrow> lstrip t = t"
  by (cases t) (auto simp: lstrip_def)

lemma lstrip_blank: "lstrip t = [] \<longleftrightarrow> blank t"
  by (auto simp: lstrip_def blank_def)

lemma lstrip_blank_append: "blank w \<Longrightarrow> lstrip (w @ t) = lstrip t"
  by (simp add: lstrip_def blank_def dropWhile_append2)

lemma lstrip_append: "lstrip t \<noteq> [] \<Longrightarrow> lstrip (t @ u) = lstrip t @ u"
  by (auto simp: lstrip_def dropWhile_append)

lemma lstrip_split: "\<exists>w. blank w \<and> t = w @ lstrip t"
  unfolding lstrip_def blank_def
  by (rule exI [of _ "takeWhile is_space t"]) (auto dest: set_takeWhileD)

lemma rstrip_split: "\<exists>w. blank w \<and> t = rstrip t @ w"
proof -
  have "t = rev (dropWhile is_space (rev t)) @ rev (takeWhile is_space (rev t))"
    by (metis rev_append rev_rev_ident takeWhile_dropWhile_id)
  moreover have "blank (rev (takeWhile is_space (rev t)))"
    by (auto simp: blank_def dest: set_takeWhileD)
  ultimately show ?thesis unfolding rstrip_def by blast
qed

lemma rstrip_last: "rstrip t \<noteq> [] \<Longrightarrow> \<not> is_space (last (rstrip t))"
  by (simp add: rstrip_def last_rev hd_dropWhile)

lemma rstrip_id: "t = [] \<or> \<not> is_space (last t) \<Longrightarrow> rstrip t = t"
  by (cases "rev t") (auto simp: rstrip_def hd_rev [symmetric])

lemma set_strips: "set (lstrip t) \<subseteq> set t" "set (rstrip t) \<subseteq> set t"
  by (auto simp: lstrip_def rstrip_def dest: set_dropWhileD)

text \<open>A stripped text neither starts nor ends with white space.\<close>

definition stripped :: "pytext \<Rightarrow> bool" where
  "stripped t \<longleftrightarrow> t = [] \<or> \<not> is_space (hd t) \<and> \<not> is_space (last t)"

lemma last_dropWhile: "dropWhile P xs \<noteq> [] \<Longrightarrow> last (dropWhile P xs) = last xs"
  by (induction xs) auto

lemma last_lstrip: "lstrip t \<noteq> [] \<Longrightarrow> last (lstrip t) = last t"
  by (simp add: lstrip_def last_dropWhile)

lemma stripped_strip: "stripped (strip t)"
proof -
  have "\<not> is_space (last (lstrip (rstrip t)))" if "lstrip (rstrip t) \<noteq> []"
    using that rstrip_last [of t] last_lstrip [OF that] by (cases "rstrip t = []") auto
  then show ?thesis using lstrip_hd [of "rstrip t"] by (auto simp: stripped_def strip_def)
qed

lemma strip_stripped: "stripped t \<Longrightarrow> strip t = t"
  by (auto simp: stripped_def strip_def rstrip_id lstrip_id)

section \<open>What a split preserves\<close>

text \<open>
  The chunks occur in the text one after another, separated, preceded and followed by white
  space only.
\<close>

fun spaced :: "pytext list \<Rightarrow> pytext \<Rightarrow> bool" where
  "spaced [] t \<longleftrightarrow> lstrip t = []"
| "spaced (c # cs) t \<longleftrightarrow> take (length c) (lstrip t) = c \<and> spaced cs (drop (length c) (lstrip t))"

definition chunk_ok :: "text_length_unit \<Rightarrow> int \<Rightarrow> pytext \<Rightarrow> bool" where
  "chunk_ok unit limit c \<longleftrightarrow> c \<noteq> [] \<and> stripped c \<and> encodable unit c \<and> int (text_width unit c) \<le> limit"

lemma spaced_lstrip: "lstrip t = lstrip u \<Longrightarrow> spaced cs t = spaced cs u"
  by (cases cs) simp_all

lemma spaced_blank_append:
  "spaced cs t \<Longrightarrow> blank w \<Longrightarrow> \<forall>c \<in> set cs. c \<noteq> [] \<Longrightarrow> spaced cs (t @ w)"
proof (induction cs arbitrary: t)
  case Nil
  then have "blank (t @ w)" by (auto simp: lstrip_blank blank_def)
  then show ?case by (simp add: lstrip_blank)
next
  case (Cons c cs)
  then have ne: "lstrip t \<noteq> []" by auto
  have "length c \<le> length (lstrip t)" using Cons.prems(1) by (metis length_take min.bounded_iff nat_le_linear spaced.simps(2) take_all_iff)
  with Cons show ?case by (simp add: lstrip_append [OF ne])
qed

lemma spaced_strip: "spaced cs (strip t) \<Longrightarrow> \<forall>c \<in> set cs. c \<noteq> [] \<Longrightarrow> spaced cs t"
proof -
  assume cs: "spaced cs (strip t)" "\<forall>c \<in> set cs. c \<noteq> []"
  obtain w where w: "blank w" "t = rstrip t @ w" using rstrip_split by blast
  have "spaced cs (rstrip t)" using cs(1) spaced_lstrip [of "strip t" "rstrip t"] by (simp add: strip_def)
  with cs(2) w show ?thesis using spaced_blank_append by metis
qed

lemma cut_chunk_eq:
  assumes "cut_chunk t n = (chunk, b)" "1 \<le> n" "n \<le> length t" "\<not> is_space (hd t)"
  shows "chunk = rstrip (take b t) \<and> chunk \<noteq> [] \<and> hd chunk = hd t"
proof -
  have t: "t \<noteq> []" using assms by auto
  have head: "rstrip (take k t) \<noteq> [] \<and> hd (rstrip (take k t)) = hd t" if k: "1 \<le> k" for k
  proof -
    obtain w where w: "blank w" "take k t = rstrip (take k t) @ w" using rstrip_split by blast
    have tk: "take k t \<noteq> []" "hd (take k t) = hd t" using t k by auto
    have "rstrip (take k t) \<noteq> []"
    proof
      assume "rstrip (take k t) = []"
      with w tk assms(4) show False by (cases w) (auto simp: blank_def)
    qed
    with w(2) tk show ?thesis by (metis hd_append2)
  qed
  have "1 \<le> soft_break t n" using soft_break_range [OF assms(2,3)] by simp
  from head [OF this] assms(1) show ?thesis by (auto simp: cut_chunk_def Let_def)
qed

lemma cut_chunk_rest:
  assumes "chunk = rstrip (take b t)"
  shows "take (length chunk) t = chunk" and "lstrip (drop (length chunk) t) = lstrip (drop b t)"
proof -
  obtain w where w: "blank w" "take b t = chunk @ w" using rstrip_split assms by metis
  have t: "t = (chunk @ w) @ drop b t" using w(2) by (metis append_take_drop_id)
  show "take (length chunk) t = chunk" by (subst t) simp
  show "lstrip (drop (length chunk) t) = lstrip (drop b t)"
    by (subst t) (simp add: lstrip_blank_append [OF w(1)])
qed

text \<open>One round of the loop: a good chunk, and a rest that is stripped again.\<close>

lemma stripped_rest:
  assumes "stripped t"
  shows "stripped (lstrip (drop b t))"
proof (cases "lstrip (drop b t) = []")
  case False
  then have "drop b t \<noteq> []" by auto
  then have "last (lstrip (drop b t)) = last t" "t \<noteq> []"
    using last_lstrip [OF False] by (auto simp: last_drop)
  with lstrip_hd [OF False] assms show ?thesis by (simp add: stripped_def)
qed (simp add: stripped_def)

lemma text_width_mono: "text_width unit t \<le> text_width unit (t @ u)"
  by (simp add: text_width_def)

lemma cut_chunk_ok:
  assumes cut: "cut_chunk t n = (chunk, b)" and n: "1 \<le> n" "n = greedy_prefix unit limit t"
    and t: "stripped t" "encodable unit t"
  shows "chunk_ok unit limit chunk"
proof -
  have le: "n \<le> length t" using n greedy_prefix_le by simp
  have hd: "\<not> is_space (hd t)" using t(1) n le by (cases t) (auto simp: stripped_def)
  note c = cut_chunk_eq [OF cut n(1) le hd]
  have b: "1 \<le> b" "b \<le> n" using cut_chunk_break [OF cut n(1) le] by auto
  obtain w where w: "take b t = chunk @ w" using rstrip_split c by metis
  have "int (text_width unit (take b t)) \<le> limit"
    using prefix_fits [of b t unit limit] b n le by simp
  then have "int (text_width unit chunk) \<le> limit" using text_width_mono [of unit chunk w] w by simp
  moreover have "set chunk \<subseteq> set t" using c set_strips(2) [of "take b t"] set_take_subset by (metis subset_trans)
  moreover have "stripped chunk" using c hd rstrip_last [of "take b t"] unfolding stripped_def by metis
  ultimately show ?thesis using c encodable_sub [OF t(2)] by (auto simp: chunk_ok_def)
qed

lemma split_loop_unencodable:
  "\<not> encodable unit t \<Longrightarrow> split_loop unit limit mx chunks t = Inl UnicodeEncodeError"
  by (subst split_loop.simps) (simp add: text_length_width)

lemma split_loop_last:
  "encodable unit t \<Longrightarrow> int (text_width unit t) \<le> limit \<Longrightarrow>
   split_loop unit limit mx chunks t =
     (if t = [] then Inr chunks else if chunks_exhausted mx chunks then Inl DeliveryPlanningError
      else Inr (chunks @ [t]))"
  by (subst split_loop.simps) (simp add: text_length_width)

lemma split_loop_round:
  "encodable unit t \<Longrightarrow> \<not> int (text_width unit t) \<le> limit \<Longrightarrow>
   split_loop unit limit mx chunks t =
     (if chunks_exhausted mx chunks \<or> greedy_prefix unit limit t = 0 then Inl DeliveryPlanningError
      else split_loop unit limit mx (chunks @ [fst (cut_chunk t (greedy_prefix unit limit t))])
             (lstrip (drop (snd (cut_chunk t (greedy_prefix unit limit t))) t)))"
  by (subst split_loop.simps) (simp add: text_length_width prefix_within_limit_greedy split: prod.splits)

lemma rest_shorter:
  "encodable unit t \<Longrightarrow> greedy_prefix unit limit t \<noteq> 0 \<Longrightarrow>
   length (lstrip (drop (snd (cut_chunk t (greedy_prefix unit limit t))) t)) < length t"
  by (rule split_decreases [OF prefix_within_limit_greedy,
        where chunk = "fst (cut_chunk t (greedy_prefix unit limit t))"]) simp_all

lemma encodable_rest: "encodable unit t \<Longrightarrow> encodable unit (lstrip (drop b t))"
  by (erule encodable_sub) (rule subset_trans [OF set_strips(1) set_drop_subset])

lemma split_loop_sound:
  "stripped t \<Longrightarrow> split_loop unit limit mx chunks t = Inr out \<Longrightarrow>
   \<exists>cs. out = chunks @ cs \<and> (\<forall>c \<in> set cs. chunk_ok unit limit c) \<and> spaced cs t \<and> (t \<noteq> [] \<longrightarrow> cs \<noteq> []) \<and>
     (\<forall>m. mx = Some m \<longrightarrow> int (length chunks) \<le> m \<longrightarrow> int (length out) \<le> m)"
proof (induction "length t" arbitrary: t chunks rule: less_induct)
  case less
  have enc: "encodable unit t" using less.prems(2) split_loop_unencodable by fastforce
  have lt: "lstrip t = t" using less.prems(1) by (auto simp: stripped_def intro: lstrip_id)
  show ?case
  proof (cases "int (text_width unit t) \<le> limit")
    case True
    note last = less.prems(2) [unfolded split_loop_last [OF enc True]]
    show ?thesis
    proof (cases "t = []")
      case empty: True
      with last show ?thesis by simp
    next
      case False
      with last have "out = chunks @ [t]" "\<not> chunks_exhausted mx chunks" by (auto split: if_splits)
      moreover have "chunk_ok unit limit t" using False True enc less.prems(1) by (simp add: chunk_ok_def)
      ultimately show ?thesis
        using lt by (intro exI [of _ "[t]"]) (auto simp: chunks_exhausted_def)
    qed
  next
    case False
    let ?g = "greedy_prefix unit limit t"
    let ?c = "fst (cut_chunk t ?g)" and ?b = "snd (cut_chunk t ?g)"
    let ?r = "lstrip (drop ?b t)"
    have cut: "cut_chunk t ?g = (?c, ?b)" by simp
    have go: "\<not> chunks_exhausted mx chunks" "?g \<noteq> 0" "split_loop unit limit mx (chunks @ [?c]) ?r = Inr out"
      using less.prems(2) unfolding split_loop_round [OF enc False] by (auto split: if_splits)
    have g: "1 \<le> ?g" "?g \<le> length t" using go(2) greedy_prefix_le [of unit limit t] by auto
    have hd: "\<not> is_space (hd t)" using less.prems(1) g by (cases t) (auto simp: stripped_def)
    have ok: "chunk_ok unit limit ?c" using g less.prems(1) enc by (intro cut_chunk_ok [OF cut]) auto
    have c: "?c = rstrip (take ?b t)" using cut_chunk_eq [OF cut g hd] by blast
    obtain cs where cs: "out = (chunks @ [?c]) @ cs" "\<forall>c \<in> set cs. chunk_ok unit limit c" "spaced cs ?r"
      "\<forall>m. mx = Some m \<longrightarrow> int (length (chunks @ [?c])) \<le> m \<longrightarrow> int (length out) \<le> m"
      using less.hyps [OF rest_shorter [OF enc go(2)] stripped_rest [OF less.prems(1)] go(3)] by blast
    have "spaced cs (drop (length ?c) t)"
      using cs(3) cut_chunk_rest(2) [OF c] spaced_lstrip [of "drop (length ?c) t" ?r] by simp
    then have "spaced (?c # cs) t" using lt cut_chunk_rest(1) [OF c] by simp
    moreover have "out = chunks @ (?c # cs)" using cs(1) by simp
    moreover have "\<forall>m. mx = Some m \<longrightarrow> int (length chunks) \<le> m \<longrightarrow> int (length out) \<le> m"
      using cs(4) go(1) by (auto simp: chunks_exhausted_def)
    ultimately show ?thesis using ok cs(2) by (intro exI [of _ "?c # cs"]) simp
  qed
qed

text \<open>With limits wide enough for its code points a text can always be split.\<close>

lemma greedy_prefix_pos:
  "t \<noteq> [] \<Longrightarrow> \<forall>c \<in> set t. int (unit_width unit c) \<le> limit \<Longrightarrow> greedy_prefix unit limit t \<noteq> 0"
  by (cases t) auto

lemma split_loop_total:
  "encodable unit t \<Longrightarrow> \<forall>c \<in> set t. int (unit_width unit c) \<le> limit \<Longrightarrow> 1 \<le> limit \<Longrightarrow>
   \<exists>out. split_loop unit limit None chunks t = Inr out"
proof (induction "length t" arbitrary: t chunks rule: less_induct)
  case less
  show ?case
  proof (cases "int (text_width unit t) \<le> limit")
    case True
    then show ?thesis by (simp add: split_loop_last [OF less.prems(1)] chunks_exhausted_def)
  next
    case False
    let ?g = "greedy_prefix unit limit t"
    have "t \<noteq> []" using False less.prems(3) by (auto simp: text_width_def)
    then have g: "?g \<noteq> 0" using less.prems(2) by (rule greedy_prefix_pos)
    have rest: "set (lstrip (drop (snd (cut_chunk t ?g)) t)) \<subseteq> set t"
      using set_strips(1) set_drop_subset by (metis subset_trans)
    show ?thesis
      unfolding split_loop_round [OF less.prems(1) False]
      using g less.hyps [OF rest_shorter [OF less.prems(1) g] encodable_rest [OF less.prems(1)] _ less.prems(3)]
        rest less.prems(2)
      by (auto simp: chunks_exhausted_def)
  qed
qed

text \<open>The chunk bound only decides whether the unbounded split is accepted.\<close>

lemma split_loop_bounded:
  "encodable unit t \<Longrightarrow> stripped t \<Longrightarrow> 1 \<le> limit \<Longrightarrow> int (length chunks) \<le> m \<Longrightarrow>
   split_loop unit limit (Some m) chunks t =
     (case split_loop unit limit None chunks t of
        Inl e \<Rightarrow> Inl DeliveryPlanningError
      | Inr out \<Rightarrow> if int (length out) \<le> m then Inr out else Inl DeliveryPlanningError)"
proof (induction "length t" arbitrary: t chunks rule: less_induct)
  case less
  show ?case
  proof (cases "int (text_width unit t) \<le> limit")
    case True
    then show ?thesis using less.prems by (auto simp: split_loop_last chunks_exhausted_def)
  next
    case False
    let ?g = "greedy_prefix unit limit t"
    note round = split_loop_round [OF less.prems(1) False]
    have t: "t \<noteq> []" using False less.prems(3) by (auto simp: text_width_def)
    show ?thesis
    proof (cases "int (length chunks) < m \<and> ?g \<noteq> 0")
      case True
      then show ?thesis
        using less.hyps [OF rest_shorter [OF less.prems(1)] encodable_rest [OF less.prems(1)]
            stripped_rest [OF less.prems(2)] less.prems(3)]
        by (simp add: round chunks_exhausted_def)
    next
      case stop: False
      have "split_loop unit limit (Some m) chunks t = Inl DeliveryPlanningError"
      proof -
        have "chunks_exhausted (Some m) chunks \<or> ?g = 0" using stop by (auto simp: chunks_exhausted_def)
        then show ?thesis unfolding round by (rule if_P)
      qed
      moreover have "m < int (length out)" if out: "split_loop unit limit None chunks t = Inr out" for out
      proof -
        have "?g \<noteq> 0" using out by (auto simp: round split: if_splits)
        with stop have "m = int (length chunks)" using less.prems(4) by auto
        moreover have "length chunks < length out"
          using split_loop_sound [OF less.prems(2) out] t by auto
        ultimately show ?thesis by simp
      qed
      ultimately show ?thesis by (auto split: sum.splits)
    qed
  qed
qed

lemma split_text_chunks:
  assumes "split_text t limit unit mx = Inr chunks"
  shows "chunks \<noteq> [] \<and> spaced chunks t \<and> (\<forall>c \<in> set chunks. chunk_ok unit limit c) \<and>
    (\<forall>m. mx = Some m \<longrightarrow> int (length chunks) \<le> m)"
proof -
  have ne: "strip t \<noteq> []" and loop: "split_loop unit limit mx [] (strip t) = Inr chunks"
    and mx: "\<forall>m. mx = Some m \<longrightarrow> 1 \<le> m"
    using assms by (auto simp: split_text_def Let_def split: if_splits option.splits)
  obtain cs where cs: "chunks = [] @ cs" "\<forall>c \<in> set cs. chunk_ok unit limit c" "spaced cs (strip t)"
    "strip t \<noteq> [] \<longrightarrow> cs \<noteq> []"
    "\<forall>m. mx = Some m \<longrightarrow> int (length ([] :: pytext list)) \<le> m \<longrightarrow> int (length chunks) \<le> m"
    using split_loop_sound [OF stripped_strip loop] by blast
  have "\<forall>c \<in> set cs. c \<noteq> []" using cs(2) by (simp add: chunk_ok_def)
  then have "spaced chunks t" using spaced_strip [OF cs(3)] cs(1) by simp
  with cs ne mx show ?thesis by auto
qed

section \<open>Correctness of splitting\<close>

text \<open>
  The binary search of \<open>_prefix_within_limit\<close> finds what walking along the text finds, the
  longest prefix whose length, in the unit of the channel, is within the limit: every non-empty
  prefix is within the limit exactly when it is not longer than the result.
\<close>

theorem prefix_within_limit_longest:
  assumes "encodable unit t"
  shows "\<exists>n \<le> length t. prefix_within_limit t limit unit = Inr n \<and> n = greedy_prefix unit limit t \<and>
    list_all (\<lambda>m. (case text_length (take m t) unit of Inl e \<Rightarrow> False | Inr k \<Rightarrow> int k \<le> limit) \<longleftrightarrow> m \<le> n)
      [1..<Suc (length t)]"
proof -
  let ?n = "greedy_prefix unit limit t"
  have "(case text_length (take m t) unit of Inl e \<Rightarrow> False | Inr k \<Rightarrow> int k \<le> limit) \<longleftrightarrow> m \<le> ?n"
    if "m \<in> set [1..<Suc (length t)]" for m
  proof -
    have "text_length (take m t) unit = Inr (text_width unit (take m t))"
      using encodable_sub [OF assms set_take_subset] by (simp add: text_length_width)
    moreover have "1 \<le> m" "m \<le> length t" using that by auto
    ultimately show ?thesis using prefix_fits [of m t unit limit] by simp
  qed
  then show ?thesis
    using prefix_within_limit_greedy [OF assms, of limit] greedy_prefix_le [of unit limit t]
    unfolding list_all_iff by blast
qed

text \<open>
  A successful split gives at least one chunk and at most the allowed number; every chunk is
  non-empty, has no white space at its ends and fits the limit in the unit of the channel; and the
  chunks are the text itself, in order, with only white space left out at its ends and at the
  places where it was cut.
\<close>

theorem split_text_sound:
  assumes "split_text t limit unit max_chunks = Inr chunks"
  shows "chunks \<noteq> [] \<and> spaced chunks t \<and>
    list_all (\<lambda>c. c \<noteq> [] \<and> strip c = c \<and>
      (case text_length c unit of Inl e \<Rightarrow> False | Inr n \<Rightarrow> int n \<le> limit)) chunks \<and>
    (case max_chunks of None \<Rightarrow> True | Some m \<Rightarrow> int (length chunks) \<le> m)"
  using split_text_chunks [OF assms]
  by (auto simp: list_all_iff chunk_ok_def strip_stripped text_length_width split: option.splits)

text \<open>
  Splitting never fails on a text that is not blank, is encodable and whose code points each
  fit the limit; and the bound on the number of chunks accepts exactly the splits that are short
  enough, without changing them.
\<close>

theorem split_text_total:
  assumes "1 \<le> limit" and "strip t \<noteq> []" and "encodable unit t"
    and "list_all (\<lambda>c. int (unit_width unit c) \<le> limit) t" and "1 \<le> m"
  shows "\<exists>chunks. split_text t limit unit None = Inr chunks \<and>
    split_text t limit unit (Some m) =
      (if int (length chunks) \<le> m then Inr chunks else Inl DeliveryPlanningError)"
proof -
  have sub: "set (strip t) \<subseteq> set t"
    using set_strips(1) [of "rstrip t"] set_strips(2) [of t] by (auto simp: strip_def)
  have enc: "encodable unit (strip t)" by (rule encodable_sub [OF assms(3) sub])
  obtain chunks where chunks: "split_loop unit limit None [] (strip t) = Inr chunks"
    using split_loop_total [OF enc _ assms(1), of "[]"] assms(4) sub by (auto simp: list_all_iff)
  have "split_loop unit limit (Some m) [] (strip t) =
      (if int (length chunks) \<le> m then Inr chunks else Inl DeliveryPlanningError)"
    using split_loop_bounded [OF enc stripped_strip assms(1), of "[]" m] assms(5) chunks by simp
  with chunks assms show ?thesis by (auto simp: split_text_def Let_def)
qed

subsection \<open>A concrete split\<close>

text \<open>\<open>hi\<close>, a blank, an emoji (two UTF-16 code units) and an exclamation mark, cut at three units.\<close>

definition sample_text :: pytext where
  "sample_text = [104, 105, 32, 128512, 33]"

lemma sample_encodable: "encodable UTF16_CODE_UNITS sample_text" "encodable UTF16_CODE_UNITS [128512, 33]"
  by (simp_all add: encodable_def sample_text_def is_surrogate_def)

lemma sample_widths:
  "text_width UTF16_CODE_UNITS sample_text = 6" "text_width UTF16_CODE_UNITS [128512, 33] = 3"
  "greedy_prefix UTF16_CODE_UNITS 3 sample_text = 3" "strip sample_text = sample_text"
  by (simp_all add: sample_text_def text_width_def unit_width_def utf16_size_def strip_def lstrip_def
      rstrip_def is_space_def)

lemma sample_rfind:
  "rfind [104, 105, 32] [10, 10] 1 = - 1" "rfind [104, 105, 32] [10] 1 = - 1" "rfind [104, 105, 32] [32] 1 = 2"
  by code_simp+

lemma sample_cut:
  "cut_chunk sample_text 3 = ([104, 105], 2)" "lstrip (drop 2 sample_text) = [128512, 33]"
  using sample_rfind
  by (simp_all add: sample_text_def cut_chunk_def soft_break_def rstrip_def lstrip_def is_space_def Let_def)

lemma sample_split:
  "split_text sample_text 3 UTF16_CODE_UNITS (Some 2) = Inr [[104, 105], [128512, 33]]"
proof -
  have "split_loop UTF16_CODE_UNITS 3 (Some 2) [] sample_text = Inr [[104, 105], [128512, 33]]"
    by (simp add: split_loop_round [OF sample_encodable(1)] split_loop_last [OF sample_encodable(2)]
        sample_widths sample_cut chunks_exhausted_def)
  then show ?thesis using sample_widths(4) by (simp add: split_text_def sample_text_def)
qed

theorem prefix_within_limit_longest_witness:
  "encodable UTF16_CODE_UNITS sample_text \<and>
   (\<exists>n \<le> length sample_text. prefix_within_limit sample_text 4 UTF16_CODE_UNITS = Inr n \<and>
      n = greedy_prefix UTF16_CODE_UNITS 4 sample_text \<and> n = 3)"
  using prefix_within_limit_longest [OF sample_encodable(1), of 4] sample_encodable(1)
  by (auto simp: sample_text_def unit_width_def utf16_size_def)

theorem split_text_sound_witness:
  "split_text sample_text 3 UTF16_CODE_UNITS (Some 2) = Inr [[104, 105], [128512, 33]] \<and>
   spaced [[104, 105], [128512, 33]] sample_text \<and> strip [128512, 33] = [128512, 33]"
  using split_text_sound [OF sample_split] sample_split by simp

theorem split_text_total_witness:
  "\<exists>chunks. split_text sample_text 3 UTF16_CODE_UNITS None = Inr chunks \<and>
    split_text sample_text 3 UTF16_CODE_UNITS (Some 1) =
      (if int (length chunks) \<le> 1 then Inr chunks else Inl DeliveryPlanningError)"
  by (rule split_text_total [OF _ _ sample_encodable(1)])
    (simp_all add: sample_text_def strip_def lstrip_def rstrip_def is_space_def unit_width_def utf16_size_def)

end
