(* ===== verification/Delivery_Planning.thy ===== *)
theory Delivery_Planning
  imports Text_Splitting Identities
begin

text \<open>
  Delivery planning (\<open>gateway/delivery/planning.py\<close>): the conversion of one logical outbound
  message into the segments that a channel can carry, from the channel's delivery profile
  (\<open>interaction/channels/contract.py\<close>) and the message and attachment contracts
  (\<open>interaction/messages.py\<close>, \<open>interaction/media.py\<close>).

  Texts and media types are lists of code points. The digest \<open>sha256\<close>, Unicode case folding
  \<open>casefold\<close> and the chain of regular-expression rewrites of \<open>markdown_to_plain\<close> are parameters.
  Metadata is a dictionary of JSON values and of opaque objects; floating-point numbers are not
  represented.
\<close>

section \<open>Contracts\<close>

datatype attachment_source_kind = LOCAL_PATH | REMOTE_URL | ATTACHMENT_HANDLE

datatype attachment_grouping = GROUPING_NONE | SAME_MEDIA_FAMILY | MIXED

datatype attachment_source = LocalPath string | RemoteUrl string | AttachmentHandle string

primrec source_kind :: "attachment_source \<Rightarrow> attachment_source_kind" where
  "source_kind (LocalPath path) = LOCAL_PATH"
| "source_kind (RemoteUrl url) = REMOTE_URL"
| "source_kind (AttachmentHandle handle_id) = ATTACHMENT_HANDLE"

text \<open>A metadata value: one that JSON can carry, or an object that it cannot.\<close>

datatype meta_value = MetaJson json | MetaObject nat

record attachment_content =
  at_attachment_id :: string
  at_media_type :: pytext
  at_source :: attachment_source
  at_filename :: "string option"
  at_size_bytes :: "int option"
  at_metadata :: "(string, meta_value) dict"

datatype text_format = PLAIN | MARKDOWN

datatype content = TextContent pytext text_format | AttachmentContent attachment_content

record outbound_message =
  om_delivery_id :: string
  om_conversation_ref :: conversation_ref
  om_content :: "content list"
  om_created_at :: datetime
  om_reply_to :: "string option"
  om_metadata :: "(string, meta_value) dict"

datatype delivery_support_level = NATIVE | FALLBACK | UNSUPPORTED

datatype reply_reference_scope = FIRST_SEGMENT | EVERY_SEGMENT

record delivery_profile =
  dp_plain_text :: delivery_support_level
  dp_markdown :: delivery_support_level
  dp_attachments :: delivery_support_level
  dp_attachment_sources :: "attachment_source_kind list"
  dp_attachment_media_types :: "pytext list"
  dp_attachment_grouping :: attachment_grouping
  dp_reply_references :: delivery_support_level
  dp_reply_reference_scope :: reply_reference_scope
  dp_text_length_unit :: text_length_unit
  dp_max_text_length :: "int option"
  dp_max_attachment_size :: "int option"
  dp_max_attachment_count :: "int option"
  dp_max_attachment_group_size :: "int option"

record channel_capabilities =
  cc_plain_text :: delivery_support_level
  cc_markdown :: delivery_support_level
  cc_message_edits :: delivery_support_level
  cc_message_deletion :: delivery_support_level
  cc_typing_indicators :: delivery_support_level
  cc_interactive_actions :: delivery_support_level
  cc_attachments :: delivery_support_level
  cc_reply_references :: delivery_support_level
  cc_native_threads_or_topics :: delivery_support_level
  cc_attachment_sources :: "attachment_source_kind list"
  cc_max_text_length :: "int option"
  cc_max_attachment_size :: "int option"
  cc_max_attachment_count :: "int option"
  cc_attachment_media_types :: "pytext list"
  cc_attachment_grouping :: attachment_grouping
  cc_reply_reference_scope :: reply_reference_scope
  cc_text_length_unit :: text_length_unit
  cc_max_attachment_group_size :: "int option"

definition delivery :: "channel_capabilities \<Rightarrow> delivery_profile" where
  "delivery c = \<lparr>
     dp_plain_text = cc_plain_text c, dp_markdown = cc_markdown c, dp_attachments = cc_attachments c,
     dp_attachment_sources = cc_attachment_sources c,
     dp_attachment_media_types = cc_attachment_media_types c,
     dp_attachment_grouping = cc_attachment_grouping c,
     dp_reply_references = cc_reply_references c,
     dp_reply_reference_scope = cc_reply_reference_scope c,
     dp_text_length_unit = cc_text_length_unit c, dp_max_text_length = cc_max_text_length c,
     dp_max_attachment_size = cc_max_attachment_size c,
     dp_max_attachment_count = cc_max_attachment_count c,
     dp_max_attachment_group_size = cc_max_attachment_group_size c\<rparr>"

record planned_segment =
  ps_segment_index :: int
  ps_source_content_indexes :: "int list"
  ps_message :: outbound_message

record delivery_plan =
  pl_source_delivery_id :: string
  pl_conversation_ref :: conversation_ref
  pl_source_content_count :: int
  pl_segments :: "planned_segment list"

section \<open>Preparation and validation\<close>

definition markdown_to_plain :: "(pytext \<Rightarrow> pytext) \<Rightarrow> pytext \<Rightarrow> pytext" where
  "markdown_to_plain rewrite t =
     (let value = rewrite t in if strip value \<noteq> [] then strip value else strip t)"

definition prepare_text ::
  "(pytext \<Rightarrow> pytext) \<Rightarrow> pytext \<Rightarrow> text_format \<Rightarrow> delivery_profile \<Rightarrow> (pytext \<times> text_format) res" where
  "prepare_text rewrite t fmt profile =
     (if strip t = [] then Inl DeliveryPlanningError
      else if fmt = PLAIN then
        if dp_plain_text profile = UNSUPPORTED then Inl DeliveryPlanningError else Inr (t, PLAIN)
      else if dp_markdown profile = NATIVE then Inr (t, MARKDOWN)
      else if dp_markdown profile = FALLBACK then
        if dp_plain_text profile = UNSUPPORTED then Inl DeliveryPlanningError
        else Inr (markdown_to_plain rewrite t, PLAIN)
      else Inl DeliveryPlanningError)"

text \<open>\<open>*/*\<close> is the code points 42, 47, 42.\<close>

definition media_type_matches :: "(pytext \<Rightarrow> pytext) \<Rightarrow> pytext \<Rightarrow> pytext \<Rightarrow> bool" where
  "media_type_matches casefold media_type pattern =
     (let normalized = strip (casefold pattern); candidate = strip (casefold media_type) in
      if normalized = [42, 47, 42] then True
      else if 2 \<le> length normalized \<and> drop (length normalized - 2) normalized = [47, 42]
      then take (length normalized - 1) candidate = butlast normalized
      else candidate = normalized)"

definition validate_attachment :: "(pytext \<Rightarrow> pytext) \<Rightarrow> attachment_content \<Rightarrow> delivery_profile \<Rightarrow> check" where
  "validate_attachment casefold item profile = first_error [
     raise_if (dp_attachments profile = UNSUPPORTED) DeliveryPlanningError,
     raise_if (source_kind (at_source item) \<notin> set (dp_attachment_sources profile)) DeliveryPlanningError,
     raise_if (source_kind (at_source item) = LOCAL_PATH \<and> at_size_bytes item = None) DeliveryPlanningError,
     raise_if (dp_max_attachment_size profile \<noteq> None \<and> at_size_bytes item = None) DeliveryPlanningError,
     (case (dp_max_attachment_size profile, at_size_bytes item) of
        (Some limit, Some n) \<Rightarrow> raise_if (n > limit) DeliveryPlanningError | _ \<Rightarrow> None),
     raise_if (dp_attachment_media_types profile \<noteq> [] \<and>
       \<not> list_ex (media_type_matches casefold (at_media_type item)) (dp_attachment_media_types profile))
       DeliveryPlanningError]"

definition positive_limit :: "int option \<Rightarrow> check" where
  "positive_limit = on_some (\<lambda>n. raise_if (n < 1) DeliveryPlanningError)"

definition validate_profile :: "delivery_profile \<Rightarrow> check" where
  "validate_profile profile = first_error [
     positive_limit (dp_max_text_length profile),
     positive_limit (dp_max_attachment_count profile),
     positive_limit (dp_max_attachment_size profile),
     positive_limit (dp_max_attachment_group_size profile),
     raise_if (\<not> distinct (dp_attachment_sources profile)) DeliveryPlanningError,
     raise_if (\<not> distinct (dp_attachment_media_types profile)) DeliveryPlanningError]"

section \<open>Grouping of attachments\<close>

type_synonym indexed_attachment = "int \<times> attachment_content"

definition group_size_check :: "int option \<Rightarrow> attachment_content \<Rightarrow> check" where
  "group_size_check size_limit item =
     (case size_limit of
        None \<Rightarrow> None
      | Some limit \<Rightarrow>
          (case at_size_bytes item of
             None \<Rightarrow> Some DeliveryPlanningError
           | Some n \<Rightarrow> raise_if (n > limit) DeliveryPlanningError))"

text \<open>Without grouping every attachment is a native group of its own.\<close>

fun single_groups ::
  "int option \<Rightarrow> int option \<Rightarrow> indexed_attachment list list \<Rightarrow> indexed_attachment list \<Rightarrow>
   indexed_attachment list list res" where
  "single_groups size_limit max_groups groups [] = Inr groups"
| "single_groups size_limit max_groups groups (attachment # rest) =
     checked (group_size_check size_limit (snd attachment))
       (checked (raise_if (chunks_exhausted max_groups groups) DeliveryPlanningError)
          (single_groups size_limit max_groups (groups @ [[attachment]]) rest))"

definition media_family :: "(pytext \<Rightarrow> pytext) \<Rightarrow> attachment_content \<Rightarrow> pytext" where
  "media_family casefold item = casefold (takeWhile (\<lambda>c. c \<noteq> 47) (at_media_type item))"

definition size_or_zero :: "attachment_content \<Rightarrow> int" where
  "size_or_zero item = (case at_size_bytes item of None \<Rightarrow> 0 | Some n \<Rightarrow> n)"

text \<open>The loop state: the finished groups, the current one, its size and its media family.\<close>

record group_state =
  gs_groups :: "indexed_attachment list list"
  gs_current :: "indexed_attachment list"
  gs_size :: int
  gs_family :: "pytext option"

definition close_group :: "int option \<Rightarrow> group_state \<Rightarrow> group_state res" where
  "close_group max_groups s =
     checked (raise_if (chunks_exhausted max_groups (gs_groups s)) DeliveryPlanningError)
       (Inr \<lparr>gs_groups = gs_groups s @ [gs_current s], gs_current = [], gs_size = 0, gs_family = None\<rparr>)"

definition group_full ::
  "(pytext \<Rightarrow> pytext) \<Rightarrow> delivery_profile \<Rightarrow> attachment_content \<Rightarrow> group_state \<Rightarrow> bool" where
  "group_full casefold profile item s \<longleftrightarrow> gs_current s \<noteq> [] \<and>
     (dp_attachment_grouping profile = SAME_MEDIA_FAMILY \<and> gs_family s \<noteq> None \<and>
        gs_family s \<noteq> Some (media_family casefold item)
      \<or> (case dp_max_attachment_count profile of None \<Rightarrow> False | Some n \<Rightarrow> int (length (gs_current s)) \<ge> n)
      \<or> (case dp_max_attachment_group_size profile of None \<Rightarrow> False
         | Some limit \<Rightarrow> gs_size s + size_or_zero item > limit))"

definition group_step ::
  "(pytext \<Rightarrow> pytext) \<Rightarrow> delivery_profile \<Rightarrow> int option \<Rightarrow> indexed_attachment \<Rightarrow> group_state \<Rightarrow> group_state res" where
  "group_step casefold profile max_groups attachment s =
     checked (group_size_check (dp_max_attachment_group_size profile) (snd attachment))
       (and_then (if group_full casefold profile (snd attachment) s then close_group max_groups s else Inr s)
          (\<lambda>s. Inr (s\<lparr>gs_current := gs_current s @ [attachment],
                       gs_size := gs_size s + size_or_zero (snd attachment),
                       gs_family := Some (media_family casefold (snd attachment))\<rparr>)))"

definition attachment_groups ::
  "(pytext \<Rightarrow> pytext) \<Rightarrow> delivery_profile \<Rightarrow> int option \<Rightarrow> indexed_attachment list \<Rightarrow>
   indexed_attachment list list res" where
  "attachment_groups casefold profile max_groups attachments =
     checked (on_some (\<lambda>m. raise_if (m < 1) DeliveryPlanningError) max_groups)
       (if dp_attachment_grouping profile = GROUPING_NONE
        then single_groups (dp_max_attachment_group_size profile) max_groups [] attachments
        else and_then
          (fold_res (group_step casefold profile max_groups) attachments
             \<lparr>gs_groups = [], gs_current = [], gs_size = 0, gs_family = None\<rparr>)
          (\<lambda>s. if gs_current s \<noteq> [] then and_then (close_group max_groups s) (\<lambda>s. Inr (gs_groups s))
               else Inr (gs_groups s)))"

section \<open>Planning\<close>

definition segment_metadata :: "outbound_message \<Rightarrow> int \<Rightarrow> (string, meta_value) dict" where
  "segment_metadata message n =
     dict_set (dict_set (om_metadata message) ''source_delivery_id'' (MetaJson (JStr (om_delivery_id message))))
       ''segment_index'' (MetaJson (JInt n))"

definition make_segment ::
  "outbound_message \<Rightarrow> delivery_profile \<Rightarrow> int \<Rightarrow> string \<Rightarrow> content list \<Rightarrow> int list \<Rightarrow> planned_segment" where
  "make_segment message profile segment_index segment_id contents source_indexes =
     \<lparr>ps_segment_index = segment_index, ps_source_content_indexes = source_indexes,
      ps_message = \<lparr>om_delivery_id = segment_id, om_conversation_ref = om_conversation_ref message,
        om_content = contents, om_created_at = om_created_at message,
        om_reply_to = (if segment_index = 0 \<or> dp_reply_reference_scope profile = EVERY_SEGMENT
                       then om_reply_to message else None),
        om_metadata = segment_metadata message segment_index\<rparr>\<rparr>"

definition append_segment ::
  "(string \<Rightarrow> string) \<Rightarrow> outbound_message \<Rightarrow> delivery_profile \<Rightarrow> int option \<Rightarrow>
   content list \<times> int list \<Rightarrow> planned_segment list \<Rightarrow> planned_segment list res" where
  "append_segment sha256 message profile max_segments piece segments =
     checked (raise_if (chunks_exhausted max_segments segments) DeliveryPlanningError)
       (and_then (derive_segment_delivery_id sha256 (om_conversation_ref message)
                    (om_delivery_id message) (int (length segments)))
          (\<lambda>segment_id. Inr (segments @
             [make_segment message profile (int (length segments)) segment_id (fst piece) (snd piece)])))"

definition segments_left :: "int option \<Rightarrow> planned_segment list \<Rightarrow> int option" where
  "segments_left max_segments segments = map_option (\<lambda>m. m - int (length segments)) max_segments"

definition group_piece :: "indexed_attachment list \<Rightarrow> content list \<times> int list" where
  "group_piece members = (map (AttachmentContent \<circ> snd) members, map fst members)"

definition flush_attachments ::
  "(string \<Rightarrow> string) \<Rightarrow> (pytext \<Rightarrow> pytext) \<Rightarrow> outbound_message \<Rightarrow> delivery_profile \<Rightarrow> int option \<Rightarrow>
   indexed_attachment list \<Rightarrow> planned_segment list \<Rightarrow> planned_segment list res" where
  "flush_attachments sha256 casefold message profile max_segments pending segments =
     (if pending = [] then Inr segments
      else and_then (attachment_groups casefold profile (segments_left max_segments segments) pending)
        (\<lambda>groups. fold_res (append_segment sha256 message profile max_segments)
           (map group_piece groups) segments))"

definition text_chunks :: "delivery_profile \<Rightarrow> int option \<Rightarrow> pytext \<Rightarrow> pytext list res" where
  "text_chunks profile max_chunks t =
     (case dp_max_text_length profile of
        None \<Rightarrow> Inr [t]
      | Some limit \<Rightarrow>
          and_then (text_length t (dp_text_length_unit profile)) (\<lambda>n.
            if int n \<le> limit then Inr [t]
            else split_text t limit (dp_text_length_unit profile) max_chunks))"

definition text_piece :: "text_format \<Rightarrow> int \<Rightarrow> pytext \<Rightarrow> content list \<times> int list" where
  "text_piece fmt source_index chunk = ([TextContent chunk fmt], [source_index])"

fun plan_items ::
  "(string \<Rightarrow> string) \<Rightarrow> (pytext \<Rightarrow> pytext) \<Rightarrow> (pytext \<Rightarrow> pytext) \<Rightarrow> outbound_message \<Rightarrow>
   delivery_profile \<Rightarrow> int option \<Rightarrow> (int \<times> content) list \<Rightarrow> indexed_attachment list \<Rightarrow>
   planned_segment list \<Rightarrow> planned_segment list res" where
  "plan_items sha256 casefold rewrite message profile max_segments [] pending segments =
     flush_attachments sha256 casefold message profile max_segments pending segments"
| "plan_items sha256 casefold rewrite message profile max_segments
     ((source_index, AttachmentContent item) # rest) pending segments =
     plan_items sha256 casefold rewrite message profile max_segments rest
       (pending @ [(source_index, item)]) segments"
| "plan_items sha256 casefold rewrite message profile max_segments
     ((source_index, TextContent t fmt) # rest) pending segments =
     and_then (flush_attachments sha256 casefold message profile max_segments pending segments) (\<lambda>segments.
     and_then (prepare_text rewrite t fmt profile) (\<lambda>(t, fmt).
     and_then (text_chunks profile (segments_left max_segments segments) t) (\<lambda>chunks.
     and_then (fold_res (append_segment sha256 message profile max_segments)
                 (map (text_piece fmt source_index) chunks) segments)
       (plan_items sha256 casefold rewrite message profile max_segments rest []))))"

fun content_check :: "(pytext \<Rightarrow> pytext) \<Rightarrow> delivery_profile \<Rightarrow> content \<Rightarrow> check" where
  "content_check casefold profile (TextContent t fmt) = None"
| "content_check casefold profile (AttachmentContent item) = validate_attachment casefold item profile"

definition plan ::
  "(string \<Rightarrow> string) \<Rightarrow> (pytext \<Rightarrow> pytext) \<Rightarrow> (pytext \<Rightarrow> pytext) \<Rightarrow> outbound_message \<Rightarrow>
   delivery_profile \<Rightarrow> int option \<Rightarrow> int option \<Rightarrow> delivery_plan res" where
  "plan sha256 casefold rewrite message profile max_source_items max_segments =
     checked (first_error [
       raise_if (om_delivery_id message = []) DeliveryPlanningError,
       raise_if (om_content message = []) DeliveryPlanningError,
       on_some (\<lambda>m. raise_if (m < 1) DeliveryPlanningError) max_source_items,
       on_some (\<lambda>m. raise_if (int (length (om_content message)) > m) DeliveryPlanningError) max_source_items,
       on_some (\<lambda>m. raise_if (m < 1) DeliveryPlanningError) max_segments,
       validate_profile profile,
       raise_if (om_reply_to message \<noteq> None \<and> dp_reply_references profile = UNSUPPORTED)
         DeliveryPlanningError,
       first_error (map (content_check casefold profile) (om_content message))])
     (and_then
        (plan_items sha256 casefold rewrite message profile max_segments
           (zip (map int [0..<length (om_content message)]) (om_content message)) [] [])
        (\<lambda>segments.
           if segments = [] then Inl DeliveryPlanningError
           else Inr \<lparr>pl_source_delivery_id = om_delivery_id message,
                     pl_conversation_ref = om_conversation_ref message,
                     pl_source_content_count = int (length (om_content message)),
                     pl_segments = segments\<rparr>))"

section \<open>The pieces of a message\<close>

text \<open>
  The specification of planning: the message is cut into pieces (a text chunk or a group of
  attachments, with the source indexes), without any bound on their number, and the pieces are
  then numbered. Bounds only accept or refuse the result.
\<close>

type_synonym piece = "content list \<times> int list"

definition attachment_pieces ::
  "(pytext \<Rightarrow> pytext) \<Rightarrow> delivery_profile \<Rightarrow> indexed_attachment list \<Rightarrow> piece list res" where
  "attachment_pieces casefold profile pending =
     (if pending = [] then Inr []
      else and_then (attachment_groups casefold profile None pending) (\<lambda>groups. Inr (map group_piece groups)))"

definition text_pieces ::
  "(pytext \<Rightarrow> pytext) \<Rightarrow> delivery_profile \<Rightarrow> int \<Rightarrow> pytext \<Rightarrow> text_format \<Rightarrow> piece list res" where
  "text_pieces rewrite profile source_index t fmt =
     and_then (prepare_text rewrite t fmt profile) (\<lambda>(t, fmt).
     and_then (text_chunks profile None t) (\<lambda>chunks. Inr (map (text_piece fmt source_index) chunks)))"

fun message_pieces ::
  "(pytext \<Rightarrow> pytext) \<Rightarrow> (pytext \<Rightarrow> pytext) \<Rightarrow> delivery_profile \<Rightarrow> (int \<times> content) list \<Rightarrow>
   indexed_attachment list \<Rightarrow> piece list res" where
  "message_pieces casefold rewrite profile [] pending = attachment_pieces casefold profile pending"
| "message_pieces casefold rewrite profile ((source_index, AttachmentContent item) # rest) pending =
     message_pieces casefold rewrite profile rest (pending @ [(source_index, item)])"
| "message_pieces casefold rewrite profile ((source_index, TextContent t fmt) # rest) pending =
     and_then (attachment_pieces casefold profile pending) (\<lambda>before.
     and_then (text_pieces rewrite profile source_index t fmt) (\<lambda>chunks.
     and_then (message_pieces casefold rewrite profile rest []) (\<lambda>after.
       Inr (before @ chunks @ after))))"

definition segment_id :: "(string \<Rightarrow> string) \<Rightarrow> outbound_message \<Rightarrow> nat \<Rightarrow> string" where
  "segment_id sha256 message n =
     hashed_identity sha256 ''imagent:delivery-segment:sha256:''
       (segment_identity (om_conversation_ref message) (om_delivery_id message) (int n))"

fun number_pieces ::
  "(string \<Rightarrow> string) \<Rightarrow> outbound_message \<Rightarrow> delivery_profile \<Rightarrow> nat \<Rightarrow> piece list \<Rightarrow> planned_segment list" where
  "number_pieces sha256 message profile n [] = []"
| "number_pieces sha256 message profile n (p # ps) =
     make_segment message profile (int n) (segment_id sha256 message n) (fst p) (snd p) #
     number_pieces sha256 message profile (Suc n) ps"

definition within :: "int option \<Rightarrow> nat \<Rightarrow> bool" where
  "within bound n \<longleftrightarrow> (case bound of None \<Rightarrow> True | Some m \<Rightarrow> int n \<le> m)"

lemma within_None [simp]: "within None n"
  by (simp add: within_def)

lemma within_mono: "within b n \<Longrightarrow> m \<le> n \<Longrightarrow> within b m"
  by (auto simp: within_def split: option.splits)

lemma exhausted_within: "\<not> chunks_exhausted b xs \<longleftrightarrow> within b (Suc (length xs))"
  by (auto simp: chunks_exhausted_def within_def split: option.splits)

lemma within_left: "within (segments_left b segments) n \<longleftrightarrow> within b (length segments + n)"
  by (auto simp: segments_left_def within_def split: option.splits)

lemma number_pieces_length [simp]: "length (number_pieces sha256 message profile n ps) = length ps"
  by (induction ps arbitrary: n) auto

lemma number_pieces_Nil [simp]: "number_pieces sha256 message profile n ps = [] \<longleftrightarrow> ps = []"
  by (cases ps) auto

lemma number_pieces_append:
  "number_pieces sha256 message profile n (ps @ qs) =
   number_pieces sha256 message profile n ps @ number_pieces sha256 message profile (n + length ps) qs"
  by (induction ps arbitrary: n) auto

lemma append_segment_eq:
  assumes "om_delivery_id message \<noteq> []"
  shows "append_segment sha256 message profile b piece segs =
    (if within b (Suc (length segs))
     then Inr (segs @ number_pieces sha256 message profile (length segs) [piece]) else Inl DeliveryPlanningError)"
  using assms exhausted_within [of b segs]
  by (auto simp: append_segment_def derive_segment_delivery_id_def segment_id_def checked_def raise_if_def)

lemma append_pieces:
  assumes "om_delivery_id message \<noteq> []"
  shows "within b (length segs) \<Longrightarrow>
    fold_res (append_segment sha256 message profile b) ps segs = Inr out \<longleftrightarrow>
    out = segs @ number_pieces sha256 message profile (length segs) ps \<and> within b (length out)"
proof (induction ps arbitrary: segs)
  case (Cons p ps)
  let ?s = "segs @ number_pieces sha256 message profile (length segs) [p]"
  show ?case
  proof (cases "within b (Suc (length segs))")
    case True
    with Cons.IH [of ?s] show ?thesis by (simp add: append_segment_eq [OF assms])
  next
    case False
    then have "\<not> within b (Suc (length segs + length ps))" using within_mono by fastforce
    with False show ?thesis by (auto simp: append_segment_eq [OF assms])
  qed
qed auto

subsection \<open>Grouping under a bound\<close>

lemma single_groups_bounded:
  "within b (length gs) \<Longrightarrow> single_groups limit b gs xs = Inr out \<longleftrightarrow>
   single_groups limit None gs xs = Inr out \<and> within b (length out)"
proof (induction xs arbitrary: gs)
  case (Cons x xs)
  have grows: "length gs \<le> length out" if "single_groups limit None gs xs = Inr out" for gs xs out
    using that by (induction xs arbitrary: gs) force+
  show ?case
  proof (cases "within b (Suc (length gs))")
    case True
    with Cons.IH [of "gs @ [[x]]"] exhausted_within [of b gs] show ?thesis
      by (auto simp: chunks_exhausted_def [of None])
  next
    case False
    have "Suc (length gs) \<le> length out" if "single_groups limit None (gs @ [[x]]) xs = Inr out"
      using grows [OF that] by simp
    with False exhausted_within [of b gs] show ?thesis
      using within_mono [of b "length out" "Suc (length gs)"] by auto
  qed
qed auto

lemma close_group_bounded:
  "close_group b s = Inr t \<longleftrightarrow> close_group None s = Inr t \<and> within b (length (gs_groups t))"
  using exhausted_within [of b "gs_groups s"] by (auto simp: close_group_def chunks_exhausted_def [of None])

lemma group_step_bounded:
  "within b (length (gs_groups s)) \<Longrightarrow> group_step casefold profile b x s = Inr t \<longleftrightarrow>
   group_step casefold profile None x s = Inr t \<and> within b (length (gs_groups t))"
  by (cases "group_full casefold profile (snd x) s") (auto simp: group_step_def close_group_bounded [of b s])

lemma group_step_grows: "group_step casefold profile b x s = Inr t \<Longrightarrow> length (gs_groups s) \<le> length (gs_groups t)"
  by (auto simp: group_step_def close_group_def split: if_splits)

lemma group_fold_grows:
  "fold_res (group_step casefold profile b) xs s = Inr t \<Longrightarrow> length (gs_groups s) \<le> length (gs_groups t)"
  by (induction xs arbitrary: s) (auto dest!: group_step_grows intro: le_trans)

lemma group_fold_bounded:
  "within b (length (gs_groups s)) \<Longrightarrow> fold_res (group_step casefold profile b) xs s = Inr t \<longleftrightarrow>
   fold_res (group_step casefold profile None) xs s = Inr t \<and> within b (length (gs_groups t))"
proof (induction xs arbitrary: s)
  case (Cons x xs)
  show ?case
  proof
    assume "fold_res (group_step casefold profile b) (x # xs) s = Inr t"
    then obtain u where u: "group_step casefold profile b x s = Inr u"
      "fold_res (group_step casefold profile b) xs u = Inr t" by auto
    with group_step_bounded [OF Cons.prems] Cons.IH [of u]
    show "fold_res (group_step casefold profile None) (x # xs) s = Inr t \<and> within b (length (gs_groups t))" by auto
  next
    assume "fold_res (group_step casefold profile None) (x # xs) s = Inr t \<and> within b (length (gs_groups t))"
    then obtain u where u: "group_step casefold profile None x s = Inr u"
      "fold_res (group_step casefold profile None) xs u = Inr t" "within b (length (gs_groups t))" by auto
    have "within b (length (gs_groups u))" using u(3) group_fold_grows [OF u(2)] by (rule within_mono)
    with u group_step_bounded [OF Cons.prems] Cons.IH [of u]
    show "fold_res (group_step casefold profile b) (x # xs) s = Inr t" by auto
  qed
qed auto

subsection \<open>What a group satisfies\<close>

definition group_fits :: "(pytext \<Rightarrow> pytext) \<Rightarrow> delivery_profile \<Rightarrow> attachment_content list \<Rightarrow> bool" where
  "group_fits casefold profile items \<longleftrightarrow> items \<noteq> [] \<and>
     (dp_attachment_grouping profile = GROUPING_NONE \<longrightarrow> length items = 1) \<and>
     within (dp_max_attachment_count profile) (length items) \<and>
     (case dp_max_attachment_group_size profile of
        None \<Rightarrow> True
      | Some limit \<Rightarrow> list_all (\<lambda>i. at_size_bytes i \<noteq> None) items \<and> sum_list (map size_or_zero items) \<le> limit) \<and>
     (dp_attachment_grouping profile = SAME_MEDIA_FAMILY \<longrightarrow>
        list_all (\<lambda>i. media_family casefold i = media_family casefold (hd items)) items)"

lemma group_fits_single:
  "validate_profile profile = None \<Longrightarrow> group_size_check (dp_max_attachment_group_size profile) item = None \<Longrightarrow>
   group_fits casefold profile [item]"
  by (auto simp: group_fits_def validate_profile_def positive_limit_def on_some_eq_None within_def
      group_size_check_def size_or_zero_def split: option.splits)

lemma single_groups_shape:
  "validate_profile profile = None \<Longrightarrow>
   single_groups (dp_max_attachment_group_size profile) b gs xs = Inr out \<Longrightarrow>
   \<exists>new. out = gs @ new \<and> concat new = xs \<and> (\<forall>g \<in> set new. group_fits casefold profile (map snd g))"
proof (induction xs arbitrary: gs)
  case (Cons x xs)
  have "single_groups (dp_max_attachment_group_size profile) b (gs @ [[x]]) xs = Inr out"
    using Cons.prems(2) by simp
  from Cons.IH [OF Cons.prems(1) this]
  obtain new where "out = (gs @ [[x]]) @ new" "concat new = xs"
    "\<forall>g \<in> set new. group_fits casefold profile (map snd g)" by blast
  moreover have "group_fits casefold profile (map snd [x])"
    using Cons.prems group_fits_single [of profile "snd x"] by simp
  ultimately show ?case by (intro exI [of _ "[x] # new"]) simp
qed simp

text \<open>The loop state keeps the size and family of a current group that fits.\<close>

definition current_ok :: "(pytext \<Rightarrow> pytext) \<Rightarrow> delivery_profile \<Rightarrow> group_state \<Rightarrow> bool" where
  "current_ok casefold profile s \<longleftrightarrow>
     gs_size s = sum_list (map (size_or_zero \<circ> snd) (gs_current s)) \<and>
     (gs_current s \<noteq> [] \<longrightarrow> group_fits casefold profile (map snd (gs_current s)) \<and>
        gs_family s = Some (media_family casefold (snd (last (gs_current s)))))"

lemma group_fits_snoc:
  assumes fits: "group_fits casefold profile items" and mode: "dp_attachment_grouping profile \<noteq> GROUPING_NONE"
    and size: "group_size_check (dp_max_attachment_group_size profile) item = None"
    and s: "gs_current s \<noteq> []" "items = map snd (gs_current s)"
      "gs_size s = sum_list (map (size_or_zero \<circ> snd) (gs_current s))"
      "gs_family s = Some (media_family casefold (last items))"
    and room: "\<not> group_full casefold profile item s"
  shows "group_fits casefold profile (items @ [item])"
proof -
  have ne: "items \<noteq> []" using fits by (simp add: group_fits_def)
  have len: "length items = length (gs_current s)" by (simp add: s)
  have sum: "gs_size s = sum_list (map size_or_zero items)" by (simp add: s)
  have "within (dp_max_attachment_count profile) (Suc (length items))"
    using room s(1) by (auto simp: group_full_def within_def len split: option.splits)
  moreover have "case dp_max_attachment_group_size profile of None \<Rightarrow> True
      | Some limit \<Rightarrow> list_all (\<lambda>i. at_size_bytes i \<noteq> None) (items @ [item]) \<and>
          sum_list (map size_or_zero (items @ [item])) \<le> limit"
  proof (cases "dp_max_attachment_group_size profile")
    case (Some limit)
    have "gs_size s + size_or_zero item \<le> limit" using room s(1) Some by (auto simp: group_full_def)
    moreover have "at_size_bytes item \<noteq> None"
      using size Some by (auto simp: group_size_check_def split: option.splits)
    ultimately show ?thesis using fits sum Some by (simp add: group_fits_def)
  qed simp
  moreover have "list_all (\<lambda>i. media_family casefold i = media_family casefold (hd items)) (items @ [item])"
    if fam: "dp_attachment_grouping profile = SAME_MEDIA_FAMILY"
  proof -
    have all: "list_all (\<lambda>i. media_family casefold i = media_family casefold (hd items)) items"
      using fits fam by (simp add: group_fits_def)
    then have "media_family casefold (last items) = media_family casefold (hd items)"
      using last_in_set [OF ne] unfolding list_all_iff by blast
    moreover have "media_family casefold item = media_family casefold (last items)"
      using room s(1) fam unfolding group_full_def s(4) by auto
    ultimately show ?thesis using all by (simp only: list_all_append list.pred_inject simp_thms)
  qed
  ultimately show ?thesis using mode ne by (simp add: group_fits_def)
qed

lemma group_step_shape:
  assumes ok: "validate_profile profile = None" and mode: "dp_attachment_grouping profile \<noteq> GROUPING_NONE"
    and cur: "current_ok casefold profile s"
    and old: "\<forall>g \<in> set (gs_groups s). group_fits casefold profile (map snd g)"
    and step: "group_step casefold profile b x s = Inr t"
  shows "current_ok casefold profile t \<and> (\<forall>g \<in> set (gs_groups t). group_fits casefold profile (map snd g)) \<and>
    concat (gs_groups t) @ gs_current t = (concat (gs_groups s) @ gs_current s) @ [x] \<and> gs_current t \<noteq> []"
proof -
  have size: "group_size_check (dp_max_attachment_group_size profile) (snd x) = None"
    using step by (simp add: group_step_def)
  have single: "group_fits casefold profile [snd x]" by (rule group_fits_single [OF ok size])
  show ?thesis
  proof (cases "gs_current s = [] \<or> group_full casefold profile (snd x) s")
    case True
    then show ?thesis
    proof
      assume empty: "gs_current s = []"
      then have "\<not> group_full casefold profile (snd x) s" by (simp add: group_full_def)
      with step empty cur old single show ?thesis by (auto simp: group_step_def current_ok_def)
    next
      assume full: "group_full casefold profile (snd x) s"
      then have "gs_current s \<noteq> []" by (simp add: group_full_def)
      with full step cur old single show ?thesis by (auto simp: group_step_def close_group_def current_ok_def)
    qed
  next
    case False
    then have cur': "group_fits casefold profile (map snd (gs_current s))"
      "gs_size s = sum_list (map (size_or_zero \<circ> snd) (gs_current s))"
      "gs_family s = Some (media_family casefold (last (map snd (gs_current s))))"
      using cur by (auto simp: current_ok_def last_map)
    have "group_fits casefold profile (map snd (gs_current s) @ [snd x])"
      by (rule group_fits_snoc [OF cur'(1) mode size _ refl cur'(2,3)]) (use False in auto)
    with False step cur'(2) old show ?thesis by (auto simp: group_step_def current_ok_def)
  qed
qed

lemma group_fold_shape:
  assumes ok: "validate_profile profile = None" and mode: "dp_attachment_grouping profile \<noteq> GROUPING_NONE"
  shows "current_ok casefold profile s \<Longrightarrow> \<forall>g \<in> set (gs_groups s). group_fits casefold profile (map snd g) \<Longrightarrow>
    fold_res (group_step casefold profile b) xs s = Inr t \<Longrightarrow>
    current_ok casefold profile t \<and> (\<forall>g \<in> set (gs_groups t). group_fits casefold profile (map snd g)) \<and>
    concat (gs_groups t) @ gs_current t = (concat (gs_groups s) @ gs_current s) @ xs \<and>
    (xs \<noteq> [] \<longrightarrow> gs_current t \<noteq> [])"
proof (induction xs arbitrary: s)
  case (Cons x xs)
  then obtain u where u: "group_step casefold profile b x s = Inr u"
    "fold_res (group_step casefold profile b) xs u = Inr t" by auto
  note step = group_step_shape [OF ok mode Cons.prems(1,2) u(1)]
  have "gs_current t \<noteq> []"
    using Cons.IH [OF _ _ u(2)] step u(2) by (cases xs) auto
  with Cons.IH [OF _ _ u(2)] step show ?case by auto
qed auto

lemma attachment_groups_shape:
  assumes ok: "validate_profile profile = None" and groups: "attachment_groups casefold profile b xs = Inr gs"
  shows "concat gs = xs" and "\<forall>g \<in> set gs. group_fits casefold profile (map snd g)"
proof -
  have "concat gs = xs \<and> (\<forall>g \<in> set gs. group_fits casefold profile (map snd g))"
  proof (cases "dp_attachment_grouping profile = GROUPING_NONE")
    case True
    then show ?thesis
      using groups single_groups_shape [OF ok, of b "[]" xs gs casefold] by (auto simp: attachment_groups_def)
  next
    case False
    let ?s = "\<lparr>gs_groups = [], gs_current = [], gs_size = 0, gs_family = None\<rparr>"
    obtain t where t: "fold_res (group_step casefold profile b) xs ?s = Inr t"
      "gs = (if gs_current t \<noteq> [] then gs_groups t @ [gs_current t] else gs_groups t)"
      using groups False by (auto simp: attachment_groups_def close_group_def split: if_splits)
    have "current_ok casefold profile ?s" by (simp add: current_ok_def)
    from group_fold_shape [OF ok False this _ t(1)] t(2) show ?thesis
      by (auto simp: current_ok_def split: if_splits)
  qed
  then show "concat gs = xs" "\<forall>g \<in> set gs. group_fits casefold profile (map snd g)" by blast+
qed

lemma positive_within: "on_some (\<lambda>m. raise_if (m < 1) DeliveryPlanningError) b = None \<longleftrightarrow> within b 1"
  by (cases b) (auto simp: within_def)

text \<open>The grouped loop ends with a current group to close, so grouping is a loop and one closing.\<close>

lemma attachment_groups_grouped:
  assumes ok: "validate_profile profile = None" and mode: "dp_attachment_grouping profile \<noteq> GROUPING_NONE"
    and xs: "xs \<noteq> []"
  shows "attachment_groups casefold profile b xs = Inr gs \<longleftrightarrow> within b 1 \<and>
    (\<exists>t u. fold_res (group_step casefold profile b) xs
        \<lparr>gs_groups = [], gs_current = [], gs_size = 0, gs_family = None\<rparr> = Inr t \<and>
      close_group b t = Inr u \<and> gs_groups u = gs)"
proof -
  have "gs_current t \<noteq> []" if "fold_res (group_step casefold profile b) xs
      \<lparr>gs_groups = [], gs_current = [], gs_size = 0, gs_family = None\<rparr> = Inr t" for t
    using group_fold_shape [OF ok mode _ _ that] xs by (simp add: current_ok_def)
  then show ?thesis using mode by (auto simp: attachment_groups_def positive_within)
qed

lemma attachment_groups_bounded:
  assumes ok: "validate_profile profile = None" and xs: "xs \<noteq> []"
  shows "attachment_groups casefold profile b xs = Inr gs \<longleftrightarrow>
    attachment_groups casefold profile None xs = Inr gs \<and> within b (length gs)"
proof -
  have one: "within b 1" if "attachment_groups casefold profile None xs = Inr gs" "within b (length gs)"
  proof -
    have "1 \<le> length gs" using attachment_groups_shape(1) [OF ok that(1)] xs by (cases gs) auto
    with that(2) show ?thesis by (rule within_mono)
  qed
  have zero: "within b 1 \<Longrightarrow> within b 0" using within_mono [of b 1 0] by simp
  show ?thesis
  proof (cases "dp_attachment_grouping profile = GROUPING_NONE")
    case True
    have "attachment_groups casefold profile c xs = Inr gs \<longleftrightarrow>
        within c 1 \<and> single_groups (dp_max_attachment_group_size profile) c [] xs = Inr gs" for c
      using True by (simp add: attachment_groups_def positive_within)
    then show ?thesis
      using single_groups_bounded [of b "[]" "dp_max_attachment_group_size profile" xs gs] one zero by auto
  next
    case False
    let ?s = "\<lparr>gs_groups = [], gs_current = [], gs_size = 0, gs_family = None\<rparr> :: group_state"
    note grouped = attachment_groups_grouped [OF ok False xs]
    have fold: "fold_res (group_step casefold profile b) xs ?s = Inr t \<longleftrightarrow>
        fold_res (group_step casefold profile None) xs ?s = Inr t \<and> within b (length (gs_groups t))"
      if "within b 0" for t
      using that by (intro group_fold_bounded) simp
    show ?thesis
    proof
      assume "attachment_groups casefold profile b xs = Inr gs"
      then obtain t u where "within b 1" "fold_res (group_step casefold profile b) xs ?s = Inr t"
        "close_group b t = Inr u" "gs_groups u = gs" using grouped by blast
      with fold [OF zero] close_group_bounded [of b t u]
      show "attachment_groups casefold profile None xs = Inr gs \<and> within b (length gs)"
        unfolding grouped by auto
    next
      assume r: "attachment_groups casefold profile None xs = Inr gs \<and> within b (length gs)"
      then obtain t u where tu: "fold_res (group_step casefold profile None) xs ?s = Inr t"
        "close_group None t = Inr u" "gs_groups u = gs" using grouped by blast
      have "length (gs_groups t) \<le> length gs" using tu(2,3) by (auto simp: close_group_def)
      then have "within b (length (gs_groups t))" using r within_mono by blast
      with tu r one fold [OF zero] close_group_bounded [of b t u]
      show "attachment_groups casefold profile b xs = Inr gs" unfolding grouped by auto
    qed
  qed
qed

lemma text_chunks_bounded:
  assumes ok: "validate_profile profile = None" and b: "within b 1"
  shows "text_chunks profile b t = Inr cs \<longleftrightarrow> text_chunks profile None t = Inr cs \<and> within b (length cs)"
proof -
  have split: "split_text t limit unit b = Inr cs \<longleftrightarrow> split_text t limit unit None = Inr cs \<and> within b (length cs)"
    if "1 \<le> limit" for limit unit
  proof (cases b)
    case (Some m)
    have m: "1 \<le> m" using b Some by (simp add: within_def)
    show ?thesis
    proof (cases "encodable unit (strip t)")
      case True
      then show ?thesis
        using that m split_loop_bounded [OF True stripped_strip that, of "[]" m]
        by (auto simp: split_text_def Let_def Some within_def split: sum.splits)
    next
      case False
      then show ?thesis using m by (simp add: split_text_def Let_def Some split_loop_unencodable)
    qed
  qed simp
  show ?thesis
  proof (cases "dp_max_text_length profile")
    case None
    then show ?thesis using b by (auto simp: text_chunks_def)
  next
    case (Some limit)
    then have "1 \<le> limit" using ok by (auto simp: validate_profile_def positive_limit_def)
    then show ?thesis using split [of limit] b by (auto simp: text_chunks_def Some)
  qed
qed

text \<open>Planning is numbering the pieces, if their number is within the bound.\<close>

lemma flush_pieces:
  assumes ok: "validate_profile profile = None" and id: "om_delivery_id message \<noteq> []"
    and b: "within b (length segs)"
  shows "flush_attachments sha256 casefold message profile b pending segs = Inr out \<longleftrightarrow>
    (\<exists>ps. attachment_pieces casefold profile pending = Inr ps \<and>
       out = segs @ number_pieces sha256 message profile (length segs) ps \<and> within b (length out))"
proof (cases "pending = []")
  case True
  then show ?thesis using b by (auto simp: flush_attachments_def attachment_pieces_def)
next
  case False
  have "flush_attachments sha256 casefold message profile b pending segs = Inr out \<longleftrightarrow>
      (\<exists>gs. attachment_groups casefold profile (segments_left b segs) pending = Inr gs \<and>
        out = segs @ number_pieces sha256 message profile (length segs) (map group_piece gs) \<and> within b (length out))"
    using False by (simp add: flush_attachments_def append_pieces [OF id b])
  also have "\<dots> \<longleftrightarrow> (\<exists>gs. attachment_groups casefold profile None pending = Inr gs \<and>
        out = segs @ number_pieces sha256 message profile (length segs) (map group_piece gs) \<and> within b (length out))"
    by (subst attachment_groups_bounded [OF ok False]) (auto simp: within_left)
  finally show ?thesis using False by (auto simp: attachment_pieces_def)
qed

lemma text_chunks_ne:
  assumes "text_chunks profile b t = Inr cs"
  shows "cs \<noteq> []"
proof (cases "dp_max_text_length profile")
  case None
  then show ?thesis using assms by (auto simp: text_chunks_def)
next
  case (Some limit)
  with assms consider "cs = [t]" | "split_text t limit (dp_text_length_unit profile) b = Inr cs"
    by (auto simp: text_chunks_def split: if_splits)
  then show ?thesis using split_text_chunks by cases auto
qed

text \<open>The chunks of one text item, under what is left of the bound.\<close>

lemma append_chunks:
  assumes ok: "validate_profile profile = None" and id: "om_delivery_id message \<noteq> []"
    and b: "within b (length segs)"
  shows "(\<exists>cs. text_chunks profile (segments_left b segs) t = Inr cs \<and>
      fold_res (append_segment sha256 message profile b) (map (text_piece fmt i) cs) segs = Inr out) \<longleftrightarrow>
    (\<exists>cs. text_chunks profile None t = Inr cs \<and> within b (length out) \<and>
      out = segs @ number_pieces sha256 message profile (length segs) (map (text_piece fmt i) cs))"
proof (cases "within b (Suc (length segs))")
  case True
  then have "within (segments_left b segs) 1" by (simp add: within_left)
  from text_chunks_bounded [OF ok this] show ?thesis
    by (auto simp: append_pieces [OF id b] within_left)
next
  case False
  have "\<not> within b (length segs + length cs)" if "text_chunks profile c t = Inr cs" for c cs
  proof
    assume "within b (length segs + length cs)"
    moreover have "Suc (length segs) \<le> length segs + length cs" using text_chunks_ne [OF that] by (cases cs) auto
    ultimately show False using False within_mono by blast
  qed
  then show ?thesis by (auto simp: append_pieces [OF id b])
qed

lemma plan_items_pieces:
  assumes ok: "validate_profile profile = None" and id: "om_delivery_id message \<noteq> []"
  shows "within b (length segs) \<Longrightarrow>
    plan_items sha256 casefold rewrite message profile b items pending segs = Inr out \<longleftrightarrow>
    (\<exists>ps. message_pieces casefold rewrite profile items pending = Inr ps \<and>
       out = segs @ number_pieces sha256 message profile (length segs) ps \<and> within b (length out))"
  using ok
proof (induction casefold rewrite profile items pending arbitrary: segs rule: message_pieces.induct)
  case (1 casefold rewrite profile pending)
  show ?case using flush_pieces [OF 1(2) id 1(1)] by simp
next
  case (2 casefold rewrite profile source_index item rest pending)
  then show ?case by simp
next
  case (3 casefold rewrite profile i t fmt rest pending)
  note flush = flush_pieces [OF 3(3) id]
  let ?N = "number_pieces sha256 message profile"
  show ?case
  proof
    assume "plan_items sha256 casefold rewrite message profile b ((i, TextContent t fmt) # rest) pending segs = Inr out"
    then obtain s1 t' f' cs s2 where
      s1: "flush_attachments sha256 casefold message profile b pending segs = Inr s1"
      and prep: "prepare_text rewrite t fmt profile = Inr (t', f')"
      and cs: "text_chunks profile (segments_left b s1) t' = Inr cs"
        "fold_res (append_segment sha256 message profile b) (map (text_piece f' i) cs) s1 = Inr s2"
      and rest: "plan_items sha256 casefold rewrite message profile b rest [] s2 = Inr out"
      by auto
    obtain ps1 where ps1: "attachment_pieces casefold profile pending = Inr ps1"
      "s1 = segs @ ?N (length segs) ps1" "within b (length s1)" using s1 flush [OF 3(2)] by blast
    obtain cs' where cs': "text_chunks profile None t' = Inr cs'" "within b (length s2)"
      "s2 = s1 @ ?N (length s1) (map (text_piece f' i) cs')"
      using append_chunks [OF 3(3) id ps1(3), of t' sha256 f' i s2] cs by blast
    have pieces: "text_pieces rewrite profile i t fmt = Inr (map (text_piece f' i) cs')"
      by (simp add: text_pieces_def prep cs'(1))
    obtain ps3 where ps3: "message_pieces casefold rewrite profile rest [] = Inr ps3"
      "out = s2 @ ?N (length s2) ps3" "within b (length out)"
      using 3(1) [OF cs'(2) 3(3)] rest by blast
    show "\<exists>ps. message_pieces casefold rewrite profile ((i, TextContent t fmt) # rest) pending = Inr ps \<and>
        out = segs @ ?N (length segs) ps \<and> within b (length out)"
      using ps1 pieces cs'(3) ps3 by (auto simp: number_pieces_append add.assoc)
  next
    assume "\<exists>ps. message_pieces casefold rewrite profile ((i, TextContent t fmt) # rest) pending = Inr ps \<and>
        out = segs @ ?N (length segs) ps \<and> within b (length out)"
    then obtain ps1 t' f' cs ps3 where ps1: "attachment_pieces casefold profile pending = Inr ps1"
      and prep: "prepare_text rewrite t fmt profile = Inr (t', f')" and cs: "text_chunks profile None t' = Inr cs"
      and ps3: "message_pieces casefold rewrite profile rest [] = Inr ps3"
      and out: "out = segs @ ?N (length segs) (ps1 @ map (text_piece f' i) cs @ ps3)" "within b (length out)"
      by (auto simp: text_pieces_def)
    define s1 where "s1 = segs @ ?N (length segs) ps1"
    define s2 where "s2 = s1 @ ?N (length s1) (map (text_piece f' i) cs)"
    have out': "out = s2 @ ?N (length s2) ps3"
      by (simp add: out(1) s1_def s2_def number_pieces_append add.assoc)
    have w2: "within b (length s2)" using out(2) by (rule within_mono) (simp add: out')
    have w1: "within b (length s1)" using w2 by (rule within_mono) (simp add: s2_def)
    have pieces: "text_pieces rewrite profile i t fmt = Inr (map (text_piece f' i) cs)"
      by (simp add: text_pieces_def prep cs)
    have "flush_attachments sha256 casefold message profile b pending segs = Inr s1"
      using flush [OF 3(2)] ps1 w1 s1_def by blast
    moreover obtain cs' where "text_chunks profile (segments_left b s1) t' = Inr cs'"
      "fold_res (append_segment sha256 message profile b) (map (text_piece f' i) cs') s1 = Inr s2"
      using append_chunks [OF 3(3) id w1, of t' sha256 f' i s2] cs w2 s2_def by blast
    moreover have "plan_items sha256 casefold rewrite message profile b rest [] s2 = Inr out"
      using 3(1) [OF w2 3(3)] ps3 out' out(2) by blast
    ultimately show "plan_items sha256 casefold rewrite message profile b ((i, TextContent t fmt) # rest) pending segs = Inr out"
      using prep by auto
  qed
qed

section \<open>What the pieces contain\<close>

fun is_attachment :: "content \<Rightarrow> bool" where
  "is_attachment (AttachmentContent item) \<longleftrightarrow> True"
| "is_attachment (TextContent t fmt) \<longleftrightarrow> False"

fun attachments_of :: "content list \<Rightarrow> attachment_content list" where
  "attachments_of [] = []"
| "attachments_of (AttachmentContent item # rest) = item # attachments_of rest"
| "attachments_of (TextContent t fmt # rest) = attachments_of rest"

definition chunk_fits :: "delivery_profile \<Rightarrow> pytext \<Rightarrow> bool" where
  "chunk_fits profile c \<longleftrightarrow> strip c \<noteq> [] \<and>
     (case dp_max_text_length profile of
        None \<Rightarrow> True
      | Some limit \<Rightarrow> (case text_length c (dp_text_length_unit profile) of Inl e \<Rightarrow> False | Inr n \<Rightarrow> int n \<le> limit))"

text \<open>
  A piece fits the channel: one chunk of a text item in a format the channel supports, or a group
  of attachments that fits, each the source item at its index.
\<close>

definition piece_fits ::
  "(pytext \<Rightarrow> pytext) \<Rightarrow> (pytext \<Rightarrow> pytext) \<Rightarrow> delivery_profile \<Rightarrow> content list \<Rightarrow> piece \<Rightarrow> bool" where
  "piece_fits casefold rewrite profile source p =
     (case p of
        ([TextContent c f], [i]) \<Rightarrow>
          (case source ! nat i of
             AttachmentContent item \<Rightarrow> False
           | TextContent t fmt \<Rightarrow>
               (case prepare_text rewrite t fmt profile of
                  Inl e \<Rightarrow> False | Inr (t', f') \<Rightarrow> f = f' \<and> chunk_fits profile c))
      | (contents, indexes) \<Rightarrow>
          map (\<lambda>i. source ! nat i) indexes = contents \<and> list_all is_attachment contents \<and>
          group_fits casefold profile (attachments_of contents))"

fun texts_at :: "int \<Rightarrow> piece \<Rightarrow> pytext list" where
  "texts_at i ([TextContent c f], [j]) = (if i = j then [c] else [])"
| "texts_at i _ = []"

definition chunks_at :: "int \<Rightarrow> piece list \<Rightarrow> pytext list" where
  "chunks_at i ps = concat (map (texts_at i) ps)"

lemma chunks_at_simps [simp]:
  "chunks_at i [] = []" "chunks_at i (p # ps) = texts_at i p @ chunks_at i ps"
  "chunks_at i (ps @ qs) = chunks_at i ps @ chunks_at i qs"
  by (simp_all add: chunks_at_def)

lemma attachments_of_map [simp]: "attachments_of (map (AttachmentContent \<circ> snd) g) = map snd g"
  by (induction g) auto

lemma texts_at_group [simp]: "texts_at i (group_piece g) = []"
  by (cases g rule: remdups_adj.cases) (auto simp: group_piece_def)

lemma texts_at_other: "i \<notin> set (snd p) \<Longrightarrow> texts_at i p = []"
  by (cases "(i, p)" rule: texts_at.cases) auto

lemma chunks_at_other: "i \<notin> set (concat (map snd ps)) \<Longrightarrow> chunks_at i ps = []"
  by (induction ps) (auto simp: texts_at_other)

lemma chunks_at_text [simp]: "chunks_at i (map (text_piece f j) cs) = (if i = j then cs else [])"
  by (induction cs) (auto simp: text_piece_def)

subsection \<open>Chunks of one text\<close>

lemma strip_idem [simp]: "strip (strip t) = strip t"
  by (rule strip_stripped [OF stripped_strip])

lemma prepare_text_nonblank: "prepare_text rewrite t fmt profile = Inr (t', f') \<Longrightarrow> strip t' \<noteq> []"
  by (auto simp: prepare_text_def markdown_to_plain_def Let_def split: if_splits)

lemma text_chunks_shape:
  assumes "text_chunks profile b t = Inr cs" and "strip t \<noteq> []"
  shows "list_all (chunk_fits profile) cs \<and> (cs = [t] \<or> spaced cs t)"
proof (cases "dp_max_text_length profile")
  case None
  with assms show ?thesis by (auto simp: text_chunks_def chunk_fits_def)
next
  case (Some limit)
  let ?unit = "dp_text_length_unit profile"
  obtain n where n: "text_length t ?unit = Inr n" using assms(1) Some by (auto simp: text_chunks_def)
  show ?thesis
  proof (cases "int n \<le> limit")
    case True
    with assms Some n show ?thesis by (auto simp: text_chunks_def chunk_fits_def)
  next
    case False
    with assms Some n have "split_text t limit ?unit b = Inr cs" by (auto simp: text_chunks_def)
    from split_text_chunks [OF this] Some show ?thesis
      by (auto simp: list_all_iff chunk_fits_def chunk_ok_def strip_stripped text_length_width)
  qed
qed

lemma text_pieces_shape:
  assumes pieces: "text_pieces rewrite profile i t fmt = Inr ps"
    and source: "source ! nat i = TextContent t fmt"
  obtains t' f' cs where "prepare_text rewrite t fmt profile = Inr (t', f')" "ps = map (text_piece f' i) cs"
    "cs = [t'] \<or> spaced cs t'" "cs \<noteq> []" "list_all (piece_fits casefold rewrite profile source) ps"
proof -
  obtain t' f' cs where cs: "prepare_text rewrite t fmt profile = Inr (t', f')" "text_chunks profile None t' = Inr cs"
    "ps = map (text_piece f' i) cs" using pieces by (auto simp: text_pieces_def)
  have "list_all (piece_fits casefold rewrite profile source) ps"
    using text_chunks_shape [OF cs(2) prepare_text_nonblank [OF cs(1)]] cs(1,3) source
    by (auto simp: list_all_iff piece_fits_def text_piece_def)
  with cs text_chunks_shape [OF cs(2) prepare_text_nonblank [OF cs(1)]] text_chunks_ne [OF cs(2)] that
  show thesis by blast
qed

subsection \<open>Groups of attachments\<close>

definition aligned :: "content list \<Rightarrow> (int \<times> content) list \<Rightarrow> bool" where
  "aligned source items \<longleftrightarrow> (\<forall>(i, c) \<in> set items. source ! nat i = c)"

definition as_items :: "indexed_attachment list \<Rightarrow> (int \<times> content) list" where
  "as_items pending = map (\<lambda>(i, item). (i, AttachmentContent item)) pending"

lemma as_items_simps [simp]:
  "map fst (as_items pending) = map fst pending" "map snd (as_items pending) = map (AttachmentContent \<circ> snd) pending"
  "as_items (xs @ ys) = as_items xs @ as_items ys" "as_items [(i, item)] = [(i, AttachmentContent item)]"
  by (auto simp: as_items_def)

lemma group_piece_fits:
  assumes "group_fits casefold profile (map snd g)" and "aligned source (as_items g)"
  shows "piece_fits casefold rewrite profile source (group_piece g)"
proof -
  have "map (\<lambda>i. source ! nat i) (map fst g) = map (AttachmentContent \<circ> snd) g"
    using assms(2) by (auto simp: aligned_def as_items_def)
  moreover have "list_all is_attachment (map (AttachmentContent \<circ> snd) g)" by (simp add: list_all_iff)
  ultimately show ?thesis
    using assms(1) by (cases g rule: remdups_adj.cases) (auto simp: piece_fits_def group_piece_def)
qed

lemma attachment_pieces_shape:
  assumes ok: "validate_profile profile = None"
    and pieces: "attachment_pieces casefold profile pending = Inr ps"
    and source: "aligned source (as_items pending)"
  shows "list_all (piece_fits casefold rewrite profile source) ps"
    and "concat (map fst ps) = map (AttachmentContent \<circ> snd) pending"
    and "concat (map snd ps) = map fst pending" and "chunks_at i ps = []"
proof -
  obtain gs where gs: "ps = map group_piece gs" "concat gs = pending"
    "\<forall>g \<in> set gs. group_fits casefold profile (map snd g)"
  proof (cases "pending = []")
    case True
    with pieces that [of "[]"] show thesis by (simp add: attachment_pieces_def)
  next
    case False
    then obtain gs where "attachment_groups casefold profile None pending = Inr gs" "ps = map group_piece gs"
      using pieces by (auto simp: attachment_pieces_def)
    with attachment_groups_shape [OF ok] that show thesis by blast
  qed
  have "aligned source (as_items g)" if "g \<in> set gs" for g
    using source that by (auto simp: aligned_def as_items_def gs(2) [symmetric])
  then show "list_all (piece_fits casefold rewrite profile source) ps"
    using gs(1,3) group_piece_fits by (auto simp: list_all_iff)
  show "concat (map fst ps) = map (AttachmentContent \<circ> snd) pending" "concat (map snd ps) = map fst pending"
    unfolding gs(1) gs(2) [symmetric] by (induction gs) (auto simp: group_piece_def)
  show "chunks_at i ps = []" unfolding gs(1) by (induction gs) auto
qed

subsection \<open>The whole message\<close>

text \<open>The chunks planned for a text item are the item's prepared text, whole or split.\<close>

definition text_covered ::
  "(pytext \<Rightarrow> pytext) \<Rightarrow> delivery_profile \<Rightarrow> content \<Rightarrow> pytext list \<Rightarrow> bool" where
  "text_covered rewrite profile c chunks =
     (case c of
        AttachmentContent item \<Rightarrow> True
      | TextContent t fmt \<Rightarrow>
          (case prepare_text rewrite t fmt profile of
             Inl e \<Rightarrow> False | Inr (t', f') \<Rightarrow> chunks = [t'] \<or> spaced chunks t'))"

lemma sorted_indexes:
  assumes "sorted_wrt (<) (xs @ i # ys)" "sorted zs" "set zs = set ys" "n \<noteq> 0"
  shows "sorted (xs @ replicate n i @ zs)" and "set (xs @ replicate n i @ zs) = set (xs @ i # ys)"
proof -
  have "sorted xs" using assms(1) by (auto simp: sorted_wrt_append intro: strict_sorted_imp_sorted)
  with assms show "sorted (xs @ replicate n i @ zs)"
    by (force simp: sorted_append sorted_wrt_append)
  show "set (xs @ replicate n i @ zs) = set (xs @ i # ys)" using assms by auto
qed

lemma concat_text_indexes: "concat (map snd (map (text_piece f i) cs)) = replicate (length cs) i"
  by (induction cs) (auto simp: text_piece_def)

lemma filter_text_pieces: "filter is_attachment (concat (map fst (map (text_piece f i) cs))) = []"
  by (induction cs) (auto simp: text_piece_def)

lemma filter_attachments: "filter is_attachment (map (AttachmentContent \<circ> snd) pending) = map (AttachmentContent \<circ> snd) pending"
  by (simp add: filter_True)

lemma message_pieces_shape:
  "validate_profile profile = None \<Longrightarrow> message_pieces casefold rewrite profile items pending = Inr ps \<Longrightarrow>
   aligned source (as_items pending @ items) \<Longrightarrow> sorted_wrt (<) (map fst pending @ map fst items) \<Longrightarrow>
   list_all (piece_fits casefold rewrite profile source) ps \<and>
   filter is_attachment (concat (map fst ps)) =
     map (AttachmentContent \<circ> snd) pending @ filter is_attachment (map snd items) \<and>
   sorted (concat (map snd ps)) \<and> set (concat (map snd ps)) = set (map fst pending @ map fst items) \<and>
   (\<forall>(i, c) \<in> set items. text_covered rewrite profile c (chunks_at i ps))"
proof (induction casefold rewrite profile items pending arbitrary: ps rule: message_pieces.induct)
  case (1 casefold rewrite profile pending)
  have at: "aligned source (as_items pending)" using 1(3) by simp
  have "attachment_pieces casefold profile pending = Inr ps" using 1(2) by simp
  note shape = attachment_pieces_shape [OF 1(1) this at]
  show ?case
    using shape(1) [of rewrite] shape(2,3) 1(4)
    by (simp add: filter_attachments strict_sorted_imp_sorted)
next
  case (2 casefold rewrite profile i item rest pending)
  from 2(1) [OF 2(2)] 2(3-) show ?case by (simp add: text_covered_def)
next
  case (3 casefold rewrite profile i t fmt rest pending)
  obtain ps1 ps2 ps3 where ps: "attachment_pieces casefold profile pending = Inr ps1"
    "text_pieces rewrite profile i t fmt = Inr ps2" "message_pieces casefold rewrite profile rest [] = Inr ps3"
    "ps = ps1 @ ps2 @ ps3" using 3(3) by auto
  have at: "aligned source (as_items pending)" "source ! nat i = TextContent t fmt" "aligned source ([] @ rest)"
    using 3(4) by (auto simp: aligned_def)
  have order: "sorted_wrt (<) (map fst pending @ i # map fst rest)" using 3(5) by simp
  note s1 = attachment_pieces_shape [OF 3(2) ps(1) at(1)]
  obtain t' f' cs where s2: "prepare_text rewrite t fmt profile = Inr (t', f')" "ps2 = map (text_piece f' i) cs"
    "cs = [t'] \<or> spaced cs t'" "cs \<noteq> []" "list_all (piece_fits casefold rewrite profile source) ps2"
    using text_pieces_shape [OF ps(2) at(2)] by blast
  have s3: "list_all (piece_fits casefold rewrite profile source) ps3"
    "filter is_attachment (concat (map fst ps3)) = filter is_attachment (map snd rest)"
    "sorted (concat (map snd ps3))" "set (concat (map snd ps3)) = set (map fst rest)"
    "\<forall>(j, c) \<in> set rest. text_covered rewrite profile c (chunks_at j ps3)"
    using 3(1) [OF 3(2) ps(3)] at(3) order by (auto simp: as_items_def sorted_wrt_append)
  have ix: "concat (map snd ps) = map fst pending @ replicate (length cs) i @ concat (map snd ps3)"
    unfolding ps(4) s2(2) map_append concat_append concat_text_indexes s1(3) by simp
  have fits: "list_all (piece_fits casefold rewrite profile source) ps"
    using s1(1) s2(5) s3(1) by (simp add: ps(4))
  have att: "filter is_attachment (concat (map fst ps)) =
      map (AttachmentContent \<circ> snd) pending @ filter is_attachment (map snd ((i, TextContent t fmt) # rest))"
    unfolding ps(4) s2(2) map_append concat_append filter_append filter_text_pieces s1(2) s3(2) filter_attachments
    by simp
  have not_later: "i \<notin> set (concat (map snd ps3))" unfolding s3(4) using order by (auto simp: sorted_wrt_append)
  have here: "chunks_at i ps = cs" using s1(4) chunks_at_other [OF not_later] by (simp add: ps(4) s2(2))
  have later: "chunks_at j ps = chunks_at j ps3" if "(j, c) \<in> set rest" for j c
  proof -
    have "i < j" using order that by (force simp: sorted_wrt_append)
    then show ?thesis using s1(4) by (simp add: ps(4) s2(2))
  qed
  have "text_covered rewrite profile (TextContent t fmt) (chunks_at i ps)"
    unfolding here using s2(1,3) by (simp add: text_covered_def)
  moreover have "\<forall>(j, c) \<in> set rest. text_covered rewrite profile c (chunks_at j ps)"
    using s3(5) later by (auto split: prod.splits)
  moreover have "sorted (concat (map snd ps))" "set (concat (map snd ps)) = set (map fst pending @ i # map fst rest)"
    unfolding ix by (rule sorted_indexes [OF order s3(3,4)]; use s2(4) in simp)+
  ultimately show ?case using fits att by simp
qed

text \<open>What a successful plan is: the pieces of the message, numbered, within the bound.\<close>

definition message_items :: "outbound_message \<Rightarrow> (int \<times> content) list" where
  "message_items message = zip (map int [0..<length (om_content message)]) (om_content message)"

lemma message_items_simps:
  "map fst (message_items message) = map int [0..<length (om_content message)]"
  "map snd (message_items message) = om_content message"
  "aligned (om_content message) (message_items message)"
  by (auto simp: message_items_def aligned_def in_set_zip)

lemma plan_pieces:
  assumes "plan sha256 casefold rewrite message profile max_source_items max_segments = Inr p"
  obtains ps where "message_pieces casefold rewrite profile (message_items message) [] = Inr ps"
    "pl_segments p = number_pieces sha256 message profile 0 ps" "ps \<noteq> []" "within max_segments (length ps)"
    "validate_profile profile = None" "om_delivery_id message \<noteq> []"
    "pl_conversation_ref p = om_conversation_ref message" "pl_source_delivery_id p = om_delivery_id message"
    "pl_source_content_count p = int (length (om_content message))"
    "list_all (\<lambda>c. content_check casefold profile c = None) (om_content message)"
proof -
  have pre: "validate_profile profile = None" "om_delivery_id message \<noteq> []"
      "on_some (\<lambda>m. raise_if (m < 1) DeliveryPlanningError) max_segments = None"
      "\<forall>c \<in> set (om_content message). content_check casefold profile c = None"
    and items: "plan_items sha256 casefold rewrite message profile max_segments (message_items message) [] [] = Inr (pl_segments p)"
    and rest: "pl_segments p \<noteq> []" "pl_conversation_ref p = om_conversation_ref message"
      "pl_source_delivery_id p = om_delivery_id message" "pl_source_content_count p = int (length (om_content message))"
    using assms unfolding plan_def message_items_def by (auto split: if_splits)
  have zero: "within max_segments 0" using pre(3) positive_within within_mono [of max_segments 1 0] by simp
  obtain ps where ps: "message_pieces casefold rewrite profile (message_items message) [] = Inr ps"
    "pl_segments p = number_pieces sha256 message profile 0 ps" "within max_segments (length ps)"
    using plan_items_pieces [OF pre(1,2), of max_segments "[]"] zero items by auto
  have "ps \<noteq> []" using rest(1) ps(2) by auto
  from that [OF ps(1,2) this ps(3) pre(1,2) rest(2-4)] pre(4) show thesis by (auto simp: list_all_iff)
qed

section \<open>Correctness of planning\<close>

definition segment_piece :: "planned_segment \<Rightarrow> piece" where
  "segment_piece seg = (om_content (ps_message seg), ps_source_content_indexes seg)"

lemma segment_piece_number [simp]:
  "map segment_piece (number_pieces sha256 message profile n ps) = ps"
  by (induction ps arbitrary: n) (auto simp: segment_piece_def make_segment_def)

lemma number_pieces_maps:
  "map ps_segment_index (number_pieces sha256 message profile n ps) = map int [n..<n + length ps]"
  "map (om_content \<circ> ps_message) (number_pieces sha256 message profile n ps) = map fst ps"
  "map ps_source_content_indexes (number_pieces sha256 message profile n ps) = map snd ps"
proof -
  show "map ps_segment_index (number_pieces sha256 message profile n ps) = map int [n..<n + length ps]"
    by (induction ps arbitrary: n) (simp_all add: make_segment_def upt_conv_Cons del: upt_Suc)
qed (induction ps arbitrary: n; simp add: make_segment_def)+

lemma message_shape:
  assumes "message_pieces casefold rewrite profile (message_items message) [] = Inr ps"
    and "validate_profile profile = None"
  shows "list_all (piece_fits casefold rewrite profile (om_content message)) ps"
    and "filter is_attachment (concat (map fst ps)) = filter is_attachment (om_content message)"
    and "sorted (concat (map snd ps))"
    and "set (concat (map snd ps)) = set (map int [0..<length (om_content message)])"
    and "\<forall>(i, c) \<in> set (message_items message). text_covered rewrite profile c (chunks_at i ps)"
proof -
  have al: "aligned (om_content message) (as_items [] @ message_items message)"
    using message_items_simps(3) by (simp add: as_items_def)
  have order: "sorted_wrt (<) (map fst ([] :: indexed_attachment list) @ map fst (message_items message))"
    by (simp add: message_items_simps sorted_wrt_map)
  note shape = message_pieces_shape [OF assms(2,1) al order]
  show "list_all (piece_fits casefold rewrite profile (om_content message)) ps"
    and "filter is_attachment (concat (map fst ps)) = filter is_attachment (om_content message)"
    and "sorted (concat (map snd ps))"
    and "set (concat (map snd ps)) = set (map int [0..<length (om_content message)])"
    and "\<forall>(i, c) \<in> set (message_items message). text_covered rewrite profile c (chunks_at i ps)"
    using shape message_items_simps(1,2) [of message] by simp_all
qed

text \<open>
  C28: a plan delivers the whole message in order. The segments are numbered from zero and within
  the bound; their source indexes are ascending and cover every item; the attachments of all
  segments are the message's attachments, each once and in order; and the chunks planned for a
  text item are its prepared text, whole or cut at white space.
\<close>

theorem plan_covers_message:
  assumes "plan sha256 casefold rewrite message profile max_source_items max_segments = Inr p"
  shows "pl_segments p \<noteq> [] \<and>
    map ps_segment_index (pl_segments p) = map int [0..<length (pl_segments p)] \<and>
    within max_segments (length (pl_segments p)) \<and>
    sorted (concat (map ps_source_content_indexes (pl_segments p))) \<and>
    set (concat (map ps_source_content_indexes (pl_segments p))) = set (map int [0..<length (om_content message)]) \<and>
    filter is_attachment (concat (map (om_content \<circ> ps_message) (pl_segments p))) =
      filter is_attachment (om_content message) \<and>
    list_all (\<lambda>i. text_covered rewrite profile (om_content message ! i)
      (chunks_at (int i) (map segment_piece (pl_segments p)))) [0..<length (om_content message)]"
proof -
  obtain ps where ps: "message_pieces casefold rewrite profile (message_items message) [] = Inr ps"
    "pl_segments p = number_pieces sha256 message profile 0 ps" "ps \<noteq> []" "within max_segments (length ps)"
    "validate_profile profile = None" using plan_pieces [OF assms] by blast
  note shape = message_shape [OF ps(1,5)]
  have "text_covered rewrite profile (om_content message ! i) (chunks_at (int i) ps)"
    if "i < length (om_content message)" for i
  proof -
    have "(int i, om_content message ! i) \<in> set (message_items message)"
      using that by (auto simp: message_items_def in_set_zip intro!: exI [of _ i])
    with shape(5) show ?thesis by blast
  qed
  with ps(2-4) shape(2-4) show ?thesis by (auto simp: number_pieces_maps list_all_iff)
qed

text \<open>Every segment carries the message's address and a delivery identity of its own.\<close>

definition segment_addressed :: "(string \<Rightarrow> string) \<Rightarrow> outbound_message \<Rightarrow> delivery_profile \<Rightarrow> planned_segment \<Rightarrow> bool" where
  "segment_addressed sha256 message profile seg \<longleftrightarrow>
     om_conversation_ref (ps_message seg) = om_conversation_ref message \<and>
     om_created_at (ps_message seg) = om_created_at message \<and>
     derive_segment_delivery_id sha256 (om_conversation_ref message) (om_delivery_id message) (ps_segment_index seg) =
       Inr (om_delivery_id (ps_message seg)) \<and>
     om_reply_to (ps_message seg) =
       (if ps_segment_index seg = 0 \<or> dp_reply_reference_scope profile = EVERY_SEGMENT
        then om_reply_to message else None) \<and>
     dict_get (om_metadata (ps_message seg)) ''segment_index'' = Some (MetaJson (JInt (ps_segment_index seg))) \<and>
     dict_get (om_metadata (ps_message seg)) ''source_delivery_id'' = Some (MetaJson (JStr (om_delivery_id message)))"

lemma number_pieces_addressed:
  "om_delivery_id message \<noteq> [] \<Longrightarrow>
   list_all (segment_addressed sha256 message profile) (number_pieces sha256 message profile n ps)"
  by (induction ps arbitrary: n)
    (auto simp: segment_addressed_def make_segment_def segment_metadata_def derive_segment_delivery_id_def segment_id_def)

text \<open>
  C29: every segment of a plan can be carried by the channel. It is either one non-blank text chunk
  within the text limit, in a format the channel supports and made from the text item at its index,
  or a group of attachments that each passed validation and together respect the count, size and
  family rules, each being the source item at its index; and it keeps the conversation, time and
  reply reference of the message under a derived delivery identity.
\<close>

theorem plan_segments_fit:
  assumes "plan sha256 casefold rewrite message profile max_source_items max_segments = Inr p"
  shows "list_all (\<lambda>seg. piece_fits casefold rewrite profile (om_content message) (segment_piece seg) \<and>
      segment_addressed sha256 message profile seg \<and>
      list_all (\<lambda>item. validate_attachment casefold item profile = None) (attachments_of (om_content (ps_message seg))))
    (pl_segments p)"
proof -
  obtain ps where ps: "message_pieces casefold rewrite profile (message_items message) [] = Inr ps"
    "pl_segments p = number_pieces sha256 message profile 0 ps" "validate_profile profile = None"
    "om_delivery_id message \<noteq> []" "list_all (\<lambda>c. content_check casefold profile c = None) (om_content message)"
    using plan_pieces [OF assms] by blast
  note shape = message_shape [OF ps(1,3)]
  have pieces: "segment_piece seg \<in> set ps" if "seg \<in> set (pl_segments p)" for seg
    using that segment_piece_number [of sha256 message profile 0 ps] unfolding ps(2) by (metis imageI list.set_map)
  have checked: "validate_attachment casefold item profile = None"
    if "q \<in> set ps" "item \<in> set (attachments_of (fst q))" for q item
  proof -
    have in_att: "AttachmentContent item \<in> set cs" if "item \<in> set (attachments_of cs)" for cs
      using that by (induction cs rule: attachments_of.induct) auto
    have "AttachmentContent item \<in> set (filter is_attachment (concat (map fst ps)))"
      using that(1) in_att [OF that(2)] by auto
    then have "AttachmentContent item \<in> set (om_content message)" unfolding shape(2) by simp
    with ps(5) show ?thesis by (force simp: list_all_iff)
  qed
  show ?thesis
    using shape(1) pieces number_pieces_addressed [OF ps(4), of sha256 profile 0 ps] checked
    unfolding ps(2) [symmetric] list_all_iff by (force simp: segment_piece_def)
qed

text \<open>
  C30: the two bounds only accept or refuse. Planning under bounds succeeds exactly when unbounded
  planning succeeds with a message and a plan within them, and gives the same plan; in particular a
  plan does not depend on how much of the bound was left when a text was split or attachments were
  grouped.
\<close>

theorem plan_bounds_only_filter:
  "plan sha256 casefold rewrite message profile max_source_items max_segments = Inr p \<longleftrightarrow>
   plan sha256 casefold rewrite message profile None None = Inr p \<and>
   within max_source_items (length (om_content message)) \<and> within max_segments (length (pl_segments p))"
proof -
  let ?plan = "\<lambda>ps. \<lparr>pl_source_delivery_id = om_delivery_id message, pl_conversation_ref = om_conversation_ref message,
    pl_source_content_count = int (length (om_content message)),
    pl_segments = number_pieces sha256 message profile 0 ps\<rparr>"
  have eq: "plan sha256 casefold rewrite message profile a b = Inr p \<longleftrightarrow>
      om_delivery_id message \<noteq> [] \<and> om_content message \<noteq> [] \<and> validate_profile profile = None \<and>
      \<not> (om_reply_to message \<noteq> None \<and> dp_reply_references profile = UNSUPPORTED) \<and>
      (\<forall>c \<in> set (om_content message). content_check casefold profile c = None) \<and>
      within a (length (om_content message)) \<and>
      (\<exists>ps. message_pieces casefold rewrite profile (message_items message) [] = Inr ps \<and> ps \<noteq> [] \<and>
         within b (length ps) \<and> p = ?plan ps)" (is "_ \<longleftrightarrow> ?R a b") for a b
  proof
    assume r: "plan sha256 casefold rewrite message profile a b = Inr p"
    from plan_pieces [OF r] obtain ps where ps:
      "message_pieces casefold rewrite profile (message_items message) [] = Inr ps"
      "pl_segments p = number_pieces sha256 message profile 0 ps" "ps \<noteq> []" "within b (length ps)"
      "pl_conversation_ref p = om_conversation_ref message" "pl_source_delivery_id p = om_delivery_id message"
      "pl_source_content_count p = int (length (om_content message))" by blast
    then have "p = ?plan ps" by (cases p) simp
    moreover have "within a (length (om_content message))"
      using r by (cases a) (auto simp: plan_def within_def)
    ultimately show "?R a b" using r ps(1,3,4) by (auto simp: plan_def)
  next
    assume r: "?R a b"
    then obtain ps where ps: "message_pieces casefold rewrite profile (message_items message) [] = Inr ps" "ps \<noteq> []"
      "within b (length ps)" "p = ?plan ps" by blast
    have "1 \<le> length ps" using ps(2) by (cases ps) auto
    then have b: "within b 1" using ps(3) within_mono by blast
    have "1 \<le> length (om_content message)" using r by (cases "om_content message") auto
    then have a: "within a 1" using r within_mono by blast
    have "plan_items sha256 casefold rewrite message profile b (message_items message) [] [] =
        Inr (number_pieces sha256 message profile 0 ps)"
      using plan_items_pieces [of profile message b "[]"] r ps(1,3) within_mono [OF b, of 0] by auto
    with r a b ps(2,4) show "plan sha256 casefold rewrite message profile a b = Inr p"
      using positive_within [of a] positive_within [of b]
      by (auto simp: plan_def message_items_def within_def on_some_eq_None split: option.splits)
  qed
  show ?thesis unfolding eq by auto
qed

subsection \<open>A concrete plan\<close>

definition sample_profile :: delivery_profile where
  "sample_profile = \<lparr>
     dp_plain_text = NATIVE, dp_markdown = FALLBACK, dp_attachments = NATIVE,
     dp_attachment_sources = [REMOTE_URL], dp_attachment_media_types = [],
     dp_attachment_grouping = MIXED, dp_reply_references = NATIVE,
     dp_reply_reference_scope = FIRST_SEGMENT, dp_text_length_unit = UTF16_CODE_UNITS,
     dp_max_text_length = Some 3, dp_max_attachment_size = None, dp_max_attachment_count = Some 2,
     dp_max_attachment_group_size = None\<rparr>"

definition sample_attachment :: attachment_content where
  "sample_attachment = \<lparr>at_attachment_id = ''a1'', at_media_type = [105, 47, 112],
     at_source = RemoteUrl ''u'', at_filename = None, at_size_bytes = Some 7, at_metadata = []\<rparr>"

definition sample_outbound :: outbound_message where
  "sample_outbound = \<lparr>om_delivery_id = ''d1'',
     om_conversation_ref = \<lparr>cv_channel_instance_id = ''ch'', cv_native_conversation_id = ''cv''\<rparr>,
     om_content = [TextContent sample_text PLAIN, AttachmentContent sample_attachment],
     om_created_at = utc 5, om_reply_to = Some ''m1'', om_metadata = []\<rparr>"

definition sample_pieces :: "piece list" where
  "sample_pieces = [([TextContent [104, 105] PLAIN], [0]), ([TextContent [128512, 33] PLAIN], [0]),
     ([AttachmentContent sample_attachment], [1])]"

definition sample_plan :: "(string \<Rightarrow> string) \<Rightarrow> delivery_plan" where
  "sample_plan sha256 = \<lparr>pl_source_delivery_id = ''d1'',
     pl_conversation_ref = \<lparr>cv_channel_instance_id = ''ch'', cv_native_conversation_id = ''cv''\<rparr>,
     pl_source_content_count = 2,
     pl_segments = number_pieces sha256 sample_outbound sample_profile 0 sample_pieces\<rparr>"

lemma sample_text_pieces:
  "text_chunks sample_profile None sample_text = Inr [[104, 105], [128512, 33]]"
  "strip sample_text \<noteq> []"
proof -
  show ne: "strip sample_text \<noteq> []" unfolding sample_widths by (simp add: sample_text_def)
  have "split_text sample_text 3 UTF16_CODE_UNITS None = Inr [[104, 105], [128512, 33]]"
    using split_loop_bounded [OF sample_encodable(1) _ _, of 3 "[]" 2] stripped_strip [of sample_text] sample_split ne
    by (auto simp: split_text_def Let_def sample_widths split: sum.splits if_splits)
  then show "text_chunks sample_profile None sample_text = Inr [[104, 105], [128512, 33]]"
    using sample_encodable(1) sample_widths(1)
    by (simp add: text_chunks_def sample_profile_def text_length_width)
qed

lemma sample_attachment_pieces:
  "attachment_pieces casefold sample_profile [(1, sample_attachment)] =
   Inr [([AttachmentContent sample_attachment], [1])]"
  by (simp add: attachment_pieces_def attachment_groups_def group_step_def group_size_check_def group_full_def
      close_group_def chunks_exhausted_def group_piece_def sample_profile_def)

lemma sample_message_pieces:
  "message_pieces casefold rewrite sample_profile (message_items sample_outbound) [] = Inr sample_pieces"
proof -
  have "prepare_text rewrite sample_text PLAIN sample_profile = Inr (sample_text, PLAIN)"
    using sample_text_pieces(2) by (simp add: prepare_text_def sample_profile_def)
  then have "text_pieces rewrite sample_profile 0 sample_text PLAIN =
      Inr [([TextContent [104, 105] PLAIN], [0]), ([TextContent [128512, 33] PLAIN], [0])]"
    by (simp add: text_pieces_def sample_text_pieces(1) text_piece_def)
  moreover have "message_items sample_outbound = [(0, TextContent sample_text PLAIN), (1, AttachmentContent sample_attachment)]"
    by (simp add: message_items_def sample_outbound_def)
  moreover have "attachment_pieces casefold sample_profile [] = Inr []" by (simp add: attachment_pieces_def)
  ultimately show ?thesis by (simp add: sample_attachment_pieces sample_pieces_def)
qed

lemma sample_planned:
  "plan sha256 casefold rewrite sample_outbound sample_profile (Some 2) (Some 3) = Inr (sample_plan sha256)"
proof -
  have ok: "validate_profile sample_profile = None"
    by (simp add: validate_profile_def sample_profile_def positive_limit_def)
  have "plan_items sha256 casefold rewrite sample_outbound sample_profile (Some 3) (message_items sample_outbound) [] [] =
      Inr (number_pieces sha256 sample_outbound sample_profile 0 sample_pieces)"
    using plan_items_pieces [OF ok, of sample_outbound "Some 3" "[]"] sample_message_pieces
    by (auto simp: within_def sample_outbound_def sample_pieces_def)
  moreover have "content_check casefold sample_profile c = None" if "c \<in> set (om_content sample_outbound)" for c
    using that by (auto simp: sample_outbound_def validate_attachment_def sample_profile_def sample_attachment_def)
  moreover have "om_content sample_outbound \<noteq> []" "length (om_content sample_outbound) = 2"
    "om_delivery_id sample_outbound = ''d1''" "dp_reply_references sample_profile = NATIVE"
    by (simp_all add: sample_outbound_def sample_profile_def)
  ultimately show ?thesis
    using ok unfolding plan_def message_items_def
    by (simp add: sample_plan_def sample_pieces_def) (simp add: sample_outbound_def)
qed

theorem plan_covers_message_witness:
  "plan id id id sample_outbound sample_profile (Some 2) (Some 3) = Inr (sample_plan id) \<and>
   sorted (concat (map ps_source_content_indexes (pl_segments (sample_plan id)))) \<and>
   filter is_attachment (concat (map (om_content \<circ> ps_message) (pl_segments (sample_plan id)))) =
     [AttachmentContent sample_attachment]"
  using plan_covers_message [OF sample_planned [of id id id]] sample_planned [of id id id]
  by (simp add: sample_outbound_def)

theorem plan_segments_fit_witness:
  "plan id id id sample_outbound sample_profile (Some 2) (Some 3) = Inr (sample_plan id) \<and>
   list_all (\<lambda>seg. piece_fits id id sample_profile (om_content sample_outbound) (segment_piece seg))
     (pl_segments (sample_plan id))"
  using plan_segments_fit [OF sample_planned [of id id id]] sample_planned [of id id id]
  by (simp add: list_all_iff)

end
