(* ===== verification/Delivery_Coordination.thy ===== *)
theory Delivery_Coordination
  imports Delivery_Planning State_Contracts
begin

text \<open>
  Delivery coordination (\<open>gateway/delivery/coordination.py\<close>): sending the segments of a plan with
  bounded retries, and the aggregation of the segments' receipts into one receipt for the message,
  with the check of a receipt against the content it answers
  (\<open>interaction/channels/contract.py\<close>).

  The channel is a parameter: \<open>io_send\<close> is one call of \<open>channel.send\<close> and \<open>io_sleep\<close> one
  \<open>asyncio.sleep\<close>, each over a world of any type; \<open>io_explain\<close> is the text of the contract
  violation that a receipt raises. Durations are whole microseconds, as in the receipts.
\<close>

section \<open>Receipts for a content\<close>

definition item_matches_content :: "content list \<Rightarrow> delivery_item_receipt \<Rightarrow> check" where
  "item_matches_content contents item =
     (if di_content_index item \<ge> int (length contents) then Some ContractViolation
      else case di_attachment_id item of
          None \<Rightarrow> None
        | Some attachment_id \<Rightarrow>
            (case contents ! nat (di_content_index item) of
               TextContent t fmt \<Rightarrow> Some ContractViolation
             | AttachmentContent submitted \<Rightarrow>
                 raise_if (attachment_id \<noteq> at_attachment_id submitted) ContractViolation))"

definition segment_matches_content :: "content list \<Rightarrow> delivery_segment_receipt \<Rightarrow> check" where
  "segment_matches_content contents segment =
     raise_if (list_ex (\<lambda>i. i \<ge> int (length contents)) (ds_source_content_indexes segment)) ContractViolation"

definition validate_delivery_receipt_for_content :: "delivery_receipt \<Rightarrow> content list \<Rightarrow> check" where
  "validate_delivery_receipt_for_content receipt contents = first_error [
     validate_delivery_receipt receipt,
     first_error (map (item_matches_content contents) (dr_items receipt)),
     first_error (map (segment_matches_content contents) (dr_segments receipt))]"

section \<open>Configuration\<close>

record coordinator_config =
  dc_max_pending :: int
  dc_max_pending_per_destination :: int
  dc_max_concurrent_destinations :: int
  dc_max_source_items_per_delivery :: int
  dc_max_segments_per_delivery :: int
  dc_max_attempts :: int
  dc_retry_initial_seconds :: duration
  dc_retry_max_seconds :: duration
  dc_backpressure_retry_after_seconds :: duration

fun micros :: "duration \<Rightarrow> int" where
  "micros (Micros t) = t"
| "micros NonFinite = 0"

definition finite_duration :: "duration \<Rightarrow> bool" where
  "finite_duration d \<longleftrightarrow> d \<noteq> NonFinite"

definition validate_config :: "coordinator_config \<Rightarrow> check" where
  "validate_config config = first_error [
     raise_if (dc_max_pending config < 1) ValueError,
     raise_if (dc_max_pending_per_destination config < 1) ValueError,
     raise_if (dc_max_concurrent_destinations config < 1) ValueError,
     raise_if (dc_max_source_items_per_delivery config < 1) ValueError,
     raise_if (dc_max_segments_per_delivery config < 1) ValueError,
     raise_if (dc_max_attempts config < 1) ValueError,
     raise_if (\<not> finite_duration (dc_retry_initial_seconds config) \<or> micros (dc_retry_initial_seconds config) < 0) ValueError,
     raise_if (\<not> finite_duration (dc_retry_max_seconds config)) ValueError,
     raise_if (micros (dc_retry_max_seconds config) < micros (dc_retry_initial_seconds config)) ValueError,
     raise_if (\<not> finite_duration (dc_backpressure_retry_after_seconds config)
       \<or> micros (dc_backpressure_retry_after_seconds config) < 0) ValueError]"

section \<open>Sending one segment\<close>

datatype send_result = Sent delivery_receipt | SendRaised string | SendInterrupted

record 'w channel_io =
  io_send :: "outbound_message \<Rightarrow> 'w \<Rightarrow> send_result \<times> 'w"
  io_sleep :: "duration \<Rightarrow> 'w \<Rightarrow> bool \<times> 'w"
  io_explain :: "delivery_receipt \<Rightarrow> content list \<Rightarrow> string"

definition plain_receipt :: "delivery_receipt_status \<Rightarrow> string option \<Rightarrow> duration option \<Rightarrow> delivery_receipt" where
  "plain_receipt status detail retry_after =
     \<lparr>dr_status = status, dr_native_message_id = None, dr_detail = detail, dr_items = [],
      dr_segments = [], dr_retry_after_seconds = retry_after\<rparr>"

text \<open>
  The result of one call of the channel: a receipt that fits the content, an unknown outcome when
  the call raised or its receipt was invalid, or an interruption that propagates.
\<close>

definition attempt_send ::
  "'w channel_io \<Rightarrow> outbound_message \<Rightarrow> 'w \<Rightarrow> (bool \<times> delivery_receipt) res \<times> 'w" where
  "attempt_send io message w =
     (case io_send io message w of
        (SendInterrupted, w) \<Rightarrow> (Inl CancelledError, w)
      | (SendRaised detail, w) \<Rightarrow> (Inr (False, plain_receipt DRS_UNKNOWN (Some detail) None), w)
      | (Sent receipt, w) \<Rightarrow>
          (case validate_delivery_receipt_for_content receipt (om_content message) of
             None \<Rightarrow> (Inr (True, receipt), w)
           | Some e \<Rightarrow>
               (Inr (False, plain_receipt DRS_UNKNOWN (Some (io_explain io receipt (om_content message))) None), w)))"

text \<open>
  The delay before the next attempt, or \<open>None\<close> when the native retry-after is longer than the
  policy waits. \<open>2 ** (attempt - 1)\<close> is converted to a float, which overflows from \<open>2 ** 1024\<close> on.
\<close>

definition retry_delay :: "coordinator_config \<Rightarrow> delivery_receipt \<Rightarrow> nat \<Rightarrow> duration option res" where
  "retry_delay config receipt attempt =
     (case dr_retry_after_seconds receipt of
        Some retry_after \<Rightarrow>
          if micros retry_after > micros (dc_retry_max_seconds config) then Inr None else Inr (Some retry_after)
      | None \<Rightarrow>
          if attempt - 1 \<ge> 1024 then Inl OverflowError
          else Inr (Some (Micros (min (micros (dc_retry_initial_seconds config) * 2 ^ (attempt - 1))
                                    (micros (dc_retry_max_seconds config))))))"

function send_segment ::
  "coordinator_config \<Rightarrow> 'w channel_io \<Rightarrow> planned_segment \<Rightarrow> nat \<Rightarrow> 'w \<Rightarrow> delivery_receipt res \<times> 'w" where
  "send_segment config io segment attempt w =
     (case attempt_send io (ps_message segment) w of
        (Inl e, w) \<Rightarrow> (Inl e, w)
      | (Inr (valid, receipt), w) \<Rightarrow>
          if \<not> valid \<or> dr_status receipt \<noteq> DRS_RETRYABLE_FAILURE \<or> int attempt \<ge> dc_max_attempts config
          then (Inr receipt, w)
          else case retry_delay config receipt attempt of
              Inl e \<Rightarrow> (Inl e, w)
            | Inr None \<Rightarrow> (Inr receipt, w)
            | Inr (Some delay) \<Rightarrow>
                (case io_sleep io delay w of
                   (False, w) \<Rightarrow> (Inl CancelledError, w)
                 | (True, w) \<Rightarrow> send_segment config io segment (Suc attempt) w))"
  by pat_completeness auto

termination
  by (relation "measure (\<lambda>(config, io, segment, attempt, w). nat (dc_max_attempts config - int attempt))") auto

declare send_segment.simps [simp del]

text \<open>The loop of \<open>_execute\<close>: segments in order until one is not accepted.\<close>

fun execute_segments ::
  "coordinator_config \<Rightarrow> 'w channel_io \<Rightarrow> planned_segment list \<Rightarrow> (planned_segment \<times> delivery_receipt) list \<Rightarrow>
   'w \<Rightarrow> (planned_segment \<times> delivery_receipt) list res \<times> 'w" where
  "execute_segments config io [] completed w = (Inr completed, w)"
| "execute_segments config io (segment # rest) completed w =
     (case send_segment config io segment 1 w of
        (Inl e, w) \<Rightarrow> (Inl e, w)
      | (Inr receipt, w) \<Rightarrow>
          if dr_status receipt \<noteq> DRS_ACCEPTED_BY_PLATFORM then (Inr (completed @ [(segment, receipt)]), w)
          else execute_segments config io rest (completed @ [(segment, receipt)]) w)"

section \<open>Aggregation\<close>

fun item_status_from_receipt :: "delivery_receipt_status \<Rightarrow> delivery_item_status" where
  "item_status_from_receipt DRS_ACCEPTED_BY_PLATFORM = DIS_ACCEPTED"
| "item_status_from_receipt DRS_REJECTED_BY_PLATFORM = DIS_REJECTED"
| "item_status_from_receipt DRS_RETRYABLE_FAILURE = DIS_RETRYABLE_FAILURE"
| "item_status_from_receipt DRS_UNKNOWN = DIS_UNKNOWN"

fun segment_status_from_receipt :: "delivery_receipt_status \<Rightarrow> delivery_segment_status" where
  "segment_status_from_receipt DRS_ACCEPTED_BY_PLATFORM = DSS_ACCEPTED_BY_PLATFORM"
| "segment_status_from_receipt DRS_REJECTED_BY_PLATFORM = DSS_REJECTED_BY_PLATFORM"
| "segment_status_from_receipt DRS_RETRYABLE_FAILURE = DSS_RETRYABLE_FAILURE"
| "segment_status_from_receipt DRS_UNKNOWN = DSS_UNKNOWN"

fun content_attachment_id :: "content \<Rightarrow> string option" where
  "content_attachment_id (AttachmentContent item) = Some (at_attachment_id item)"
| "content_attachment_id (TextContent t fmt) = None"

text \<open>The items of a segment: position in the segment, source index, content.\<close>

definition segment_items :: "planned_segment \<Rightarrow> (int \<times> int \<times> content) list" where
  "segment_items segment =
     zip (map int [0..<length (ps_source_content_indexes segment)])
       (zip (ps_source_content_indexes segment) (om_content (ps_message segment)))"

definition completed_items :: "planned_segment \<Rightarrow> delivery_receipt \<Rightarrow> delivery_item_receipt list" where
  "completed_items segment receipt =
     (let native_items = map_of (rev (map (\<lambda>item. (di_content_index item, item)) (dr_items receipt))) in
      map (\<lambda>(local_index, source_index, source_content).
        let native_item = native_items local_index in
        \<lparr>di_content_index = source_index,
         di_status = (case native_item of Some item \<Rightarrow> di_status item
                      | None \<Rightarrow> item_status_from_receipt (dr_status receipt)),
         di_attachment_id = content_attachment_id source_content,
         di_native_message_id = (case native_item of Some item \<Rightarrow> di_native_message_id item | None \<Rightarrow> None),
         di_detail = (case native_item of Some item \<Rightarrow> di_detail item | None \<Rightarrow> dr_detail receipt)\<rparr>)
      (segment_items segment))"

definition skipped_detail :: string where
  "skipped_detail = ''not attempted after an earlier segment failed''"

definition skipped_items :: "planned_segment \<Rightarrow> delivery_item_receipt list" where
  "skipped_items segment =
     map (\<lambda>(local_index, source_index, source_content).
        \<lparr>di_content_index = source_index, di_status = DIS_SKIPPED,
         di_attachment_id = content_attachment_id source_content,
         di_native_message_id = None, di_detail = Some skipped_detail\<rparr>)
       (segment_items segment)"

definition completed_segment :: "planned_segment \<Rightarrow> delivery_receipt \<Rightarrow> delivery_segment_receipt" where
  "completed_segment segment receipt =
     \<lparr>ds_segment_index = ps_segment_index segment, ds_delivery_id = om_delivery_id (ps_message segment),
      ds_source_content_indexes = ps_source_content_indexes segment,
      ds_status = segment_status_from_receipt (dr_status receipt),
      ds_native_message_id = dr_native_message_id receipt, ds_detail = dr_detail receipt,
      ds_retry_after_seconds = dr_retry_after_seconds receipt\<rparr>"

definition skipped_segment :: "planned_segment \<Rightarrow> delivery_segment_receipt" where
  "skipped_segment segment =
     \<lparr>ds_segment_index = ps_segment_index segment, ds_delivery_id = om_delivery_id (ps_message segment),
      ds_source_content_indexes = ps_source_content_indexes segment, ds_status = DSS_SKIPPED,
      ds_native_message_id = None, ds_detail = Some skipped_detail, ds_retry_after_seconds = None\<rparr>"

definition aggregate_item_status :: "delivery_item_status set \<Rightarrow> delivery_item_status" where
  "aggregate_item_status statuses =
     (if statuses = {DIS_ACCEPTED} then DIS_ACCEPTED
      else if DIS_ACCEPTED \<in> statuses then DIS_UNKNOWN
      else if DIS_UNKNOWN \<in> statuses then DIS_UNKNOWN
      else if DIS_RETRYABLE_FAILURE \<in> statuses then DIS_RETRYABLE_FAILURE
      else if DIS_REJECTED \<in> statuses then DIS_REJECTED
      else DIS_SKIPPED)"

text \<open>The only element of a set of identifiers, if there is exactly one.\<close>

definition single_id :: "string option list \<Rightarrow> string option" where
  "single_id ids =
     (case remdups (List.map_filter id ids) of [x] \<Rightarrow> Some x | _ \<Rightarrow> None)"

text \<open>\<open>dict.fromkeys\<close> keeps the first occurrence of each text.\<close>

definition first_occurrences :: "'a list \<Rightarrow> 'a list" where
  "first_occurrences xs = rev (remdups (rev xs))"

fun join_texts :: "string \<Rightarrow> string list \<Rightarrow> string" where
  "join_texts sep [] = []"
| "join_texts sep [x] = x"
| "join_texts sep (x # y # rest) = x @ sep @ join_texts sep (y # rest)"

definition aggregate_item_outcomes :: "int \<Rightarrow> delivery_item_receipt list \<Rightarrow> delivery_item_receipt" where
  "aggregate_item_outcomes content_index outcomes =
     (let statuses = set (map di_status outcomes);
          details = filter (\<lambda>d. d \<noteq> []) (List.map_filter di_detail outcomes) in
      \<lparr>di_content_index = content_index, di_status = aggregate_item_status statuses,
       di_attachment_id = single_id (map di_attachment_id outcomes),
       di_native_message_id = single_id (map di_native_message_id outcomes),
       di_detail = (if details \<noteq> [] then Some (join_texts ''; '' (first_occurrences details))
                    else if card statuses > 1
                    then Some ''source content spans segments with different outcomes'' else None)\<rparr>)"

definition aggregate_status :: "delivery_receipt_status \<Rightarrow> bool \<Rightarrow> delivery_receipt_status" where
  "aggregate_status final_status accepted_before_failure =
     (case final_status of
        DRS_UNKNOWN \<Rightarrow> DRS_UNKNOWN
      | DRS_RETRYABLE_FAILURE \<Rightarrow> if accepted_before_failure then DRS_UNKNOWN else DRS_RETRYABLE_FAILURE
      | DRS_REJECTED_BY_PLATFORM \<Rightarrow>
          if accepted_before_failure then DRS_ACCEPTED_BY_PLATFORM else DRS_REJECTED_BY_PLATFORM
      | DRS_ACCEPTED_BY_PLATFORM \<Rightarrow> DRS_ACCEPTED_BY_PLATFORM)"

definition aggregate_detail ::
  "delivery_receipt_status \<Rightarrow> string option \<Rightarrow> bool \<Rightarrow> bool \<Rightarrow> delivery_item_receipt list \<Rightarrow> string option" where
  "aggregate_detail status final_detail accepted_before_failure all_segments_attempted items =
     (if status = DRS_ACCEPTED_BY_PLATFORM then
        if all_segments_attempted \<and> list_all (\<lambda>item. di_status item = DIS_ACCEPTED) items then None
        else Some ''delivery completed partially; inspect item and segment receipts''
      else if final_detail \<noteq> None \<and> final_detail \<noteq> Some [] then final_detail
      else if status = DRS_UNKNOWN then
        if accepted_before_failure then Some ''delivery outcome is partial or ambiguous after an accepted prefix''
        else Some ''delivery outcome is unknown''
      else if status = DRS_RETRYABLE_FAILURE then
        Some ''delivery failed without acceptance and may be retried''
      else Some ''delivery was rejected by the platform'')"

text \<open>The outcomes of all items, in the order of the segments.\<close>

definition all_outcomes ::
  "(planned_segment \<times> delivery_receipt) list \<Rightarrow> planned_segment list \<Rightarrow> delivery_item_receipt list" where
  "all_outcomes completed skipped =
     concat (map (\<lambda>(segment, receipt). completed_items segment receipt) completed) @
     concat (map skipped_items skipped)"

definition misaligned :: "planned_segment \<Rightarrow> bool" where
  "misaligned segment \<longleftrightarrow> length (ps_source_content_indexes segment) > length (om_content (ps_message segment))"

definition aggregate_receipts ::
  "delivery_plan \<Rightarrow> (planned_segment \<times> delivery_receipt) list \<Rightarrow> delivery_receipt res" where
  "aggregate_receipts p completed =
     (let skipped = drop (length completed) (pl_segments p);
          outcomes = all_outcomes completed skipped;
          items = map (\<lambda>i. aggregate_item_outcomes i (filter (\<lambda>out. di_content_index out = i) outcomes))
                    (sort (remdups (map di_content_index outcomes)));
          receipts = map snd completed;
          accepted_before_failure =
            list_ex (\<lambda>r. dr_status r = DRS_ACCEPTED_BY_PLATFORM) (butlast receipts);
          final = last receipts;
          status = aggregate_status (dr_status final) accepted_before_failure in
      if list_ex misaligned (map fst completed @ skipped) \<or> receipts = [] then Inl IndexError
      else Inr \<lparr>dr_status = status,
        dr_native_message_id = (if length receipts = 1 then dr_native_message_id (hd receipts) else None),
        dr_detail = aggregate_detail status (dr_detail final) accepted_before_failure
          (length receipts = length (pl_segments p)) items,
        dr_items = items,
        dr_segments = map (\<lambda>(segment, receipt). completed_segment segment receipt) completed @ map skipped_segment skipped,
        dr_retry_after_seconds =
          (if status = DRS_RETRYABLE_FAILURE then dr_retry_after_seconds final else None)\<rparr>)"

definition execute ::
  "coordinator_config \<Rightarrow> 'w channel_io \<Rightarrow> delivery_plan \<Rightarrow> 'w \<Rightarrow> delivery_receipt res \<times> 'w" where
  "execute config io p w =
     (case execute_segments config io (pl_segments p) [] w of
        (Inl e, w) \<Rightarrow> (Inl e, w)
      | (Inr completed, w) \<Rightarrow> (aggregate_receipts p completed, w))"

section \<open>Receipts of the channel\<close>

lemma plain_unknown_valid: "validate_delivery_receipt_for_content (plain_receipt DRS_UNKNOWN d None) contents = None"
  by (simp add: validate_delivery_receipt_for_content_def validate_delivery_receipt_def plain_receipt_def)

text \<open>Whatever \<open>_send_segment\<close> returns is the receipt of one of its attempts.\<close>

definition attempt_receipt :: "'w channel_io \<Rightarrow> planned_segment \<Rightarrow> delivery_receipt \<Rightarrow> bool" where
  "attempt_receipt io segment receipt \<longleftrightarrow>
     (\<exists>b v v'. attempt_send io (ps_message segment) v = (Inr (b, receipt), v'))"

lemma send_segment_receipt:
  "send_segment config io segment attempt w = (Inr receipt, w') \<Longrightarrow> attempt_receipt io segment receipt"
proof (induction config io segment attempt w rule: send_segment.induct)
  case (1 config io segment attempt w)
  obtain r v where send: "attempt_send io (ps_message segment) w = (r, v)" by (cases "attempt_send io (ps_message segment) w")
  obtain b rc where r: "r = Inr (b, rc)"
    using 1(2) by (cases r) (auto simp: send send_segment.simps [of config])
  have ok: "attempt_receipt io segment rc" using send r unfolding attempt_receipt_def by blast
  show ?case
  proof (cases "\<not> b \<or> dr_status rc \<noteq> DRS_RETRYABLE_FAILURE \<or> int attempt \<ge> dc_max_attempts config")
    case True
    with 1(2) send r ok show ?thesis by (subst (asm) send_segment.simps) simp
  next
    case False
    show ?thesis
    proof (cases "retry_delay config rc attempt")
      case (Inl e)
      with 1(2) send r False show ?thesis by (subst (asm) send_segment.simps) simp
    next
      case (Inr d)
      show ?thesis
      proof (cases d)
        case None
        with 1(2) send r False Inr ok show ?thesis by (subst (asm) send_segment.simps) simp
      next
        case (Some delay)
        obtain go u where sleep: "io_sleep io delay v = (go, u)" by (cases "io_sleep io delay v")
        with 1(2) send r False Inr Some have go: "go" "send_segment config io segment (Suc attempt) u = (Inr receipt, w')"
          by (subst (asm) send_segment.simps, simp split: bool.splits)+
        show ?thesis
          using 1(1) [OF send [symmetric] r refl False Inr Some sleep [symmetric]] go by simp
      qed
    qed
  qed
qed

lemma attempt_receipt_cases:
  assumes "attempt_receipt io segment receipt"
  obtains (unknown) detail where "receipt = plain_receipt DRS_UNKNOWN (Some detail) None"
  | (sent) v v' where "io_send io (ps_message segment) v = (Sent receipt, v')"
      "validate_delivery_receipt_for_content receipt (om_content (ps_message segment)) = None"
proof -
  obtain b v v' where send: "attempt_send io (ps_message segment) v = (Inr (b, receipt), v')"
    using assms by (auto simp: attempt_receipt_def)
  obtain r u where io: "io_send io (ps_message segment) v = (r, u)" by (cases "io_send io (ps_message segment) v")
  show thesis
  proof (cases r)
    case (Sent rc)
    with send io unknown sent show thesis by (auto simp: attempt_send_def split: option.splits)
  next
    case (SendRaised d)
    with send io unknown show thesis by (auto simp: attempt_send_def)
  next
    case SendInterrupted
    with send io show thesis by (simp add: attempt_send_def)
  qed
qed

lemma attempt_receipt_valid:
  assumes "attempt_receipt io segment receipt"
  shows "validate_delivery_receipt_for_content receipt (om_content (ps_message segment)) = None"
  using assms by (cases rule: attempt_receipt_cases) (simp_all add: plain_unknown_valid)

text \<open>
  What the loop over the segments did: it handled a prefix of the segments in order, all receipts
  but the last are acceptances, and it stopped early only at a segment that was not accepted.
\<close>

definition execution_shape ::
  "'w channel_io \<Rightarrow> planned_segment list \<Rightarrow> (planned_segment \<times> delivery_receipt) list \<Rightarrow> bool" where
  "execution_shape io segments completed \<longleftrightarrow>
     map fst completed = take (length completed) segments \<and> length completed \<le> length segments \<and>
     (segments \<noteq> [] \<longrightarrow> completed \<noteq> []) \<and>
     (\<forall>(segment, receipt) \<in> set completed. attempt_receipt io segment receipt) \<and>
     (\<forall>(segment, receipt) \<in> set (butlast completed). dr_status receipt = DRS_ACCEPTED_BY_PLATFORM) \<and>
     (length completed < length segments \<longrightarrow>
        completed \<noteq> [] \<longrightarrow> dr_status (snd (last completed)) \<noteq> DRS_ACCEPTED_BY_PLATFORM)"

lemma execute_segments_shape:
  "execute_segments config io segments done w = (Inr out, w') \<Longrightarrow>
   \<exists>new. out = done @ new \<and> execution_shape io segments new"
proof (induction segments arbitrary: "done" w)
  case Nil
  then show ?case by (auto simp: execution_shape_def)
next
  case (Cons segment rest)
  obtain receipt v where send: "send_segment config io segment 1 w = (Inr receipt, v)"
    using Cons.prems by (auto split: prod.splits sum.splits)
  note ok = send_segment_receipt [OF send]
  show ?case
  proof (cases "dr_status receipt = DRS_ACCEPTED_BY_PLATFORM")
    case True
    with Cons.prems send have "execute_segments config io rest (done @ [(segment, receipt)]) v = (Inr out, w')" by simp
    from Cons.IH [OF this] obtain new where new: "out = done @ (segment, receipt) # new" "execution_shape io rest new" by auto
    have "execution_shape io (segment # rest) ((segment, receipt) # new)"
      using new(2) True ok by (cases new) (auto simp: execution_shape_def)
    with new(1) show ?thesis by blast
  next
    case False
    with Cons.prems send have "out = done @ [(segment, receipt)]" by simp
    moreover have "execution_shape io (segment # rest) [(segment, receipt)]"
      using False ok by (simp add: execution_shape_def)
    ultimately show ?thesis by blast
  qed
qed

section \<open>Validators as conditions\<close>

lemma fresh_insert:
  "(\<forall>x \<in> A. P x \<and> f x \<notin> insert a S \<and> g x \<notin> insert b T) \<longleftrightarrow>
   (\<forall>x \<in> A. P x \<and> f x \<notin> S \<and> g x \<notin> T) \<and> a \<notin> f ` A \<and> b \<notin> g ` A"
  by auto

lemma fresh_insert1:
  "(\<forall>x \<in> A. P x \<and> f x \<notin> insert a S) \<longleftrightarrow> (\<forall>x \<in> A. P x \<and> f x \<notin> S) \<and> a \<notin> f ` A"
  by auto

definition item_ok :: "delivery_item_receipt \<Rightarrow> bool" where
  "item_ok item \<longleftrightarrow> 0 \<le> di_content_index item \<and>
     (di_status item = DIS_RETRYABLE_FAILURE \<longrightarrow> di_native_message_id item = None) \<and>
     on_some require_identifier (di_attachment_id item) = None \<and>
     on_some require_identifier (di_native_message_id item) = None"

lemma validate_items_iff:
  "validate_items seen items = None \<longleftrightarrow>
   (\<forall>item \<in> set items. item_ok item \<and> di_content_index item \<notin> seen) \<and> distinct (map di_content_index items)"
proof (induction items arbitrary: seen)
  case (Cons item items)
  have "validate_items seen (item # items) = None \<longleftrightarrow> item_ok item \<and> di_content_index item \<notin> seen \<and>
      validate_items (insert (di_content_index item) seen) items = None"
    unfolding item_ok_def by (simp add: not_less) blast
  then show ?case unfolding Cons.IH fresh_insert1 by simp
qed simp

definition segment_ok :: "delivery_segment_receipt \<Rightarrow> bool" where
  "segment_ok segment \<longleftrightarrow> 0 \<le> ds_segment_index segment \<and> require_identifier (ds_delivery_id segment) = None \<and>
     ds_source_content_indexes segment \<noteq> [] \<and> distinct (ds_source_content_indexes segment) \<and>
     (\<forall>i \<in> set (ds_source_content_indexes segment). 0 \<le> i) \<and>
     (ds_status segment = DSS_RETRYABLE_FAILURE \<longrightarrow> ds_native_message_id segment = None) \<and>
     on_some (validate_retry_after (ds_status segment = DSS_RETRYABLE_FAILURE)) (ds_retry_after_seconds segment) = None \<and>
     on_some require_identifier (ds_native_message_id segment) = None"

lemma validate_segments_iff:
  "validate_segments seen ids segments = None \<longleftrightarrow>
   (\<forall>segment \<in> set segments. segment_ok segment \<and> ds_segment_index segment \<notin> seen \<and> ds_delivery_id segment \<notin> ids) \<and>
   distinct (map ds_segment_index segments) \<and> distinct (map ds_delivery_id segments)"
proof (induction segments arbitrary: seen ids)
  case (Cons segment segments)
  have "validate_segments seen ids (segment # segments) = None \<longleftrightarrow>
      segment_ok segment \<and> ds_segment_index segment \<notin> seen \<and> ds_delivery_id segment \<notin> ids \<and>
      validate_segments (insert (ds_segment_index segment) seen) (insert (ds_delivery_id segment) ids) segments = None"
    unfolding segment_ok_def by (simp add: not_less) blast
  then show ?case unfolding Cons.IH fresh_insert by simp blast
qed simp

section \<open>Well-formed plans\<close>

definition segment_wf :: "content list \<Rightarrow> planned_segment \<Rightarrow> bool" where
  "segment_wf source segment \<longleftrightarrow>
     ps_source_content_indexes segment \<noteq> [] \<and> distinct (ps_source_content_indexes segment) \<and>
     (\<forall>i \<in> set (ps_source_content_indexes segment). 0 \<le> i \<and> i < int (length source)) \<and>
     map content_attachment_id (om_content (ps_message segment)) =
       map (\<lambda>i. content_attachment_id (source ! nat i)) (ps_source_content_indexes segment)"

definition plan_wf :: "content list \<Rightarrow> delivery_plan \<Rightarrow> bool" where
  "plan_wf source p \<longleftrightarrow> pl_segments p \<noteq> [] \<and> list_all (segment_wf source) (pl_segments p) \<and>
     map ps_segment_index (pl_segments p) = map int [0..<length (pl_segments p)] \<and>
     distinct (map (om_delivery_id \<circ> ps_message) (pl_segments p)) \<and>
     list_all (\<lambda>segment. require_identifier (om_delivery_id (ps_message segment)) = None) (pl_segments p)"

lemma message_pieces_distinct:
  "validate_profile profile = None \<Longrightarrow> message_pieces casefold rewrite profile items pending = Inr ps \<Longrightarrow>
   aligned source (as_items pending @ items) \<Longrightarrow> sorted_wrt (<) (map fst pending @ map fst items) \<Longrightarrow>
   \<forall>q \<in> set ps. distinct (snd q)"
proof (induction casefold rewrite profile items pending arbitrary: ps rule: message_pieces.induct)
  case (1 casefold rewrite profile pending)
  have "attachment_pieces casefold profile pending = Inr ps" "aligned source (as_items pending)" using 1 by auto
  from attachment_pieces_shape(3) [OF 1(1) this] have "distinct (concat (map snd ps))"
    using 1(4) strict_sorted_iff by auto
  then show ?case by (auto simp: distinct_concat_iff)
next
  case (2 casefold rewrite profile i item rest pending)
  from 2(1) [OF 2(2)] 2(3-) show ?case by simp
next
  case (3 casefold rewrite profile i t fmt rest pending)
  obtain ps1 ps2 ps3 where ps: "attachment_pieces casefold profile pending = Inr ps1"
    "text_pieces rewrite profile i t fmt = Inr ps2" "message_pieces casefold rewrite profile rest [] = Inr ps3"
    "ps = ps1 @ ps2 @ ps3" using 3(3) by auto
  have at: "aligned source (as_items pending)" "aligned source (as_items [] @ rest)"
    using 3(4) by (auto simp: aligned_def as_items_def)
  have "distinct (concat (map snd ps1))"
    using attachment_pieces_shape(3) [OF 3(2) ps(1) at(1)] 3(5) strict_sorted_iff by (auto simp: sorted_wrt_append)
  then have "\<forall>q \<in> set ps1. distinct (snd q)" by (auto simp: distinct_concat_iff)
  moreover have "\<forall>q \<in> set ps2. distinct (snd q)" using ps(2) by (auto simp: text_pieces_def text_piece_def)
  moreover have "\<forall>q \<in> set ps3. distinct (snd q)"
    using 3(1) [OF 3(2) ps(3) at(2)] 3(5) by (simp add: sorted_wrt_append)
  ultimately show ?case by (auto simp: ps(4))
qed

lemma piece_fits_aligned:
  assumes "piece_fits casefold rewrite profile source (contents, indexes)"
  shows "indexes \<noteq> [] \<and>
    map content_attachment_id contents = map (\<lambda>i. content_attachment_id (source ! nat i)) indexes"
proof (cases "\<exists>c f i. contents = [TextContent c f] \<and> indexes = [i]")
  case True
  then obtain c f i where ci: "contents = [TextContent c f]" "indexes = [i]" by blast
  with assms obtain t fmt where "source ! nat i = TextContent t fmt"
    by (auto simp: piece_fits_def split: content.splits)
  with ci show ?thesis by simp
next
  case False
  then have r: "map (\<lambda>i. source ! nat i) indexes = contents \<and> group_fits casefold profile (attachments_of contents)"
    using assms
    by (cases contents rule: remdups_adj.cases; cases indexes rule: remdups_adj.cases; cases "hd contents")
      (auto simp: piece_fits_def)
  then have "contents \<noteq> []" by (auto simp: group_fits_def)
  with r show ?thesis by auto
qed

text \<open>
  The digest separates the texts from which the identities of the segments are derived, and its
  result is short enough for an identifier.
\<close>

definition digest_separates_segments :: "(string \<Rightarrow> string) \<Rightarrow> outbound_message \<Rightarrow> nat \<Rightarrow> bool" where
  "digest_separates_segments sha256 message n \<longleftrightarrow>
     distinct (map (\<lambda>i. sha256 (json_dumps (segment_identity (om_conversation_ref message)
       (om_delivery_id message) (int i)))) [0..<n]) \<and>
     list_all (\<lambda>i. length (sha256 (json_dumps (segment_identity (om_conversation_ref message)
       (om_delivery_id message) (int i)))) \<le> 400) [0..<n]"

lemma number_pieces_ids:
  "map (om_delivery_id \<circ> ps_message) (number_pieces sha256 message profile n ps) =
   map (segment_id sha256 message) [n..<n + length ps]"
  by (induction ps arbitrary: n) (simp_all add: make_segment_def upt_conv_Cons del: upt_Suc)

lemma plan_well_formed:
  assumes p: "plan sha256 casefold rewrite message profile a b = Inr p"
    and digest: "digest_separates_segments sha256 message (length (pl_segments p))"
  shows "plan_wf (om_content message) p"
proof -
  obtain ps where ps: "message_pieces casefold rewrite profile (message_items message) [] = Inr ps"
    "pl_segments p = number_pieces sha256 message profile 0 ps" "ps \<noteq> []" "validate_profile profile = None"
    using plan_pieces [OF p] by blast
  note shape = message_shape [OF ps(1,4)]
  have distinct: "\<forall>q \<in> set ps. distinct (snd q)"
    by (rule message_pieces_distinct [OF ps(4,1), of "om_content message"])
      (simp_all add: message_items_simps as_items_def sorted_wrt_map)
  have wf: "segment_wf (om_content message) seg" if "seg \<in> set (pl_segments p)" for seg
  proof -
    have q: "segment_piece seg \<in> set ps"
      using that segment_piece_number [of sha256 message profile 0 ps] unfolding ps(2) by (metis imageI list.set_map)
    then have "piece_fits casefold rewrite profile (om_content message) (segment_piece seg)"
      using shape(1) by (simp add: list_all_iff)
    from piece_fits_aligned [OF this [unfolded segment_piece_def]] q distinct
    have "ps_source_content_indexes seg \<noteq> []" "distinct (ps_source_content_indexes seg)"
      "map content_attachment_id (om_content (ps_message seg)) =
        map (\<lambda>i. content_attachment_id (om_content message ! nat i)) (ps_source_content_indexes seg)"
      by (auto simp: segment_piece_def)
    moreover have "i \<in> set (map int [0..<length (om_content message)])" if "i \<in> set (ps_source_content_indexes seg)" for i
      unfolding shape(4) [symmetric] using q that by (force simp: segment_piece_def)
    ultimately show ?thesis by (fastforce simp: segment_wf_def)
  qed
  have ids: "map (om_delivery_id \<circ> ps_message) (pl_segments p) = map (segment_id sha256 message) [0..<length ps]"
    unfolding ps(2) using number_pieces_ids [of sha256 message profile 0 ps] by simp
  have len: "length (pl_segments p) = length ps" by (simp add: ps(2))
  have d: "distinct (map (om_delivery_id \<circ> ps_message) (pl_segments p))"
    unfolding ids using digest unfolding digest_separates_segments_def len
    by (simp add: distinct_map segment_id_def hashed_identity_def inj_on_def)
  have "require_identifier (segment_id sha256 message i) = None" if "i < length ps" for i
  proof -
    have "length (sha256 (json_dumps (segment_identity (om_conversation_ref message) (om_delivery_id message) (int i)))) \<le> 400"
      using digest that by (simp add: digest_separates_segments_def len list_all_iff)
    then show ?thesis by (simp add: segment_id_def hashed_identity_def)
  qed
  then have "\<forall>x \<in> set (map (om_delivery_id \<circ> ps_message) (pl_segments p)). require_identifier x = None"
    unfolding ids by auto
  then show ?thesis
    using wf d ps(3) number_pieces_maps(1) [of sha256 message profile 0 ps]
    by (auto simp: plan_wf_def list_all_iff ps(2) simp del: require_identifier_None)
qed

section \<open>Aggregated receipts are valid\<close>

text \<open>
  A channel confirms with its native identifiers: an item receipt carries one only if the item was
  accepted or may have been.
\<close>

definition native_ids_confirm :: "delivery_receipt \<Rightarrow> bool" where
  "native_ids_confirm receipt \<longleftrightarrow>
     list_all (\<lambda>item. di_native_message_id item \<noteq> None \<longrightarrow> di_status item \<in> {DIS_ACCEPTED, DIS_UNKNOWN}) (dr_items receipt)"

definition confirming_channel :: "'w channel_io \<Rightarrow> bool" where
  "confirming_channel io \<longleftrightarrow>
     (\<forall>message w receipt w'. io_send io message w = (Sent receipt, w') \<longrightarrow> native_ids_confirm receipt)"

lemma attempt_receipt_confirms:
  assumes "confirming_channel io" and "attempt_receipt io segment receipt"
  shows "native_ids_confirm receipt"
  using assms(2)
proof (cases rule: attempt_receipt_cases)
  case (sent v v')
  then show ?thesis using assms(1) unfolding confirming_channel_def by blast
qed (simp add: native_ids_confirm_def plain_receipt_def)

definition outcome_ok :: "content list \<Rightarrow> delivery_item_receipt \<Rightarrow> bool" where
  "outcome_ok source out \<longleftrightarrow> 0 \<le> di_content_index out \<and> di_content_index out < int (length source) \<and>
     di_attachment_id out = content_attachment_id (source ! nat (di_content_index out)) \<and>
     on_some require_identifier (di_native_message_id out) = None \<and>
     (di_native_message_id out \<noteq> None \<longrightarrow> di_status out \<in> {DIS_ACCEPTED, DIS_UNKNOWN})"

lemma segment_items_wf:
  assumes "segment_wf source segment" and "(l, i, c) \<in> set (segment_items segment)"
  shows "i \<in> set (ps_source_content_indexes segment) \<and> 0 \<le> i \<and> i < int (length source) \<and>
    content_attachment_id c = content_attachment_id (source ! nat i)"
proof -
  obtain k where k: "k < length (ps_source_content_indexes segment)" "k < length (om_content (ps_message segment))"
    "i = ps_source_content_indexes segment ! k" "c = om_content (ps_message segment) ! k"
    using assms(2) by (auto simp: segment_items_def in_set_zip)
  have "map content_attachment_id (om_content (ps_message segment)) ! k =
      map (\<lambda>i. content_attachment_id (source ! nat i)) (ps_source_content_indexes segment) ! k"
    using assms(1) by (simp add: segment_wf_def)
  then have "content_attachment_id c = content_attachment_id (source ! nat i)" using k by simp
  moreover have "i \<in> set (ps_source_content_indexes segment)" using k by simp
  ultimately show ?thesis using assms(1) unfolding segment_wf_def by blast
qed

lemma receipt_items_ok:
  assumes "validate_delivery_receipt_for_content receipt contents = None" and "item \<in> set (dr_items receipt)"
  shows "item_ok item"
  using assms by (auto simp: validate_delivery_receipt_for_content_def validate_delivery_receipt_def validate_items_iff)

lemma completed_items_ok:
  assumes wf: "segment_wf source segment"
    and ok: "validate_delivery_receipt_for_content receipt (om_content (ps_message segment)) = None"
    and confirm: "native_ids_confirm receipt" and out: "out \<in> set (completed_items segment receipt)"
  shows "outcome_ok source out"
proof -
  let ?native = "map_of (rev (map (\<lambda>item. (di_content_index item, item)) (dr_items receipt)))"
  obtain l i c where lic: "(l, i, c) \<in> set (segment_items segment)"
    and out': "di_content_index out = i" "di_attachment_id out = content_attachment_id c"
      "di_native_message_id out = (case ?native l of Some item \<Rightarrow> di_native_message_id item | None \<Rightarrow> None)"
      "di_status out = (case ?native l of Some item \<Rightarrow> di_status item | None \<Rightarrow> item_status_from_receipt (dr_status receipt))"
    using out by (auto simp: completed_items_def Let_def)
  have native: "item_ok item \<and> (di_native_message_id item \<noteq> None \<longrightarrow> di_status item \<in> {DIS_ACCEPTED, DIS_UNKNOWN})"
    if "?native l = Some item" for item
  proof -
    have "item \<in> set (dr_items receipt)" using map_of_SomeD [OF that] by auto
    then show ?thesis using receipt_items_ok [OF ok] confirm by (auto simp: native_ids_confirm_def list_all_iff)
  qed
  show ?thesis
  proof (cases "?native l")
    case None
    then show ?thesis using segment_items_wf [OF wf lic] out' by (simp add: outcome_ok_def)
  next
    case (Some item)
    then show ?thesis using segment_items_wf [OF wf lic] out' native [OF Some] by (simp add: outcome_ok_def item_ok_def)
  qed
qed

lemma skipped_items_ok:
  assumes "segment_wf source segment" and "out \<in> set (skipped_items segment)"
  shows "outcome_ok source out \<and> di_status out = DIS_SKIPPED \<and> di_native_message_id out = None"
  using assms segment_items_wf [OF assms(1)] by (auto simp: skipped_items_def outcome_ok_def)

lemma single_id_in: "single_id ids = Some x \<Longrightarrow> Some x \<in> set ids"
proof -
  assume r: "single_id ids = Some x"
  then have "remdups (List.map_filter id ids) = [x]"
    by (auto simp: single_id_def split: list.splits)
  then have "x \<in> set (List.map_filter id ids)" by (metis list.set_intros(1) set_remdups)
  then show ?thesis by (auto simp: List.map_filter_def)
qed

lemma aggregate_item_ok:
  assumes outs: "\<forall>out \<in> set outs. outcome_ok source out \<and> di_content_index out = i" and i: "0 \<le> i" "i < int (length source)"
    and ids: "\<forall>c \<in> set source. on_some require_identifier (content_attachment_id c) = None"
  shows "item_ok (aggregate_item_outcomes i outs)"
    and "item_matches_content source (aggregate_item_outcomes i outs) = None"
proof -
  let ?item = "aggregate_item_outcomes i outs"
  have att: "content_attachment_id (source ! nat i) = Some x" if "di_attachment_id ?item = Some x" for x
  proof -
    have "Some x \<in> set (map di_attachment_id outs)"
      using that single_id_in [of "map di_attachment_id outs" x] by (simp add: aggregate_item_outcomes_def Let_def)
    then obtain out where "out \<in> set outs" "di_attachment_id out = Some x" by auto
    with outs show ?thesis unfolding outcome_ok_def by metis
  qed
  have nat_id: "\<exists>out \<in> set outs. di_native_message_id out = Some x" if "di_native_message_id ?item = Some x" for x
    using that single_id_in [of "map di_native_message_id outs" x] by (force simp: aggregate_item_outcomes_def Let_def)
  have "on_some require_identifier (di_native_message_id ?item) = None"
  proof (cases "di_native_message_id ?item")
    case (Some x)
    then obtain out where "out \<in> set outs" "di_native_message_id out = Some x" using nat_id by blast
    with outs Some show ?thesis unfolding outcome_ok_def by metis
  qed simp
  moreover have "on_some require_identifier (di_attachment_id ?item) = None"
  proof (cases "di_attachment_id ?item")
    case (Some x)
    have "source ! nat i \<in> set source" using i by simp
    with ids att [OF Some] Some show ?thesis by metis
  qed simp
  moreover have "di_native_message_id ?item = None" if "di_status ?item = DIS_RETRYABLE_FAILURE"
  proof (rule ccontr)
    assume "di_native_message_id ?item \<noteq> None"
    then obtain out where "out \<in> set outs" "di_native_message_id out \<noteq> None" using nat_id by fastforce
    then have "di_status out \<in> {DIS_ACCEPTED, DIS_UNKNOWN}" "di_status out \<in> set (map di_status outs)"
      using outs by (auto simp: outcome_ok_def)
    with that show False
      by (auto simp: aggregate_item_outcomes_def Let_def aggregate_item_status_def split: if_splits)
  qed
  ultimately show "item_ok ?item"
    using i by (simp add: item_ok_def) (simp add: aggregate_item_outcomes_def Let_def)
  have "di_content_index ?item = i" by (simp add: aggregate_item_outcomes_def Let_def)
  then show "item_matches_content source ?item = None"
    using att i by (auto simp: item_matches_content_def split: option.splits content.splits)
qed

lemma receipt_facts:
  assumes "validate_delivery_receipt_for_content receipt contents = None"
  shows "on_some require_identifier (dr_native_message_id receipt) = None"
    and "on_some (validate_retry_after (dr_status receipt = DRS_RETRYABLE_FAILURE)) (dr_retry_after_seconds receipt) = None"
    and "dr_status receipt = DRS_RETRYABLE_FAILURE \<Longrightarrow> dr_native_message_id receipt = None"
    and "dr_status receipt = DRS_RETRYABLE_FAILURE \<Longrightarrow> item \<in> set (dr_items receipt) \<Longrightarrow>
      di_status item \<notin> {DIS_ACCEPTED, DIS_UNKNOWN} \<and> di_native_message_id item = None"
  using assms by (auto simp: validate_delivery_receipt_for_content_def validate_delivery_receipt_def)

lemma segment_status_retryable [simp]:
  "segment_status_from_receipt status = DSS_RETRYABLE_FAILURE \<longleftrightarrow> status = DRS_RETRYABLE_FAILURE"
  by (cases status) auto

lemma completed_segment_ok:
  assumes wf: "segment_wf source segment" and id: "require_identifier (om_delivery_id (ps_message segment)) = None"
    and n: "0 \<le> ps_segment_index segment"
    and ok: "validate_delivery_receipt_for_content receipt contents = None"
  shows "segment_ok (completed_segment segment receipt)"
  using wf id n receipt_facts(1-3) [OF ok]
  by (auto simp: segment_ok_def completed_segment_def segment_wf_def simp del: require_identifier_None)

lemma skipped_segment_ok:
  assumes "segment_wf source segment" and "require_identifier (om_delivery_id (ps_message segment)) = None"
    and "0 \<le> ps_segment_index segment"
  shows "segment_ok (skipped_segment segment)"
  using assms by (auto simp: segment_ok_def skipped_segment_def segment_wf_def simp del: require_identifier_None)

lemma segment_matches: "segment_wf source segment \<Longrightarrow> ds_source_content_indexes s = ps_source_content_indexes segment \<Longrightarrow>
   segment_matches_content source s = None"
  by (auto simp: segment_matches_content_def segment_wf_def list_ex_iff)

lemma segment_wf_aligned: "segment_wf source segment \<Longrightarrow> \<not> misaligned segment"
  unfolding segment_wf_def misaligned_def by (metis length_map less_irrefl)

lemma completed_then_skipped:
  "execution_shape io segments completed \<Longrightarrow> map fst completed @ drop (length completed) segments = segments"
  by (simp add: execution_shape_def)

text \<open>A retryable aggregate comes from one attempted segment whose receipt is retryable.\<close>

lemma retryable_single:
  assumes shape: "execution_shape io segments completed" and ne: "completed \<noteq> []"
    and status: "aggregate_status (dr_status (last (map snd completed)))
      (list_ex (\<lambda>r. dr_status r = DRS_ACCEPTED_BY_PLATFORM) (butlast (map snd completed))) = DRS_RETRYABLE_FAILURE"
  obtains segment receipt where "completed = [(segment, receipt)]" "dr_status receipt = DRS_RETRYABLE_FAILURE"
proof -
  have final: "dr_status (last (map snd completed)) = DRS_RETRYABLE_FAILURE"
    and none: "\<not> list_ex (\<lambda>r. dr_status r = DRS_ACCEPTED_BY_PLATFORM) (butlast (map snd completed))"
    using status by (auto simp: aggregate_status_def split: delivery_receipt_status.splits if_splits)
  have "butlast completed = []"
  proof (rule ccontr)
    assume "butlast completed \<noteq> []"
    then obtain sr where sr: "sr \<in> set (butlast completed)" by (meson list.set_sel(1))
    then have "dr_status (snd sr) = DRS_ACCEPTED_BY_PLATFORM" using shape by (auto simp: execution_shape_def)
    with sr none show False by (force simp: list_ex_iff map_butlast [symmetric])
  qed
  then obtain sr where "completed = [sr]" using ne by (metis append_Nil append_butlast_last_id)
  with final that show thesis by (cases sr) auto
qed

lemma completed_retryable:
  assumes "validate_delivery_receipt_for_content receipt contents = None" and "dr_status receipt = DRS_RETRYABLE_FAILURE"
    and "out \<in> set (completed_items segment receipt)"
  shows "di_status out \<notin> {DIS_ACCEPTED, DIS_UNKNOWN} \<and> di_native_message_id out = None"
proof -
  let ?native = "map_of (rev (map (\<lambda>item. (di_content_index item, item)) (dr_items receipt)))"
  obtain l where out: "di_native_message_id out = (case ?native l of Some item \<Rightarrow> di_native_message_id item | None \<Rightarrow> None)"
      "di_status out = (case ?native l of Some item \<Rightarrow> di_status item | None \<Rightarrow> item_status_from_receipt (dr_status receipt))"
    using assms(3) by (auto simp: completed_items_def Let_def)
  show ?thesis
  proof (cases "?native l")
    case None
    with out assms(2) show ?thesis by simp
  next
    case (Some item)
    then have "item \<in> set (dr_items receipt)" using map_of_SomeD by fastforce
    with out Some receipt_facts(4) [OF assms(1,2)] show ?thesis by simp
  qed
qed

lemma aggregate_item_retryable:
  assumes "\<forall>out \<in> set outs. di_status out \<notin> {DIS_ACCEPTED, DIS_UNKNOWN} \<and> di_native_message_id out = None"
  shows "di_status (aggregate_item_outcomes i outs) \<notin> {DIS_ACCEPTED, DIS_UNKNOWN} \<and>
    di_native_message_id (aggregate_item_outcomes i outs) = None"
proof -
  let ?statuses = "set (map di_status outs)"
  have "DIS_ACCEPTED \<notin> ?statuses" "DIS_UNKNOWN \<notin> ?statuses" using assms by auto
  then have "aggregate_item_status ?statuses \<notin> {DIS_ACCEPTED, DIS_UNKNOWN}" by (auto simp: aggregate_item_status_def)
  moreover have "single_id (map di_native_message_id outs) = None"
    using assms single_id_in [of "map di_native_message_id outs"] by (cases "single_id (map di_native_message_id outs)") force+
  ultimately show ?thesis by (simp add: aggregate_item_outcomes_def Let_def)
qed

text \<open>The receipts for the segments, whether attempted or skipped, follow the plan.\<close>

lemma aggregate_segments_ok:
  assumes wf: "plan_wf source p" and shape: "execution_shape io (pl_segments p) completed"
  defines "segs \<equiv> map (\<lambda>(segment, receipt). completed_segment segment receipt) completed @
    map skipped_segment (drop (length completed) (pl_segments p))"
  shows "validate_segments {} {} segs = None" and "first_error (map (segment_matches_content source) segs) = None"
proof -
  have all: "map fst completed @ drop (length completed) (pl_segments p) = pl_segments p"
    by (rule completed_then_skipped [OF shape])
  have "map ds_segment_index segs = map ps_segment_index (map fst completed @ drop (length completed) (pl_segments p))"
    "map ds_delivery_id segs = map (om_delivery_id \<circ> ps_message) (map fst completed @ drop (length completed) (pl_segments p))"
    by (auto simp: segs_def completed_segment_def skipped_segment_def)
  then have index: "map ds_segment_index segs = map ps_segment_index (pl_segments p)"
    and id: "map ds_delivery_id segs = map (om_delivery_id \<circ> ps_message) (pl_segments p)"
    unfolding all by auto
  have in_plan: "segment_wf source segment \<and> require_identifier (om_delivery_id (ps_message segment)) = None \<and>
      0 \<le> ps_segment_index segment" if "segment \<in> set (pl_segments p)" for segment
  proof -
    have "ps_segment_index segment \<in> set (map int [0..<length (pl_segments p)])"
      using wf that unfolding plan_wf_def by (metis imageI list.set_map)
    then show ?thesis using wf that by (auto simp: plan_wf_def list_all_iff simp del: require_identifier_None)
  qed
  have done_in: "segment \<in> set (pl_segments p)" if "(segment, receipt) \<in> set completed" for segment receipt
    using that by (subst all [symmetric]) force
  have valid: "validate_delivery_receipt_for_content receipt (om_content (ps_message segment)) = None"
    if "(segment, receipt) \<in> set completed" for segment receipt
    using that shape attempt_receipt_valid by (fastforce simp: execution_shape_def)
  have ok: "segment_ok s \<and> segment_matches_content source s = None" if "s \<in> set segs" for s
  proof -
    from that consider (attempted) segment receipt where "(segment, receipt) \<in> set completed" "s = completed_segment segment receipt"
      | (skipped) segment where "segment \<in> set (pl_segments p)" "s = skipped_segment segment"
      unfolding segs_def by (auto dest: in_set_dropD)
    then show ?thesis
    proof cases
      case attempted
      note wf' = in_plan [OF done_in [OF attempted(1)]]
      have "segment_ok s" unfolding attempted(2) using wf' by (intro completed_segment_ok [OF _ _ _ valid [OF attempted(1)]]) auto
      moreover have "ds_source_content_indexes s = ps_source_content_indexes segment"
        by (simp add: attempted(2) completed_segment_def)
      ultimately show ?thesis using wf' segment_matches by blast
    next
      case skipped
      then show ?thesis
        using in_plan [OF skipped(1)] skipped_segment_ok [of source segment] segment_matches [of source segment s]
        by (simp add: skipped_segment_def)
    qed
  qed
  have "distinct (map int [0..<length (pl_segments p)])" by (simp add: distinct_map)
  then show "validate_segments {} {} segs = None"
    unfolding validate_segments_iff index id using wf ok by (simp add: plan_wf_def)
  show "first_error (map (segment_matches_content source) segs) = None" using ok by simp
qed

lemma aggregate_items_ok:
  assumes outs: "\<forall>out \<in> set outcomes. outcome_ok source out"
    and ids: "\<forall>c \<in> set source. on_some require_identifier (content_attachment_id c) = None"
  defines "items \<equiv> map (\<lambda>i. aggregate_item_outcomes i (filter (\<lambda>out. di_content_index out = i) outcomes))
    (sort (remdups (map di_content_index outcomes)))"
  shows "validate_items {} items = None" and "first_error (map (item_matches_content source) items) = None"
proof -
  have "di_content_index (aggregate_item_outcomes i outs) = i" for i outs
    by (simp add: aggregate_item_outcomes_def Let_def)
  then have index: "map di_content_index items = sort (remdups (map di_content_index outcomes))"
    unfolding items_def by (simp add: comp_def)
  have "item_ok item \<and> item_matches_content source item = None" if "item \<in> set items" for item
  proof -
    from that obtain out where out: "out \<in> set outcomes"
      "item = aggregate_item_outcomes (di_content_index out) (filter (\<lambda>o'. di_content_index o' = di_content_index out) outcomes)"
      by (auto simp: items_def)
    have "0 \<le> di_content_index out" "di_content_index out < int (length source)"
      using outs out(1) by (auto simp: outcome_ok_def)
    from aggregate_item_ok [OF _ this ids, of "filter (\<lambda>o'. di_content_index o' = di_content_index out) outcomes"] outs out(2)
    show ?thesis by simp
  qed
  then show "validate_items {} items = None" "first_error (map (item_matches_content source) items) = None"
    unfolding validate_items_iff index by simp_all
qed

lemma all_outcomes_ok:
  assumes wf: "plan_wf source p" and shape: "execution_shape io (pl_segments p) completed"
    and confirm: "confirming_channel io"
    and out: "out \<in> set (all_outcomes completed (drop (length completed) (pl_segments p)))"
  shows "outcome_ok source out"
proof -
  have wf': "segment_wf source segment" if "segment \<in> set (pl_segments p)" for segment
    using wf that by (simp add: plan_wf_def list_all_iff)
  from out consider (attempted) segment receipt where "(segment, receipt) \<in> set completed" "out \<in> set (completed_items segment receipt)"
    | (skipped) segment where "segment \<in> set (pl_segments p)" "out \<in> set (skipped_items segment)"
    unfolding all_outcomes_def by (auto dest: in_set_dropD)
  then show ?thesis
  proof cases
    case attempted
    have receipt: "attempt_receipt io segment receipt" using attempted(1) shape by (auto simp: execution_shape_def)
    have "segment \<in> set (pl_segments p)"
      using attempted(1) completed_then_skipped [OF shape] by (metis Un_iff fst_conv image_eqI list.set_map set_append)
    then show ?thesis
      by (intro completed_items_ok [OF wf' _ _ attempted(2)] attempt_receipt_valid [OF receipt]
          attempt_receipt_confirms [OF confirm receipt])
  next
    case skipped
    then show ?thesis using skipped_items_ok [OF wf'] by blast
  qed
qed

lemma aggregate_valid:
  assumes wf: "plan_wf source p" and shape: "execution_shape io (pl_segments p) completed"
    and confirm: "confirming_channel io"
    and ids: "\<forall>c \<in> set source. on_some require_identifier (content_attachment_id c) = None"
  shows "\<exists>r. aggregate_receipts p completed = Inr r \<and> validate_delivery_receipt_for_content r source = None"
proof -
  let ?skipped = "drop (length completed) (pl_segments p)"
  let ?outs = "all_outcomes completed ?skipped"
  let ?items = "map (\<lambda>i. aggregate_item_outcomes i (filter (\<lambda>out. di_content_index out = i) ?outs))
    (sort (remdups (map di_content_index ?outs)))"
  let ?before = "list_ex (\<lambda>r. dr_status r = DRS_ACCEPTED_BY_PLATFORM) (butlast (map snd completed))"
  let ?status = "aggregate_status (dr_status (last (map snd completed))) ?before"
  have ne: "completed \<noteq> []" using wf shape by (auto simp: plan_wf_def execution_shape_def)
  have "\<not> list_ex misaligned (map fst completed @ ?skipped)"
    unfolding completed_then_skipped [OF shape] using wf segment_wf_aligned by (auto simp: plan_wf_def list_all_iff list_ex_iff)
  then obtain r where r: "aggregate_receipts p completed = Inr r" "dr_status r = ?status" "dr_items r = ?items"
    "dr_native_message_id r = (if length completed = 1 then dr_native_message_id (snd (hd completed)) else None)"
    "dr_segments r = map (\<lambda>(segment, receipt). completed_segment segment receipt) completed @ map skipped_segment ?skipped"
    "dr_retry_after_seconds r = (if ?status = DRS_RETRYABLE_FAILURE then dr_retry_after_seconds (last (map snd completed)) else None)"
    using ne by (simp add: aggregate_receipts_def Let_def hd_map)
  have valid: "validate_delivery_receipt_for_content receipt (om_content (ps_message segment)) = None"
    if "(segment, receipt) \<in> set completed" for segment receipt
    using that shape attempt_receipt_valid by (fastforce simp: execution_shape_def)
  have outs: "\<forall>out \<in> set ?outs. outcome_ok source out" using all_outcomes_ok [OF wf shape confirm] by blast
  have native: "on_some require_identifier (dr_native_message_id r) = None"
    using receipt_facts(1) [OF valid, of "fst (hd completed)" "snd (hd completed)"] ne by (simp add: r(4))
  have single: "\<exists>segment receipt. completed = [(segment, receipt)] \<and> dr_status receipt = DRS_RETRYABLE_FAILURE"
    if "?status = DRS_RETRYABLE_FAILURE"
    using retryable_single [OF shape ne that] by blast
  have after: "on_some (validate_retry_after (dr_status r = DRS_RETRYABLE_FAILURE)) (dr_retry_after_seconds r) = None"
  proof (cases "?status = DRS_RETRYABLE_FAILURE")
    case True
    then obtain segment receipt where sr: "completed = [(segment, receipt)]" "dr_status receipt = DRS_RETRYABLE_FAILURE"
      using single by blast
    have "on_some (validate_retry_after True) (dr_retry_after_seconds receipt) = None"
      using receipt_facts(2) [OF valid, of segment receipt] sr by simp
    moreover have "dr_retry_after_seconds r = dr_retry_after_seconds receipt"
      unfolding r(6) if_P [OF True] using sr(1) by simp
    ultimately show ?thesis using True by (simp add: r(2))
  qed (simp add: r(6))
  have retry: "\<not> (dr_status r = DRS_RETRYABLE_FAILURE \<and>
       (dr_native_message_id r \<noteq> None
        \<or> (\<exists>item \<in> set (dr_items r). di_status item \<in> {DIS_ACCEPTED, DIS_UNKNOWN})
        \<or> (\<exists>item \<in> set (dr_items r). di_native_message_id item \<noteq> None)
        \<or> (\<exists>segment \<in> set (dr_segments r). ds_status segment \<in> {DSS_ACCEPTED_BY_PLATFORM, DSS_UNKNOWN})
        \<or> (\<exists>segment \<in> set (dr_segments r). ds_native_message_id segment \<noteq> None)))" (is "\<not> (_ \<and> ?bad)")
  proof
    assume bad: "dr_status r = DRS_RETRYABLE_FAILURE \<and> ?bad"
    then obtain segment receipt where sr: "completed = [(segment, receipt)]" "dr_status receipt = DRS_RETRYABLE_FAILURE"
      using single r(2) by auto
    have v: "validate_delivery_receipt_for_content receipt (om_content (ps_message segment)) = None" using valid sr(1) by simp
    have "\<forall>out \<in> set ?outs. di_status out \<notin> {DIS_ACCEPTED, DIS_UNKNOWN} \<and> di_native_message_id out = None"
      using completed_retryable [OF v sr(2)] by (auto simp: all_outcomes_def sr(1) skipped_items_def)
    then have "\<forall>item \<in> set (dr_items r). di_status item \<notin> {DIS_ACCEPTED, DIS_UNKNOWN} \<and> di_native_message_id item = None"
      unfolding r(3) using aggregate_item_retryable by auto
    moreover have "\<forall>s \<in> set (dr_segments r). ds_status s \<notin> {DSS_ACCEPTED_BY_PLATFORM, DSS_UNKNOWN} \<and> ds_native_message_id s = None"
      using receipt_facts(3) [OF v] sr by (auto simp: r(5) completed_segment_def skipped_segment_def)
    moreover have "dr_native_message_id r = None" using receipt_facts(3) [OF v] sr by (simp add: r(4))
    ultimately show False using bad by auto
  qed
  have "validate_delivery_receipt r = None"
    unfolding validate_delivery_receipt_def
    using native after retry aggregate_items_ok(1) [OF outs ids] aggregate_segments_ok(1) [OF wf shape]
    by (simp add: r(3,5))
  moreover have "first_error (map (item_matches_content source) (dr_items r)) = None"
    unfolding r(3) by (rule aggregate_items_ok(2) [OF outs ids])
  moreover have "first_error (map (segment_matches_content source) (dr_segments r)) = None"
    unfolding r(5) by (rule aggregate_segments_ok(2) [OF wf shape])
  ultimately show ?thesis
    using r(1) by (simp add: validate_delivery_receipt_for_content_def del: first_error_map_None)
qed

text \<open>
  C31: executing a plan ends with a receipt that is valid for the message. If the message was planned,
  its attachments have valid identifiers, the digest separates the segments' identities and the
  channel confirms acceptance only for items it accepted, then a completed execution, whatever the
  channel answered, raised or asked to retry, returns a receipt that passes every check of the
  channel contract against the message's own content.
\<close>

theorem execution_receipt_valid:
  assumes "plan sha256 casefold rewrite message profile a b = Inr p"
    and "digest_separates_segments sha256 message (length (pl_segments p))"
    and "list_all (\<lambda>c. on_some require_identifier (content_attachment_id c) = None) (om_content message)"
    and "confirming_channel io"
    and "execute config io p w = (Inr receipt, w')"
  shows "validate_delivery_receipt_for_content receipt (om_content message) = None"
proof -
  have wf: "plan_wf (om_content message) p" by (rule plan_well_formed [OF assms(1,2)])
  obtain completed v where run: "execute_segments config io (pl_segments p) [] w = (Inr completed, v)"
    "aggregate_receipts p completed = Inr receipt"
    using assms(5) by (auto simp: execute_def split: prod.splits sum.splits)
  have "execution_shape io (pl_segments p) completed" using execute_segments_shape [OF run(1)] by simp
  from aggregate_valid [OF wf this assms(4)] assms(3) run(2) show ?thesis by (auto simp: list_all_iff)
qed

section \<open>What reaches the channel\<close>

text \<open>The channel with a log of its calls: the delivery identity and the result of each.\<close>

type_synonym send_log = "(string \<times> send_result) list"

definition logging :: "'w channel_io \<Rightarrow> ('w \<times> send_log) channel_io" where
  "logging io = \<lparr>
     io_send = (\<lambda>message (w, log). case io_send io message w of
       (r, w) \<Rightarrow> (r, (w, log @ [(om_delivery_id message, r)]))),
     io_sleep = (\<lambda>delay (w, log). case io_sleep io delay w of (go, w) \<Rightarrow> (go, (w, log))),
     io_explain = io_explain io\<rparr>"

fun sent_status :: "send_result \<Rightarrow> delivery_receipt_status option" where
  "sent_status (Sent receipt) = Some (dr_status receipt)"
| "sent_status (SendRaised detail) = None"
| "sent_status SendInterrupted = None"

text \<open>
  The calls made for one segment: all under its identity, at most \<open>max_attempts\<close>, and each but the
  last was answered with a retryable failure.
\<close>

definition segment_calls :: "nat \<Rightarrow> planned_segment \<Rightarrow> send_log \<Rightarrow> bool" where
  "segment_calls attempts segment calls \<longleftrightarrow> calls \<noteq> [] \<and> length calls \<le> attempts \<and>
     list_all (\<lambda>c. fst c = om_delivery_id (ps_message segment)) calls \<and>
     list_all (\<lambda>c. sent_status (snd c) = Some DRS_RETRYABLE_FAILURE) (butlast calls)"

lemma attempt_send_log:
  assumes "attempt_send (logging io) message (w, log) = (r, (w', log'))"
  obtains result where "log' = log @ [(om_delivery_id message, result)]"
    "\<And>valid receipt. r = Inr (valid, receipt) \<Longrightarrow>
       if valid then result = Sent receipt else dr_status receipt = DRS_UNKNOWN"
proof -
  obtain result v where io: "io_send io message w = (result, v)" by (cases "io_send io message w")
  show thesis
  proof (rule that)
    show "log' = log @ [(om_delivery_id message, result)]"
      using assms io by (cases result) (auto simp: attempt_send_def logging_def split: option.splits)
    show "if valid then result = Sent receipt else dr_status receipt = DRS_UNKNOWN" if "r = Inr (valid, receipt)"
      for valid receipt
      using assms io that
      by (cases result) (auto simp: attempt_send_def logging_def plain_receipt_def split: option.splits)
  qed
qed

lemma send_segment_log:
  "send_segment config (logging io) segment attempt (w, log) = (r, (w', log')) \<Longrightarrow>
   \<exists>calls. log' = log @ calls \<and> segment_calls (max 1 (Suc (nat (dc_max_attempts config)) - attempt)) segment calls \<and>
     (\<forall>receipt. r = Inr receipt \<longrightarrow> dr_status receipt \<noteq> DRS_UNKNOWN \<longrightarrow> snd (last calls) = Sent receipt)"
proof (induction "nat (dc_max_attempts config - int attempt)" arbitrary: attempt w log rule: less_induct)
  case less
  obtain r1 w1 log1 where send: "attempt_send (logging io) (ps_message segment) (w, log) = (r1, (w1, log1))"
    by (cases "attempt_send (logging io) (ps_message segment) (w, log)") auto
  obtain result where log1: "log1 = log @ [(om_delivery_id (ps_message segment), result)]"
    and result: "\<And>valid receipt. r1 = Inr (valid, receipt) \<Longrightarrow>
       if valid then result = Sent receipt else dr_status receipt = DRS_UNKNOWN"
    using attempt_send_log [OF send] by blast
  have one: ?case if "log' = log1"
    "\<forall>receipt. r = Inr receipt \<longrightarrow> dr_status receipt \<noteq> DRS_UNKNOWN \<longrightarrow> result = Sent receipt"
    using that log1 by (intro exI [of _ "[(om_delivery_id (ps_message segment), result)]"]) (simp add: segment_calls_def)
  note prem = less.prems [unfolded send_segment.simps [of config "logging io" segment attempt "(w, log)"] send]
  show ?case
  proof (cases r1)
    case (Inl e)
    with prem one show ?thesis by auto
  next
    case (Inr vr)
    obtain valid rc where vr: "vr = (valid, rc)" by (cases vr)
    note res = result [OF Inr [unfolded vr]]
    show ?thesis
    proof (cases "\<not> valid \<or> dr_status rc \<noteq> DRS_RETRYABLE_FAILURE \<or> int attempt \<ge> dc_max_attempts config")
      case True
      with prem one Inr vr res show ?thesis by (auto split: if_splits)
    next
      case False
      show ?thesis
      proof (cases "retry_delay config rc attempt")
        case retry: (Inl e)
        with prem one Inr vr False show ?thesis by auto
      next
        case retry: (Inr d)
        show ?thesis
        proof (cases d)
          case None
          with prem one Inr vr False retry res show ?thesis by auto
        next
          case (Some delay)
          obtain go w2 where sleep: "io_sleep io delay w1 = (go, w2)" by (cases "io_sleep io delay w1")
          then have sleep': "io_sleep (logging io) delay (w1, log1) = (go, (w2, log1))" by (simp add: logging_def)
          show ?thesis
          proof (cases go)
            case no: False
            with prem one Inr vr False retry Some sleep' show ?thesis by auto
          next
            case True
            with prem Inr vr False retry Some sleep'
            have rest: "send_segment config (logging io) segment (Suc attempt) (w2, log1) = (r, (w', log'))" by simp
            have lower: "nat (dc_max_attempts config - int (Suc attempt)) < nat (dc_max_attempts config - int attempt)"
              using False by auto
            obtain calls where calls: "log' = log1 @ calls"
              "segment_calls (max 1 (Suc (nat (dc_max_attempts config)) - Suc attempt)) segment calls"
              "\<forall>receipt. r = Inr receipt \<longrightarrow> dr_status receipt \<noteq> DRS_UNKNOWN \<longrightarrow> snd (last calls) = Sent receipt"
              using less.hyps [OF lower rest] by blast
            have "segment_calls (max 1 (Suc (nat (dc_max_attempts config)) - attempt)) segment
                ((om_delivery_id (ps_message segment), result) # calls)"
              using calls(2) False res by (auto simp: segment_calls_def split: if_splits)
            then show ?thesis
              using calls log1 by (intro exI [of _ "(om_delivery_id (ps_message segment), result) # calls"])
                (auto simp: segment_calls_def)
          qed
        qed
      qed
    qed
  qed
qed

definition answered :: "planned_segment \<times> delivery_receipt \<Rightarrow> send_log \<Rightarrow> bool" where
  "answered done calls \<longleftrightarrow> (dr_status (snd done) \<noteq> DRS_UNKNOWN \<longrightarrow> snd (last calls) = Sent (snd done))"

lemma execute_segments_log:
  "execute_segments config (logging io) segments done (w, log) = (r, (w', log')) \<Longrightarrow>
   \<exists>calls. log' = log @ concat calls \<and> length calls \<le> length segments \<and>
     list_all2 (segment_calls (max 1 (nat (dc_max_attempts config)))) (take (length calls) segments) calls \<and>
     list_all (\<lambda>b. sent_status (snd (last b)) = Some DRS_ACCEPTED_BY_PLATFORM) (butlast calls) \<and>
     (\<forall>out. r = Inr (done @ out) \<longrightarrow> list_all2 answered out calls)"
proof (induction segments arbitrary: "done" w log)
  case Nil
  then show ?case by (intro exI [of _ "[]"]) auto
next
  case (Cons segment rest)
  obtain r1 w1 log1 where send: "send_segment config (logging io) segment 1 (w, log) = (r1, (w1, log1))"
    by (cases "send_segment config (logging io) segment 1 (w, log)") auto
  obtain b where b: "log1 = log @ b" "segment_calls (max 1 (nat (dc_max_attempts config))) segment b"
    "\<forall>receipt. r1 = Inr receipt \<longrightarrow> dr_status receipt \<noteq> DRS_UNKNOWN \<longrightarrow> snd (last b) = Sent receipt"
    using send_segment_log [OF send] by auto
  have stop: ?case if "log' = log1" "\<forall>out. r = Inr (done @ out) \<longrightarrow> list_all2 answered out [b]"
    using that b by (intro exI [of _ "[b]"]) simp
  show ?case
  proof (cases r1)
    case (Inl e)
    with Cons.prems send stop show ?thesis by auto
  next
    case (Inr receipt)
    have ans: "answered (segment, receipt) b" using b(3) Inr by (simp add: answered_def)
    show ?thesis
    proof (cases "dr_status receipt = DRS_ACCEPTED_BY_PLATFORM")
      case False
      with Cons.prems send Inr stop ans show ?thesis by auto
    next
      case True
      with Cons.prems send Inr
      have "execute_segments config (logging io) rest (done @ [(segment, receipt)]) (w1, log1) = (r, (w', log'))" by simp
      from Cons.IH [OF this] obtain calls where calls: "log' = log1 @ concat calls" "length calls \<le> length rest"
        "list_all2 (segment_calls (max 1 (nat (dc_max_attempts config)))) (take (length calls) rest) calls"
        "list_all (\<lambda>b. sent_status (snd (last b)) = Some DRS_ACCEPTED_BY_PLATFORM) (butlast calls)"
        "\<forall>out. r = Inr ((done @ [(segment, receipt)]) @ out) \<longrightarrow> list_all2 answered out calls" by blast
      have acc: "sent_status (snd (last b)) = Some DRS_ACCEPTED_BY_PLATFORM" using b(3) Inr True by simp
      have grown: "\<exists>more. out = (segment, receipt) # more" if "r = Inr (done @ out)" for out
        using execute_segments_shape [OF \<open>execute_segments config (logging io) rest (done @ [(segment, receipt)]) (w1, log1) = (r, (w', log'))\<close> [unfolded that]]
        by auto
      have "list_all2 answered out (b # calls)" if out: "r = Inr (done @ out)" for out
      proof -
        obtain more where more: "out = (segment, receipt) # more" using grown [OF out] by blast
        with calls(5) out have "list_all2 answered more calls" by simp
        with ans more show ?thesis by simp
      qed
      with calls(1-4) b acc show ?thesis by (intro exI [of _ "b # calls"]) auto
    qed
  qed
qed

text \<open>
  C32: the channel is called as the plan says. The calls of an execution, also of one that is cancelled
  or fails, fall into groups for the first segments of the plan in order; within a group every call
  is for that segment, there are at most \<open>max_attempts\<close>, and a segment is sent again only after a
  retryable failure; the next segment is sent only after an acceptance. And if the receipt of the
  message is retryable, the channel accepted nothing, so sending the message again cannot duplicate
  a part of it.
\<close>

theorem sends_follow_plan:
  assumes "execute config (logging io) p (w, []) = (r, (w', log))" and "1 \<le> dc_max_attempts config"
    and "pl_segments p \<noteq> []"
  shows "\<exists>calls. log = concat calls \<and> length calls \<le> length (pl_segments p) \<and>
    list_all2 (segment_calls (nat (dc_max_attempts config))) (take (length calls) (pl_segments p)) calls \<and>
    list_all (\<lambda>b. sent_status (snd (last b)) = Some DRS_ACCEPTED_BY_PLATFORM) (butlast calls) \<and>
    (case r of Inl e \<Rightarrow> True
     | Inr receipt \<Rightarrow> dr_status receipt = DRS_RETRYABLE_FAILURE \<longrightarrow>
         list_all (\<lambda>c. sent_status (snd c) = Some DRS_RETRYABLE_FAILURE) log)"
proof -
  obtain x where run: "execute_segments config (logging io) (pl_segments p) [] (w, []) = (x, (w', log))"
    and r: "r = (case x of Inl e \<Rightarrow> Inl e | Inr completed \<Rightarrow> aggregate_receipts p completed)"
    using assms(1) by (auto simp: execute_def split: prod.splits sum.splits)
  have n: "max 1 (nat (dc_max_attempts config)) = nat (dc_max_attempts config)" using assms(2) by simp
  obtain calls where calls: "log = concat calls" "length calls \<le> length (pl_segments p)"
    "list_all2 (segment_calls (nat (dc_max_attempts config))) (take (length calls) (pl_segments p)) calls"
    "list_all (\<lambda>b. sent_status (snd (last b)) = Some DRS_ACCEPTED_BY_PLATFORM) (butlast calls)"
    "\<forall>out. x = Inr ([] @ out) \<longrightarrow> list_all2 answered out calls"
    using execute_segments_log [OF run] unfolding n by auto
  have "list_all (\<lambda>c. sent_status (snd c) = Some DRS_RETRYABLE_FAILURE) log"
    if result: "r = Inr receipt" "dr_status receipt = DRS_RETRYABLE_FAILURE" for receipt
  proof -
    obtain completed where x: "x = Inr completed" "aggregate_receipts p completed = Inr receipt"
      using r result(1) by (cases x) auto
    have shape: "execution_shape (logging io) (pl_segments p) completed"
      using execute_segments_shape [OF run [unfolded x(1)]] by simp
    have ne: "completed \<noteq> []" using shape assms(3) by (simp add: execution_shape_def)
    have status: "aggregate_status (dr_status (last (map snd completed)))
        (list_ex (\<lambda>r. dr_status r = DRS_ACCEPTED_BY_PLATFORM) (butlast (map snd completed))) = DRS_RETRYABLE_FAILURE"
      using x(2) result(2) by (auto simp: aggregate_receipts_def Let_def split: if_splits)
    obtain segment rc where single: "completed = [(segment, rc)]" "dr_status rc = DRS_RETRYABLE_FAILURE"
      using retryable_single [OF shape ne status] by blast
    have "list_all2 answered [(segment, rc)] calls" using calls(5) x(1) single(1) by simp
    then obtain b where b: "calls = [b]" "answered (segment, rc) b" by (auto simp: list_all2_Cons1)
    have "segment_calls (nat (dc_max_attempts config)) (hd (pl_segments p)) b"
      using calls(3) b(1) assms(3) by (cases "pl_segments p") auto
    then have "b \<noteq> []" "list_all (\<lambda>c. sent_status (snd c) = Some DRS_RETRYABLE_FAILURE) (butlast b)"
      by (auto simp: segment_calls_def)
    moreover have "sent_status (snd (last b)) = Some DRS_RETRYABLE_FAILURE"
      using b(2) single(2) by (simp add: answered_def)
    ultimately have "list_all (\<lambda>c. sent_status (snd c) = Some DRS_RETRYABLE_FAILURE) (butlast b @ [last b])"
      by (simp only: list_all_append list.pred_inject simp_thms)
    with \<open>b \<noteq> []\<close> show ?thesis by (simp add: calls(1) b(1))
  qed
  with calls(1-4) show ?thesis by (intro exI [of _ calls]) (auto split: sum.splits)
qed

section \<open>Concrete executions\<close>

definition sample_config :: coordinator_config where
  "sample_config = \<lparr>dc_max_pending = 256, dc_max_pending_per_destination = 32, dc_max_concurrent_destinations = 16,
     dc_max_source_items_per_delivery = 256, dc_max_segments_per_delivery = 256, dc_max_attempts = 2,
     dc_retry_initial_seconds = Micros 250000, dc_retry_max_seconds = Micros 5000000,
     dc_backpressure_retry_after_seconds = Micros 1000000\<rparr>"

definition sample_digest :: "string \<Rightarrow> string" where
  "sample_digest s =
     (let id = (\<lambda>n. json_dumps (segment_identity (om_conversation_ref sample_outbound) (om_delivery_id sample_outbound) n))
      in if s = id 0 then ''0'' else if s = id 1 then ''1'' else ''2'')"

text \<open>A channel that answers the n-th call with the n-th receipt.\<close>

definition scripted :: "delivery_receipt list \<Rightarrow> nat channel_io" where
  "scripted receipts = \<lparr>
     io_send = (\<lambda>message n. (if n < length receipts then Sent (receipts ! n) else SendRaised ''closed'', Suc n)),
     io_sleep = (\<lambda>delay n. (True, n)), io_explain = (\<lambda>receipt contents. ''invalid'')\<rparr>"

definition accepted_receipt :: delivery_receipt where
  "accepted_receipt = plain_receipt DRS_ACCEPTED_BY_PLATFORM None None"

definition busy_receipt :: delivery_receipt where
  "busy_receipt = plain_receipt DRS_RETRYABLE_FAILURE None (Some (Micros 7))"

definition sample_item :: "delivery_item_status \<Rightarrow> string option \<Rightarrow> delivery_item_receipt" where
  "sample_item status native = \<lparr>di_content_index = 0, di_status = status, di_attachment_id = None,
     di_native_message_id = native, di_detail = None\<rparr>"

lemma sample_item_simps:
  "di_content_index (sample_item status native) = 0" "di_status (sample_item status native) = status"
  "di_native_message_id (sample_item status native) = native" "di_attachment_id (sample_item status native) = None"
  by (simp_all add: sample_item_def)

lemma sample_segments:
  "pl_segments (sample_plan sha256) = [
     make_segment sample_outbound sample_profile 0 (segment_id sha256 sample_outbound 0) [TextContent [104, 105] PLAIN] [0],
     make_segment sample_outbound sample_profile 1 (segment_id sha256 sample_outbound 1) [TextContent [128512, 33] PLAIN] [0],
     make_segment sample_outbound sample_profile 2 (segment_id sha256 sample_outbound 2) [AttachmentContent sample_attachment] [1]]"
  by (simp add: sample_plan_def sample_pieces_def numeral_2_eq_2)

lemma send_scripted:
  assumes "n < length receipts" and "validate_delivery_receipt_for_content (receipts ! n) (om_content (ps_message segment)) = None"
  shows "attempt_send (scripted receipts) (ps_message segment) n = (Inr (True, receipts ! n), Suc n)"
  using assms by (simp add: attempt_send_def scripted_def)

lemma send_final:
  assumes "n < length receipts" and "validate_delivery_receipt_for_content (receipts ! n) (om_content (ps_message segment)) = None"
    and "dr_status (receipts ! n) \<noteq> DRS_RETRYABLE_FAILURE"
  shows "send_segment config (scripted receipts) segment attempt n = (Inr (receipts ! n), Suc n)"
  using assms(3) by (subst send_segment.simps) (simp add: send_scripted [OF assms(1,2)])

lemma accepted_valid: "validate_delivery_receipt_for_content accepted_receipt contents = None"
  by (simp add: validate_delivery_receipt_for_content_def validate_delivery_receipt_def accepted_receipt_def plain_receipt_def)

definition sample_receipt :: "(string \<Rightarrow> string) \<Rightarrow> delivery_receipt" where
  "sample_receipt sha256 =
     (case aggregate_receipts (sample_plan sha256) (map (\<lambda>s. (s, accepted_receipt)) (pl_segments (sample_plan sha256))) of
        Inr receipt \<Rightarrow> receipt | Inl e \<Rightarrow> accepted_receipt)"

lemma sample_execution:
  "execute sample_config (scripted [accepted_receipt, accepted_receipt, accepted_receipt]) (sample_plan sha256) 0 =
   (Inr (sample_receipt sha256), 3)"
proof -
  let ?io = "scripted [accepted_receipt, accepted_receipt, accepted_receipt]"
  have send: "send_segment sample_config ?io segment (Suc 0) n = (Inr accepted_receipt, Suc n)" if "n < 3" for segment n
    using send_final [of n "[accepted_receipt, accepted_receipt, accepted_receipt]" segment] that accepted_valid
    by (auto simp: less_Suc_eq numeral_3_eq_3 accepted_receipt_def plain_receipt_def)
  have final: "dr_status accepted_receipt = DRS_ACCEPTED_BY_PLATFORM"
    by (simp add: accepted_receipt_def plain_receipt_def)
  have "execute_segments sample_config ?io (pl_segments (sample_plan sha256)) [] 0 =
      (Inr (map (\<lambda>s. (s, accepted_receipt)) (pl_segments (sample_plan sha256))), 3)"
    unfolding sample_segments by (simp add: send final)
  moreover have "\<exists>r. aggregate_receipts (sample_plan sha256) (map (\<lambda>s. (s, accepted_receipt)) (pl_segments (sample_plan sha256))) = Inr r"
    unfolding sample_segments aggregate_receipts_def by (simp add: Let_def misaligned_def make_segment_def)
  ultimately show ?thesis by (auto simp: execute_def sample_receipt_def)
qed

lemma sample_digest_separates: "digest_separates_segments sample_digest sample_outbound 3"
  by (simp add: digest_separates_segments_def sample_digest_def Let_def numeral_3_eq_3)

theorem execution_receipt_valid_witness:
  "execute sample_config (scripted [accepted_receipt, accepted_receipt, accepted_receipt]) (sample_plan sample_digest) 0 =
     (Inr (sample_receipt sample_digest), 3) \<and>
   validate_delivery_receipt_for_content (sample_receipt sample_digest) (om_content sample_outbound) = None"
proof -
  let ?io = "scripted [accepted_receipt, accepted_receipt, accepted_receipt]"
  have "confirming_channel ?io"
    by (auto simp: confirming_channel_def scripted_def native_ids_confirm_def accepted_receipt_def plain_receipt_def
        less_Suc_eq split: if_splits)
  moreover have "list_all (\<lambda>c. on_some require_identifier (content_attachment_id c) = None) (om_content sample_outbound)"
    by (simp add: sample_outbound_def sample_attachment_def)
  moreover have "digest_separates_segments sample_digest sample_outbound (length (pl_segments (sample_plan sample_digest)))"
    using sample_digest_separates by (simp add: sample_segments numeral_3_eq_3)
  ultimately show ?thesis
    using execution_receipt_valid [OF sample_planned [of sample_digest id id] _ _ _ sample_execution] sample_execution by blast
qed

lemma sample_retries:
  "execute sample_config (logging (scripted [busy_receipt, busy_receipt])) (sample_plan sha256) (0, []) =
     (aggregate_receipts (sample_plan sha256) [(hd (pl_segments (sample_plan sha256)), busy_receipt)],
      (2, [(segment_id sha256 sample_outbound 0, Sent busy_receipt), (segment_id sha256 sample_outbound 0, Sent busy_receipt)]))"
proof -
  let ?io = "logging (scripted [busy_receipt, busy_receipt])"
  let ?segment = "hd (pl_segments (sample_plan sha256))"
  have busy: "dr_status busy_receipt = DRS_RETRYABLE_FAILURE" "dr_retry_after_seconds busy_receipt = Some (Micros 7)"
    by (simp_all add: busy_receipt_def plain_receipt_def)
  have valid: "validate_delivery_receipt_for_content busy_receipt contents = None" for contents
    by (simp add: validate_delivery_receipt_for_content_def validate_delivery_receipt_def validate_retry_after_def busy_receipt_def plain_receipt_def)
  have call: "attempt_send ?io (ps_message ?segment) (n, log) =
      (Inr (True, busy_receipt), (Suc n, log @ [(segment_id sha256 sample_outbound 0, Sent busy_receipt)]))" if "n < 2" for n log
    using that valid
    by (auto simp: attempt_send_def logging_def scripted_def sample_segments make_segment_def less_Suc_eq numeral_2_eq_2)
  have policy: "dc_max_attempts sample_config = 2" "retry_delay sample_config busy_receipt n = Inr (Some (Micros 7))"
    "io_sleep ?io d v = (True, v)" for n d v
    by (simp_all add: sample_config_def retry_delay_def busy logging_def scripted_def case_prod_beta')
  have second: "send_segment sample_config ?io ?segment (Suc (Suc 0)) (Suc 0, log) =
      (Inr busy_receipt, (2, log @ [(segment_id sha256 sample_outbound 0, Sent busy_receipt)]))" for log
    by (subst send_segment.simps) (simp add: call policy busy numeral_2_eq_2)
  have "send_segment sample_config ?io ?segment (Suc 0) (0, []) =
      (Inr busy_receipt, (2, [(segment_id sha256 sample_outbound 0, Sent busy_receipt),
        (segment_id sha256 sample_outbound 0, Sent busy_receipt)]))"
    by (subst send_segment.simps) (simp add: call policy busy second)
  then show ?thesis by (simp add: execute_def sample_segments busy)
qed

theorem sends_follow_plan_witness:
  "\<exists>receipt log. execute sample_config (logging (scripted [busy_receipt, busy_receipt])) (sample_plan sample_digest) (0, []) =
     (Inr receipt, (2, log)) \<and> dr_status receipt = DRS_RETRYABLE_FAILURE \<and> length log = 2 \<and>
   list_all (\<lambda>c. sent_status (snd c) = Some DRS_RETRYABLE_FAILURE) log"
proof -
  obtain receipt where receipt: "aggregate_receipts (sample_plan sample_digest)
      [(hd (pl_segments (sample_plan sample_digest)), busy_receipt)] = Inr receipt" "dr_status receipt = DRS_RETRYABLE_FAILURE"
    unfolding sample_segments aggregate_receipts_def
    by (simp add: Let_def misaligned_def make_segment_def busy_receipt_def plain_receipt_def aggregate_status_def)
  from sends_follow_plan [OF sample_retries [of sample_digest, unfolded receipt(1)]] receipt(2)
  have "list_all (\<lambda>c. sent_status (snd c) = Some DRS_RETRYABLE_FAILURE)
      [(segment_id sample_digest sample_outbound 0, Sent busy_receipt), (segment_id sample_digest sample_outbound 0, Sent busy_receipt)]"
    by (auto simp: sample_config_def sample_segments)
  with receipt sample_retries [of sample_digest] show ?thesis by simp
qed

text \<open>
  The condition on the channel in \<open>execution_receipt_valid\<close> is needed. The first receipt below is
  accepted as a whole but rejects its only item, with a native message id; the second is rejected
  as a whole with a retryable item. Each of them is a valid receipt for its segment, and both
  segments come from the same source item.
\<close>

definition rejected_inside :: delivery_receipt where
  "rejected_inside = accepted_receipt\<lparr>dr_items := [sample_item DIS_REJECTED (Some ''n1'')]\<rparr>"

definition retryable_inside :: delivery_receipt where
  "retryable_inside = (plain_receipt DRS_REJECTED_BY_PLATFORM None None)\<lparr>dr_items := [sample_item DIS_RETRYABLE_FAILURE None]\<rparr>"

text \<open>
  C36: a receipt that the coordinator builds can violate the contract that the same coordinator
  enforces on channels. Both segment receipts of this delivery are valid, but the receipt of the
  message joins the retryable status of one with the native message id of the other in one item,
  which \<open>validate_delivery_receipt\<close> refuses.
\<close>

theorem aggregate_receipt_can_be_invalid:
  "\<exists>receipt. plan sha256 casefold rewrite sample_outbound sample_profile (Some 2) (Some 3) = Inr (sample_plan sha256) \<and>
     execute sample_config (scripted [rejected_inside, retryable_inside]) (sample_plan sha256) 0 = (Inr receipt, 2) \<and>
     validate_delivery_receipt_for_content rejected_inside [TextContent [104, 105] PLAIN] = None \<and>
     validate_delivery_receipt_for_content retryable_inside [TextContent [128512, 33] PLAIN] = None \<and>
     validate_delivery_receipt receipt = Some ContractViolation"
proof -
  let ?script = "[rejected_inside, retryable_inside]"
  note defs = rejected_inside_def retryable_inside_def accepted_receipt_def plain_receipt_def sample_item_def
  have valid: "validate_delivery_receipt_for_content rejected_inside [c] = None"
    "validate_delivery_receipt_for_content retryable_inside [c] = None" for c
    by (simp_all add: validate_delivery_receipt_for_content_def validate_delivery_receipt_def item_matches_content_def defs)
  have status: "dr_status rejected_inside = DRS_ACCEPTED_BY_PLATFORM" "dr_status retryable_inside = DRS_REJECTED_BY_PLATFORM"
    by (simp_all add: defs)
  let ?first = "hd (pl_segments (sample_plan sha256))" and ?second = "hd (tl (pl_segments (sample_plan sha256)))"
  have "send_segment sample_config (scripted ?script) ?first (Suc 0) 0 = (Inr rejected_inside, Suc 0)"
    "send_segment sample_config (scripted ?script) ?second (Suc 0) (Suc 0) = (Inr retryable_inside, 2)"
    using send_final [of 0 ?script ?first] send_final [of 1 ?script ?second] valid status
    by (auto simp: sample_segments make_segment_def numeral_2_eq_2)
  then have run: "execute_segments sample_config (scripted ?script) (pl_segments (sample_plan sha256)) [] 0 =
      (Inr [(?first, rejected_inside), (?second, retryable_inside)], 2)"
    by (simp add: sample_segments status)
  have item: "completed_items ?first rejected_inside = [sample_item DIS_REJECTED (Some ''n1'')]"
    "completed_items ?second retryable_inside = [sample_item DIS_RETRYABLE_FAILURE None]"
    by (simp_all add: completed_items_def segment_items_def sample_segments make_segment_def defs)
  have joined: "aggregate_item_outcomes 0 [sample_item DIS_REJECTED (Some ''n1''), sample_item DIS_RETRYABLE_FAILURE None] =
      (sample_item DIS_RETRYABLE_FAILURE (Some ''n1''))\<lparr>di_detail := Some ''source content spans segments with different outcomes''\<rparr>"
    by (simp add: aggregate_item_outcomes_def aggregate_item_status_def single_id_def sample_item_def map_filter_simps Let_def
        insert_commute [of DIS_REJECTED])
  have third: "skipped_items (pl_segments (sample_plan sha256) ! 2) = [\<lparr>di_content_index = 1, di_status = DIS_SKIPPED,
      di_attachment_id = Some (at_attachment_id sample_attachment), di_native_message_id = None, di_detail = Some skipped_detail\<rparr>]"
    by (simp add: skipped_items_def segment_items_def sample_segments make_segment_def)
  obtain receipt where receipt: "aggregate_receipts (sample_plan sha256)
      [(?first, rejected_inside), (?second, retryable_inside)] = Inr receipt" "validate_delivery_receipt receipt = Some ContractViolation"
    using item third
    by (simp add: joined sample_item_simps sample_segments aggregate_receipts_def all_outcomes_def Let_def misaligned_def make_segment_def status
        validate_delivery_receipt_def aggregate_status_def)
  with run valid sample_planned [of sha256] show ?thesis by (simp add: execute_def)
qed

end
