(* ===== verification/Delivery_Admission.thy ===== *)
theory Delivery_Admission
  imports Delivery_Coordination
begin

text \<open>
  Admission of deliveries (\<open>DeliveryCoordinator\<close> of \<open>gateway/delivery/coordination.py\<close>): the counters
  that bound the pending deliveries, \<open>submit\<close>, \<open>start\<close>, \<open>close\<close> and the task that executes one
  submission, as a state machine whose events are the steps of the event loop.

  A task is \<open>QUEUED\<close> from \<open>create_task\<close> until the loop first runs it, \<open>RUNNING\<close> inside the body of
  \<open>_run_submission\<close>, \<open>RETURNED\<close> after its \<open>finally\<close>. A task that is cancelled while it is queued is
  \<open>DROPPED\<close>: asyncio throws the cancellation into a coroutine that has not started, so no statement
  of its body runs, the \<open>finally\<close> included. What a running task waits for (the lock of its
  destination, the channel) is the theories \<open>Keyed_Locks\<close> and \<open>Delivery_Coordination\<close>; here its
  result is arbitrary.
\<close>

section \<open>State\<close>

datatype task_phase = QUEUED | RUNNING | RETURNED | DROPPED

datatype delivery_future = FuturePending | FutureResult delivery_receipt | FutureError error | FutureCancelled

record delivery_task =
  dt_plan :: delivery_plan
  dt_phase :: task_phase
  dt_cancel :: bool
  dt_future :: delivery_future

text \<open>
  \<open>co_loop\<close> lists the tasks that were ever created, by their number; \<open>co_tasks\<close> is the coordinator's
  own set \<open>_tasks\<close>; \<open>co_closers\<close> the sets that the calls of \<open>close\<close> in progress wait for.
\<close>

record coordinator =
  co_config :: coordinator_config
  co_pending :: int
  co_pending_by_destination :: "conversation_ref \<rightharpoonup> int"
  co_tasks :: "nat set"
  co_closed :: bool
  co_loop :: "delivery_task list"
  co_closers :: "nat set list"

record delivery_handle =
  dh_admitted :: bool
  dh_future :: delivery_future
  dh_task :: "nat option"

section \<open>Operations\<close>

definition new_coordinator :: "coordinator_config \<Rightarrow> coordinator res" where
  "new_coordinator config = checked (validate_config config)
     (Inr \<lparr>co_config = config, co_pending = 0, co_pending_by_destination = Map.empty, co_tasks = {},
           co_closed = False, co_loop = [], co_closers = []\<rparr>)"

definition preflight ::
  "(string \<Rightarrow> string) \<Rightarrow> (pytext \<Rightarrow> pytext) \<Rightarrow> (pytext \<Rightarrow> pytext) \<Rightarrow> coordinator_config \<Rightarrow>
   delivery_profile \<Rightarrow> outbound_message \<Rightarrow> delivery_plan res" where
  "preflight sha256 casefold rewrite config profile message =
     plan sha256 casefold rewrite message profile
       (Some (dc_max_source_items_per_delivery config)) (Some (dc_max_segments_per_delivery config))"

definition validate_source_item_count :: "coordinator_config \<Rightarrow> int \<Rightarrow> check" where
  "validate_source_item_count config count =
     raise_if (count > dc_max_source_items_per_delivery config) DeliveryPlanningError"

definition start :: "coordinator \<Rightarrow> (coordinator, unit) outcome" where
  "start s = (if co_pending s \<noteq> 0 \<or> co_tasks s \<noteq> {} then (Inl RuntimeError, s)
              else (Inr (), s\<lparr>co_closed := False\<rparr>))"

definition destination_pending :: "coordinator \<Rightarrow> conversation_ref \<Rightarrow> int" where
  "destination_pending s ref = (case co_pending_by_destination s ref of Some n \<Rightarrow> n | None \<Rightarrow> 0)"

definition coordinator_reserve :: "conversation_ref \<Rightarrow> coordinator \<Rightarrow> bool \<times> coordinator" where
  "coordinator_reserve conversation_ref s =
     (if co_pending s \<ge> dc_max_pending (co_config s) \<or>
         destination_pending s conversation_ref \<ge> dc_max_pending_per_destination (co_config s)
      then (False, s)
      else (True, s\<lparr>co_pending := co_pending s + 1,
                    co_pending_by_destination :=
                      (co_pending_by_destination s)(conversation_ref \<mapsto> destination_pending s conversation_ref + 1)\<rparr>))"

definition coordinator_release :: "conversation_ref \<Rightarrow> coordinator \<Rightarrow> coordinator" where
  "coordinator_release conversation_ref s =
     (let remaining = (case co_pending_by_destination s conversation_ref of Some n \<Rightarrow> n | None \<Rightarrow> 1) - 1 in
      s\<lparr>co_pending := co_pending s - 1,
        co_pending_by_destination := (co_pending_by_destination s)
          (conversation_ref := if remaining > 0 then Some remaining else None)\<rparr>)"

definition backpressure_receipt :: "coordinator_config \<Rightarrow> delivery_receipt" where
  "backpressure_receipt config =
     plain_receipt DRS_RETRYABLE_FAILURE (Some ''delivery coordinator is at bounded capacity'')
       (Some (dc_backpressure_retry_after_seconds config))"

definition create_task :: "delivery_plan \<Rightarrow> coordinator \<Rightarrow> coordinator" where
  "create_task p s = s\<lparr>
     co_loop := co_loop s @ [\<lparr>dt_plan = p, dt_phase = QUEUED, dt_cancel = False, dt_future = FuturePending\<rparr>],
     co_tasks := insert (length (co_loop s)) (co_tasks s)\<rparr>"

definition submit ::
  "(string \<Rightarrow> string) \<Rightarrow> (pytext \<Rightarrow> pytext) \<Rightarrow> (pytext \<Rightarrow> pytext) \<Rightarrow> delivery_profile \<Rightarrow> outbound_message \<Rightarrow>
   coordinator \<Rightarrow> (coordinator, delivery_handle) outcome" where
  "submit sha256 casefold rewrite profile message s =
     (if co_closed s then (Inl RuntimeError, s)
      else case coordinator_reserve (om_conversation_ref message) s of
          (False, s) \<Rightarrow>
            (Inr \<lparr>dh_admitted = False, dh_future = FutureResult (backpressure_receipt (co_config s)), dh_task = None\<rparr>, s)
        | (True, s) \<Rightarrow>
            (case preflight sha256 casefold rewrite (co_config s) profile message of
               Inl e \<Rightarrow> (Inl e, coordinator_release (om_conversation_ref message) s)
             | Inr p \<Rightarrow>
                 (Inr \<lparr>dh_admitted = True, dh_future = FuturePending, dh_task = Some (length (co_loop s))\<rparr>,
                  create_task p s)))"

definition update_task :: "nat \<Rightarrow> (delivery_task \<Rightarrow> delivery_task) \<Rightarrow> coordinator \<Rightarrow> coordinator" where
  "update_task i f s = s\<lparr>co_loop := (co_loop s)[i := f (co_loop s ! i)]\<rparr>"

text \<open>\<open>Task.cancel\<close>, which \<open>DeliveryHandle.cancel\<close> and \<open>close\<close> call; a finished task ignores it.\<close>

definition cancel_task :: "nat \<Rightarrow> coordinator \<Rightarrow> coordinator" where
  "cancel_task i = update_task i (\<lambda>t. if dt_phase t \<in> {QUEUED, RUNNING} then t\<lparr>dt_cancel := True\<rparr> else t)"

definition begin_task :: "nat \<Rightarrow> coordinator \<Rightarrow> coordinator" where
  "begin_task i = update_task i (\<lambda>t. t\<lparr>dt_phase := RUNNING\<rparr>)"

definition drop_task :: "nat \<Rightarrow> coordinator \<Rightarrow> coordinator" where
  "drop_task i = update_task i (\<lambda>t. t\<lparr>dt_phase := DROPPED\<rparr>)"

definition settle :: "delivery_receipt res \<Rightarrow> delivery_future \<Rightarrow> delivery_future" where
  "settle result future =
     (if future \<noteq> FuturePending then future
      else case result of
          Inr receipt \<Rightarrow> FutureResult receipt
        | Inl e \<Rightarrow> if e = CancelledError then FutureCancelled else FutureError e)"

text \<open>The end of \<open>_run_submission\<close>, whatever the body returned or raised.\<close>

definition run_submission :: "nat \<Rightarrow> delivery_receipt res \<Rightarrow> coordinator \<Rightarrow> coordinator" where
  "run_submission i result s =
     coordinator_release (pl_conversation_ref (dt_plan (co_loop s ! i)))
       (update_task i (\<lambda>t. t\<lparr>dt_future := settle result (dt_future t), dt_phase := RETURNED\<rparr>) s)"

definition discard_task :: "nat \<Rightarrow> coordinator \<Rightarrow> coordinator" where
  "discard_task i s = s\<lparr>co_tasks := co_tasks s - {i}\<rparr>"

text \<open>\<open>close\<close> up to \<open>gather\<close>, and after it.\<close>

definition close_begin :: "coordinator \<Rightarrow> coordinator" where
  "close_begin s = s\<lparr>co_closed := True,
     co_loop := map (\<lambda>(i, t). if i \<in> co_tasks s \<and> dt_phase t \<in> {QUEUED, RUNNING} then t\<lparr>dt_cancel := True\<rparr> else t)
       (enumerate 0 (co_loop s)),
     co_closers := co_tasks s # co_closers s\<rparr>"

definition close_end :: "nat set \<Rightarrow> coordinator \<Rightarrow> coordinator" where
  "close_end waited s = s\<lparr>co_tasks := {}, co_closers := remove1 waited (co_closers s)\<rparr>"

section \<open>Steps\<close>

datatype admission_event =
    Start
  | Submit delivery_profile outbound_message
  | Begin nat
  | End nat "delivery_receipt res"
  | Drop nat
  | Cancel nat
  | Discard nat
  | CloseBegin
  | CloseEnd "nat set"

abbreviation finished :: "delivery_task \<Rightarrow> bool" where
  "finished t \<equiv> dt_phase t \<in> {RETURNED, DROPPED}"

inductive admission_step ::
  "(string \<Rightarrow> string) \<Rightarrow> (pytext \<Rightarrow> pytext) \<Rightarrow> (pytext \<Rightarrow> pytext) \<Rightarrow> coordinator \<Rightarrow> admission_event \<Rightarrow> coordinator \<Rightarrow> bool"
  for sha256 casefold rewrite where
  step_start: "admission_step sha256 casefold rewrite s Start (snd (start s))"
| step_submit:
    "admission_step sha256 casefold rewrite s (Submit profile message)
       (snd (submit sha256 casefold rewrite profile message s))"
| step_begin:
    "i < length (co_loop s) \<Longrightarrow> dt_phase (co_loop s ! i) = QUEUED \<Longrightarrow> \<not> dt_cancel (co_loop s ! i) \<Longrightarrow>
     admission_step sha256 casefold rewrite s (Begin i) (begin_task i s)"
| step_end:
    "i < length (co_loop s) \<Longrightarrow> dt_phase (co_loop s ! i) = RUNNING \<Longrightarrow>
     admission_step sha256 casefold rewrite s (End i result) (run_submission i result s)"
| step_drop:
    "i < length (co_loop s) \<Longrightarrow> dt_phase (co_loop s ! i) = QUEUED \<Longrightarrow> dt_cancel (co_loop s ! i) \<Longrightarrow>
     admission_step sha256 casefold rewrite s (Drop i) (drop_task i s)"
| step_cancel:
    "i < length (co_loop s) \<Longrightarrow> admission_step sha256 casefold rewrite s (Cancel i) (cancel_task i s)"
| step_discard:
    "i < length (co_loop s) \<Longrightarrow> finished (co_loop s ! i) \<Longrightarrow>
     admission_step sha256 casefold rewrite s (Discard i) (discard_task i s)"
| step_close_begin: "admission_step sha256 casefold rewrite s CloseBegin (close_begin s)"
| step_close_end:
    "waited \<in> set (co_closers s) \<Longrightarrow> \<forall>i \<in> waited. i < length (co_loop s) \<and> finished (co_loop s ! i) \<Longrightarrow>
     admission_step sha256 casefold rewrite s (CloseEnd waited) (close_end waited s)"

inductive_cases admission_stepE: "admission_step sha256 casefold rewrite s ev t"

definition admission_reachable ::
  "(string \<Rightarrow> string) \<Rightarrow> (pytext \<Rightarrow> pytext) \<Rightarrow> (pytext \<Rightarrow> pytext) \<Rightarrow> coordinator_config \<Rightarrow> coordinator \<Rightarrow> bool" where
  "admission_reachable sha256 casefold rewrite config =
     reachable (\<lambda>s. new_coordinator config = Inr s) (admission_step sha256 casefold rewrite)"

section \<open>The counters\<close>

text \<open>
  What the counters depend on: for every task whether it returned, where it delivers, and its
  future. A task holds a place from its creation until it returns.
\<close>

definition load :: "coordinator \<Rightarrow> (bool \<times> conversation_ref \<times> delivery_future) list" where
  "load s = map (\<lambda>t. (dt_phase t = RETURNED, pl_conversation_ref (dt_plan t), dt_future t)) (co_loop s)"

definition held :: "coordinator \<Rightarrow> nat" where
  "held s = length (filter (\<lambda>(returned, d, f). \<not> returned) (load s))"

definition held_for :: "coordinator \<Rightarrow> conversation_ref \<Rightarrow> nat" where
  "held_for s ref = length (filter (\<lambda>(returned, d, f). \<not> returned \<and> d = ref) (load s))"

definition admission_inv :: "coordinator \<Rightarrow> bool" where
  "admission_inv s \<longleftrightarrow> validate_config (co_config s) = None \<and> co_pending s = int (held s) \<and>
     (\<forall>d. co_pending_by_destination s d = (if held_for s d = 0 then None else Some (int (held_for s d)))) \<and>
     int (held s) \<le> dc_max_pending (co_config s) \<and>
     (\<forall>d. int (held_for s d) \<le> dc_max_pending_per_destination (co_config s)) \<and>
     (\<forall>(returned, d, f) \<in> set (load s). returned = (f \<noteq> FuturePending))"

lemma admission_inv_load:
  assumes "admission_inv s" and "load t = load s" and "co_config t = co_config s" and "co_pending t = co_pending s"
    and "co_pending_by_destination t = co_pending_by_destination s"
  shows "admission_inv t"
proof -
  have "held t = held s" "held_for t = held_for s" using assms(2) by (auto simp: held_def held_for_def)
  with assms show ?thesis by (simp add: admission_inv_def)
qed

lemma filter_update_length:
  assumes "i < length xs"
  shows "int (length (filter P (xs[i := y]))) =
    int (length (filter P xs)) - of_bool (P (xs ! i)) + of_bool (P y)"
  using assms
proof (induction xs arbitrary: i)
  case (Cons x xs)
  then show ?case by (cases i) auto
qed simp

lemma load_update:
  "load (update_task i f s) = (load s)[i := (dt_phase (f (co_loop s ! i)) = RETURNED,
     pl_conversation_ref (dt_plan (f (co_loop s ! i))), dt_future (f (co_loop s ! i)))]"
  by (simp add: load_def update_task_def map_update)

lemma load_nth:
  "i < length (co_loop s) \<Longrightarrow> load s ! i =
     (dt_phase (co_loop s ! i) = RETURNED, pl_conversation_ref (dt_plan (co_loop s ! i)), dt_future (co_loop s ! i))"
  by (simp add: load_def)

lemma length_load [simp]: "length (load s) = length (co_loop s)"
  by (simp add: load_def)

lemma admission_inv_future:
  assumes "admission_inv s" and "i < length (co_loop s)"
  shows "dt_phase (co_loop s ! i) = RETURNED \<longleftrightarrow> dt_future (co_loop s ! i) \<noteq> FuturePending"
  using assms(1) nth_mem [of i "load s"] assms(2) by (auto simp: admission_inv_def load_nth)

lemma load_update_same:
  assumes "i < length (co_loop s)" and "dt_plan (f (co_loop s ! i)) = dt_plan (co_loop s ! i)"
    and "dt_future (f (co_loop s ! i)) = dt_future (co_loop s ! i)"
    and "(dt_phase (f (co_loop s ! i)) = RETURNED) = (dt_phase (co_loop s ! i) = RETURNED)"
  shows "load (update_task i f s) = load s"
  unfolding load_update assms(2-4) load_nth [OF assms(1), symmetric] by simp

lemma update_task_fields [simp]:
  "co_config (update_task i f s) = co_config s" "co_pending (update_task i f s) = co_pending s"
  "co_pending_by_destination (update_task i f s) = co_pending_by_destination s"
  "co_tasks (update_task i f s) = co_tasks s" "co_closed (update_task i f s) = co_closed s"
  "length (co_loop (update_task i f s)) = length (co_loop s)"
  by (simp_all add: update_task_def)

lemma update_task_inv:
  assumes "admission_inv s" and "load (update_task i f s) = load s"
  shows "admission_inv (update_task i f s)"
  by (rule admission_inv_load [OF assms]) simp_all

lemma load_close_begin: "load (close_begin s) = load s"
  by (rule nth_equalityI) (auto simp: load_def close_begin_def nth_enumerate_eq)

lemma release_fields [simp]:
  "load (coordinator_release d s) = load s" "co_config (coordinator_release d s) = co_config s" "co_loop (coordinator_release d s) = co_loop s"
  "co_pending (coordinator_release d s) = co_pending s - 1"
  "co_tasks (coordinator_release d s) = co_tasks s" "co_closed (coordinator_release d s) = co_closed s"
  "co_closers (coordinator_release d s) = co_closers s"
  by (simp_all add: coordinator_release_def load_def Let_def)

lemma run_submission_counts:
  assumes "i < length (co_loop s)" and "dt_phase (co_loop s ! i) = RUNNING"
  shows "int (held (run_submission i result s)) = int (held s) - 1"
    and "int (held_for (run_submission i result s) d) =
      int (held_for s d) - of_bool (d = pl_conversation_ref (dt_plan (co_loop s ! i)))"
  using assms by (simp_all add: held_def held_for_def run_submission_def load_update filter_update_length load_nth)

lemma run_submission_inv:
  assumes inv: "admission_inv s" and i: "i < length (co_loop s)" "dt_phase (co_loop s ! i) = RUNNING"
  shows "admission_inv (run_submission i result s)"
proof -
  let ?t = "run_submission i result s" and ?d = "pl_conversation_ref (dt_plan (co_loop s ! i))"
  note count = run_submission_counts [OF i, of result]
  have "int (held_for s ?d) \<ge> 1" using count(2) [of ?d] by simp
  then have by_dest: "co_pending_by_destination ?t d = (if held_for ?t d = 0 then None else Some (int (held_for ?t d)))" for d
    using inv count(2) [of d] by (auto simp: run_submission_def coordinator_release_def Let_def admission_inv_def)
  have "settle result FuturePending \<noteq> FuturePending" by (auto simp: settle_def split: sum.splits)
  moreover have "dt_future (co_loop s ! i) = FuturePending"
    using admission_inv_future [OF inv i(1)] i(2) by simp
  ultimately have "\<forall>(returned, d, f) \<in> set (load ?t). returned = (f \<noteq> FuturePending)"
    using inv set_update_subset_insert [of "load s" i]
    by (fastforce simp: run_submission_def load_update admission_inv_def)
  moreover have "int (held_for ?t d) \<le> dc_max_pending_per_destination (co_config s)" for d
  proof -
    have "int (held_for s d) \<le> dc_max_pending_per_destination (co_config s)" using inv by (simp add: admission_inv_def)
    with count(2) [of d] show ?thesis by (cases "d = ?d") auto
  qed
  moreover have "co_config ?t = co_config s" "co_pending ?t = co_pending s - 1" by (simp_all add: run_submission_def)
  ultimately show ?thesis
    using inv count(1) by_dest unfolding admission_inv_def by simp
qed

lemma plan_conversation:
  "plan sha256 casefold rewrite message profile a b = Inr p \<Longrightarrow> pl_conversation_ref p = om_conversation_ref message"
  by (auto simp: plan_def checked_def and_then_def split: option.splits sum.splits if_splits)

lemma create_task_load:
  "load (create_task p s) = load s @ [(False, pl_conversation_ref p, FuturePending)]"
  by (simp add: load_def create_task_def)

lemma destination_pending_held: "admission_inv s \<Longrightarrow> destination_pending s d = int (held_for s d)"
  by (simp add: admission_inv_def destination_pending_def)

text \<open>Releasing right after reserving restores the counters.\<close>

lemma release_reserve:
  assumes "admission_inv s" and "coordinator_reserve d s = (True, r)"
  shows "coordinator_release d r = s"
proof -
  have r: "r = s\<lparr>co_pending := co_pending s + 1,
      co_pending_by_destination := (co_pending_by_destination s)(d \<mapsto> destination_pending s d + 1)\<rparr>"
    using assms(2) by (auto simp: coordinator_reserve_def split: if_splits)
  have "(co_pending_by_destination s)(d := if destination_pending s d > 0 then Some (destination_pending s d) else None) =
      co_pending_by_destination s"
    using assms(1) by (auto simp: destination_pending_held fun_eq_iff) (simp add: admission_inv_def)+
  then show ?thesis by (simp add: r coordinator_release_def)
qed

lemma reserve_create_inv:
  assumes inv: "admission_inv s" and r: "coordinator_reserve d s = (True, r)" and p: "pl_conversation_ref p = d"
  shows "admission_inv (create_task p r)"
proof -
  have room: "co_pending s < dc_max_pending (co_config s)"
    "destination_pending s d < dc_max_pending_per_destination (co_config s)"
    and r': "r = s\<lparr>co_pending := co_pending s + 1,
      co_pending_by_destination := (co_pending_by_destination s)(d \<mapsto> destination_pending s d + 1)\<rparr>"
    using r by (auto simp: coordinator_reserve_def split: if_splits)
  have load: "load (create_task p r) = load s @ [(False, d, FuturePending)]"
    by (simp add: create_task_load p) (simp add: load_def r')
  then have held: "held (create_task p r) = Suc (held s)"
    "held_for (create_task p r) e = (if e = d then Suc (held_for s e) else held_for s e)" for e
    by (auto simp: held_def held_for_def)
  show ?thesis
    using inv room held load destination_pending_held [OF inv, of d]
    unfolding admission_inv_def by (simp add: create_task_def r')
qed

lemma submit_inv:
  assumes "admission_inv s"
  shows "admission_inv (snd (submit sha256 casefold rewrite profile message s))"
proof (cases "co_closed s")
  case False
  obtain ok r where r: "coordinator_reserve (om_conversation_ref message) s = (ok, r)" by fastforce
  show ?thesis
  proof (cases ok)
    case True
    with r assms False show ?thesis
      using reserve_create_inv [OF assms, of "om_conversation_ref message" r] release_reserve [OF assms, of "om_conversation_ref message" r]
      by (auto simp: submit_def preflight_def plan_conversation split: sum.splits)
  next
    case refused: False
    then have "r = s" using r by (auto simp: coordinator_reserve_def split: if_splits)
    with refused r assms False show ?thesis by (simp add: submit_def)
  qed
qed (simp add: submit_def assms)

lemma admission_step_inv:
  assumes "admission_inv s" and "admission_step sha256 casefold rewrite s ev t"
  shows "admission_inv t"
  using assms(2)
proof (cases rule: admission_step.cases)
  case step_start
  then show ?thesis
    using assms(1) admission_inv_load [OF assms(1), of "s\<lparr>co_closed := False\<rparr>"] by (auto simp: start_def load_def)
next
  case (step_submit profile message)
  then show ?thesis using submit_inv [OF assms(1)] by simp
next
  case (step_begin i)
  then show ?thesis
    unfolding step_begin(2) begin_task_def by (intro update_task_inv [OF assms(1)] load_update_same) auto
next
  case (step_end i result)
  then show ?thesis using run_submission_inv [OF assms(1)] by simp
next
  case (step_drop i)
  then show ?thesis
    unfolding step_drop(2) drop_task_def by (intro update_task_inv [OF assms(1)] load_update_same) auto
next
  case (step_cancel i)
  then show ?thesis
    unfolding step_cancel(2) cancel_task_def by (intro update_task_inv [OF assms(1)] load_update_same) auto
next
  case (step_discard i)
  then show ?thesis using admission_inv_load [OF assms(1), of t] by (simp add: discard_task_def load_def)
next
  case step_close_begin
  then show ?thesis using admission_inv_load [OF assms(1) load_close_begin] by (simp add: close_begin_def)
next
  case (step_close_end waited)
  then show ?thesis using admission_inv_load [OF assms(1), of t] by (simp add: close_end_def load_def)
qed

lemma admission_step_config:
  "admission_step sha256 casefold rewrite s ev t \<Longrightarrow> co_config t = co_config s"
  by (cases rule: admission_step.cases)
    (auto simp: start_def submit_def coordinator_reserve_def coordinator_release_def create_task_def begin_task_def run_submission_def drop_task_def
      cancel_task_def discard_task_def close_begin_def close_end_def Let_def split: sum.splits prod.splits if_splits)

interpretation admission: event_system "\<lambda>s. new_coordinator config = Inr s" "admission_step sha256 casefold rewrite"
  "\<lambda>s. admission_inv s \<and> co_config s = config" for config sha256 casefold rewrite
proof
  show "admission_inv s \<and> co_config s = config" if "new_coordinator config = Inr s" for s
    using that
    by (auto simp: new_coordinator_def checked_def admission_inv_def held_def held_for_def load_def validate_config_def split: option.splits)
  show "admission_inv t \<and> co_config t = config"
    if "admission_inv s \<and> co_config s = config" "admission_step sha256 casefold rewrite s ev t" for s ev t
    using that admission_step_inv admission_step_config by metis
qed

lemmas admission_reachable_inv =
  admission.reachable_inv [folded admission_reachable_def, THEN conjunct1]
  admission.reachable_inv [folded admission_reachable_def, THEN conjunct2]

section \<open>Tasks over time\<close>

text \<open>A task that has ended stays as it is.\<close>

lemma finished_stays:
  assumes "admission_step sha256 casefold rewrite s ev t" and j: "j < length (co_loop s)" "finished (co_loop s ! j)"
  shows "j < length (co_loop t) \<and> co_loop t ! j = co_loop s ! j"
  using assms(1)
proof (cases rule: admission_step.cases)
  case step_start
  then show ?thesis using j by (simp add: start_def)
next
  case (step_submit profile message)
  then show ?thesis using j
    by (auto simp: submit_def coordinator_reserve_def create_task_def nth_append split: sum.splits prod.splits if_splits)
next
  case (step_begin i)
  then show ?thesis using j by (cases "i = j") (auto simp: begin_task_def update_task_def)
next
  case (step_end i result)
  then show ?thesis using j by (cases "i = j") (auto simp: run_submission_def update_task_def)
next
  case (step_drop i)
  then show ?thesis using j by (cases "i = j") (auto simp: drop_task_def update_task_def)
next
  case (step_cancel i)
  then show ?thesis using j by (cases "i = j") (auto simp: cancel_task_def update_task_def)
next
  case step_close_begin
  then show ?thesis using j by (auto simp: close_begin_def nth_enumerate_eq)
qed (use j in \<open>auto simp: discard_task_def close_end_def\<close>)

lemma finished_stays_run:
  assumes "event_run (admission_step sha256 casefold rewrite) s evs t" and "j < length (co_loop s)" and "finished (co_loop s ! j)"
  shows "j < length (co_loop t) \<and> co_loop t ! j = co_loop s ! j"
  using assms by (induction rule: event_run.induct) (auto dest: finished_stays)

lemma held_task:
  assumes "j < length (co_loop s)" and "dt_phase (co_loop s ! j) \<noteq> RETURNED"
  shows "held s > 0"
proof -
  have "load s ! j \<in> set (filter (\<lambda>(returned, d, f). \<not> returned) (load s))"
    using assms nth_mem [of j "load s"] by (auto simp: load_nth)
  then show ?thesis unfolding held_def by (cases "filter (\<lambda>(returned, d, f). \<not> returned) (load s)") auto
qed

lemma returned_free: "(\<forall>t \<in> set (co_loop s). dt_phase t = RETURNED) \<Longrightarrow> held s = 0"
  by (simp add: held_def load_def)

definition submit_spec ::
  "(string \<Rightarrow> string) \<Rightarrow> (pytext \<Rightarrow> pytext) \<Rightarrow> (pytext \<Rightarrow> pytext) \<Rightarrow> delivery_profile \<Rightarrow> outbound_message \<Rightarrow>
   coordinator \<Rightarrow> (coordinator, delivery_handle) outcome \<Rightarrow> bool" where
  "submit_spec sha256 casefold rewrite profile message s out \<longleftrightarrow>
     (let planned = preflight sha256 casefold rewrite (co_config s) profile message;
          room = co_pending s < dc_max_pending (co_config s) \<and>
            destination_pending s (om_conversation_ref message) < dc_max_pending_per_destination (co_config s) in
      case out of
        (Inl e, t) \<Rightarrow> t = s \<and> (if co_closed s then e = RuntimeError else room \<and> planned = Inl e)
      | (Inr handle, t) \<Rightarrow> \<not> co_closed s \<and> dh_admitted handle = room \<and>
          (if room
           then co_pending t = co_pending s + 1 \<and> dh_task handle = Some (length (co_loop s)) \<and>
             planned = Inr (dt_plan (last (co_loop t)))
           else t = s \<and> (\<exists>receipt. dh_future handle = FutureResult receipt \<and>
             dr_status receipt = DRS_RETRYABLE_FAILURE \<and> validate_delivery_receipt receipt = None)))"

lemma backpressure_receipt_valid:
  assumes "validate_config config = None"
  shows "validate_delivery_receipt (backpressure_receipt config) = None"
    and "dr_status (backpressure_receipt config) = DRS_RETRYABLE_FAILURE"
  using assms by (auto simp: backpressure_receipt_def plain_receipt_def validate_delivery_receipt_def validate_retry_after_def
      validate_config_def finite_duration_def split: duration.splits)

lemma submit_meets_spec:
  assumes inv: "admission_inv s"
  shows "submit_spec sha256 casefold rewrite profile message s (submit sha256 casefold rewrite profile message s)"
proof -
  obtain ok r where r: "coordinator_reserve (om_conversation_ref message) s = (ok, r)" by fastforce
  have fields: "co_config r = co_config s" "co_loop r = co_loop s" "ok \<Longrightarrow> co_pending r = co_pending s + 1" "\<not> ok \<Longrightarrow> r = s"
    "ok = (co_pending s < dc_max_pending (co_config s) \<and>
       destination_pending s (om_conversation_ref message) < dc_max_pending_per_destination (co_config s))"
    using r by (auto simp: coordinator_reserve_def split: if_splits)
  have valid: "validate_config (co_config s) = None" using inv by (simp add: admission_inv_def)
  have undone: "ok \<Longrightarrow> coordinator_release (om_conversation_ref message) r = s"
    using release_reserve [OF inv, of _ r] r by simp
  show ?thesis
    unfolding submit_spec_def Let_def fields(5) [symmetric]
    using r fields(1-4) undone backpressure_receipt_valid [OF valid]
    by (cases ok) (auto simp: submit_def create_task_def split: sum.splits)
qed

lemma held_tasks: "held s = length (filter (\<lambda>t. dt_phase t \<noteq> RETURNED) (co_loop s))"
  by (simp add: held_def load_def filter_map o_def)

lemma held_for_tasks:
  "held_for s d = length (filter (\<lambda>t. dt_phase t \<noteq> RETURNED \<and> pl_conversation_ref (dt_plan t) = d) (co_loop s))"
  by (simp add: held_for_def load_def filter_map o_def)

lemma pending_destinations:
  assumes "admission_inv s"
  shows "dom (co_pending_by_destination s) =
    {pl_conversation_ref (dt_plan t) |t. t \<in> set (co_loop s) \<and> dt_phase t \<noteq> RETURNED}"
proof -
  have "dom (co_pending_by_destination s) = {d. held_for s d \<noteq> 0}"
    using assms by (auto simp: admission_inv_def split: if_splits)
  moreover have "held_for s d \<noteq> 0 \<longleftrightarrow> (\<exists>t \<in> set (co_loop s). dt_phase t \<noteq> RETURNED \<and> pl_conversation_ref (dt_plan t) = d)" for d
    by (auto simp: held_for_def load_def filter_empty_conv)
  ultimately show ?thesis by auto
qed

text \<open>
  C33: admission is bounded at every moment of every execution. The counters count exactly the tasks
  that have not returned, in total and for each destination (tasks that were cancelled before
  their first step count too: they never return); both stay within the configured limits; a
  destination without such a task has no entry, so the table does not grow; and a delivery is
  admitted exactly when the coordinator is open, both limits leave room and its plan can be built,
  refused at capacity with a valid retryable receipt, and changes nothing when it is not admitted.
\<close>

theorem admission_bounded:
  assumes "admission_reachable sha256 casefold rewrite config s"
  shows "co_pending s = int (length (filter (\<lambda>t. dt_phase t \<noteq> RETURNED) (co_loop s))) \<and>
    co_pending s \<le> dc_max_pending config \<and>
    dom (co_pending_by_destination s) = {pl_conversation_ref (dt_plan t) |t. t \<in> set (co_loop s) \<and> dt_phase t \<noteq> RETURNED} \<and>
    destination_pending s d =
      int (length (filter (\<lambda>t. dt_phase t \<noteq> RETURNED \<and> pl_conversation_ref (dt_plan t) = d) (co_loop s))) \<and>
    destination_pending s d \<le> dc_max_pending_per_destination config \<and>
    submit_spec sha256 casefold rewrite profile message s (submit sha256 casefold rewrite profile message s)"
  using admission_reachable_inv [OF assms] submit_meets_spec pending_destinations [of s] destination_pending_held [of s d]
  by (auto simp: held_tasks held_for_tasks admission_inv_def)

text \<open>
  A delivery is settled once. The future of a submission is resolved exactly when its task
  returns, and from then on neither the future nor the task changes, whatever happens next.
\<close>

theorem delivery_settled_once:
  assumes "admission_reachable sha256 casefold rewrite config s"
    and "event_run (admission_step sha256 casefold rewrite) s evs t"
    and "i < length (co_loop s)"
  shows "(dt_future (co_loop s ! i) \<noteq> FuturePending \<longleftrightarrow> dt_phase (co_loop s ! i) = RETURNED) \<and>
    (dt_future (co_loop s ! i) = FuturePending \<or> i < length (co_loop t) \<and> co_loop t ! i = co_loop s ! i)"
  using admission_inv_future [OF admission_reachable_inv(1) [OF assms(1)] assms(3)] finished_stays_run [OF assms(2,3)] by auto

text \<open>
  A coordinator whose tasks all returned can be started again, and then admits deliveries.
\<close>

theorem quiescent_coordinator_restarts:
  assumes "admission_reachable sha256 casefold rewrite config s" and "co_tasks s = {}"
    and "\<forall>t \<in> set (co_loop s). dt_phase t = RETURNED"
    and "preflight sha256 casefold rewrite config profile message = Inr p"
  shows "start s = (Inr (), s\<lparr>co_closed := False\<rparr>) \<and>
    (\<exists>t. submit sha256 casefold rewrite profile message (snd (start s)) =
      (Inr \<lparr>dh_admitted = True, dh_future = FuturePending, dh_task = Some (length (co_loop s))\<rparr>, t))"
proof -
  note inv = admission_reachable_inv [OF assms(1)]
  have zero: "co_pending s = 0" using inv(1) returned_free [OF assms(3)] by (simp add: admission_inv_def)
  then have started: "start s = (Inr (), s\<lparr>co_closed := False\<rparr>)" using assms(2) by (simp add: start_def)
  have "held_for s d = 0" for d using assms(3) by (simp add: held_for_def load_def)
  then have "destination_pending s d = 0" for d using destination_pending_held [OF inv(1)] by simp
  then have dest: "destination_pending (s\<lparr>co_closed := False\<rparr>) d = 0" for d by (simp add: destination_pending_def)
  have room: "1 \<le> dc_max_pending config" "1 \<le> dc_max_pending_per_destination config"
    using inv by (auto simp: admission_inv_def validate_config_def)
  show ?thesis
    using inv(2) assms(4) zero dest room by (simp add: started submit_def coordinator_reserve_def)
qed

text \<open>
  C37: a delivery that is cancelled before its task first runs, by its handle or by \<open>close\<close> in the
  same turn of the event loop, is never given back: its place stays counted, the future its handle
  waits for is never resolved, and \<open>start\<close> raises from then on, whatever happens next.
\<close>

theorem dropped_task_blocks_restart:
  assumes "admission_reachable sha256 casefold rewrite config s"
    and "event_run (admission_step sha256 casefold rewrite) s evs t"
    and "i < length (co_loop s)" and "dt_phase (co_loop s ! i) = DROPPED"
  shows "0 < co_pending t \<and> dt_future (co_loop t ! i) = FuturePending \<and> start t = (Inl RuntimeError, t)"
proof -
  have inv: "admission_inv s" "admission_inv t"
    using admission_reachable_inv(1) [OF assms(1)]
      admission.reachable_run [OF assms(1) [unfolded admission_reachable_def] assms(2)] by auto
  have stays: "i < length (co_loop t)" "co_loop t ! i = co_loop s ! i"
    using finished_stays_run [OF assms(2,3)] assms(4) by auto
  have pending: "0 < co_pending t"
    using inv(2) held_task [of i t] stays assms(4) by (simp add: admission_inv_def)
  then have "start t = (Inl RuntimeError, t)" by (simp add: start_def)
  with pending show ?thesis
    using admission_inv_future [OF inv(1) assms(3)] stays(2) assms(4) by auto
qed

section \<open>Concrete runs\<close>

definition sample_limits :: coordinator_config where
  "sample_limits = sample_config\<lparr>dc_max_source_items_per_delivery := 2, dc_max_segments_per_delivery := 3\<rparr>"

definition sample_task :: "task_phase \<Rightarrow> bool \<Rightarrow> delivery_future \<Rightarrow> delivery_task" where
  "sample_task phase cancel future =
     \<lparr>dt_plan = sample_plan id, dt_phase = phase, dt_cancel = cancel, dt_future = future\<rparr>"

definition sample_ref :: conversation_ref where
  "sample_ref = om_conversation_ref sample_outbound"

definition sample_state :: "bool \<Rightarrow> nat set \<Rightarrow> delivery_task list \<Rightarrow> nat set list \<Rightarrow> coordinator" where
  "sample_state closed tasks loop closers =
     (let free = list_all (\<lambda>t. dt_phase t = RETURNED) loop in
      \<lparr>co_config = sample_limits, co_pending = (if free then 0 else 1),
       co_pending_by_destination = (if free then Map.empty else [sample_ref \<mapsto> 1]), co_tasks = tasks,
       co_closed = closed, co_loop = loop, co_closers = closers\<rparr>)"

abbreviation sample_reachable :: "coordinator \<Rightarrow> bool" where
  "sample_reachable \<equiv> admission_reachable id id id sample_limits"

lemma sample_preflight: "preflight id id id sample_limits sample_profile sample_outbound = Inr (sample_plan id)"
  using sample_planned [of id id id] by (simp add: preflight_def sample_limits_def)

lemma sample_limit_values:
  "dc_max_pending sample_limits = 256" "dc_max_pending_per_destination sample_limits = 32"
  by (simp_all add: sample_limits_def sample_config_def)

lemma sample_plan_ref: "pl_conversation_ref (sample_plan id) = sample_ref"
  by (simp add: sample_plan_def sample_ref_def sample_outbound_def)

lemmas sample_evals = sample_state_def sample_task_def sample_plan_ref sample_limit_values

lemma sample_opened: "sample_reachable (sample_state False {} [] [])"
proof -
  have "validate_config sample_limits = None"
    by (simp add: validate_config_def sample_limits_def sample_config_def finite_duration_def)
  then have "new_coordinator sample_limits = Inr (sample_state False {} [] [])"
    by (simp add: new_coordinator_def checked_def sample_state_def)
  then show ?thesis unfolding admission_reachable_def by (rule reachable_init)
qed

lemma sample_next: "sample_reachable s \<Longrightarrow> admission_step id id id s ev t \<Longrightarrow> sample_reachable t"
  unfolding admission_reachable_def by (rule reachable_step)

lemma sample_submitted:
  "submit id id id sample_profile sample_outbound (sample_state False {} [] []) =
     (Inr \<lparr>dh_admitted = True, dh_future = FuturePending, dh_task = Some 0\<rparr>,
      sample_state False {0} [sample_task QUEUED False FuturePending] [])"
  using sample_preflight
  by (simp add: submit_def coordinator_reserve_def create_task_def destination_pending_def sample_evals sample_ref_def)

lemma sample_queued: "sample_reachable (sample_state False {0} [sample_task QUEUED False FuturePending] [])"
  using sample_next [OF sample_opened admission_step.step_submit, of sample_profile sample_outbound]
  by (simp add: sample_submitted)

lemma sample_closing: "sample_reachable (sample_state True {0} [sample_task QUEUED True FuturePending] [{0}])"
  using sample_next [OF sample_queued admission_step.step_close_begin] by (simp add: close_begin_def sample_evals)

lemma sample_dropped: "sample_reachable (sample_state True {0} [sample_task DROPPED True FuturePending] [{0}])"
  using sample_next [OF sample_closing admission_step.step_drop [of 0]] by (simp add: drop_task_def update_task_def sample_evals)

lemma sample_running: "sample_reachable (sample_state False {0} [sample_task RUNNING False FuturePending] [])"
  using sample_next [OF sample_queued admission_step.step_begin [of 0]] by (simp add: begin_task_def update_task_def sample_evals)

lemma sample_returned:
  "sample_reachable (sample_state False {0} [sample_task RETURNED False (FutureResult accepted_receipt)] [])"
  using sample_next [OF sample_running admission_step.step_end [of 0 _ _ _ _ "Inr accepted_receipt"]]
  by (simp add: run_submission_def update_task_def coordinator_release_def settle_def sample_evals)

lemma sample_discarded:
  "admission_step id id id (sample_state c {0} [t] closers) (Discard 0) (sample_state c {} [t] closers)" if "finished t"
  using admission_step.step_discard [of 0 "sample_state c {0} [t] closers" id id id] that
  by (simp add: discard_task_def sample_state_def Let_def)

theorem admission_bounded_witness:
  "co_pending (sample_state False {0} [sample_task RUNNING False FuturePending] []) = 1 \<and>
   destination_pending (sample_state False {0} [sample_task RUNNING False FuturePending] []) sample_ref = 1 \<and>
   submit_spec id id id sample_profile sample_outbound (sample_state False {0} [sample_task RUNNING False FuturePending] [])
     (submit id id id sample_profile sample_outbound (sample_state False {0} [sample_task RUNNING False FuturePending] []))"
  using admission_bounded [OF sample_running, of sample_ref sample_profile sample_outbound]
  by (simp add: sample_evals)

theorem delivery_settled_once_witness:
  "admission_step id id id (sample_state False {0} [sample_task RETURNED False (FutureResult accepted_receipt)] [])
     (Discard 0) (sample_state False {} [sample_task RETURNED False (FutureResult accepted_receipt)] []) \<and>
   dt_phase (co_loop (sample_state False {0} [sample_task RETURNED False (FutureResult accepted_receipt)] []) ! 0) = RETURNED"
proof -
  let ?t = "sample_task RETURNED False (FutureResult accepted_receipt)"
  have step: "admission_step id id id (sample_state False {0} [?t] []) (Discard 0) (sample_state False {} [?t] [])"
    by (rule sample_discarded) (simp add: sample_task_def)
  have "event_run (admission_step id id id) (sample_state False {0} [?t] []) ([] @ [Discard 0]) (sample_state False {} [?t] [])"
    by (rule event_run.run_step, rule event_run.run_nil, rule step)
  from delivery_settled_once [OF sample_returned this, of 0] step show ?thesis by (simp add: sample_evals)
qed

theorem quiescent_coordinator_restarts_witness:
  "fst (start (sample_state False {} [sample_task RETURNED False (FutureResult accepted_receipt)] [])) = Inr ()"
proof -
  let ?t = "sample_task RETURNED False (FutureResult accepted_receipt)"
  have "sample_reachable (sample_state False {} [?t] [])"
    using sample_next [OF sample_returned sample_discarded] by (simp add: sample_task_def)
  from quiescent_coordinator_restarts [OF this _ _ sample_preflight] show ?thesis by (simp add: sample_evals)
qed

text \<open>\<open>close\<close> right after \<open>submit\<close>: the coordinator ends closed, without tasks, and can never be opened.\<close>

theorem dropped_task_blocks_restart_witness:
  "sample_reachable (sample_state True {} [sample_task DROPPED True FuturePending] []) \<and>
   start (sample_state True {} [sample_task DROPPED True FuturePending] []) =
     (Inl RuntimeError, sample_state True {} [sample_task DROPPED True FuturePending] [])"
proof -
  let ?t = "sample_task DROPPED True FuturePending"
  have "sample_reachable (sample_state True {} [?t] [{0}])"
    by (rule sample_next [OF sample_dropped sample_discarded]) (simp add: sample_task_def)
  then have "sample_reachable (close_end {0} (sample_state True {} [?t] [{0}]))"
    by (rule sample_next) (rule admission_step.step_close_end, simp_all add: sample_evals)
  then have last: "sample_reachable (sample_state True {} [?t] [])" by (simp add: close_end_def sample_evals)
  from dropped_task_blocks_restart [OF last event_run.run_nil, of 0] last show ?thesis by (simp add: sample_evals)
qed

end
