(* ===== verification/Proactive_Contract.thy ===== *)
theory Proactive_Contract
  imports Delivery_Admission Delivery_Submissions
    "HOL-Library.List_Lexorder" "HOL-Library.Char_ord" "HOL-Library.Product_Lexorder"
begin

text \<open>
  The contract of proactive delivery: intents, results and their validation
  (\<open>gateway/delivery/proactive.py\<close>), principals and the scoped authorizer
  (\<open>gateway/delivery/proactive_authorization.py\<close>), the payload fingerprint
  (\<open>gateway/delivery/submissions.py\<close>) and the pure helpers of the runtime
  (\<open>gateway/delivery/proactive_runtime.py\<close>).

  Texts are lists of code points. The digest of a payload is a parameter of the identity value
  whose JSON text the code digests.
\<close>

section \<open>Intents and results\<close>

type_synonym metadata = "(string, meta_value) dict"

record delivery_intent =
  it_delivery_id :: string
  it_target :: delivery_target
  it_content :: "content list"
  it_created_at :: datetime
  it_reply_to :: "string option"
  it_metadata :: metadata

record destination_delivery_result =
  dx_delivery_id :: string
  dx_state :: delivery_submission_state
  dx_route_id :: "string option"
  dx_conversation_ref :: "conversation_ref option"
  dx_receipt :: "delivery_receipt option"
  dx_error :: "string option"
  dx_replayed :: bool

record proactive_delivery_result =
  px_delivery_id :: string
  px_state :: delivery_submission_state
  px_destinations :: "destination_delivery_result list"
  px_error :: "string option"

text \<open>
  \<open>_canonical_metadata\<close>: what \<open>json.loads\<close> reads from the text that \<open>json.dumps\<close> writes with sorted
  keys. A value that JSON cannot carry raises.
\<close>

fun sorted_json :: "json \<Rightarrow> json" where
  "sorted_json (JList xs) = JList (map sorted_json xs)"
| "sorted_json (JDict kvs) = JDict (sort_key fst (map (\<lambda>(k, v). (k, sorted_json v)) kvs))"
| "sorted_json v = v"

fun is_meta_json :: "meta_value \<Rightarrow> bool" where
  "is_meta_json (MetaJson v) = True"
| "is_meta_json (MetaObject n) = False"

fun canonical_value :: "meta_value \<Rightarrow> meta_value" where
  "canonical_value (MetaJson v) = MetaJson (sorted_json v)"
| "canonical_value (MetaObject n) = MetaObject n"

definition canonical_metadata :: "metadata \<Rightarrow> metadata res" where
  "canonical_metadata metadata =
     (if list_all (\<lambda>(k, v). is_meta_json v) metadata
      then Inr (sort_key fst (map (\<lambda>(k, v). (k, canonical_value v)) metadata))
      else Inl ContractViolation)"

definition metadata_check :: "metadata \<Rightarrow> check" where
  "metadata_check metadata = (case canonical_metadata metadata of Inl e \<Rightarrow> Some e | Inr m \<Rightarrow> None)"

fun validate_source :: "attachment_source \<Rightarrow> check" where
  "validate_source (LocalPath path) = raise_if (path = []) ContractViolation"
| "validate_source (RemoteUrl url) = raise_if (url = []) ContractViolation"
| "validate_source (AttachmentHandle handle_id) = require_identifier handle_id"

text \<open>The loop over the content, with the attachment identifiers already seen.\<close>

fun validate_contents :: "string set \<Rightarrow> content list \<Rightarrow> check" where
  "validate_contents seen [] = None"
| "validate_contents seen (TextContent t fmt # rest) =
     first_error [raise_if (t = []) ContractViolation, validate_contents seen rest]"
| "validate_contents seen (AttachmentContent item # rest) = first_error [
     require_identifier (at_attachment_id item),
     raise_if (at_attachment_id item \<in> seen) ContractViolation,
     raise_if (at_media_type item = []) ContractViolation,
     on_some (\<lambda>name. raise_if (strip (map of_char name) = []) ContractViolation) (at_filename item),
     on_some (\<lambda>size. raise_if (size < 0) ContractViolation) (at_size_bytes item),
     metadata_check (at_metadata item),
     validate_source (at_source item),
     validate_contents (insert (at_attachment_id item) seen) rest]"

fun validate_target :: "delivery_target \<Rightarrow> check" where
  "validate_target (ConversationDeliveryTarget conversation_ref) = validate_conversation_ref conversation_ref"
| "validate_target (ThreadRouteDeliveryTarget thread_ref route_id) = first_error [
     validate_thread_ref thread_ref, on_some require_identifier route_id]"

definition validate_delivery_intent :: "delivery_intent \<Rightarrow> check" where
  "validate_delivery_intent intent = first_error [
     require_identifier (it_delivery_id intent),
     validate_target (it_target intent),
     raise_if (it_content intent = []) ContractViolation,
     on_some require_identifier (it_reply_to intent),
     metadata_check (it_metadata intent),
     validate_contents {} (it_content intent)]"

section \<open>Principals\<close>

record delivery_principal =
  dp_principal_id :: string
  dp_allowed_threads :: "thread_ref list"
  dp_allowed_conversations :: "conversation_ref list"

definition validate_delivery_principal :: "delivery_principal \<Rightarrow> check" where
  "validate_delivery_principal owner = first_error [
     require_identifier (dp_principal_id owner),
     raise_if (\<not> distinct (dp_allowed_threads owner)) ContractViolation,
     raise_if (\<not> distinct (dp_allowed_conversations owner)) ContractViolation,
     first_error (map validate_thread_ref (dp_allowed_threads owner)),
     first_error (map validate_conversation_ref (dp_allowed_conversations owner))]"

fun authorize_delivery_target :: "delivery_principal \<Rightarrow> delivery_target \<Rightarrow> check" where
  "authorize_delivery_target owner (ConversationDeliveryTarget conversation_ref) =
     raise_if (conversation_ref \<notin> set (dp_allowed_conversations owner)) DeliveryAuthorizationError"
| "authorize_delivery_target owner (ThreadRouteDeliveryTarget thread_ref route_id) =
     raise_if (thread_ref \<notin> set (dp_allowed_threads owner)) DeliveryAuthorizationError"

text \<open>\<open>ScopedDeliveryAuthorizer\<close>; the token that \<open>secrets\<close> generates is a parameter of \<open>issue\<close>.\<close>

record scoped_authorizer =
  sa_max_principals :: int
  sa_principals :: "(string, delivery_principal) dict"

definition new_authorizer :: "int \<Rightarrow> scoped_authorizer res" where
  "new_authorizer max_principals =
     (if max_principals < 1 then Inl ValueError
      else Inr \<lparr>sa_max_principals = max_principals, sa_principals = []\<rparr>)"

definition chosen_token :: "string option \<Rightarrow> string \<Rightarrow> string" where
  "chosen_token credential generated =
     (case credential of None \<Rightarrow> generated | Some c \<Rightarrow> if c = [] then generated else c)"

definition issue ::
  "string \<Rightarrow> delivery_principal \<Rightarrow> string option \<Rightarrow> scoped_authorizer \<Rightarrow> (scoped_authorizer, string) outcome" where
  "issue generated owner credential s =
     (let token = chosen_token credential generated in
      guarded (first_error [
        validate_delivery_principal owner,
        raise_if (token = [] \<or> length token > 4096) ValueError,
        raise_if (dict_get (sa_principals s) token \<noteq> None) ValueError,
        raise_if (int (length (sa_principals s)) \<ge> sa_max_principals s) ValueError]) s
      (returns token (s\<lparr>sa_principals := dict_set (sa_principals s) token owner\<rparr>)))"

definition revoke :: "string \<Rightarrow> scoped_authorizer \<Rightarrow> bool \<times> scoped_authorizer" where
  "revoke credential s =
     (dict_get (sa_principals s) credential \<noteq> None, s\<lparr>sa_principals := dict_pop (sa_principals s) credential\<rparr>)"

definition authenticate :: "string \<Rightarrow> scoped_authorizer \<Rightarrow> delivery_principal res" where
  "authenticate credential s =
     (if credential = [] then Inl DeliveryAuthorizationError
      else case dict_get (sa_principals s) credential of
          None \<Rightarrow> Inl DeliveryAuthorizationError
        | Some owner \<Rightarrow> Inr owner)"

section \<open>The payload fingerprint\<close>

text \<open>The values that are digested: JSON, with texts of any code points.\<close>

datatype py_value = PyJson json | PyText pytext | PyList "py_value list" | PyDict "(string \<times> py_value) list"

abbreviation py_string :: "string \<Rightarrow> py_value" where
  "py_string s \<equiv> PyJson (JStr s)"

definition py_optional :: "string option \<Rightarrow> py_value" where
  "py_optional v = PyJson (case v of None \<Rightarrow> JNull | Some s \<Rightarrow> JStr s)"

fun text_format_value :: "text_format \<Rightarrow> string" where
  "text_format_value PLAIN = ''plain''"
| "text_format_value MARKDOWN = ''markdown''"

fun meta_json :: "meta_value \<Rightarrow> json" where
  "meta_json (MetaJson v) = v"
| "meta_json (MetaObject n) = JNull"

text \<open>The digest in the metadata of an attachment, when it is a text that is not empty.\<close>

definition metadata_digest :: "metadata \<Rightarrow> string option" where
  "metadata_digest metadata =
     (case dict_get metadata ''sha256'' of
        Some (MetaJson (JStr digest)) \<Rightarrow> if digest = [] then None else Some digest
      | _ \<Rightarrow> None)"

fun source_identity :: "attachment_source \<Rightarrow> metadata \<Rightarrow> py_value" where
  "source_identity (LocalPath path) metadata =
     PyDict [(''kind'', py_string ''local_path''),
       (case metadata_digest metadata of
          Some digest \<Rightarrow> (''sha256'', py_string digest)
        | None \<Rightarrow> (''path'', py_string path))]"
| "source_identity (RemoteUrl url) metadata = PyDict [(''kind'', py_string ''remote_url''), (''url'', py_string url)]"
| "source_identity (AttachmentHandle handle_id) metadata =
     PyDict [(''kind'', py_string ''attachment_handle''), (''handle_id'', py_string handle_id)]"

definition metadata_identity :: "metadata \<Rightarrow> py_value res" where
  "metadata_identity metadata =
     and_then (canonical_metadata metadata) (\<lambda>m. Inr (PyJson (JDict (map (\<lambda>(k, v). (k, meta_json v)) m))))"

fun content_identity :: "content \<Rightarrow> py_value res" where
  "content_identity (TextContent t fmt) =
     Inr (PyDict [(''kind'', py_string ''text''), (''text'', PyText t), (''format'', py_string (text_format_value fmt))])"
| "content_identity (AttachmentContent item) =
     and_then (metadata_identity (at_metadata item)) (\<lambda>m. Inr (PyDict [
       (''kind'', py_string ''attachment''),
       (''attachment_id'', py_string (at_attachment_id item)),
       (''media_type'', PyText (at_media_type item)),
       (''source'', source_identity (at_source item) (at_metadata item)),
       (''filename'', py_optional (at_filename item)),
       (''size_bytes'', PyJson (case at_size_bytes item of None \<Rightarrow> JNull | Some n \<Rightarrow> JInt n)),
       (''metadata'', m)]))"

fun content_identities :: "content list \<Rightarrow> py_value list res" where
  "content_identities [] = Inr []"
| "content_identities (item # rest) =
     and_then (content_identity item) (\<lambda>x. and_then (content_identities rest) (\<lambda>xs. Inr (x # xs)))"

definition payload_identity :: "delivery_intent \<Rightarrow> py_value res" where
  "payload_identity intent =
     and_then (content_identities (it_content intent)) (\<lambda>contents.
     and_then (metadata_identity (it_metadata intent)) (\<lambda>metadata.
       Inr (PyDict [(''content'', PyList contents), (''reply_to'', py_optional (it_reply_to intent)),
         (''metadata'', metadata)])))"

definition derive_delivery_payload_fingerprint :: "(py_value \<Rightarrow> string) \<Rightarrow> delivery_intent \<Rightarrow> string res" where
  "derive_delivery_payload_fingerprint digest intent =
     checked (validate_delivery_intent intent)
       (and_then (payload_identity intent) (\<lambda>identity.
          Inr (''imagent:delivery-payload:sha256:'' @ digest identity)))"

section \<open>Helpers of the runtime\<close>

definition snapshot_content :: "content \<Rightarrow> content res" where
  "snapshot_content item =
     (case item of
        TextContent t fmt \<Rightarrow> Inr item
      | AttachmentContent a \<Rightarrow>
          and_then (canonical_metadata (at_metadata a)) (\<lambda>m. Inr (AttachmentContent (a\<lparr>at_metadata := m\<rparr>))))"

fun snapshot_contents :: "content list \<Rightarrow> content list res" where
  "snapshot_contents [] = Inr []"
| "snapshot_contents (item # rest) =
     and_then (snapshot_content item) (\<lambda>x. and_then (snapshot_contents rest) (\<lambda>xs. Inr (x # xs)))"

definition snapshot_intent :: "delivery_intent \<Rightarrow> delivery_intent res" where
  "snapshot_intent intent =
     and_then (snapshot_contents (it_content intent)) (\<lambda>contents.
     and_then (canonical_metadata (it_metadata intent)) (\<lambda>metadata.
       Inr (intent\<lparr>it_content := contents, it_metadata := metadata\<rparr>)))"

fun has_local_digest :: "content \<Rightarrow> bool" where
  "has_local_digest (TextContent t fmt) = True"
| "has_local_digest (AttachmentContent a) =
     (case at_source a of
        LocalPath path \<Rightarrow>
          (case dict_get (at_metadata a) ''sha256'' of
             Some (MetaJson (JStr digest)) \<Rightarrow> is_lowercase_sha256 digest
           | _ \<Rightarrow> False)
      | _ \<Rightarrow> True)"

definition require_external_local_digests :: "delivery_intent \<Rightarrow> check" where
  "require_external_local_digests intent =
     raise_if (\<not> list_all has_local_digest (it_content intent)) ContractViolation"

definition ensure_submission_identity ::
  "delivery_submission_record \<Rightarrow> string \<Rightarrow> string \<Rightarrow> string \<Rightarrow> check" where
  "ensure_submission_identity existing principal_id target_fingerprint payload_fingerprint =
     raise_if (sr_principal_id existing \<noteq> principal_id \<or>
       sr_target_fingerprint existing \<noteq> target_fingerprint \<or>
       sr_payload_fingerprint existing \<noteq> payload_fingerprint) DeliverySubmissionConflict"

definition state_from_receipt :: "delivery_receipt \<Rightarrow> delivery_submission_state" where
  "state_from_receipt receipt =
     (let item_states = di_status ` set (dr_items receipt);
          segment_states = ds_status ` set (dr_segments receipt);
          has_acceptance = DIS_ACCEPTED \<in> item_states \<or> DSS_ACCEPTED_BY_PLATFORM \<in> segment_states in
      case dr_status receipt of
        DRS_UNKNOWN \<Rightarrow> SUB_UNKNOWN
      | DRS_RETRYABLE_FAILURE \<Rightarrow> SUB_RETRYABLE
      | DRS_REJECTED_BY_PLATFORM \<Rightarrow> if has_acceptance then SUB_PARTIAL else SUB_REJECTED
      | DRS_ACCEPTED_BY_PLATFORM \<Rightarrow>
          if item_states \<inter> {DIS_REJECTED, DIS_RETRYABLE_FAILURE, DIS_UNKNOWN, DIS_SKIPPED} \<noteq> {} \<or>
             segment_states \<inter> {DSS_REJECTED_BY_PLATFORM, DSS_RETRYABLE_FAILURE, DSS_UNKNOWN, DSS_SKIPPED} \<noteq> {}
          then SUB_PARTIAL else SUB_ACCEPTED)"

fun map_res :: "('a \<Rightarrow> 'b res) \<Rightarrow> 'a list \<Rightarrow> 'b list res" where
  "map_res f [] = Inr []"
| "map_res f (x # xs) = and_then (f x) (\<lambda>y. and_then (map_res f xs) (\<lambda>ys. Inr (y # ys)))"

definition destination_ids ::
  "(string \<Rightarrow> string) \<Rightarrow> string \<Rightarrow> delivery_route_snapshot list \<Rightarrow> string list res" where
  "destination_ids sha256 root_submission_id snapshots =
     (if length snapshots = 1 then Inr [root_submission_id]
      else map_res (\<lambda>s. derive_destination_delivery_id sha256 root_submission_id (sn_conversation_ref s)) snapshots)"

definition durable_delivery_receipt :: "delivery_receipt \<Rightarrow> delivery_receipt" where
  "durable_delivery_receipt receipt = receipt\<lparr>
     dr_detail := None,
     dr_items := map (\<lambda>item. item\<lparr>di_detail := None\<rparr>) (dr_items receipt),
     dr_segments := map (\<lambda>segment. segment\<lparr>ds_detail := None\<rparr>) (dr_segments receipt)\<rparr>"

definition redact_receipt :: "delivery_receipt \<Rightarrow> delivery_receipt" where
  "redact_receipt receipt = receipt\<lparr>
     dr_native_message_id := None,
     dr_detail := None,
     dr_items := map (\<lambda>item. item\<lparr>di_native_message_id := None, di_detail := None\<rparr>) (dr_items receipt),
     dr_segments := map (\<lambda>segment. segment\<lparr>ds_native_message_id := None, ds_detail := None\<rparr>) (dr_segments receipt)\<rparr>"

definition destination_result :: "bool \<Rightarrow> bool \<Rightarrow> destination_delivery_record \<Rightarrow> destination_delivery_result" where
  "destination_result replayed expose_conversations destination = \<lparr>
     dx_delivery_id = dd_delivery_id destination,
     dx_state = dd_state destination,
     dx_route_id = sn_route_id (dd_snapshot destination),
     dx_conversation_ref = (if expose_conversations then Some (sn_conversation_ref (dd_snapshot destination)) else None),
     dx_receipt = (if expose_conversations then dd_receipt destination else map_option redact_receipt (dd_receipt destination)),
     dx_error = None,
     dx_replayed = replayed\<rparr>"

definition combined_state :: "delivery_submission_state list \<Rightarrow> delivery_submission_state" where
  "combined_state states =
     (if SUB_IN_FLIGHT \<in> set states then SUB_IN_FLIGHT
      else case remdups states of [state] \<Rightarrow> state | _ \<Rightarrow> SUB_PARTIAL)"

definition result_from_record :: "delivery_submission_record \<Rightarrow> bool \<Rightarrow> bool \<Rightarrow> proactive_delivery_result" where
  "result_from_record record replayed expose_conversations =
     (let destinations = map (destination_result replayed expose_conversations) (sr_destinations record);
          state = combined_state (map dx_state destinations) in
      \<lparr>px_delivery_id = sr_delivery_id record, px_state = state, px_destinations = destinations,
       px_error = (if state = SUB_ACCEPTED then None
                   else Some ''one or more destinations did not complete successfully'')\<rparr>)"

fun is_conversation_target :: "delivery_target \<Rightarrow> bool" where
  "is_conversation_target (ConversationDeliveryTarget c) = True"
| "is_conversation_target (ThreadRouteDeliveryTarget t r) = False"

definition skipped_item :: "string \<Rightarrow> int \<times> content \<Rightarrow> delivery_item_receipt" where
  "skipped_item err = (\<lambda>(index, item). \<lparr>
     di_content_index = index, di_status = DIS_SKIPPED,
     di_attachment_id = (case item of AttachmentContent a \<Rightarrow> Some (at_attachment_id a) | TextContent t fmt \<Rightarrow> None),
     di_native_message_id = None, di_detail = Some err\<rparr>)"

definition rejection_receipt :: "delivery_intent \<Rightarrow> string \<Rightarrow> delivery_receipt" where
  "rejection_receipt intent err = (plain_receipt DRS_REJECTED_BY_PLATFORM (Some err) None)\<lparr>
     dr_items := map (skipped_item err) (zip (map int [0..<length (it_content intent)]) (it_content intent))\<rparr>"

definition rejected_destination ::
  "delivery_intent \<Rightarrow> string \<Rightarrow> string \<times> delivery_route_snapshot \<Rightarrow> destination_delivery_result" where
  "rejected_destination intent err = (\<lambda>(delivery_id, snapshot). \<lparr>
     dx_delivery_id = delivery_id, dx_state = SUB_REJECTED, dx_route_id = sn_route_id snapshot,
     dx_conversation_ref =
       (if is_conversation_target (it_target intent) then Some (sn_conversation_ref snapshot) else None),
     dx_receipt = Some (rejection_receipt intent err), dx_error = Some err, dx_replayed = False\<rparr>)"

definition preflight_rejection ::
  "(string \<Rightarrow> string) \<Rightarrow> delivery_intent \<Rightarrow> string \<Rightarrow> delivery_route_snapshot list \<Rightarrow> string \<Rightarrow>
   proactive_delivery_result res" where
  "preflight_rejection sha256 intent execution_root_id snapshots err =
     and_then (destination_ids sha256 execution_root_id snapshots) (\<lambda>ids.
       Inr \<lparr>px_delivery_id = it_delivery_id intent, px_state = SUB_REJECTED,
            px_destinations = map (rejected_destination intent err) (zip ids snapshots), px_error = Some err\<rparr>)"

text \<open>The destinations of a target, from the active routes of its thread.\<close>

definition route_snapshot :: "thread_projection_route \<Rightarrow> delivery_route_snapshot" where
  "route_snapshot route = \<lparr>sn_conversation_ref = pr_conversation_ref route, sn_thread_ref = Some (pr_thread_ref route),
     sn_route_id = Some (pr_route_id route), sn_route_updated_at = pr_updated_at route,
     sn_reply_to_message_id = pr_reply_to_message_id route\<rparr>"

definition route_sort_key :: "thread_projection_route \<Rightarrow> string \<times> string \<times> string" where
  "route_sort_key route = (cv_channel_instance_id (pr_conversation_ref route),
     cv_native_conversation_id (pr_conversation_ref route), pr_route_id route)"

definition conversation_snapshot :: "conversation_ref \<Rightarrow> delivery_route_snapshot" where
  "conversation_snapshot conversation_ref = \<lparr>sn_conversation_ref = conversation_ref, sn_thread_ref = None,
     sn_route_id = None, sn_route_updated_at = None, sn_reply_to_message_id = None\<rparr>"

definition selected_routes :: "string option \<Rightarrow> thread_projection_route list \<Rightarrow> thread_projection_route list" where
  "selected_routes route_id routes =
     (case route_id of None \<Rightarrow> routes | Some i \<Rightarrow> filter (\<lambda>route. pr_route_id route = i) routes)"

definition thread_snapshots :: "string option \<Rightarrow> thread_projection_route list \<Rightarrow> delivery_route_snapshot list res" where
  "thread_snapshots route_id routes =
     (let selected = selected_routes route_id routes;
          snapshots = map route_snapshot (sort_key route_sort_key selected) in
      checked (first_error [
        raise_if (selected = []) DeliveryRouteError,
        validate_delivery_submission_destination_count (length selected),
        raise_if (\<not> distinct (map sn_conversation_ref snapshots)) DeliveryRouteError])
      (Inr snapshots))"

text \<open>The message for one destination.\<close>

definition destination_message :: "delivery_intent \<Rightarrow> string \<Rightarrow> delivery_route_snapshot \<Rightarrow> outbound_message" where
  "destination_message intent delivery_id snapshot = \<lparr>
     om_delivery_id = delivery_id, om_conversation_ref = sn_conversation_ref snapshot,
     om_content = it_content intent, om_created_at = it_created_at intent,
     om_reply_to = (case it_reply_to intent of
        Some m \<Rightarrow> if m = [] then sn_reply_to_message_id snapshot else Some m
      | None \<Rightarrow> sn_reply_to_message_id snapshot),
     om_metadata = it_metadata intent\<rparr>"

end
