(* ===== verification/Proactive_Runtime.thy ===== *)
theory Proactive_Runtime
  imports Proactive_Contract
begin

text \<open>
  \<open>ProactiveDeliveryService\<close> (\<open>gateway/delivery/proactive_runtime.py\<close>): any number of concurrent
  deliveries over one submission repository. A call is the piece of code it is about to run after
  its current await; a destination that is being sent is a task of its own, as with
  \<open>asyncio.gather\<close>. Every piece between two awaits is one event of \<open>proactive_exec\<close>, which is \<open>None\<close>
  where the event cannot happen. What the outside decides is part of the event: the principal that
  the authorizer returns, the routes of a thread, the receipt of the coordinator, clock readings,
  and where a call is cancelled.
\<close>

section \<open>The service\<close>

record proactive_env =
  pv_channels :: "(string, delivery_profile) dict"
  pv_config :: coordinator_config
  pv_has_authorizer :: bool
  pv_sha256 :: "string \<Rightarrow> string"
  pv_digest :: "py_value \<Rightarrow> string"
  pv_casefold :: "pytext \<Rightarrow> pytext"
  pv_rewrite :: "pytext \<Rightarrow> pytext"
  pv_explain :: "outbound_message \<Rightarrow> string"

record submit_context =
  sx_intent :: delivery_intent
  sx_owner :: delivery_principal
  sx_authorize :: bool
  sx_submission_id :: string

definition submission_origin :: "submit_context \<Rightarrow> delivery_submission_origin" where
  "submission_origin ctx = (if sx_authorize ctx then EXTERNAL else GATEWAY_INTERNAL)"

abbreviation expose :: "submit_context \<Rightarrow> bool" where
  "expose ctx \<equiv> is_conversation_target (it_target (sx_intent ctx))"

section \<open>Pieces of \<open>deliver\<close>\<close>

definition validate_external_intent :: "proactive_env \<Rightarrow> delivery_intent \<Rightarrow> check" where
  "validate_external_intent env intent = first_error [
     validate_source_item_count (pv_config env) (int (length (it_content intent))),
     validate_delivery_intent intent,
     require_external_local_digests intent]"

definition deliver_begin :: "proactive_env \<Rightarrow> delivery_intent \<Rightarrow> (delivery_intent \<times> string) res" where
  "deliver_begin env intent =
     and_then (snapshot_intent intent) (\<lambda>intent.
     checked (validate_external_intent env intent)
     (and_then (derive_delivery_submission_id (pv_sha256 env) EXTERNAL ''imagent:lookup-only'' (it_delivery_id intent))
       (\<lambda>replay_id. Inr (intent, replay_id))))"

definition settled_record :: "delivery_submission_record \<Rightarrow> bool" where
  "settled_record existing = list_all (\<lambda>d. dd_state d \<notin> {SUB_IN_FLIGHT, SUB_RETRYABLE}) (sr_destinations existing)"

definition ensure_replay_identity :: "proactive_env \<Rightarrow> delivery_intent \<Rightarrow> delivery_submission_record \<Rightarrow> check" where
  "ensure_replay_identity env intent existing =
     (case derive_delivery_payload_fingerprint (pv_digest env) intent of
        Inl e \<Rightarrow> Some e
      | Inr payload \<Rightarrow> ensure_submission_identity existing (sr_principal_id existing)
          (derive_delivery_target_fingerprint (pv_sha256 env) (it_target intent)) payload)"

text \<open>A settled record is replayed before the credential is looked at.\<close>

definition deliver_replay ::
  "proactive_env \<Rightarrow> delivery_intent \<Rightarrow> delivery_submission_record option \<Rightarrow> proactive_delivery_result option res" where
  "deliver_replay env intent existing =
     (case existing of
        None \<Rightarrow> Inr None
      | Some x \<Rightarrow>
          if settled_record x
          then checked (ensure_replay_identity env intent x)
                 (Inr (Some (result_from_record x True (is_conversation_target (it_target intent)))))
          else Inr None)"

definition submit_begin ::
  "proactive_env \<Rightarrow> delivery_intent \<Rightarrow> delivery_principal \<Rightarrow> bool \<Rightarrow> submit_context res" where
  "submit_begin env intent owner authorize =
     checked (first_error [
       validate_source_item_count (pv_config env) (int (length (it_content intent))),
       validate_delivery_intent intent,
       if authorize then require_external_local_digests intent else None])
     (and_then (derive_delivery_submission_id (pv_sha256 env) (if authorize then EXTERNAL else GATEWAY_INTERNAL)
          (dp_principal_id owner) (it_delivery_id intent))
       (\<lambda>submission_id. Inr \<lparr>sx_intent = intent, sx_owner = owner, sx_authorize = authorize,
          sx_submission_id = submission_id\<rparr>))"

definition authorized_begin ::
  "proactive_env \<Rightarrow> delivery_intent \<Rightarrow> delivery_principal res \<Rightarrow> submit_context res" where
  "authorized_begin env intent authenticated =
     and_then authenticated (\<lambda>owner.
     checked (first_error [validate_delivery_principal owner, authorize_delivery_target owner (it_target intent)])
     (submit_begin env intent owner True))"

definition internal_begin :: "proactive_env \<Rightarrow> outbound_message \<Rightarrow> submit_context res" where
  "internal_begin env message =
     and_then (snapshot_intent \<lparr>it_delivery_id = om_delivery_id message,
         it_target = ConversationDeliveryTarget (om_conversation_ref message), it_content = om_content message,
         it_created_at = om_created_at message, it_reply_to = om_reply_to message, it_metadata = om_metadata message\<rparr>)
       (\<lambda>intent. submit_begin env intent \<lparr>dp_principal_id = ''imagent:gateway-internal'', dp_allowed_threads = [],
          dp_allowed_conversations = [om_conversation_ref message]\<rparr> False)"

section \<open>Pieces of \<open>_submit\<close>\<close>

definition scope_check :: "submit_context \<Rightarrow> check" where
  "scope_check ctx =
     (if sx_authorize ctx then authorize_delivery_target (sx_owner ctx) (it_target (sx_intent ctx)) else None)"

definition existing_check :: "proactive_env \<Rightarrow> submit_context \<Rightarrow> delivery_submission_record \<Rightarrow> check" where
  "existing_check env ctx existing =
     (case derive_delivery_payload_fingerprint (pv_digest env) (sx_intent ctx) of
        Inl e \<Rightarrow> Some e
      | Inr payload \<Rightarrow> first_error [
          ensure_submission_identity existing (dp_principal_id (sx_owner ctx))
            (derive_delivery_target_fingerprint (pv_sha256 env) (it_target (sx_intent ctx))) payload,
          scope_check ctx])"

definition has_retryable :: "delivery_submission_record \<Rightarrow> bool" where
  "has_retryable existing = list_ex (\<lambda>d. dd_state d = SUB_RETRYABLE) (sr_destinations existing)"

definition resolve_snapshots ::
  "delivery_intent \<Rightarrow> thread_projection_route list res \<Rightarrow> delivery_route_snapshot list res" where
  "resolve_snapshots intent routes =
     (case it_target intent of
        ConversationDeliveryTarget conversation_ref \<Rightarrow> Inr [conversation_snapshot conversation_ref]
      | ThreadRouteDeliveryTarget thread_ref route_id \<Rightarrow> and_then routes (thread_snapshots route_id))"

text \<open>\<open>_preflight\<close>: the text of the first error, or nothing; other errors than planning errors propagate.\<close>

fun service_preflight :: "proactive_env \<Rightarrow> delivery_intent \<Rightarrow> delivery_route_snapshot list \<Rightarrow> string option res" where
  "service_preflight env intent [] = Inr None"
| "service_preflight env intent (snapshot # rest) =
     (let channel_id = cv_channel_instance_id (sn_conversation_ref snapshot);
          message = destination_message intent (it_delivery_id intent) snapshot in
      case dict_get (pv_channels env) channel_id of
        None \<Rightarrow> Inr (Some (''destination Channel is not registered: '' @ channel_id))
      | Some profile \<Rightarrow>
          (case preflight (pv_sha256 env) (pv_casefold env) (pv_rewrite env) (pv_config env) profile message of
             Inl e \<Rightarrow> if e = DeliveryPlanningError then Inr (Some (pv_explain env message)) else Inl e
           | Inr p \<Rightarrow> service_preflight env intent rest))"

definition submission_record ::
  "proactive_env \<Rightarrow> submit_context \<Rightarrow> string \<Rightarrow> datetime \<Rightarrow> destination_delivery_record list \<Rightarrow>
   delivery_submission_record" where
  "submission_record env ctx payload now destinations = \<lparr>
     sr_submission_id = sx_submission_id ctx, sr_delivery_id = it_delivery_id (sx_intent ctx),
     sr_origin = submission_origin ctx, sr_principal_id = dp_principal_id (sx_owner ctx),
     sr_target_fingerprint = derive_delivery_target_fingerprint (pv_sha256 env) (it_target (sx_intent ctx)),
     sr_payload_fingerprint = payload, sr_destinations = destinations, sr_created_at = now, sr_updated_at = now\<rparr>"

definition rejected_record :: "datetime \<Rightarrow> destination_delivery_result \<times> delivery_route_snapshot \<Rightarrow> destination_delivery_record" where
  "rejected_record now = (\<lambda>(result, snapshot). \<lparr>dd_delivery_id = dx_delivery_id result, dd_snapshot = snapshot,
     dd_state = dx_state result, dd_updated_at = now,
     dd_receipt = map_option durable_delivery_receipt (dx_receipt result)\<rparr>)"

definition in_flight_record :: "datetime \<Rightarrow> string \<times> delivery_route_snapshot \<Rightarrow> destination_delivery_record" where
  "in_flight_record now = (\<lambda>(delivery_id, snapshot). \<lparr>dd_delivery_id = delivery_id, dd_snapshot = snapshot,
     dd_state = SUB_IN_FLIGHT, dd_updated_at = now, dd_receipt = None\<rparr>)"

definition execution_root :: "submit_context \<Rightarrow> string" where
  "execution_root ctx = (if sx_authorize ctx then sx_submission_id ctx else it_delivery_id (sx_intent ctx))"

text \<open>The record to reserve, with the result to return when preflight refused it.\<close>

definition prepare_submission ::
  "proactive_env \<Rightarrow> submit_context \<Rightarrow> datetime \<Rightarrow> delivery_route_snapshot list \<Rightarrow>
   (delivery_submission_record \<times> proactive_delivery_result option) res" where
  "prepare_submission env ctx now snapshots =
     and_then (derive_delivery_payload_fingerprint (pv_digest env) (sx_intent ctx)) (\<lambda>payload.
     and_then (service_preflight env (sx_intent ctx) snapshots) (\<lambda>preflight_error.
       case preflight_error of
         Some err \<Rightarrow>
           and_then (preflight_rejection (pv_sha256 env) (sx_intent ctx) (execution_root ctx) snapshots err) (\<lambda>rejection.
             Inr (submission_record env ctx payload now
                    (map (rejected_record now) (zip (px_destinations rejection) snapshots)), Some rejection))
       | None \<Rightarrow>
           and_then (destination_ids (pv_sha256 env) (execution_root ctx) snapshots) (\<lambda>ids.
             Inr (submission_record env ctx payload now (map (in_flight_record now) (zip ids snapshots)), None))))"

definition resolve_and_prepare ::
  "proactive_env \<Rightarrow> submit_context \<Rightarrow> thread_projection_route list res \<Rightarrow> datetime \<Rightarrow>
   (delivery_submission_record \<times> proactive_delivery_result option) res" where
  "resolve_and_prepare env ctx routes now =
     and_then (resolve_snapshots (sx_intent ctx) routes) (prepare_submission env ctx now)"

section \<open>Pieces of \<open>_resume_retryable_destinations\<close> and \<open>_send_destination\<close>\<close>

text \<open>Whether the time has not come yet; a retry-after is never negative or infinite in a stored receipt.\<close>

definition retry_too_early :: "datetime \<Rightarrow> destination_delivery_record \<Rightarrow> bool" where
  "retry_too_early now destination =
     (case dd_receipt destination of
        None \<Rightarrow> False
      | Some receipt \<Rightarrow>
          (case dr_retry_after_seconds receipt of
             Some (Micros t) \<Rightarrow> instant now < instant (dd_updated_at destination) + t
           | _ \<Rightarrow> False))"

definition claimable :: "datetime \<Rightarrow> destination_delivery_record \<Rightarrow> bool" where
  "claimable now destination \<longleftrightarrow> dd_state destination = SUB_RETRYABLE \<and> \<not> retry_too_early now destination"

definition claimed_record :: "datetime \<Rightarrow> destination_delivery_record \<Rightarrow> destination_delivery_record" where
  "claimed_record now destination =
     destination\<lparr>dd_state := SUB_IN_FLIGHT, dd_receipt := None, dd_updated_at := now\<rparr>"

datatype outcome_error_code = PLANNING_FAILED | EXECUTION_FAILED | OUTCOME_CANCELLED

text \<open>
  What \<open>_send_destination\<close> makes of the coordinator's receipt or exception. The texts of the
  exceptions are left out: details are removed before a receipt is stored. The observer that is
  notified of outcomes has no influence on them and is not modelled.
\<close>

fun failed_delivery :: "error \<Rightarrow> delivery_receipt \<times> delivery_submission_state \<times> outcome_error_code" where
  "failed_delivery DeliveryPlanningError =
     (plain_receipt DRS_REJECTED_BY_PLATFORM None None, SUB_REJECTED, PLANNING_FAILED)"
| "failed_delivery CancelledError = (plain_receipt DRS_UNKNOWN None None, SUB_UNKNOWN, OUTCOME_CANCELLED)"
| "failed_delivery e = (plain_receipt DRS_UNKNOWN None None, SUB_UNKNOWN, EXECUTION_FAILED)"

definition classify_delivery ::
  "content list \<Rightarrow> delivery_receipt res \<Rightarrow> delivery_receipt \<times> delivery_submission_state \<times> outcome_error_code option" where
  "classify_delivery contents result =
     (let failed = (\<lambda>e. case failed_delivery e of (receipt, state, code) \<Rightarrow> (receipt, state, Some code)) in
      case result of
        Inl e \<Rightarrow> failed e
      | Inr receipt \<Rightarrow>
          (case validate_delivery_receipt_for_content receipt contents of
             Some e \<Rightarrow> failed e
           | None \<Rightarrow> (receipt, state_from_receipt receipt, None)))"

definition delivered_record ::
  "datetime \<Rightarrow> delivery_receipt \<Rightarrow> delivery_submission_state \<Rightarrow> destination_delivery_record \<Rightarrow> destination_delivery_record" where
  "delivered_record now receipt state destination = destination\<lparr>
     dd_state := state, dd_receipt := Some (durable_delivery_receipt receipt), dd_updated_at := now\<rparr>"

section \<open>The state machine\<close>

datatype call_stage =
    LookingUp delivery_intent string
  | Authenticating delivery_intent
  | Reading submit_context
  | Resolving submit_context
  | Reserving submit_context delivery_submission_record "proactive_delivery_result option"
  | Claiming submit_context delivery_submission_record datetime "destination_delivery_record list"
  | Sending submit_context bool
  | Finishing submit_context bool
  | Returned "proactive_delivery_result res"

text \<open>
  A destination that a call owns: claimed but not started, a task not yet run, being delivered,
  about to be stored, stored, or given up (cancelled before it ran, or its store call raised).
\<close>

datatype send_phase =
    Claimed | Queued | Delivering | Storing destination_delivery_record bool | Stored delivery_submission_state bool | Lost

record send_task =
  sd_call :: nat
  sd_context :: submit_context
  sd_destination :: destination_delivery_record
  sd_phase :: send_phase

text \<open>\<open>pw_clock\<close> lists the readings that calls took for new in-flight records, with their calls.\<close>

record proactive_world =
  pw_repository :: submission_repository
  pw_calls :: "call_stage list"
  pw_sends :: "send_task list"
  pw_clock :: "(nat \<times> datetime) list"

datatype proactive_event =
    DeliverCalled delivery_intent
  | DeliverInternalCalled outbound_message
  | Lookup nat
  | Authenticated nat "delivery_principal res"
  | ReadExisting nat datetime
  | Resolved nat "thread_projection_route list res" datetime
  | Reserved nat
  | Claim nat
  | SendsDone nat
  | FinalRead nat
  | CallAborted nat error
  | SendBegin nat
  | SendReturned nat "delivery_receipt res" datetime
  | SendStored nat
  | SendAborted nat

definition set_stage :: "nat \<Rightarrow> call_stage \<Rightarrow> proactive_world \<Rightarrow> proactive_world" where
  "set_stage i st w = w\<lparr>pw_calls := (pw_calls w)[i := st]\<rparr>"

definition stage_of :: "proactive_world \<Rightarrow> nat \<Rightarrow> call_stage option" where
  "stage_of w i = (if i < length (pw_calls w) then Some (pw_calls w ! i) else None)"

definition set_phase :: "nat \<Rightarrow> send_phase \<Rightarrow> proactive_world \<Rightarrow> proactive_world" where
  "set_phase k p w = w\<lparr>pw_sends := (pw_sends w)[k := (pw_sends w ! k)\<lparr>sd_phase := p\<rparr>]\<rparr>"

definition send_of :: "proactive_world \<Rightarrow> nat \<Rightarrow> send_task option" where
  "send_of w k = (if k < length (pw_sends w) then Some (pw_sends w ! k) else None)"

definition read_clock :: "nat \<Rightarrow> datetime \<Rightarrow> proactive_world \<Rightarrow> proactive_world" where
  "read_clock i now w = w\<lparr>pw_clock := pw_clock w @ [(i, now)]\<rparr>"

definition add_sends :: "nat \<Rightarrow> submit_context \<Rightarrow> send_phase \<Rightarrow> destination_delivery_record list \<Rightarrow> proactive_world \<Rightarrow> proactive_world" where
  "add_sends i ctx p ds w = w\<lparr>pw_sends := pw_sends w @
     map (\<lambda>d. \<lparr>sd_call = i, sd_context = ctx, sd_destination = d, sd_phase = p\<rparr>) ds\<rparr>"

definition start_claimed :: "nat \<Rightarrow> proactive_world \<Rightarrow> proactive_world" where
  "start_claimed i w = w\<lparr>pw_sends :=
     map (\<lambda>x. if sd_call x = i \<and> sd_phase x = Claimed then x\<lparr>sd_phase := Queued\<rparr> else x) (pw_sends w)\<rparr>"

section \<open>One piece of a call\<close>

text \<open>After \<open>get_delivery_submission\<close> in \<open>_submit\<close>.\<close>

definition read_existing :: "proactive_env \<Rightarrow> nat \<Rightarrow> submit_context \<Rightarrow> datetime \<Rightarrow> proactive_world \<Rightarrow> proactive_world" where
  "read_existing env i ctx now w =
     (case get_delivery_submission (sx_submission_id ctx) (pw_repository w) of
        None \<Rightarrow> set_stage i (case scope_check ctx of Some e \<Rightarrow> Returned (Inl e) | None \<Rightarrow> Resolving ctx) w
      | Some existing \<Rightarrow>
          (case existing_check env ctx existing of
             Some e \<Rightarrow> set_stage i (Returned (Inl e)) w
           | None \<Rightarrow>
               if has_retryable existing
               then set_stage i (Claiming ctx existing now (sr_destinations existing)) (read_clock i now w)
               else set_stage i (Returned (Inr (result_from_record existing True (expose ctx)))) w))"

text \<open>\<open>reserve_delivery_submission\<close> and what follows it.\<close>

definition reserved_result ::
  "submit_context \<Rightarrow> delivery_submission_record \<Rightarrow> proactive_delivery_result option \<Rightarrow> delivery_reservation \<Rightarrow>
   proactive_delivery_result res" where
  "reserved_result ctx record rejection reservation =
     (if \<not> rv_acquired reservation
      then checked (ensure_same_delivery_submission_reservation (rv_record reservation) record)
             (Inr (result_from_record (rv_record reservation) True (expose ctx)))
      else case rejection of
          Some r \<Rightarrow> if expose ctx then Inr r else Inr (result_from_record (rv_record reservation) False (expose ctx))
        | None \<Rightarrow> Inl RuntimeError)"

definition reserve_submission ::
  "nat \<Rightarrow> submit_context \<Rightarrow> delivery_submission_record \<Rightarrow> proactive_delivery_result option \<Rightarrow> proactive_world \<Rightarrow> proactive_world" where
  "reserve_submission i ctx record rejection w =
     (case reserve_delivery_submission record (pw_repository w) of
        (Inl e, r) \<Rightarrow> set_stage i (Returned (Inl e)) (w\<lparr>pw_repository := r\<rparr>)
      | (Inr reservation, r) \<Rightarrow>
          if rv_acquired reservation \<and> rejection = None
          then set_stage i (Sending ctx False)
                 (add_sends i ctx Queued (sr_destinations (rv_record reservation)) (w\<lparr>pw_repository := r\<rparr>))
          else set_stage i (Returned (reserved_result ctx record rejection reservation)) (w\<lparr>pw_repository := r\<rparr>))"

text \<open>One round of the loop over the destinations to retry; a conflict means that another call claimed it.\<close>

definition claim_next ::
  "nat \<Rightarrow> submit_context \<Rightarrow> delivery_submission_record \<Rightarrow> datetime \<Rightarrow> destination_delivery_record \<Rightarrow>
   destination_delivery_record list \<Rightarrow> proactive_world \<Rightarrow> proactive_world" where
  "claim_next i ctx existing now destination rest w =
     (if \<not> claimable now destination then set_stage i (Claiming ctx existing now rest) w
      else case update_delivery_destination (sr_submission_id existing) (dd_delivery_id destination) SUB_RETRYABLE
                  (claimed_record now destination) (pw_repository w) of
          (Inr updated, r) \<Rightarrow>
            set_stage i (Claiming ctx existing now rest)
              (add_sends i ctx Claimed [claimed_record now destination] (w\<lparr>pw_repository := r\<rparr>))
        | (Inl e, r) \<Rightarrow>
            set_stage i (if e = DeliverySubmissionConflict then Claiming ctx existing now rest else Returned (Inl e))
              (w\<lparr>pw_repository := r\<rparr>))"

text \<open>The pieces by the await they follow; each is \<open>None\<close> for a call that waits for something else.\<close>

definition lookup_step :: "proactive_env \<Rightarrow> nat \<Rightarrow> call_stage \<Rightarrow> proactive_world \<Rightarrow> proactive_world option" where
  "lookup_step env i stage w =
     (case stage of
        LookingUp intent replay_id \<Rightarrow> Some (set_stage i
          (case deliver_replay env intent (get_delivery_submission replay_id (pw_repository w)) of
             Inl e \<Rightarrow> Returned (Inl e)
           | Inr (Some result) \<Rightarrow> Returned (Inr result)
           | Inr None \<Rightarrow>
               if pv_has_authorizer env then Authenticating intent else Returned (Inl DeliveryAuthorizationError)) w)
      | _ \<Rightarrow> None)"

definition authenticated_step ::
  "proactive_env \<Rightarrow> delivery_principal res \<Rightarrow> nat \<Rightarrow> call_stage \<Rightarrow> proactive_world \<Rightarrow> proactive_world option" where
  "authenticated_step env authenticated i stage w =
     (case stage of
        Authenticating intent \<Rightarrow> Some (set_stage i
          (case authorized_begin env intent authenticated of Inl e \<Rightarrow> Returned (Inl e) | Inr ctx \<Rightarrow> Reading ctx) w)
      | _ \<Rightarrow> None)"

definition read_step ::
  "proactive_env \<Rightarrow> datetime \<Rightarrow> nat \<Rightarrow> call_stage \<Rightarrow> proactive_world \<Rightarrow> proactive_world option" where
  "read_step env now i stage w =
     (case stage of Reading ctx \<Rightarrow> Some (read_existing env i ctx now w) | _ \<Rightarrow> None)"

definition resolved_step ::
  "proactive_env \<Rightarrow> thread_projection_route list res \<Rightarrow> datetime \<Rightarrow> nat \<Rightarrow> call_stage \<Rightarrow> proactive_world \<Rightarrow> proactive_world option" where
  "resolved_step env routes now i stage w =
     (case stage of
        Resolving ctx \<Rightarrow> Some
          (case resolve_and_prepare env ctx routes now of
             Inl e \<Rightarrow> set_stage i (Returned (Inl e)) w
           | Inr (record, rejection) \<Rightarrow> set_stage i (Reserving ctx record rejection) (read_clock i now w))
      | _ \<Rightarrow> None)"

definition reserved_step :: "nat \<Rightarrow> call_stage \<Rightarrow> proactive_world \<Rightarrow> proactive_world option" where
  "reserved_step i stage w =
     (case stage of Reserving ctx record rejection \<Rightarrow> Some (reserve_submission i ctx record rejection w) | _ \<Rightarrow> None)"

definition claim_step :: "nat \<Rightarrow> call_stage \<Rightarrow> proactive_world \<Rightarrow> proactive_world option" where
  "claim_step i stage w =
     (case stage of
        Claiming ctx existing now remaining \<Rightarrow> Some
          (case remaining of
             destination # rest \<Rightarrow> claim_next i ctx existing now destination rest w
           | [] \<Rightarrow> set_stage i (Sending ctx True) (start_claimed i w))
      | _ \<Rightarrow> None)"

fun is_stored :: "send_phase \<Rightarrow> bool" where
  "is_stored (Stored state cancelled) = (\<not> cancelled)"
| "is_stored _ = False"

definition sends_done_step :: "nat \<Rightarrow> call_stage \<Rightarrow> proactive_world \<Rightarrow> proactive_world option" where
  "sends_done_step i stage w =
     (case stage of
        Sending ctx replayed \<Rightarrow>
          if list_all (\<lambda>x. sd_call x = i \<longrightarrow> is_stored (sd_phase x)) (pw_sends w)
          then Some (set_stage i (Finishing ctx replayed) w) else None
      | _ \<Rightarrow> None)"

definition final_read_step :: "nat \<Rightarrow> call_stage \<Rightarrow> proactive_world \<Rightarrow> proactive_world option" where
  "final_read_step i stage w =
     (case stage of
        Finishing ctx replayed \<Rightarrow> Some (set_stage i (Returned
          (case get_delivery_submission (sx_submission_id ctx) (pw_repository w) of
             None \<Rightarrow> Inl RuntimeError
           | Some completed \<Rightarrow> Inr (result_from_record completed replayed (expose ctx)))) w)
      | _ \<Rightarrow> None)"

text \<open>A cancellation, an exception of a send or of the repository: the call ends wherever it waits.\<close>

definition abort_step :: "error \<Rightarrow> nat \<Rightarrow> call_stage \<Rightarrow> proactive_world \<Rightarrow> proactive_world option" where
  "abort_step e i stage w =
     (case stage of Returned r \<Rightarrow> None | _ \<Rightarrow> Some (set_stage i (Returned (Inl e)) w))"

section \<open>One piece of a send\<close>

definition send_begin_step :: "proactive_env \<Rightarrow> nat \<Rightarrow> send_task \<Rightarrow> proactive_world \<Rightarrow> proactive_world option" where
  "send_begin_step env k x w =
     (if sd_phase x = Queued
      then Some (set_phase k
        (if dict_get (pv_channels env) (cv_channel_instance_id (sn_conversation_ref (dd_snapshot (sd_destination x)))) = None
         then Lost else Delivering) w)
      else None)"

definition send_returned_step ::
  "delivery_receipt res \<Rightarrow> datetime \<Rightarrow> nat \<Rightarrow> send_task \<Rightarrow> proactive_world \<Rightarrow> proactive_world option" where
  "send_returned_step result now k x w =
     (if sd_phase x = Delivering
      then Some (set_phase k
        (case classify_delivery (it_content (sx_intent (sd_context x))) result of
           (receipt, state, code) \<Rightarrow>
             Storing (delivered_record now receipt state (sd_destination x)) (code = Some OUTCOME_CANCELLED)) w)
      else None)"

definition send_stored_step :: "nat \<Rightarrow> send_task \<Rightarrow> proactive_world \<Rightarrow> proactive_world option" where
  "send_stored_step k x w =
     (case sd_phase x of
        Storing replacement cancelled \<Rightarrow>
          (case update_delivery_destination (sx_submission_id (sd_context x)) (dd_delivery_id (sd_destination x))
                  SUB_IN_FLIGHT replacement (pw_repository w) of
             (Inr updated, r) \<Rightarrow> Some (set_phase k (Stored (dd_state replacement) cancelled) (w\<lparr>pw_repository := r\<rparr>))
           | (Inl e, r) \<Rightarrow> Some (set_phase k Lost (w\<lparr>pw_repository := r\<rparr>)))
      | _ \<Rightarrow> None)"

text \<open>Cancelled before it first ran, or while it waits for the repository.\<close>

definition send_aborted_step :: "nat \<Rightarrow> send_task \<Rightarrow> proactive_world \<Rightarrow> proactive_world option" where
  "send_aborted_step k x w =
     (case sd_phase x of
        Queued \<Rightarrow> Some (set_phase k Lost w)
      | Storing replacement cancelled \<Rightarrow> Some (set_phase k Lost w)
      | _ \<Rightarrow> None)"

definition on_call ::
  "nat \<Rightarrow> (nat \<Rightarrow> call_stage \<Rightarrow> proactive_world \<Rightarrow> proactive_world option) \<Rightarrow> proactive_world \<Rightarrow> proactive_world option" where
  "on_call i f w = (case stage_of w i of None \<Rightarrow> None | Some stage \<Rightarrow> f i stage w)"

definition on_send ::
  "nat \<Rightarrow> (nat \<Rightarrow> send_task \<Rightarrow> proactive_world \<Rightarrow> proactive_world option) \<Rightarrow> proactive_world \<Rightarrow> proactive_world option" where
  "on_send k f w = (case send_of w k of None \<Rightarrow> None | Some x \<Rightarrow> f k x w)"

definition open_call :: "call_stage \<Rightarrow> proactive_world \<Rightarrow> proactive_world" where
  "open_call stage w = w\<lparr>pw_calls := pw_calls w @ [stage]\<rparr>"

fun proactive_exec :: "proactive_env \<Rightarrow> proactive_event \<Rightarrow> proactive_world \<Rightarrow> proactive_world option" where
  "proactive_exec env (DeliverCalled intent) w = Some (open_call
     (case deliver_begin env intent of Inl e \<Rightarrow> Returned (Inl e) | Inr (intent, i) \<Rightarrow> LookingUp intent i) w)"
| "proactive_exec env (DeliverInternalCalled message) w = Some (open_call
     (case internal_begin env message of Inl e \<Rightarrow> Returned (Inl e) | Inr ctx \<Rightarrow> Reading ctx) w)"
| "proactive_exec env (Lookup i) w = on_call i (lookup_step env) w"
| "proactive_exec env (Authenticated i r) w = on_call i (authenticated_step env r) w"
| "proactive_exec env (ReadExisting i now) w = on_call i (read_step env now) w"
| "proactive_exec env (Resolved i routes now) w = on_call i (resolved_step env routes now) w"
| "proactive_exec env (Reserved i) w = on_call i reserved_step w"
| "proactive_exec env (Claim i) w = on_call i claim_step w"
| "proactive_exec env (SendsDone i) w = on_call i sends_done_step w"
| "proactive_exec env (FinalRead i) w = on_call i final_read_step w"
| "proactive_exec env (CallAborted i e) w = on_call i (abort_step e) w"
| "proactive_exec env (SendBegin k) w = on_send k (send_begin_step env) w"
| "proactive_exec env (SendReturned k result now) w = on_send k (send_returned_step result now) w"
| "proactive_exec env (SendStored k) w = on_send k send_stored_step w"
| "proactive_exec env (SendAborted k) w = on_send k send_aborted_step w"

definition proactive_step :: "proactive_env \<Rightarrow> proactive_world \<Rightarrow> proactive_event \<Rightarrow> proactive_world \<Rightarrow> bool" where
  "proactive_step env w ev w' \<longleftrightarrow> proactive_exec env ev w = Some w'"

definition proactive_init :: "proactive_world \<Rightarrow> bool" where
  "proactive_init w \<longleftrightarrow> (\<exists>max_records. new_submission_repository max_records = Inr (pw_repository w)) \<and>
     pw_calls w = [] \<and> pw_sends w = [] \<and> pw_clock w = []"

definition proactive_reachable :: "proactive_env \<Rightarrow> proactive_world \<Rightarrow> bool" where
  "proactive_reachable env = reachable proactive_init (proactive_step env)"

end
