(* ===== verification/Proactive_Guarantees.thy ===== *)
theory Proactive_Guarantees
  imports Proactive_Runtime
begin

text \<open>
  What the state machine of proactive delivery guarantees. The invariant relates every destination
  that was ever sent to its stored record: all sends but the last ended with a stored retryable
  failure, and the last one owns the in-flight record or left the state that is stored.
\<close>

section \<open>Destinations of the repository\<close>

abbreviation find_destination :: "string \<Rightarrow> destination_delivery_record list \<Rightarrow> destination_delivery_record option" where
  "find_destination i ds \<equiv> find (\<lambda>d. dd_delivery_id d = i) ds"

definition destination_at :: "submission_repository \<Rightarrow> string \<times> string \<Rightarrow> destination_delivery_record option" where
  "destination_at r key =
     (case dict_get (sb_records r) (fst key) of None \<Rightarrow> None | Some x \<Rightarrow> find_destination (snd key) (sr_destinations x))"

lemma find_destination_id: "find_destination i ds = Some d \<Longrightarrow> dd_delivery_id d = i \<and> d \<in> set ds"
  by (auto dest: find_SomeD)

lemma find_destination_distinct:
  "distinct (map dd_delivery_id ds) \<Longrightarrow> d \<in> set ds \<Longrightarrow> find_destination (dd_delivery_id d) ds = Some d"
  by (induction ds) (auto simp: image_iff)

lemma replace_in_destinations_other:
  assumes "replace_in_destinations i e x ds = Inr (found, ds')" and "dd_delivery_id x = i" and "j \<noteq> i"
  shows "find_destination j ds' = find_destination j ds"
  using assms
  by (induction ds arbitrary: found ds') (auto simp: Let_def split: if_splits sum.splits prod.splits)

lemma replace_in_destinations_absent:
  "i \<notin> dd_delivery_id ` set ds \<Longrightarrow> replace_in_destinations i e x ds = Inr (False, ds)"
  by (induction ds) auto

lemma replace_in_destinations_found:
  assumes "replace_in_destinations i e x ds = Inr (True, ds')" and "dd_delivery_id x = i"
    and "distinct (map dd_delivery_id ds)"
  shows "find_destination i ds' = Some x \<and>
    (\<exists>cur. find_destination i ds = Some cur \<and> (dd_state cur = e \<or> cur = x))"
  using assms
proof (induction ds arbitrary: ds')
  case (Cons d ds)
  show ?case
  proof (cases "dd_delivery_id d = i")
    case True
    with Cons.prems(3) have "i \<notin> dd_delivery_id ` set ds" by auto
    then show ?thesis
      using Cons.prems True by (auto simp: replace_in_destinations_absent Let_def split: if_splits)
  next
    case False
    then show ?thesis
      using Cons by (auto simp: Let_def split: sum.splits prod.splits)
  qed
qed simp

lemma submission_inv_distinct:
  assumes "submission_inv r" and "dict_get (sb_records r) s = Some x"
  shows "distinct (map dd_delivery_id (sr_destinations x))" and "sr_submission_id x = s"
  using assms validate_destinations_distinct [of "{}" "sr_destinations x"]
  by (auto simp: submission_inv_def validate_delivery_submission_record_def)

lemma update_destination_at:
  assumes "submission_inv r" and "update_delivery_destination s i e d r = (Inr y, r')"
  shows "\<exists>cur. destination_at r (s, i) = Some cur \<and> (dd_state cur = e \<or> cur = d)"
    and "destination_at r' = (destination_at r)((s, i) := Some d)" and "dd_delivery_id d = i"
proof -
  obtain x where x: "dict_get (sb_records r) s = Some x" "replace_destination x i e d = Inr y"
      "r' = r\<lparr>sb_records := dict_set (sb_records r) s y\<rparr>"
    using update_ok [OF assms(2)] by metis
  note distinct = submission_inv_distinct(1) [OF assms(1) x(1)]
  show id: "dd_delivery_id d = i" using replace_destination_ok(4) [OF x(2)] .
  obtain ds where ds: "replace_in_destinations i e d (sr_destinations x) = Inr (True, ds)" "sr_destinations y = ds"
    using x(2) by (auto simp: replace_destination_def split: if_splits sum.splits prod.splits)
  note found = replace_in_destinations_found [OF ds(1) id distinct]
  show "\<exists>cur. destination_at r (s, i) = Some cur \<and> (dd_state cur = e \<or> cur = d)"
    using found x(1) by (simp add: destination_at_def)
  show "destination_at r' = (destination_at r)((s, i) := Some d)"
    using found replace_in_destinations_other [OF ds(1) id] x(1,3) ds(2)
    by (auto simp: destination_at_def fun_eq_iff)
qed

lemma update_failed: "update_delivery_destination s i e d r = (Inl err, r') \<Longrightarrow> r' = r"
  using memory_submissions_atomic.fail_frame [of "UpdateDestination s i e d" r err] by simp

lemma reserve_failed: "reserve_delivery_submission x r = (Inl err, r') \<Longrightarrow> r' = r"
  using memory_submissions_atomic.fail_frame [of "Reserve x" r err] by simp

lemma update_inv: "submission_inv r \<Longrightarrow> update_delivery_destination s i e d r = (y, r') \<Longrightarrow> submission_inv r'"
  using memory_submissions_inv.exec_inv [of r "UpdateDestination s i e d"] by simp

lemma reserve_inv: "submission_inv r \<Longrightarrow> reserve_delivery_submission x r = (y, r') \<Longrightarrow> submission_inv r'"
  using memory_submissions_inv.exec_inv [of r "Reserve x"] by simp

section \<open>The invariant\<close>

declare split_paired_All [simp del] split_paired_Ex [simp del]

fun stored_state :: "send_phase \<Rightarrow> delivery_submission_state option" where
  "stored_state (Stored state cancelled) = Some state"
| "stored_state _ = None"

type_synonym send_view = "(string \<times> string) \<times> destination_delivery_record \<times> delivery_submission_state option"

definition send_key :: "send_task \<Rightarrow> string \<times> string" where
  "send_key x = (sx_submission_id (sd_context x), dd_delivery_id (sd_destination x))"

definition send_view :: "send_task \<Rightarrow> send_view" where
  "send_view x = (send_key x, sd_destination x, stored_state (sd_phase x))"

definition views_at :: "string \<times> string \<Rightarrow> send_view list \<Rightarrow> send_view list" where
  "views_at key vs = filter (\<lambda>v. fst v = key) vs"

fun owns :: "send_view \<Rightarrow> destination_delivery_record \<Rightarrow> bool" where
  "owns (key, d, None) current \<longleftrightarrow> current = d \<and> dd_state d = SUB_IN_FLIGHT"
| "owns (key, d, Some state) current \<longleftrightarrow> dd_state current = state \<and> state \<noteq> SUB_IN_FLIGHT"

definition key_ok :: "send_view list \<Rightarrow> destination_delivery_record option \<Rightarrow> bool" where
  "key_ok xs current \<longleftrightarrow>
     (\<forall>v \<in> set (butlast xs). snd (snd v) = Some SUB_RETRYABLE) \<and>
     (xs \<noteq> [] \<longrightarrow> (\<exists>d. current = Some d \<and> owns (last xs) d)) \<and>
     (\<forall>d. current = Some d \<and> dd_state d = SUB_IN_FLIGHT \<longrightarrow> xs \<noteq> [])"

definition keys_ok :: "submission_repository \<Rightarrow> send_view list \<Rightarrow> bool" where
  "keys_ok r vs \<longleftrightarrow> (\<forall>key. key_ok (views_at key vs) (destination_at r key))"

fun storing_ok :: "destination_delivery_record \<Rightarrow> send_phase \<Rightarrow> bool" where
  "storing_ok d (Storing replacement cancelled) \<longleftrightarrow>
     dd_delivery_id replacement = dd_delivery_id d \<and> dd_state replacement \<noteq> SUB_IN_FLIGHT"
| "storing_ok d _ \<longleftrightarrow> True"

definition send_ok :: "nat \<Rightarrow> (nat \<times> datetime) set \<Rightarrow> send_task \<Rightarrow> bool" where
  "send_ok n clock x \<longleftrightarrow> sd_call x < n \<and> (sd_call x, dd_updated_at (sd_destination x)) \<in> clock \<and>
     storing_ok (sd_destination x) (sd_phase x)"

definition unsent :: "nat \<Rightarrow> send_task list \<Rightarrow> bool" where
  "unsent i sends \<longleftrightarrow> (\<forall>x \<in> set sends. sd_call x \<noteq> i)"

fun stage_ok :: "(nat \<times> datetime) set \<Rightarrow> send_task list \<Rightarrow> nat \<Rightarrow> call_stage \<Rightarrow> bool" where
  "stage_ok clock sends i (LookingUp intent replay_id) \<longleftrightarrow> unsent i sends"
| "stage_ok clock sends i (Authenticating intent) \<longleftrightarrow> unsent i sends"
| "stage_ok clock sends i (Reading ctx) \<longleftrightarrow> unsent i sends"
| "stage_ok clock sends i (Resolving ctx) \<longleftrightarrow> unsent i sends"
| "stage_ok clock sends i (Reserving ctx rec rejection) \<longleftrightarrow> sr_submission_id rec = sx_submission_id ctx \<and>
     (\<forall>d \<in> set (sr_destinations rec).
        if rejection = None then dd_state d = SUB_IN_FLIGHT \<and> (i, dd_updated_at d) \<in> clock
        else dd_state d \<noteq> SUB_IN_FLIGHT)"
| "stage_ok clock sends i (Claiming ctx existing now remaining) \<longleftrightarrow>
     (i, now) \<in> clock \<and> sr_submission_id existing = sx_submission_id ctx \<and> distinct (map dd_delivery_id remaining) \<and>
     (\<forall>x \<in> set sends. sd_call x = i \<longrightarrow> dd_delivery_id (sd_destination x) \<notin> dd_delivery_id ` set remaining)"
| "stage_ok clock sends i stage \<longleftrightarrow> True"

definition proactive_core :: "proactive_world \<Rightarrow> bool" where
  "proactive_core w \<longleftrightarrow> submission_inv (pw_repository w) \<and>
     keys_ok (pw_repository w) (map send_view (pw_sends w)) \<and>
     (\<forall>x \<in> set (pw_sends w). send_ok (length (pw_calls w)) (set (pw_clock w)) x) \<and>
     (\<forall>i < length (pw_calls w). stage_ok (set (pw_clock w)) (pw_sends w) i (pw_calls w ! i))"

text \<open>The clock gives no two calls the same reading.\<close>

abbreviation clock_distinct :: "proactive_world \<Rightarrow> bool" where
  "clock_distinct w \<equiv> distinct (map snd (pw_clock w))"

lemma clock_owner: "clock_distinct w \<Longrightarrow> (i, t) \<in> set (pw_clock w) \<Longrightarrow> (j, t) \<in> set (pw_clock w) \<Longrightarrow> i = j"
  by (metis distinct_map fst_conv inj_onD snd_conv)

lemma views_at_append [simp]: "views_at key (vs @ us) = views_at key vs @ views_at key us"
  by (simp add: views_at_def)

lemma key_ok_snoc:
  assumes "\<forall>v \<in> set xs. snd (snd v) = Some SUB_RETRYABLE" and "owns v d"
  shows "key_ok (xs @ [v]) (Some d)"
  using assms by (simp add: key_ok_def)

text \<open>A send that is not stored is the last one of its destination.\<close>

lemma unstored_last:
  assumes "k < length vs" and "vs ! k = (key, d, None)" and "key_ok (views_at key vs) current"
  shows "views_at key (vs[k := (key, d, p)]) = butlast (views_at key vs) @ [(key, d, p)]"
    and "views_at key vs = butlast (views_at key vs) @ [(key, d, None)]"
    and "key' \<noteq> key \<Longrightarrow> views_at key' (vs[k := (key, d, p)]) = views_at key' vs"
proof -
  have split: "vs = take k vs @ (key, d, None) # drop (Suc k) vs" using assms(1,2) id_take_nth_drop by metis
  let ?before = "views_at key (take k vs)" and ?after = "views_at key (drop (Suc k) vs)"
  have all: "views_at key vs = ?before @ (key, d, None) # ?after"
    by (subst split) (simp add: views_at_def)
  have after: "?after = []"
  proof (rule ccontr)
    assume "?after \<noteq> []"
    then have "(key, d, None) \<in> set (butlast (views_at key vs))" by (simp add: all butlast_append)
    with assms(3) show False by (auto simp: key_ok_def)
  qed
  have updated: "vs[k := (key, d, p)] = take k vs @ (key, d, p) # drop (Suc k) vs"
    using assms(1) by (simp add: upd_conv_take_nth_drop)
  show "views_at key vs = butlast (views_at key vs) @ [(key, d, None)]" using all after by simp
  show "views_at key (vs[k := (key, d, p)]) = butlast (views_at key vs) @ [(key, d, p)]"
    using all after by (simp add: updated views_at_def)
  show "views_at key' (vs[k := (key, d, p)]) = views_at key' vs" if "key' \<noteq> key"
    using that by (subst (2) split) (simp add: updated views_at_def)
qed

section \<open>Steps that keep the repository\<close>

lemma set_stage_simps [simp]:
  "pw_repository (set_stage i st w) = pw_repository w" "pw_sends (set_stage i st w) = pw_sends w"
  "pw_clock (set_stage i st w) = pw_clock w" "length (pw_calls (set_stage i st w)) = length (pw_calls w)"
  "pw_calls (set_stage i st w) = (pw_calls w)[i := st]"
  by (simp_all add: set_stage_def)

lemma set_phase_simps [simp]:
  "pw_repository (set_phase k p w) = pw_repository w" "pw_calls (set_phase k p w) = pw_calls w"
  "pw_clock (set_phase k p w) = pw_clock w"
  by (simp_all add: set_phase_def)

lemma read_clock_simps [simp]:
  "pw_repository (read_clock i now w) = pw_repository w" "pw_calls (read_clock i now w) = pw_calls w"
  "pw_sends (read_clock i now w) = pw_sends w" "pw_clock (read_clock i now w) = pw_clock w @ [(i, now)]"
  by (simp_all add: read_clock_def)

lemma add_sends_simps [simp]:
  "pw_repository (add_sends i ctx p ds w) = pw_repository w" "pw_calls (add_sends i ctx p ds w) = pw_calls w"
  "pw_clock (add_sends i ctx p ds w) = pw_clock w"
  by (simp_all add: add_sends_def)

lemma start_claimed_simps [simp]:
  "pw_repository (start_claimed i w) = pw_repository w" "pw_calls (start_claimed i w) = pw_calls w"
  "pw_clock (start_claimed i w) = pw_clock w"
  by (simp_all add: start_claimed_def)

lemma open_call_simps [simp]:
  "pw_repository (open_call st w) = pw_repository w" "pw_calls (open_call st w) = pw_calls w @ [st]"
  "pw_clock (open_call st w) = pw_clock w" "pw_sends (open_call st w) = pw_sends w"
  by (simp_all add: open_call_def)

lemma send_ok_mono: "send_ok n clock x \<Longrightarrow> n \<le> m \<Longrightarrow> clock \<subseteq> clock' \<Longrightarrow> send_ok m clock' x"
  by (auto simp: send_ok_def)

lemma stage_ok_clock: "stage_ok clock sends i stage \<Longrightarrow> clock \<subseteq> clock' \<Longrightarrow> stage_ok clock' sends i stage"
  by (cases stage) (auto split: if_splits)

text \<open>Stages look at the sends only through their call and destination.\<close>

lemma stage_ok_sends:
  assumes "stage_ok clock sends i stage"
    and "\<forall>x \<in> set sends'. sd_call x = i \<longrightarrow>
      (\<exists>y \<in> set sends. sd_call y = i \<and> dd_delivery_id (sd_destination y) = dd_delivery_id (sd_destination x))"
  shows "stage_ok clock sends' i stage"
proof -
  have none: "unsent i sends \<Longrightarrow> unsent i sends'" using assms(2) unfolding unsent_def by blast
  have "dd_delivery_id (sd_destination x) \<notin> A" if "x \<in> set sends'" "sd_call x = i"
    "\<forall>x \<in> set sends. sd_call x = i \<longrightarrow> dd_delivery_id (sd_destination x) \<notin> A" for x A
    using assms(2) that by metis
  with assms(1) none show ?thesis by (cases stage) auto
qed

lemma set_stage_core: "proactive_core w \<Longrightarrow> stage_ok (set (pw_clock w)) (pw_sends w) i st \<Longrightarrow> proactive_core (set_stage i st w)"
  unfolding proactive_core_def by (simp, metis nth_list_update_eq nth_list_update_neq)

lemma read_clock_core: "proactive_core w \<Longrightarrow> proactive_core (read_clock i now w)"
  by (auto simp: proactive_core_def intro: send_ok_mono stage_ok_clock)

lemma open_call_core:
  assumes "proactive_core w" and "unsent (length (pw_calls w)) (pw_sends w) \<Longrightarrow>
    stage_ok (set (pw_clock w)) (pw_sends w) (length (pw_calls w)) st"
  shows "proactive_core (open_call st w)"
proof -
  have "unsent (length (pw_calls w)) (pw_sends w)"
    using assms(1) by (auto simp: proactive_core_def unsent_def send_ok_def)
  with assms show ?thesis
    by (auto simp: proactive_core_def less_Suc_eq nth_append intro: send_ok_mono)
qed

lemma destination_kept:
  assumes "stage_ok clock sends i stage" and "map sd_call sends' = map sd_call sends"
    and "map sd_destination sends' = map sd_destination sends"
  shows "stage_ok clock sends' i stage"
proof (rule stage_ok_sends [OF assms(1)], intro ballI impI)
  fix x assume "x \<in> set sends'" and i: "sd_call x = i"
  then obtain k where k: "k < length sends'" "sends' ! k = x" by (auto simp: in_set_conv_nth)
  moreover have "length sends' = length sends" using assms(2) map_eq_imp_length_eq by blast
  moreover have "sd_call (sends' ! k) = sd_call (sends ! k)" "sd_destination (sends' ! k) = sd_destination (sends ! k)"
    using arg_cong [OF assms(2), of "\<lambda>l. l ! k"] arg_cong [OF assms(3), of "\<lambda>l. l ! k"] k(1) calculation(3) by simp_all
  ultimately show "\<exists>y \<in> set sends. sd_call y = i \<and> dd_delivery_id (sd_destination y) = dd_delivery_id (sd_destination x)"
    using i by (intro bexI [of _ "sends ! k"]) auto
qed

text \<open>A change of phase that stores nothing.\<close>

lemma map_sends_core:
  assumes core: "proactive_core w"
    and views: "map send_view sends' = map send_view (pw_sends w)"
    and calls: "map sd_call sends' = map sd_call (pw_sends w)"
    and ok: "\<forall>x \<in> set sends'. send_ok (length (pw_calls w)) (set (pw_clock w)) x"
  shows "proactive_core (w\<lparr>pw_sends := sends'\<rparr>)"
proof -
  have "map (\<lambda>v. fst (snd v)) (map send_view sends') = map (\<lambda>v. fst (snd v)) (map send_view (pw_sends w))"
    unfolding views ..
  then have "map sd_destination sends' = map sd_destination (pw_sends w)" by (simp add: send_view_def comp_def)
  then have "\<forall>i < length (pw_calls w). stage_ok (set (pw_clock w)) sends' i (pw_calls w ! i)"
    using core destination_kept [OF _ calls] unfolding proactive_core_def by blast
  then show ?thesis using core views ok by (simp add: proactive_core_def)
qed

lemma set_phase_core:
  assumes "proactive_core w" and "k < length (pw_sends w)"
    and "stored_state (sd_phase (pw_sends w ! k)) = None" and "stored_state p = None"
    and "storing_ok (sd_destination (pw_sends w ! k)) p"
  shows "proactive_core (set_phase k p w)"
  unfolding set_phase_def
proof (rule map_sends_core [OF assms(1)])
  have same: "send_view ((pw_sends w ! k)\<lparr>sd_phase := p\<rparr>) = send_view (pw_sends w ! k)"
    using assms(3,4) by (simp add: send_view_def send_key_def)
  show "map send_view ((pw_sends w)[k := (pw_sends w ! k)\<lparr>sd_phase := p\<rparr>]) = map send_view (pw_sends w)"
    unfolding map_update same using assms(2) by (simp add: list_update_same_conv)
  show "map sd_call ((pw_sends w)[k := (pw_sends w ! k)\<lparr>sd_phase := p\<rparr>]) = map sd_call (pw_sends w)"
    using assms(2) by (simp add: map_update list_update_same_conv)
  have "send_ok (length (pw_calls w)) (set (pw_clock w)) (pw_sends w ! k)"
    using assms(1,2) by (simp add: proactive_core_def)
  then have "send_ok (length (pw_calls w)) (set (pw_clock w)) ((pw_sends w ! k)\<lparr>sd_phase := p\<rparr>)"
    using assms(5) by (simp add: send_ok_def)
  then show "\<forall>x \<in> set ((pw_sends w)[k := (pw_sends w ! k)\<lparr>sd_phase := p\<rparr>]).
      send_ok (length (pw_calls w)) (set (pw_clock w)) x"
    using assms(1) set_update_subset_insert [of "pw_sends w" k] unfolding proactive_core_def by blast
qed

lemma start_claimed_core:
  assumes "proactive_core w"
  shows "proactive_core (start_claimed i w)"
  unfolding start_claimed_def
proof (rule map_sends_core [OF assms])
  let ?f = "\<lambda>x. if sd_call x = i \<and> sd_phase x = Claimed then x\<lparr>sd_phase := Queued\<rparr> else x"
  have f: "send_view (?f x) = send_view x" "sd_call (?f x) = sd_call x" "send_ok n c x \<Longrightarrow> send_ok n c (?f x)" for x n c
    by (auto simp: send_view_def send_key_def send_ok_def)
  show "map send_view (map ?f (pw_sends w)) = map send_view (pw_sends w)" by (simp add: f(1) del: if_split)
  show "map sd_call (map ?f (pw_sends w)) = map sd_call (pw_sends w)" by (simp add: f(2) del: if_split)
  show "\<forall>x \<in> set (map ?f (pw_sends w)). send_ok (length (pw_calls w)) (set (pw_clock w)) x"
    using assms f(3) unfolding proactive_core_def set_map by blast
qed

section \<open>Steps that write the repository\<close>

lemma store_core:
  assumes core: "proactive_core w" and k: "k < length (pw_sends w)"
    and phase: "sd_phase (pw_sends w ! k) = Storing replacement cancelled"
    and update: "update_delivery_destination (sx_submission_id (sd_context (pw_sends w ! k)))
      (dd_delivery_id (sd_destination (pw_sends w ! k))) SUB_IN_FLIGHT replacement (pw_repository w) = (Inr y, r)"
  shows "proactive_core (set_phase k (Stored (dd_state replacement) cancelled) (w\<lparr>pw_repository := r\<rparr>))"
proof -
  let ?x = "pw_sends w ! k" and ?vs = "map send_view (pw_sends w)"
  let ?x' = "?x\<lparr>sd_phase := Stored (dd_state replacement) cancelled\<rparr>"
  let ?key = "send_key ?x" and ?sends = "(pw_sends w)[k := ?x']"
  have inv: "submission_inv (pw_repository w)" and keys: "keys_ok (pw_repository w) ?vs"
    and ok: "send_ok (length (pw_calls w)) (set (pw_clock w)) ?x" using core k by (auto simp: proactive_core_def)
  have at: "destination_at r = (destination_at (pw_repository w))(?key := Some replacement)"
    using update_destination_at(2) [OF inv update] by (simp add: send_key_def)
  have view: "?vs ! k = (?key, sd_destination ?x, None)" using k phase by (simp add: send_view_def)
  have old: "key_ok (views_at ?key ?vs) (destination_at (pw_repository w) ?key)" using keys by (simp add: keys_ok_def)
  note last = unstored_last(1,3) [OF _ view old, where p = "Some (dd_state replacement)"]
  have views: "map send_view ?sends = ?vs[k := (?key, sd_destination ?x, Some (dd_state replacement))]"
    by (simp add: map_update send_view_def send_key_def)
  have "keys_ok r (map send_view ?sends)"
    unfolding keys_ok_def
  proof
    fix key
    show "key_ok (views_at key (map send_view ?sends)) (destination_at r key)"
    proof (cases "key = ?key")
      case True
      have "owns (?key, sd_destination ?x, Some (dd_state replacement)) replacement"
        using ok phase by (simp add: send_ok_def)
      then have "key_ok (butlast (views_at ?key ?vs) @ [(?key, sd_destination ?x, Some (dd_state replacement))]) (Some replacement)"
        using old by (intro key_ok_snoc) (simp_all add: key_ok_def)
      then show ?thesis using True last(1) k by (simp add: views at)
    next
      case False
      then show ?thesis using keys last(2) [OF _ False] k by (simp add: keys_ok_def views at)
    qed
  qed
  moreover have "map sd_call ?sends = map sd_call (pw_sends w)" "map sd_destination ?sends = map sd_destination (pw_sends w)"
    using k by (simp_all add: map_update list_update_same_conv)
  then have "\<forall>i < length (pw_calls w). stage_ok (set (pw_clock w)) ?sends i (pw_calls w ! i)"
    using core destination_kept unfolding proactive_core_def by blast
  moreover have "send_ok (length (pw_calls w)) (set (pw_clock w)) ?x'" using ok by (simp add: send_ok_def)
  then have "\<forall>x \<in> set ?sends. send_ok (length (pw_calls w)) (set (pw_clock w)) x"
    using core set_update_subset_insert [of "pw_sends w" k] unfolding proactive_core_def by blast
  ultimately show ?thesis
    using core update_inv [OF inv update] unfolding proactive_core_def set_phase_def by simp
qed

text \<open>New sends of one call, for destinations whose record it has just written as in flight.\<close>

definition new_views :: "submit_context \<Rightarrow> destination_delivery_record list \<Rightarrow> send_view list" where
  "new_views ctx ds = map (\<lambda>d. ((sx_submission_id ctx, dd_delivery_id d), d, None)) ds"

lemma views_at_new:
  assumes "distinct (map dd_delivery_id ds)"
  shows "d \<in> set ds \<Longrightarrow> views_at (sx_submission_id ctx, dd_delivery_id d) (new_views ctx ds) =
      [((sx_submission_id ctx, dd_delivery_id d), d, None)]"
    and "key \<notin> (\<lambda>d. (sx_submission_id ctx, dd_delivery_id d)) ` set ds \<Longrightarrow> views_at key (new_views ctx ds) = []"
  using assms by (induction ds) (auto simp: views_at_def new_views_def filter_empty_conv rev_image_eqI)

lemma add_sends_core:
  assumes core: "proactive_core w" and i: "i < length (pw_calls w)" and inv: "submission_inv r"
    and distinct: "distinct (map dd_delivery_id ds)" and p: "p = Claimed \<or> p = Queued"
    and new: "\<forall>d \<in> set ds. destination_at r (sx_submission_id ctx, dd_delivery_id d) = Some d \<and> dd_state d = SUB_IN_FLIGHT \<and>
      (i, dd_updated_at d) \<in> set (pw_clock w) \<and>
      (\<forall>v \<in> set (views_at (sx_submission_id ctx, dd_delivery_id d) (map send_view (pw_sends w))). snd (snd v) = Some SUB_RETRYABLE)"
    and others: "\<And>key. key \<notin> (\<lambda>d. (sx_submission_id ctx, dd_delivery_id d)) ` set ds \<Longrightarrow>
      key_ok (views_at key (map send_view (pw_sends w))) (destination_at r key)"
    and stage: "stage_ok (set (pw_clock w)) (pw_sends (add_sends i ctx p ds w)) i st"
  shows "proactive_core (set_stage i st (add_sends i ctx p ds (w\<lparr>pw_repository := r\<rparr>)))"
proof -
  let ?new = "map (\<lambda>d. \<lparr>sd_call = i, sd_context = ctx, sd_destination = d, sd_phase = p\<rparr>) ds"
  have views: "map send_view ?new = new_views ctx ds"
    using p by (auto simp: new_views_def send_view_def send_key_def)
  have "keys_ok r (map send_view (pw_sends w @ ?new))"
    unfolding keys_ok_def
  proof
    fix key
    show "key_ok (views_at key (map send_view (pw_sends w @ ?new))) (destination_at r key)"
    proof (cases "key \<in> (\<lambda>d. (sx_submission_id ctx, dd_delivery_id d)) ` set ds")
      case True
      then obtain d where d: "d \<in> set ds" "key = (sx_submission_id ctx, dd_delivery_id d)" by auto
      with new have "key_ok (views_at key (map send_view (pw_sends w)) @ [(key, d, None)]) (Some d)"
        by (intro key_ok_snoc) auto
      then show ?thesis
        using new d views_at_new(1) [OF distinct d(1), of ctx] by (simp add: views del: map_map)
    next
      case False
      then show ?thesis using others views_at_new(2) [OF distinct False] by (simp add: views del: map_map)
    qed
  qed
  moreover have "\<forall>x \<in> set (pw_sends w @ ?new). send_ok (length (pw_calls w)) (set (pw_clock w)) x"
    using core i new p by (auto simp: proactive_core_def send_ok_def)
  moreover have "stage_ok (set (pw_clock w)) (pw_sends w @ ?new) j ((pw_calls w)[i := st] ! j)"
    if "j < length (pw_calls w)" for j
  proof (cases "j = i")
    case True
    then show ?thesis using stage i by (simp add: add_sends_def)
  next
    case False
    have "stage_ok (set (pw_clock w)) (pw_sends w) j (pw_calls w ! j)" using core that by (simp add: proactive_core_def)
    then have "stage_ok (set (pw_clock w)) (pw_sends w @ ?new) j (pw_calls w ! j)"
      by (rule stage_ok_sends) (use False in auto)
    then show ?thesis using False by simp
  qed
  ultimately show ?thesis
    using inv by (simp add: proactive_core_def add_sends_def set_stage_def del: map_append)
qed

section \<open>The pieces keep the invariant\<close>

lemma stage_at:
  assumes "proactive_core w" and "stage_of w i = Some stage"
  shows "i < length (pw_calls w)" and "stage_ok (set (pw_clock w)) (pw_sends w) i stage"
  using assms by (auto simp: stage_of_def proactive_core_def split: if_splits)

lemma key_ok_retryable:
  assumes "key_ok xs (Some d)" and "dd_state d = SUB_RETRYABLE" and "v \<in> set xs"
  shows "snd (snd v) = Some SUB_RETRYABLE"
proof -
  obtain ys u where xs: "xs = ys @ [u]" using assms(3) by (cases xs rule: rev_cases) auto
  have "snd (snd u) = Some SUB_RETRYABLE"
    using assms(1,2) xs by (cases u; cases "snd (snd u)") (auto simp: key_ok_def)
  then show ?thesis using assms(1,3) xs by (auto simp: key_ok_def)
qed

lemma key_ok_owner:
  assumes "keys_ok r (map send_view sends)" and "destination_at r key = Some d" and "dd_state d = SUB_IN_FLIGHT"
  shows "\<exists>x \<in> set sends. send_key x = key \<and> sd_destination x = d"
proof -
  let ?xs = "views_at key (map send_view sends)"
  have "key_ok ?xs (Some d)" using assms(1,2) unfolding keys_ok_def by metis
  with assms(3) have last: "?xs \<noteq> []" "owns (last ?xs) d" by (auto simp: key_ok_def)
  then have "last ?xs \<in> set ?xs" by simp
  then obtain x where "x \<in> set sends" "last ?xs = send_view x" "send_key x = key"
    by (auto simp: views_at_def send_view_def)
  with last(2) assms(3) show ?thesis by (cases "stored_state (sd_phase x)") (auto simp: send_view_def)
qed

text \<open>Only another call with the same clock reading could have written the record that a call is about to claim.\<close>

lemma claim_is_new:
  assumes core: "proactive_core w" and clock: "clock_distinct w"
    and ok: "stage_ok (set (pw_clock w)) (pw_sends w) i (Claiming ctx existing now (destination # rest))"
    and at: "destination_at (pw_repository w) (sx_submission_id ctx, dd_delivery_id destination) = Some (claimed_record now destination)"
  shows False
proof -
  have "keys_ok (pw_repository w) (map send_view (pw_sends w))" using core by (simp add: proactive_core_def)
  from key_ok_owner [OF this at] obtain x where
    x: "x \<in> set (pw_sends w)" "sd_destination x = claimed_record now destination"
    by (auto simp: claimed_record_def)
  with core have "(sd_call x, now) \<in> set (pw_clock w)"
    by (auto simp: proactive_core_def send_ok_def claimed_record_def)
  with ok clock_owner [OF clock] have "sd_call x = i" by auto
  with ok x show False by (auto simp: claimed_record_def)
qed

lemma claim_won_core:
  assumes core: "proactive_core w" and clock: "clock_distinct w"
    and stage: "stage_of w i = Some (Claiming ctx existing now (destination # rest))"
    and update: "update_delivery_destination (sr_submission_id existing) (dd_delivery_id destination) SUB_RETRYABLE
      (claimed_record now destination) (pw_repository w) = (Inr updated, r)"
  shows "proactive_core (set_stage i (Claiming ctx existing now rest)
    (add_sends i ctx Claimed [claimed_record now destination] (w\<lparr>pw_repository := r\<rparr>)))"
proof -
  note ok = stage_at(2) [OF core stage]
  have inv: "submission_inv (pw_repository w)" and keys: "keys_ok (pw_repository w) (map send_view (pw_sends w))"
    using core by (auto simp: proactive_core_def)
  let ?d = "claimed_record now destination" and ?key = "(sx_submission_id ctx, dd_delivery_id destination)"
  have id: "dd_delivery_id ?d = dd_delivery_id destination" by (simp add: claimed_record_def)
  have "sr_submission_id existing = sx_submission_id ctx" using ok by simp
  note at = update_destination_at [OF inv update [unfolded this]]
  obtain cur where cur: "destination_at (pw_repository w) ?key = Some cur" "dd_state cur = SUB_RETRYABLE"
    using at(1) claim_is_new [OF core clock ok] by auto
  have "key_ok (views_at ?key (map send_view (pw_sends w))) (Some cur)" using keys cur(1) unfolding keys_ok_def by metis
  note retryable = key_ok_retryable [OF this cur(2)]
  have "dd_state ?d = SUB_IN_FLIGHT" "dd_updated_at ?d = now" by (simp_all add: claimed_record_def)
  moreover have "(i, now) \<in> set (pw_clock w)" using ok by simp
  moreover have "stage_ok (set (pw_clock w)) (pw_sends (add_sends i ctx Claimed [?d] w)) i (Claiming ctx existing now rest)"
    using ok by (auto simp: add_sends_def id)
  ultimately show ?thesis
    using retryable at(2) keys
    by (intro add_sends_core [OF core stage_at(1) [OF core stage] update_inv [OF inv update]]) (auto simp: id keys_ok_def)
qed

lemma claim_next_core:
  assumes core: "proactive_core w" and clock: "clock_distinct w"
    and stage: "stage_of w i = Some (Claiming ctx existing now (destination # rest))"
  shows "proactive_core (claim_next i ctx existing now destination rest w)"
proof -
  have skip: "proactive_core (set_stage i (Claiming ctx existing now rest) w)"
    using core stage_at(2) [OF core stage] by (intro set_stage_core) auto
  obtain res r where update: "update_delivery_destination (sr_submission_id existing) (dd_delivery_id destination) SUB_RETRYABLE
      (claimed_record now destination) (pw_repository w) = (res, r)" by fastforce
  show ?thesis
  proof (cases res)
    case (Inl e)
    with update have "r = pw_repository w" by (simp add: update_failed)
    then show ?thesis
      using update Inl skip set_stage_core [OF core, of i "Returned (Inl e)"] by (simp add: claim_next_def)
  next
    case (Inr updated)
    then show ?thesis
      using update skip claim_won_core [OF core clock stage] by (simp add: claim_next_def)
  qed
qed

lemma destination_at_reserved:
  assumes "reserve_delivery_submission x r = (Inr v, r')" and "rv_acquired v"
  shows "destination_at r' key = (if fst key = sr_submission_id x then find_destination (snd key) (sr_destinations x)
      else destination_at r key)"
    and "fst key = sr_submission_id x \<Longrightarrow> destination_at r key = None"
  using reserve_ok [OF assms(1)] assms(2) by (auto simp: destination_at_def)

lemma reserved_distinct:
  assumes "reserve_delivery_submission x r = (Inr v, r')" and "rv_acquired v"
  shows "distinct (map dd_delivery_id (sr_destinations x))" and "rv_record v = x"
  using reserve_ok(3) [OF assms] validate_destinations_distinct [of "{}" "sr_destinations x"]
  by (auto simp: validate_delivery_submission_record_def)

lemma reserve_won_core:
  assumes core: "proactive_core w" and stage: "stage_of w i = Some (Reserving ctx rec rejection)"
    and reserve: "reserve_delivery_submission rec (pw_repository w) = (Inr v, r)" and acquired: "rv_acquired v"
    and st: "stage_ok (set (pw_clock w)) (pw_sends (add_sends i ctx Queued ds w)) i st"
    and ds: "ds = (if rejection = None then sr_destinations rec else [])"
  shows "proactive_core (set_stage i st (add_sends i ctx Queued ds (w\<lparr>pw_repository := r\<rparr>)))"
proof -
  note ok = stage_at(2) [OF core stage] and at = destination_at_reserved [OF reserve acquired]
  have inv: "submission_inv (pw_repository w)" and keys: "keys_ok (pw_repository w) (map send_view (pw_sends w))"
    using core by (auto simp: proactive_core_def)
  have distinct: "distinct (map dd_delivery_id (sr_destinations rec))" using reserved_distinct [OF reserve acquired] by simp
  have id: "sr_submission_id rec = sx_submission_id ctx" using ok by simp
  have none: "views_at key (map send_view (pw_sends w)) = []" if "fst key = sx_submission_id ctx" for key
    using keys at(2) [of key] that id unfolding keys_ok_def key_ok_def by (metis option.distinct(1))
  show ?thesis
  proof (rule add_sends_core [OF core stage_at(1) [OF core stage] reserve_inv [OF inv reserve] _ _ _ _ st])
    show "distinct (map dd_delivery_id ds)" using distinct by (simp add: ds)
    show "\<forall>d \<in> set ds. destination_at r (sx_submission_id ctx, dd_delivery_id d) = Some d \<and> dd_state d = SUB_IN_FLIGHT \<and>
        (i, dd_updated_at d) \<in> set (pw_clock w) \<and>
        (\<forall>v \<in> set (views_at (sx_submission_id ctx, dd_delivery_id d) (map send_view (pw_sends w))). snd (snd v) = Some SUB_RETRYABLE)"
      using ok none find_destination_distinct [OF distinct] by (auto simp: at(1) ds split: if_splits)
    show "key_ok (views_at key (map send_view (pw_sends w))) (destination_at r key)"
      if other: "key \<notin> (\<lambda>d. (sx_submission_id ctx, dd_delivery_id d)) ` set ds" for key
    proof (cases "fst key = sx_submission_id ctx")
      case False
      then show ?thesis using keys id by (simp add: at(1) keys_ok_def)
    next
      case True
      have "dd_state d \<noteq> SUB_IN_FLIGHT" if "find_destination (snd key) (sr_destinations rec) = Some d" for d
        using find_destination_id [OF that] other True ok by (cases key) (auto simp: ds split: if_splits)
      then show ?thesis using none [OF True] True id by (auto simp: at(1) key_ok_def)
    qed
  qed simp
qed

lemma reserve_submission_core:
  assumes core: "proactive_core w" and stage: "stage_of w i = Some (Reserving ctx rec rejection)"
  shows "proactive_core (reserve_submission i ctx rec rejection w)"
proof -
  obtain res r where reserve: "reserve_delivery_submission rec (pw_repository w) = (res, r)" by fastforce
  show ?thesis
  proof (cases res)
    case (Inl e)
    with reserve have "r = pw_repository w" by (simp add: reserve_failed)
    then show ?thesis using reserve Inl set_stage_core [OF core, of i] by (simp add: reserve_submission_def)
  next
    case (Inr v)
    note reserve = reserve [unfolded Inr]
    show ?thesis
    proof (cases "rv_acquired v")
      case True
      note won = reserve_won_core [OF core stage reserve True, OF _ refl]
      show ?thesis
        using won [of "Sending ctx False"] won [of "Returned (reserved_result ctx rec rejection v)"]
          reserved_distinct(2) [OF reserve True] reserve True
        by (cases rejection) (simp_all add: reserve_submission_def add_sends_def)
    next
      case False
      then have "r = pw_repository w" using reserve_ok(2) [OF reserve] by simp
      then show ?thesis using reserve False set_stage_core [OF core, of i] by (simp add: reserve_submission_def)
    qed
  qed
qed

lemma prepared_states:
  assumes "prepare_submission env ctx now snapshots = Inr (rec, rejection)"
  shows "sr_submission_id rec = sx_submission_id ctx"
    and "d \<in> set (sr_destinations rec) \<Longrightarrow>
      if rejection = None then dd_state d = SUB_IN_FLIGHT \<and> dd_updated_at d = now else dd_state d \<noteq> SUB_IN_FLIGHT"
proof -
  obtain payload ds where built: "rec = submission_record env ctx payload now ds"
    and ds: "rejection = None \<and> (\<exists>ids. ds = map (in_flight_record now) (zip ids snapshots)) \<or>
      (\<exists>y err ids. rejection = Some y \<and>
        ds = map (rejected_record now) (zip (map (rejected_destination (sx_intent ctx) err) (zip ids snapshots)) snapshots))"
    using assms by (force simp: prepare_submission_def preflight_rejection_def split: option.splits)
  show "sr_submission_id rec = sx_submission_id ctx" by (simp add: built submission_record_def)
  have rejected: "dd_state (rejected_record now x) = dx_state (fst x)" for x by (cases x) (simp add: rejected_record_def)
  have in_flight: "dd_state (in_flight_record now x) = SUB_IN_FLIGHT" "dd_updated_at (in_flight_record now x) = now" for x
    by (cases x, simp add: in_flight_record_def)+
  have skipped: "dx_state (rejected_destination intent err x) = SUB_REJECTED" for intent err x
    by (cases x) (simp add: rejected_destination_def)
  show "if rejection = None then dd_state d = SUB_IN_FLIGHT \<and> dd_updated_at d = now else dd_state d \<noteq> SUB_IN_FLIGHT"
    if "d \<in> set (sr_destinations rec)"
    using ds that by (auto simp: built submission_record_def rejected in_flight skipped dest!: set_zip_leftD)
qed

lemma read_existing_core:
  assumes core: "proactive_core w" and stage: "stage_of w i = Some (Reading ctx)"
  shows "proactive_core (read_existing env i ctx now w)"
proof (cases "get_delivery_submission (sx_submission_id ctx) (pw_repository w)")
  case None
  then show ?thesis
    using set_stage_core [OF core, of i] stage_at(2) [OF core stage]
    by (auto simp: read_existing_def split: option.splits)
next
  case (Some existing)
  have inv: "submission_inv (pw_repository w)" using core by (simp add: proactive_core_def)
  note found = submission_inv_distinct [OF inv Some [unfolded get_delivery_submission_def]]
  have "proactive_core (set_stage i (Claiming ctx existing now (sr_destinations existing)) (read_clock i now w))"
    using found stage_at(2) [OF core stage] by (intro set_stage_core read_clock_core [OF core]) (auto simp: unsent_def)
  then show ?thesis
    using Some set_stage_core [OF core, of i] by (auto simp: read_existing_def split: option.splits)
qed

lemma resolved_core:
  assumes core: "proactive_core w" and prepared: "prepare_submission env ctx now snapshots = Inr (rec, rejection)"
  shows "proactive_core (set_stage i (Reserving ctx rec rejection) (read_clock i now w))"
  using prepared_states [OF prepared] by (intro set_stage_core read_clock_core [OF core]) (auto split: if_splits)

lemma classified_state: "classify_delivery contents result = (receipt, state, code) \<Longrightarrow> state \<noteq> SUB_IN_FLIGHT"
  by (auto simp: classify_delivery_def Let_def state_from_receipt_def
      split: sum.splits option.splits prod.splits delivery_receipt_status.splits if_splits elim!: failed_delivery.elims)

lemma call_step_core:
  assumes core: "proactive_core w" and clock: "clock_distinct w" and stage: "stage_of w i = Some stage"
  shows "lookup_step env i stage w = Some w' \<Longrightarrow> proactive_core w'"
    and "authenticated_step env p i stage w = Some w' \<Longrightarrow> proactive_core w'"
    and "read_step env now i stage w = Some w' \<Longrightarrow> proactive_core w'"
    and "resolved_step env routes now i stage w = Some w' \<Longrightarrow> proactive_core w'"
    and "reserved_step i stage w = Some w' \<Longrightarrow> proactive_core w'"
    and "claim_step i stage w = Some w' \<Longrightarrow> proactive_core w'"
    and "sends_done_step i stage w = Some w' \<Longrightarrow> proactive_core w'"
    and "final_read_step i stage w = Some w' \<Longrightarrow> proactive_core w'"
    and "abort_step e i stage w = Some w' \<Longrightarrow> proactive_core w'"
proof -
  note ok = stage_at(2) [OF core stage] and set_stage = set_stage_core [OF core, of i]
  show "lookup_step env i stage w = Some w' \<Longrightarrow> proactive_core w'"
    using ok set_stage by (auto simp: lookup_step_def split: call_stage.splits sum.splits option.splits if_splits)
  show "authenticated_step env p i stage w = Some w' \<Longrightarrow> proactive_core w'"
    using ok set_stage by (auto simp: authenticated_step_def split: call_stage.splits sum.splits)
  show "read_step env now i stage w = Some w' \<Longrightarrow> proactive_core w'"
    using stage read_existing_core [OF core] by (auto simp: read_step_def split: call_stage.splits)
  show "resolved_step env routes now i stage w = Some w' \<Longrightarrow> proactive_core w'"
    using set_stage resolved_core [OF core]
    by (fastforce simp: resolved_step_def resolve_and_prepare_def split: call_stage.splits sum.splits)
  show "reserved_step i stage w = Some w' \<Longrightarrow> proactive_core w'"
    using stage reserve_submission_core [OF core] by (auto simp: reserved_step_def split: call_stage.splits)
  show "claim_step i stage w = Some w' \<Longrightarrow> proactive_core w'"
    using stage claim_next_core [OF core clock] set_stage_core [OF start_claimed_core [OF core], of i]
    by (auto simp: claim_step_def split: call_stage.splits list.splits)
  show "sends_done_step i stage w = Some w' \<Longrightarrow> proactive_core w'"
    using set_stage by (auto simp: sends_done_step_def split: call_stage.splits if_splits)
  show "final_read_step i stage w = Some w' \<Longrightarrow> proactive_core w'"
    using set_stage by (auto simp: final_read_step_def split: call_stage.splits)
  show "abort_step e i stage w = Some w' \<Longrightarrow> proactive_core w'"
    using set_stage by (auto simp: abort_step_def split: call_stage.splits)
qed

lemma send_step_core:
  assumes core: "proactive_core w" and "send_of w k = Some x"
  shows "send_begin_step env k x w = Some w' \<Longrightarrow> proactive_core w'"
    and "send_returned_step result now k x w = Some w' \<Longrightarrow> proactive_core w'"
    and "send_stored_step k x w = Some w' \<Longrightarrow> proactive_core w'"
    and "send_aborted_step k x w = Some w' \<Longrightarrow> proactive_core w'"
proof -
  have k: "k < length (pw_sends w)" and x: "pw_sends w ! k = x" using assms(2) by (auto simp: send_of_def split: if_splits)
  note phase = set_phase_core [OF core k, unfolded x]
  show "send_begin_step env k x w = Some w' \<Longrightarrow> proactive_core w'"
    using phase by (auto simp: send_begin_step_def split: if_splits)
  show "send_returned_step result now k x w = Some w' \<Longrightarrow> proactive_core w'"
    using phase classified_state
    by (auto simp: send_returned_step_def delivered_record_def split: if_splits prod.splits)
  show "send_aborted_step k x w = Some w' \<Longrightarrow> proactive_core w'"
    using phase by (auto simp: send_aborted_step_def split: send_phase.splits)
  show "proactive_core w'" if stored: "send_stored_step k x w = Some w'"
  proof -
    obtain replacement cancelled where p: "sd_phase x = Storing replacement cancelled"
      using stored by (auto simp: send_stored_step_def split: send_phase.splits)
    obtain res r where update: "update_delivery_destination (sx_submission_id (sd_context x))
        (dd_delivery_id (sd_destination x)) SUB_IN_FLIGHT replacement (pw_repository w) = (res, r)" by fastforce
    show ?thesis
    proof (cases res)
      case (Inl e)
      with update have "r = pw_repository w" by (simp add: update_failed)
      then show ?thesis using stored p update Inl phase [of Lost] by (simp add: send_stored_step_def)
    next
      case (Inr y)
      then show ?thesis
        using stored p update store_core [OF core k, unfolded x, OF p] by (simp add: send_stored_step_def)
    qed
  qed
qed

lemma on_call_Some: "on_call i f w = Some w' \<longleftrightarrow> (\<exists>stage. stage_of w i = Some stage \<and> f i stage w = Some w')"
  by (auto simp: on_call_def split: option.splits)

lemma on_send_Some: "on_send k f w = Some w' \<longleftrightarrow> (\<exists>x. send_of w k = Some x \<and> f k x w = Some w')"
  by (auto simp: on_send_def split: option.splits)

lemmas on_Some = on_call_Some on_send_Some

lemma proactive_step_core:
  assumes core: "proactive_core w" and clock: "clock_distinct w" and step: "proactive_exec env ev w = Some w'"
  shows "proactive_core w'"
proof -
  note calls = call_step_core [OF core clock] and sends = send_step_core [OF core] and opened = open_call_core [OF core]
  show ?thesis
    using step
  proof (cases ev)
    case (DeliverCalled intent)
    then show ?thesis using step opened by (auto split: sum.splits prod.splits)
  next
    case (DeliverInternalCalled message)
    then show ?thesis using step opened by (auto split: sum.splits)
  qed (use step calls sends in \<open>auto simp: on_Some\<close>)
qed

lemma pieces_clock:
  "pw_clock (claim_next i ctx existing now d rest w) = pw_clock w"
  "pw_clock (reserve_submission i ctx rec rejection w) = pw_clock w"
  "\<exists>readings. pw_clock (read_existing env i ctx now w) = pw_clock w @ readings"
  by (simp_all add: claim_next_def reserve_submission_def read_existing_def split: prod.splits sum.splits option.splits)

lemma call_step_clock:
  "lookup_step env i stage w = Some w' \<Longrightarrow> pw_clock w' = pw_clock w"
  "authenticated_step env p i stage w = Some w' \<Longrightarrow> pw_clock w' = pw_clock w"
  "read_step env now i stage w = Some w' \<Longrightarrow> \<exists>readings. pw_clock w' = pw_clock w @ readings"
  "resolved_step env routes now i stage w = Some w' \<Longrightarrow> \<exists>readings. pw_clock w' = pw_clock w @ readings"
  "reserved_step i stage w = Some w' \<Longrightarrow> pw_clock w' = pw_clock w"
  "claim_step i stage w = Some w' \<Longrightarrow> pw_clock w' = pw_clock w"
  "sends_done_step i stage w = Some w' \<Longrightarrow> pw_clock w' = pw_clock w"
  "final_read_step i stage w = Some w' \<Longrightarrow> pw_clock w' = pw_clock w"
  "abort_step e i stage w = Some w' \<Longrightarrow> pw_clock w' = pw_clock w"
proof -
  show "lookup_step env i stage w = Some w' \<Longrightarrow> pw_clock w' = pw_clock w"
    by (cases stage) (auto simp: lookup_step_def)
  show "authenticated_step env p i stage w = Some w' \<Longrightarrow> pw_clock w' = pw_clock w"
    by (cases stage) (auto simp: authenticated_step_def)
  show "read_step env now i stage w = Some w' \<Longrightarrow> \<exists>readings. pw_clock w' = pw_clock w @ readings"
    using pieces_clock(3) by (cases stage) (auto simp: read_step_def)
  show "resolved_step env routes now i stage w = Some w' \<Longrightarrow> \<exists>readings. pw_clock w' = pw_clock w @ readings"
    by (cases stage) (auto simp: resolved_step_def split: sum.splits)
  show "reserved_step i stage w = Some w' \<Longrightarrow> pw_clock w' = pw_clock w"
    by (cases stage) (auto simp: reserved_step_def pieces_clock)
  show "claim_step i stage w = Some w' \<Longrightarrow> pw_clock w' = pw_clock w"
    by (cases stage) (auto simp: claim_step_def pieces_clock split: list.splits)
  show "sends_done_step i stage w = Some w' \<Longrightarrow> pw_clock w' = pw_clock w"
    by (cases stage) (auto simp: sends_done_step_def split: if_splits)
  show "final_read_step i stage w = Some w' \<Longrightarrow> pw_clock w' = pw_clock w"
    by (cases stage) (auto simp: final_read_step_def)
  show "abort_step e i stage w = Some w' \<Longrightarrow> pw_clock w' = pw_clock w"
    by (cases stage) (auto simp: abort_step_def)
qed

lemma send_step_clock:
  "send_begin_step env k x w = Some w' \<Longrightarrow> pw_clock w' = pw_clock w"
  "send_returned_step result now k x w = Some w' \<Longrightarrow> pw_clock w' = pw_clock w"
  "send_stored_step k x w = Some w' \<Longrightarrow> pw_clock w' = pw_clock w"
  "send_aborted_step k x w = Some w' \<Longrightarrow> pw_clock w' = pw_clock w"
  by (cases "sd_phase x", auto simp: send_begin_step_def send_returned_step_def send_stored_step_def
      send_aborted_step_def split: if_splits prod.splits sum.splits)+

lemma clock_grows:
  assumes "proactive_exec env ev w = Some w'"
  shows "\<exists>readings. pw_clock w' = pw_clock w @ readings"
  using assms by (cases ev) (auto simp: on_Some dest!: call_step_clock send_step_clock)

interpretation proactive: event_system proactive_init "proactive_step env" "\<lambda>w. clock_distinct w \<longrightarrow> proactive_core w" for env
proof
  fix w assume init: "proactive_init w"
  then obtain n where "pw_repository w = \<lparr>sb_max_records = n, sb_records = []\<rparr>" "1 \<le> n"
    by (auto simp: proactive_init_def new_submission_repository_def split: if_splits) (metis linorder_not_less)
  then show "clock_distinct w \<longrightarrow> proactive_core w"
    using init
    by (simp add: proactive_init_def proactive_core_def keys_ok_def key_ok_def views_at_def destination_at_def submission_inv_def)
next
  fix w ev w'
  assume core: "clock_distinct w \<longrightarrow> proactive_core w" and step: "proactive_step env w ev w'"
  show "clock_distinct w' \<longrightarrow> proactive_core w'"
    using clock_grows [of env ev w w'] proactive_step_core [of w env ev w'] core step by (auto simp: proactive_step_def)
qed

end
