(* ===== verification/Proactive_Deliveries.thy ===== *)
theory Proactive_Deliveries
  imports Proactive_Guarantees
begin

text \<open>
  Properties of proactive delivery: a destination is sent again only after a stored retryable
  failure, a settled destination never changes, every send was authorized, and what happens when
  two calls read the same time from the clock.
\<close>

section \<open>Settled destinations\<close>

abbreviation settled :: "delivery_submission_state \<Rightarrow> bool" where
  "settled state \<equiv> state \<notin> {SUB_IN_FLIGHT, SUB_RETRYABLE}"

lemma update_keeps_settled:
  assumes "submission_inv r" and "update_delivery_destination s i e x r = (y, r')" and "\<not> settled e"
    and "destination_at r key = Some d" and "settled (dd_state d)"
  shows "destination_at r' key = Some d"
proof (cases y)
  case (Inl err)
  then show ?thesis using assms(2,4) update_failed by blast
next
  case (Inr rec)
  note at = update_destination_at [OF assms(1) assms(2) [unfolded Inr]]
  show ?thesis using at(1,2) assms(3-5) by (cases "key = (s, i)") auto
qed

lemma reserve_keeps:
  assumes "reserve_delivery_submission x r = (y, r')" and "destination_at r key = Some d"
  shows "destination_at r' key = Some d"
proof (cases y)
  case (Inl err)
  then show ?thesis using assms reserve_failed by blast
next
  case (Inr v)
  then show ?thesis
    using assms destination_at_reserved [of x r v r' key] reserve_ok(2) [of x r v r'] by (cases "rv_acquired v") auto
qed

definition repository_kept :: "submission_repository \<Rightarrow> submission_repository \<Rightarrow> bool" where
  "repository_kept r r' \<longleftrightarrow> submission_inv r \<longrightarrow> submission_inv r' \<and>
     (\<forall>key d. destination_at r key = Some d \<and> settled (dd_state d) \<longrightarrow> destination_at r' key = Some d)"

lemma kept_refl [simp]: "repository_kept r r"
  by (simp add: repository_kept_def)

lemma update_kept: "update_delivery_destination s i e x r = (y, r') \<Longrightarrow> \<not> settled e \<Longrightarrow> repository_kept r r'"
  unfolding repository_kept_def using update_keeps_settled update_inv by blast

lemma reserve_kept: "reserve_delivery_submission x r = (y, r') \<Longrightarrow> repository_kept r r'"
  unfolding repository_kept_def using reserve_keeps reserve_inv by blast

lemma pieces_kept:
  "repository_kept (pw_repository w) (pw_repository (claim_next i ctx existing now d rest w))"
  "repository_kept (pw_repository w) (pw_repository (reserve_submission i ctx rec rejection w))"
  "repository_kept (pw_repository w) (pw_repository (read_existing env i ctx now w))"
  by (auto simp: claim_next_def reserve_submission_def read_existing_def intro: update_kept reserve_kept
      split: prod.splits sum.splits option.splits)

lemma call_step_kept:
  "lookup_step env i stage w = Some w' \<Longrightarrow> repository_kept (pw_repository w) (pw_repository w')"
  "authenticated_step env p i stage w = Some w' \<Longrightarrow> repository_kept (pw_repository w) (pw_repository w')"
  "read_step env now i stage w = Some w' \<Longrightarrow> repository_kept (pw_repository w) (pw_repository w')"
  "resolved_step env routes now i stage w = Some w' \<Longrightarrow> repository_kept (pw_repository w) (pw_repository w')"
  "reserved_step i stage w = Some w' \<Longrightarrow> repository_kept (pw_repository w) (pw_repository w')"
  "claim_step i stage w = Some w' \<Longrightarrow> repository_kept (pw_repository w) (pw_repository w')"
  "sends_done_step i stage w = Some w' \<Longrightarrow> repository_kept (pw_repository w) (pw_repository w')"
  "final_read_step i stage w = Some w' \<Longrightarrow> repository_kept (pw_repository w) (pw_repository w')"
  "abort_step e i stage w = Some w' \<Longrightarrow> repository_kept (pw_repository w) (pw_repository w')"
proof -
  show "lookup_step env i stage w = Some w' \<Longrightarrow> repository_kept (pw_repository w) (pw_repository w')"
    by (cases stage) (auto simp: lookup_step_def)
  show "authenticated_step env p i stage w = Some w' \<Longrightarrow> repository_kept (pw_repository w) (pw_repository w')"
    by (cases stage) (auto simp: authenticated_step_def)
  show "read_step env now i stage w = Some w' \<Longrightarrow> repository_kept (pw_repository w) (pw_repository w')"
    by (cases stage) (auto simp: read_step_def pieces_kept)
  show "resolved_step env routes now i stage w = Some w' \<Longrightarrow> repository_kept (pw_repository w) (pw_repository w')"
    by (cases stage) (auto simp: resolved_step_def split: sum.splits)
  show "reserved_step i stage w = Some w' \<Longrightarrow> repository_kept (pw_repository w) (pw_repository w')"
    by (cases stage) (auto simp: reserved_step_def pieces_kept)
  show "claim_step i stage w = Some w' \<Longrightarrow> repository_kept (pw_repository w) (pw_repository w')"
    by (cases stage) (auto simp: claim_step_def pieces_kept split: list.splits)
  show "sends_done_step i stage w = Some w' \<Longrightarrow> repository_kept (pw_repository w) (pw_repository w')"
    by (cases stage) (auto simp: sends_done_step_def split: if_splits)
  show "final_read_step i stage w = Some w' \<Longrightarrow> repository_kept (pw_repository w) (pw_repository w')"
    by (cases stage) (auto simp: final_read_step_def)
  show "abort_step e i stage w = Some w' \<Longrightarrow> repository_kept (pw_repository w) (pw_repository w')"
    by (cases stage) (auto simp: abort_step_def)
qed

lemma send_step_kept:
  "send_begin_step env k x w = Some w' \<Longrightarrow> repository_kept (pw_repository w) (pw_repository w')"
  "send_returned_step result now k x w = Some w' \<Longrightarrow> repository_kept (pw_repository w) (pw_repository w')"
  "send_stored_step k x w = Some w' \<Longrightarrow> repository_kept (pw_repository w) (pw_repository w')"
  "send_aborted_step k x w = Some w' \<Longrightarrow> repository_kept (pw_repository w) (pw_repository w')"
  by (auto simp: send_begin_step_def send_returned_step_def send_stored_step_def
      send_aborted_step_def intro: update_kept split: if_splits prod.splits sum.splits send_phase.splits)

lemma step_kept: "proactive_step env w ev w' \<Longrightarrow> repository_kept (pw_repository w) (pw_repository w')"
  unfolding proactive_step_def using call_step_kept send_step_kept by (cases ev) (auto simp: on_Some)

lemma run_kept:
  assumes "event_run (proactive_step env) w evs w'"
  shows "repository_kept (pw_repository w) (pw_repository w')"
  using assms
proof (induction rule: event_run.induct)
  case (run_step s evs s' ev s'')
  then show ?case using step_kept [OF run_step.hyps(2)] unfolding repository_kept_def by metis
qed simp

lemma reachable_repository: "proactive_reachable env w \<Longrightarrow> submission_inv (pw_repository w)"
proof -
  assume "proactive_reachable env w"
  then obtain w0 evs n where run: "event_run (proactive_step env) w0 evs w" and new: "new_submission_repository n = Inr (pw_repository w0)"
    by (auto simp: proactive_reachable_def reachable_def proactive_init_def)
  from new have "submission_inv (pw_repository w0)"
    by (cases "pw_repository w0") (auto simp: new_submission_repository_def submission_inv_def split: if_splits)
  with run_kept [OF run] show ?thesis by (simp add: repository_kept_def)
qed

section \<open>Authorization\<close>

definition context_ok :: "submit_context \<Rightarrow> bool" where
  "context_ok ctx \<longleftrightarrow> validate_delivery_intent (sx_intent ctx) = None \<and>
     (sx_authorize ctx \<longrightarrow> validate_delivery_principal (sx_owner ctx) = None \<and>
        authorize_delivery_target (sx_owner ctx) (it_target (sx_intent ctx)) = None \<and>
        require_external_local_digests (sx_intent ctx) = None)"

fun stage_context :: "call_stage \<Rightarrow> submit_context option" where
  "stage_context (Reading ctx) = Some ctx"
| "stage_context (Resolving ctx) = Some ctx"
| "stage_context (Reserving ctx rec rejection) = Some ctx"
| "stage_context (Claiming ctx existing now remaining) = Some ctx"
| "stage_context (Sending ctx replayed) = Some ctx"
| "stage_context (Finishing ctx replayed) = Some ctx"
| "stage_context stage = None"

definition contexts_ok :: "proactive_world \<Rightarrow> bool" where
  "contexts_ok w \<longleftrightarrow> (\<forall>stage \<in> set (pw_calls w). \<forall>ctx. stage_context stage = Some ctx \<longrightarrow> context_ok ctx) \<and>
     (\<forall>x \<in> set (pw_sends w). context_ok (sd_context x))"

lemma begun_context_ok:
  "authorized_begin env intent p = Inr ctx \<Longrightarrow> context_ok ctx" "internal_begin env message = Inr ctx \<Longrightarrow> context_ok ctx"
  by (auto simp: authorized_begin_def internal_begin_def submit_begin_def context_ok_def)

lemma contexts_set_stage:
  assumes "contexts_ok w" and "\<forall>ctx. stage_context st = Some ctx \<longrightarrow> context_ok ctx"
  shows "contexts_ok (set_stage i st w)"
  using assms set_update_subset_insert [of "pw_calls w" i st] unfolding contexts_ok_def by (simp, blast)

lemma contexts_frame [simp]:
  "contexts_ok (w\<lparr>pw_repository := r\<rparr>) = contexts_ok w" "contexts_ok (read_clock i now w) = contexts_ok w"
  by (simp_all add: contexts_ok_def read_clock_def)

lemma contexts_add_sends: "contexts_ok w \<Longrightarrow> context_ok ctx \<Longrightarrow> contexts_ok (add_sends i ctx p ds w)"
  by (auto simp: contexts_ok_def add_sends_def)

lemma contexts_start_claimed: "contexts_ok w \<Longrightarrow> contexts_ok (start_claimed i w)"
  by (auto simp: contexts_ok_def start_claimed_def)

lemma contexts_set_phase: "contexts_ok w \<Longrightarrow> k < length (pw_sends w) \<Longrightarrow> contexts_ok (set_phase k p w)"
  using set_update_subset_insert [of "pw_sends w" k] unfolding contexts_ok_def set_phase_def by force

lemma contexts_open_call:
  "contexts_ok w \<Longrightarrow> \<forall>ctx. stage_context st = Some ctx \<longrightarrow> context_ok ctx \<Longrightarrow> contexts_ok (open_call st w)"
  by (auto simp: contexts_ok_def)

lemma contexts_pieces:
  assumes "contexts_ok w" and "context_ok ctx"
  shows "contexts_ok (claim_next i ctx existing now d rest w)" "contexts_ok (reserve_submission i ctx rec rejection w)"
    "contexts_ok (read_existing env i ctx now w)"
  using assms
  by (auto simp: claim_next_def reserve_submission_def read_existing_def intro!: contexts_set_stage contexts_add_sends
      split: prod.splits sum.splits option.splits)

lemma call_step_contexts:
  assumes ok: "contexts_ok w" and "stage_of w i = Some stage"
  shows "lookup_step env i stage w = Some w' \<Longrightarrow> contexts_ok w'"
    and "authenticated_step env p i stage w = Some w' \<Longrightarrow> contexts_ok w'"
    and "read_step env now i stage w = Some w' \<Longrightarrow> contexts_ok w'"
    and "resolved_step env routes now i stage w = Some w' \<Longrightarrow> contexts_ok w'"
    and "reserved_step i stage w = Some w' \<Longrightarrow> contexts_ok w'"
    and "claim_step i stage w = Some w' \<Longrightarrow> contexts_ok w'"
    and "sends_done_step i stage w = Some w' \<Longrightarrow> contexts_ok w'"
    and "final_read_step i stage w = Some w' \<Longrightarrow> contexts_ok w'"
    and "abort_step e i stage w = Some w' \<Longrightarrow> contexts_ok w'"
proof -
  have ctx: "\<forall>ctx. stage_context stage = Some ctx \<longrightarrow> context_ok ctx"
    using assms by (auto simp: contexts_ok_def stage_of_def split: if_splits)
  note set_stage = contexts_set_stage [OF ok, of _ i] and pieces = contexts_pieces [OF ok]
  show "lookup_step env i stage w = Some w' \<Longrightarrow> contexts_ok w'"
    using set_stage by (cases stage) (auto simp: lookup_step_def split: sum.splits option.splits if_splits)
  show "authenticated_step env p i stage w = Some w' \<Longrightarrow> contexts_ok w'"
    using set_stage begun_context_ok(1) by (cases stage) (auto simp: authenticated_step_def split: sum.splits)
  show "read_step env now i stage w = Some w' \<Longrightarrow> contexts_ok w'"
    using ctx pieces by (cases stage) (auto simp: read_step_def)
  show "resolved_step env routes now i stage w = Some w' \<Longrightarrow> contexts_ok w'"
    using ctx ok by (cases stage) (auto simp: resolved_step_def intro!: contexts_set_stage split: sum.splits)
  show "reserved_step i stage w = Some w' \<Longrightarrow> contexts_ok w'"
    using ctx pieces by (cases stage) (auto simp: reserved_step_def)
  show "claim_step i stage w = Some w' \<Longrightarrow> contexts_ok w'"
    using ctx pieces ok by (cases stage)
      (auto simp: claim_step_def intro!: contexts_set_stage contexts_start_claimed split: list.splits)
  show "sends_done_step i stage w = Some w' \<Longrightarrow> contexts_ok w'"
    using ctx set_stage by (cases stage) (auto simp: sends_done_step_def split: if_splits)
  show "final_read_step i stage w = Some w' \<Longrightarrow> contexts_ok w'"
    using set_stage by (cases stage) (auto simp: final_read_step_def)
  show "abort_step e i stage w = Some w' \<Longrightarrow> contexts_ok w'"
    using set_stage by (cases stage) (auto simp: abort_step_def)
qed

lemma send_step_contexts:
  assumes "contexts_ok w" and "send_of w k = Some x"
  shows "send_begin_step env k x w = Some w' \<Longrightarrow> contexts_ok w'"
    and "send_returned_step result now k x w = Some w' \<Longrightarrow> contexts_ok w'"
    and "send_stored_step k x w = Some w' \<Longrightarrow> contexts_ok w'"
    and "send_aborted_step k x w = Some w' \<Longrightarrow> contexts_ok w'"
  using assms
  by (auto simp: send_begin_step_def send_returned_step_def send_stored_step_def send_aborted_step_def send_of_def
      intro!: contexts_set_phase split: if_splits prod.splits sum.splits send_phase.splits)

interpretation contexts: event_system proactive_init "proactive_step env" contexts_ok for env
proof
  show "proactive_init w \<Longrightarrow> contexts_ok w" for w by (simp add: proactive_init_def contexts_ok_def)
next
  fix w ev w'
  assume ok: "contexts_ok w" and step: "proactive_step env w ev w'"
  note calls = call_step_contexts [OF ok] and sends = send_step_contexts [OF ok] and opened = contexts_open_call [OF ok]
  show "contexts_ok w'"
    using step unfolding proactive_step_def
  proof (cases ev)
    case (DeliverCalled intent)
    then show ?thesis using step opened by (auto simp: proactive_step_def split: sum.splits prod.splits)
  next
    case (DeliverInternalCalled message)
    then show ?thesis using step opened begun_context_ok(2) by (auto simp: proactive_step_def split: sum.splits)
  qed (use step calls sends in \<open>auto simp: on_Some proactive_step_def\<close>)
qed

section \<open>Properties\<close>

lemma earlier_in_butlast:
  assumes "i < j" and "j < length xs" and "P (xs ! i)" and "P (xs ! j)"
  shows "xs ! i \<in> set (butlast (filter P xs))"
proof -
  have split: "xs = take j xs @ xs ! j # drop (Suc j) xs" using assms(2) id_take_nth_drop by blast
  have "filter P xs = filter P (take j xs) @ xs ! j # filter P (drop (Suc j) xs)"
    by (subst split) (use assms(4) in simp)
  moreover have "xs ! i \<in> set (filter P (take j xs))"
    using assms(1-3) by (auto simp: in_set_conv_nth intro!: exI [of _ i])
  ultimately show ?thesis by (simp add: butlast_append)
qed

text \<open>
  C21: a destination is sent again only after a stored retryable failure. In every reachable state of
  any number of concurrent deliveries, retries, cancellations and failures, all sends of one
  destination of a submission but the last have ended and stored a retryable outcome; so no two
  sends of it are ever in progress together, and an accepted, rejected, partial or unknown outcome,
  or a send that was interrupted, is never followed by another send. The hypothesis is that no two
  calls read the same time from the clock when they claim.
\<close>

theorem resent_only_after_retryable:
  assumes "proactive_reachable env w" and "distinct (map snd (pw_clock w))"
    and "i < j" and "j < length (pw_sends w)" and "send_key (pw_sends w ! i) = send_key (pw_sends w ! j)"
  shows "\<exists>cancelled. sd_phase (pw_sends w ! i) = Stored SUB_RETRYABLE cancelled"
proof -
  let ?vs = "map send_view (pw_sends w)" and ?key = "send_key (pw_sends w ! j)"
  have "proactive_core w"
    using assms(2) proactive.reachable_inv [OF assms(1) [unfolded proactive_reachable_def]] by blast
  then have "key_ok (views_at ?key ?vs) (destination_at (pw_repository w) ?key)"
    unfolding proactive_core_def keys_ok_def by blast
  moreover have "?vs ! i \<in> set (butlast (views_at ?key ?vs))"
    unfolding views_at_def using assms(3-5) by (intro earlier_in_butlast [of i j]) (auto simp: send_view_def)
  ultimately have "snd (snd (?vs ! i)) = Some SUB_RETRYABLE" unfolding key_ok_def by blast
  then show ?thesis
    using assms(3,4) by (cases "sd_phase (pw_sends w ! i)") (auto simp: send_view_def)
qed

text \<open>
  C22: a settled destination never changes. Once the stored state of a destination is accepted,
  rejected, partial or unknown, its record is the same in every later state, whatever calls, retries
  and late results follow and whatever the clock shows.
\<close>

theorem settled_destination_final:
  assumes "proactive_reachable env w" and "event_run (proactive_step env) w evs w'"
    and "destination_at (pw_repository w) key = Some d" and "dd_state d \<noteq> SUB_IN_FLIGHT" and "dd_state d \<noteq> SUB_RETRYABLE"
  shows "destination_at (pw_repository w') key = Some d"
  using run_kept [OF assms(2)] reachable_repository [OF assms(1)] assms(3-5) by (auto simp: repository_kept_def)

text \<open>
  C23: nothing is sent without authority. Every send of every reachable state belongs to a call whose
  intent is valid, and when the call came from outside, its authenticated principal is valid and
  allowed for the target of the intent, and every local file of the intent carries its digest.
\<close>

theorem sends_authorized:
  assumes "proactive_reachable env w" and "x \<in> set (pw_sends w)"
  shows "validate_delivery_intent (sx_intent (sd_context x)) = None \<and>
    (sx_authorize (sd_context x) \<longrightarrow> validate_delivery_principal (sx_owner (sd_context x)) = None \<and>
       authorize_delivery_target (sx_owner (sd_context x)) (it_target (sx_intent (sd_context x))) = None \<and>
       require_external_local_digests (sx_intent (sd_context x)) = None)"
proof -
  have "contexts_ok w" using contexts.reachable_inv [OF assms(1) [unfolded proactive_reachable_def]] .
  with assms(2) show ?thesis by (auto simp: contexts_ok_def context_ok_def)
qed

section \<open>Concrete deliveries\<close>

fun proactive_run :: "proactive_env \<Rightarrow> proactive_event list \<Rightarrow> proactive_world \<Rightarrow> proactive_world option" where
  "proactive_run env [] w = Some w"
| "proactive_run env (ev # evs) w = (case proactive_exec env ev w of None \<Rightarrow> None | Some w' \<Rightarrow> proactive_run env evs w')"

lemma proactive_run_reachable:
  "proactive_run env evs w = Some w' \<Longrightarrow> proactive_reachable env w \<Longrightarrow> proactive_reachable env w'"
proof (induction evs arbitrary: w)
  case (Cons ev evs)
  then obtain v where v: "proactive_exec env ev w = Some v" "proactive_run env evs v = Some w'"
    by (auto split: option.splits)
  then have "proactive_reachable env v"
    using Cons.prems(2) unfolding proactive_reachable_def by (auto intro: reachable_step simp: proactive_step_def)
  with Cons.IH v(2) show ?case by blast
qed simp

definition short_message :: outbound_message where
  "short_message = \<lparr>om_delivery_id = ''d1'',
     om_conversation_ref = \<lparr>cv_channel_instance_id = ''ch'', cv_native_conversation_id = ''cv''\<rparr>,
     om_content = [TextContent [7] PLAIN], om_created_at = utc 5, om_reply_to = None, om_metadata = []\<rparr>"

definition sample_env :: proactive_env where
  "sample_env = \<lparr>pv_channels = [(''ch'', sample_profile\<lparr>dp_max_text_length := None\<rparr>)], pv_config = sample_limits, pv_has_authorizer = False,
     pv_sha256 = id, pv_digest = (\<lambda>v. ''p''), pv_casefold = id, pv_rewrite = id, pv_explain = (\<lambda>m. ''x'')\<rparr>"

definition empty_world :: proactive_world where
  "empty_world = \<lparr>pw_repository = \<lparr>sb_max_records = 5, sb_records = []\<rparr>, pw_calls = [], pw_sends = [], pw_clock = []\<rparr>"

definition retryable_receipt :: delivery_receipt where
  "retryable_receipt = plain_receipt DRS_RETRYABLE_FAILURE None None"

text \<open>A first delivery that ends with a retryable failure.\<close>

definition failed_first :: "proactive_event list" where
  "failed_first = [DeliverInternalCalled short_message, ReadExisting 0 (utc 1), Resolved 0 (Inr []) (utc 1), Reserved 0,
     SendBegin 0, SendReturned 0 (Inr retryable_receipt) (utc 2), SendStored 0, SendsDone 0, FinalRead 0]"

text \<open>One retry, and two retries at the same time whose clock readings are \<open>a\<close> and \<open>b\<close>.\<close>

definition one_retry :: "proactive_event list" where
  "one_retry = failed_first @ [DeliverInternalCalled short_message, ReadExisting 1 (utc 3), Claim 1, Claim 1, SendBegin 1]"

definition two_retries :: "datetime \<Rightarrow> datetime \<Rightarrow> proactive_event list" where
  "two_retries a b = failed_first @ [DeliverInternalCalled short_message, DeliverInternalCalled short_message,
     ReadExisting 1 a, ReadExisting 2 b, Claim 1, Claim 2, Claim 1, Claim 2, SendBegin 1, SendBegin 2]"

definition sends_of :: "proactive_world \<Rightarrow> ((string \<times> string) \<times> send_phase) list" where
  "sends_of w = map (\<lambda>x. (send_key x, sd_phase x)) (pw_sends w)"

definition sample_key :: "string \<times> string" where
  "sample_key = (''imagent:delivery-submission:sha256:['' @ [CHR 0x22] @ ''gateway_internal'' @ [CHR 0x22, CHR '','', CHR 0x22] @
     ''d1'' @ [CHR 0x22] @ '']'', ''d1'')"

lemma empty_world_reachable: "proactive_reachable env empty_world"
  unfolding proactive_reachable_def
  by (rule reachable_init) (simp add: proactive_init_def empty_world_def new_submission_repository_def exI [of _ 5])

lemma one_retry_run:
  "map_option (\<lambda>w. (sends_of w, map snd (pw_clock w))) (proactive_run sample_env one_retry empty_world) =
     Some ([(sample_key, Stored SUB_RETRYABLE False), (sample_key, Delivering)], [utc 1, utc 3])"
  by code_simp

lemma same_reading_run:
  "map_option sends_of (proactive_run sample_env (two_retries (utc 3) (utc 3)) empty_world) =
     Some [(sample_key, Stored SUB_RETRYABLE False), (sample_key, Delivering), (sample_key, Delivering)]"
  by code_simp

text \<open>A delivery whose coordinator failed, and the same delivery again.\<close>

definition unknown_first :: "proactive_event list" where
  "unknown_first = [DeliverInternalCalled short_message, ReadExisting 0 (utc 1), Resolved 0 (Inr []) (utc 1), Reserved 0,
     SendBegin 0, SendReturned 0 (Inl RuntimeError) (utc 2), SendStored 0]"

definition again :: "proactive_event list" where
  "again = [DeliverInternalCalled short_message, ReadExisting 1 (utc 3)]"

lemma unknown_run:
  "map_option (\<lambda>w. map_option dd_state (destination_at (pw_repository w) sample_key)) (proactive_run sample_env unknown_first empty_world) =
     Some (Some SUB_UNKNOWN)"
  by code_simp

lemma unknown_again_run:
  "map_option (\<lambda>w. length (pw_sends w)) (proactive_run sample_env (unknown_first @ again) empty_world) = Some 1"
  by code_simp

lemma proactive_run_append:
  "proactive_run env (evs @ evs') w = (case proactive_run env evs w of None \<Rightarrow> None | Some w' \<Rightarrow> proactive_run env evs' w')"
  by (induction evs arbitrary: w) (auto split: option.splits)

lemma proactive_run_events: "proactive_run env evs w = Some w' \<Longrightarrow> event_run (proactive_step env) w evs w'"
proof (induction evs arbitrary: w' rule: rev_induct)
  case Nil
  then show ?case by (simp add: event_run.run_nil)
next
  case (snoc ev evs)
  then obtain v where v: "proactive_run env evs w = Some v" "proactive_exec env ev v = Some w'"
    by (auto simp: proactive_run_append split: option.splits)
  then show ?case
    using event_run.run_step [OF snoc.IH [OF v(1)], of ev w'] by (simp add: proactive_step_def)
qed

theorem resent_only_after_retryable_witness:
  "\<exists>w cancelled. proactive_reachable sample_env w \<and> length (pw_sends w) = 2 \<and>
    send_key (pw_sends w ! 0) = send_key (pw_sends w ! 1) \<and> sd_phase (pw_sends w ! 1) = Delivering \<and>
    sd_phase (pw_sends w ! 0) = Stored SUB_RETRYABLE cancelled"
proof -
  obtain w where w: "proactive_run sample_env one_retry empty_world = Some w"
      "sends_of w = [(sample_key, Stored SUB_RETRYABLE False), (sample_key, Delivering)]" "map snd (pw_clock w) = [utc 1, utc 3]"
    using one_retry_run by auto
  have len: "length (pw_sends w) = 2" using arg_cong [OF w(2), of length] by (simp add: sends_of_def)
  have "send_key (pw_sends w ! k) = sample_key" "sd_phase (pw_sends w ! k) = snd (sends_of w ! k)" if "k < 2" for k
    using arg_cong [OF w(2), of "\<lambda>l. l ! k"] that len by (auto simp: sends_of_def less_2_cases_iff)
  note sends = this [of 0] this [of 1]
  have reachable: "proactive_reachable sample_env w" using proactive_run_reachable [OF w(1) empty_world_reachable] .
  have "\<exists>cancelled. sd_phase (pw_sends w ! 0) = Stored SUB_RETRYABLE cancelled"
    using resent_only_after_retryable [OF reachable, of 0 1] sends len w(3) by simp
  then show ?thesis using reachable len sends w(2) by auto
qed

theorem settled_destination_final_witness:
  "\<exists>w w' d. event_run (proactive_step sample_env) w again w' \<and> dd_state d = SUB_UNKNOWN \<and>
    destination_at (pw_repository w) sample_key = Some d \<and> destination_at (pw_repository w') sample_key = Some d \<and>
    length (pw_sends w') = 1"
proof -
  obtain w d where w: "proactive_run sample_env unknown_first empty_world = Some w"
      "destination_at (pw_repository w) sample_key = Some d" "dd_state d = SUB_UNKNOWN"
    using unknown_run by auto
  obtain w' where w': "proactive_run sample_env again w = Some w'" "length (pw_sends w') = 1"
    using unknown_again_run w(1) by (auto simp: proactive_run_append)
  have "proactive_reachable sample_env w" using proactive_run_reachable [OF w(1) empty_world_reachable] .
  from settled_destination_final [OF this proactive_run_events [OF w'(1)] w(2)] w w' proactive_run_events [OF w'(1)]
  show ?thesis by auto
qed

theorem sends_authorized_witness:
  "\<exists>w x. proactive_reachable sample_env w \<and> x \<in> set (pw_sends w) \<and> validate_delivery_intent (sx_intent (sd_context x)) = None"
proof -
  obtain w where w: "proactive_run sample_env one_retry empty_world = Some w" "length (sends_of w) = 2"
    using one_retry_run by auto
  have reachable: "proactive_reachable sample_env w" using proactive_run_reachable [OF w(1) empty_world_reachable] .
  have "pw_sends w ! 0 \<in> set (pw_sends w)" using w(2) by (simp add: sends_of_def)
  with sends_authorized [OF reachable this] reachable show ?thesis by blast
qed

text \<open>
  C40: two retries that read the same time from the clock both send. When two calls retry a
  destination at once and \<open>datetime.now\<close> gives both the same value, the claim of the second call is
  taken for a repetition of the first, because the records they write are equal, and the destination
  is delivered twice at the same time.
\<close>

theorem same_reading_sends_twice:
  "\<exists>w. proactive_reachable sample_env w \<and> length (pw_sends w) = 3 \<and>
    send_key (pw_sends w ! 1) = send_key (pw_sends w ! 2) \<and>
    sd_phase (pw_sends w ! 1) = Delivering \<and> sd_phase (pw_sends w ! 2) = Delivering"
proof -
  obtain w where w: "proactive_run sample_env (two_retries (utc 3) (utc 3)) empty_world = Some w"
      "sends_of w = [(sample_key, Stored SUB_RETRYABLE False), (sample_key, Delivering), (sample_key, Delivering)]"
    using same_reading_run by auto
  have len: "length (pw_sends w) = 3" using arg_cong [OF w(2), of length] by (simp add: sends_of_def)
  then show ?thesis
    using proactive_run_reachable [OF w(1) empty_world_reachable] arg_cong [OF w(2), of "\<lambda>l. l ! 1"]
      arg_cong [OF w(2), of "\<lambda>l. l ! 2"]
    by (intro exI [of _ w]) (auto simp: sends_of_def)
qed

end
