(* ===== verification/Event_Fanout.thy ===== *)
theory Event_Fanout
  imports Prelude "HOL-Library.Sublist"
begin

text \<open>
  The live fan-out of application events (\<open>EventBroadcaster\<close> and \<open>FanoutSubscription\<close> of
  \<open>applications/events.py\<close>): bounded queues, one per subscriber, that end with an explicit gap when
  they overflow, and the bounded buffer of inbound messages during startup
  (\<open>GatewayStartupAdmission\<close> of \<open>gateway/lifecycle.py\<close>).

  Subscriptions are numbered in the order of their creation. A set of subscribers is a list without
  repetitions; the order in which a broadcast visits it does not matter, because every visit
  touches one subscription only.
\<close>

section \<open>Subscriptions\<close>

datatype 'v signal = Item 'v | TerminalSignal

record ('k, 'v) subscription =
  fs_key :: 'k
  fs_queue :: "'v signal list"
  fs_max_pending :: int
  fs_closed :: bool
  fs_terminal_error :: "error option"

record ('k, 'v) broadcaster =
  bc_max_pending :: int
  bc_subscriptions :: "('k, 'v) subscription list"
  bc_subscribers :: "('k, nat list) dict"

definition new_broadcaster :: "int \<Rightarrow> ('k, 'v) broadcaster res" where
  "new_broadcaster max_pending =
     (if max_pending < 1 then Inl ValueError
      else Inr \<lparr>bc_max_pending = max_pending, bc_subscriptions = [], bc_subscribers = []\<rparr>)"

text \<open>\<open>asyncio.Queue.put_nowait\<close> on a queue of \<open>max_pending + 1\<close> places.\<close>

definition put_nowait :: "'v signal \<Rightarrow> ('k, 'v) subscription \<Rightarrow> (('k, 'v) subscription, unit) outcome" where
  "put_nowait x sub =
     (if int (length (fs_queue sub)) \<ge> fs_max_pending sub + 1 then (Inl QueueFull, sub)
      else (Inr (), sub\<lparr>fs_queue := fs_queue sub @ [x]\<rparr>))"

definition subscribers_of :: "'k \<Rightarrow> ('k, 'v) broadcaster \<Rightarrow> nat list" where
  "subscribers_of key b = (case dict_get (bc_subscribers b) key of None \<Rightarrow> [] | Some s \<Rightarrow> s)"

definition subscriber_count :: "'k \<Rightarrow> ('k, 'v) broadcaster \<Rightarrow> nat" where
  "subscriber_count key b = length (subscribers_of key b)"

text \<open>\<open>_remove\<close>, the close callback.\<close>

definition remove_subscription :: "'k \<Rightarrow> nat \<Rightarrow> ('k, 'v) broadcaster \<Rightarrow> ('k, 'v) broadcaster" where
  "remove_subscription key i b =
     (case dict_get (bc_subscribers b) key of
        None \<Rightarrow> b
      | Some s \<Rightarrow>
          (let s' = filter (\<lambda>j. j \<noteq> i) s in
           b\<lparr>bc_subscribers := (if s' = [] then dict_pop (bc_subscribers b) key else dict_set (bc_subscribers b) key s')\<rparr>))"

definition set_subscription :: "nat \<Rightarrow> ('k, 'v) subscription \<Rightarrow> ('k, 'v) broadcaster \<Rightarrow> ('k, 'v) broadcaster" where
  "set_subscription i sub b = b\<lparr>bc_subscriptions := (bc_subscriptions b)[i := sub]\<rparr>"

text \<open>\<open>_fail\<close>: the pending items are dropped or kept, the error follows them.\<close>

definition fail_subscription :: "error \<Rightarrow> bool \<Rightarrow> nat \<Rightarrow> ('k, 'v) broadcaster \<Rightarrow> (('k, 'v) broadcaster, unit) outcome" where
  "fail_subscription err discard_pending i b =
     (let sub = bc_subscriptions b ! i in
      if fs_closed sub \<or> fs_terminal_error sub \<noteq> None then (Inr (), b)
      else let sub = (if discard_pending then sub\<lparr>fs_queue := []\<rparr> else sub)\<lparr>fs_terminal_error := Some err\<rparr> in
        case put_nowait TerminalSignal sub of
          (Inl e, sub) \<Rightarrow> (Inl e, set_subscription i sub b)
        | (Inr u, sub) \<Rightarrow> (Inr (), remove_subscription (fs_key sub) i (set_subscription i sub b)))"

text \<open>\<open>_publish\<close>.\<close>

definition publish_to :: "'v \<Rightarrow> nat \<Rightarrow> ('k, 'v) broadcaster \<Rightarrow> (('k, 'v) broadcaster, unit) outcome" where
  "publish_to event i b =
     (let sub = bc_subscriptions b ! i in
      if fs_closed sub \<or> fs_terminal_error sub \<noteq> None then (Inr (), b)
      else if int (length (fs_queue sub)) \<ge> fs_max_pending sub then fail_subscription EventStreamOverflow True i b
      else case put_nowait (Item event) sub of (r, sub) \<Rightarrow> (r, set_subscription i sub b))"

section \<open>The broadcaster\<close>

text \<open>A \<open>for\<close> loop whose body may raise.\<close>

fun for_each :: "('a \<Rightarrow> 's \<Rightarrow> ('s, unit) outcome) \<Rightarrow> 'a list \<Rightarrow> 's \<Rightarrow> ('s, unit) outcome" where
  "for_each f [] s = (Inr (), s)"
| "for_each f (x # xs) s = (case f x s of (Inl e, s) \<Rightarrow> (Inl e, s) | (Inr u, s) \<Rightarrow> for_each f xs s)"

definition subscribe :: "'k \<Rightarrow> 'v list \<Rightarrow> ('k, 'v) broadcaster \<Rightarrow> (('k, 'v) broadcaster, nat) outcome" where
  "subscribe key initial b =
     (let i = length (bc_subscriptions b);
          sub = \<lparr>fs_key = key, fs_queue = [], fs_max_pending = bc_max_pending b, fs_closed = False, fs_terminal_error = None\<rparr>;
          b = b\<lparr>bc_subscriptions := bc_subscriptions b @ [sub],
                bc_subscribers := dict_set (bc_subscribers b) key (subscribers_of key b @ [i])\<rparr> in
      case for_each (\<lambda>event. publish_to event i) initial b of
        (Inl e, b) \<Rightarrow> (Inl e, b)
      | (Inr u, b) \<Rightarrow> (Inr i, b))"

definition publish_event :: "'k \<Rightarrow> 'v \<Rightarrow> ('k, 'v) broadcaster \<Rightarrow> (('k, 'v) broadcaster, unit) outcome" where
  "publish_event key event b = for_each (publish_to event) (subscribers_of key b) b"

definition fail_all :: "error \<Rightarrow> bool \<Rightarrow> ('k, 'v) broadcaster \<Rightarrow> (('k, 'v) broadcaster, unit) outcome" where
  "fail_all err discard_pending b =
     for_each (fail_subscription err discard_pending) (concat (dict_values (bc_subscribers b))) b"

definition fail_key :: "'k \<Rightarrow> error \<Rightarrow> bool \<Rightarrow> ('k, 'v) broadcaster \<Rightarrow> (('k, 'v) broadcaster, unit) outcome" where
  "fail_key key err discard_pending b = for_each (fail_subscription err discard_pending) (subscribers_of key b) b"

definition aclose :: "nat \<Rightarrow> ('k, 'v) broadcaster \<Rightarrow> ('k, 'v) broadcaster" where
  "aclose i b =
     (let sub = bc_subscriptions b ! i in
      if fs_closed sub then b
      else remove_subscription (fs_key sub) i (set_subscription i (sub\<lparr>fs_closed := True\<rparr>) b))"

text \<open>
  \<open>__anext__\<close> checks \<open>_closed\<close> and takes the next entry of the queue; \<open>None\<close> stands for a call that
  waits. A waiting call goes on with \<open>take_next\<close>, without the check. A cancellation while it waits
  closes the subscription.
\<close>

definition take_next :: "nat \<Rightarrow> ('k, 'v) broadcaster \<Rightarrow> (('k, 'v) broadcaster, 'v) outcome option" where
  "take_next i b =
     (let sub = bc_subscriptions b ! i in
      case fs_queue sub of
        [] \<Rightarrow> None
      | Item event # rest \<Rightarrow> Some (Inr event, set_subscription i (sub\<lparr>fs_queue := rest\<rparr>) b)
      | TerminalSignal # rest \<Rightarrow>
          Some (case fs_terminal_error sub of None \<Rightarrow> Inl RuntimeError | Some e \<Rightarrow> Inl e,
            set_subscription i (sub\<lparr>fs_queue := rest, fs_terminal_error := None, fs_closed := True\<rparr>) b))"

definition anext :: "nat \<Rightarrow> ('k, 'v) broadcaster \<Rightarrow> (('k, 'v) broadcaster, 'v) outcome option" where
  "anext i b = (if fs_closed (bc_subscriptions b ! i) then Some (Inl StopAsyncIteration, b) else take_next i b)"

definition anext_cancelled :: "nat \<Rightarrow> ('k, 'v) broadcaster \<Rightarrow> (('k, 'v) broadcaster, 'v) outcome" where
  "anext_cancelled i b = (Inl CancelledError, aclose i b)"

definition pending_count :: "('k, 'v) subscription \<Rightarrow> int" where
  "pending_count sub =
     (if fs_terminal_error sub \<noteq> None then max 0 (int (length (fs_queue sub)) - 1) else int (length (fs_queue sub)))"

section \<open>Runs of a broadcaster\<close>

text \<open>
  A broadcaster with what a reader can compare: the events offered to each subscription, that is
  its initial ones and every event published for its key since, and the events it returned, with
  the exceptions it raised. The last three fields only record.
\<close>

record ('k, 'v) fanout =
  fo_state :: "('k, 'v) broadcaster"
  fo_offered :: "nat \<Rightarrow> 'v list"
  fo_received :: "nat \<Rightarrow> 'v list"
  fo_raised :: "error list"

datatype ('k, 'v) fanout_event =
    Subscribe 'k "'v list"
  | Publish 'k 'v
  | FailAll error bool
  | FailKey 'k error bool
  | Close nat
  | Next nat
  | Resume nat
  | CancelNext nat

definition note_result :: "('k, 'v) fanout \<Rightarrow> (('k, 'v) broadcaster, 'a) outcome \<Rightarrow> ('k, 'v) fanout" where
  "note_result f k = f\<lparr>fo_state := snd k, fo_raised := (case fst k of Inl e \<Rightarrow> fo_raised f @ [e] | Inr _ \<Rightarrow> fo_raised f)\<rparr>"

definition note_read :: "nat \<Rightarrow> ('k, 'v) fanout \<Rightarrow> (('k, 'v) broadcaster, 'v) outcome option \<Rightarrow> ('k, 'v) fanout" where
  "note_read i f k =
     (case k of
        None \<Rightarrow> f
      | Some k \<Rightarrow>
          note_result (case fst k of Inl e \<Rightarrow> f | Inr v \<Rightarrow> f\<lparr>fo_received := (fo_received f)(i := fo_received f i @ [v])\<rparr>) k)"

definition offer :: "('k, 'v) broadcaster \<Rightarrow> 'k \<Rightarrow> 'v \<Rightarrow> (nat \<Rightarrow> 'v list) \<Rightarrow> nat \<Rightarrow> 'v list" where
  "offer b key event off i =
     (if i < length (bc_subscriptions b) \<and> fs_key (bc_subscriptions b ! i) = key then off i @ [event] else off i)"

fun fanout_exec :: "('k, 'v) fanout_event \<Rightarrow> ('k, 'v) fanout \<Rightarrow> ('k, 'v) fanout" where
  "fanout_exec (Subscribe key initial) f =
     note_result (f\<lparr>fo_offered := (fo_offered f)(length (bc_subscriptions (fo_state f)) := initial)\<rparr>) (subscribe key initial (fo_state f))"
| "fanout_exec (Publish key event) f =
     note_result (f\<lparr>fo_offered := offer (fo_state f) key event (fo_offered f)\<rparr>) (publish_event key event (fo_state f))"
| "fanout_exec (FailAll err discard) f = note_result f (fail_all err discard (fo_state f))"
| "fanout_exec (FailKey key err discard) f = note_result f (fail_key key err discard (fo_state f))"
| "fanout_exec (Close i) f = f\<lparr>fo_state := aclose i (fo_state f)\<rparr>"
| "fanout_exec (Next i) f = note_read i f (anext i (fo_state f))"
| "fanout_exec (Resume i) f = note_read i f (take_next i (fo_state f))"
| "fanout_exec (CancelNext i) f =
     note_result f (anext_cancelled i (fo_state f) :: (('k, 'v) broadcaster, 'v) outcome)"

text \<open>
  Events name existing subscriptions, and a failure is one of the gap errors the callers of
  \<open>fail\<close> and \<open>fail_all\<close> build.
\<close>

definition gap_error :: "error \<Rightarrow> bool" where
  "gap_error e \<longleftrightarrow> e = EventStreamOverflow \<or> e = EventStreamReset"

fun addressed :: "('k, 'v) fanout_event \<Rightarrow> ('k, 'v) fanout \<Rightarrow> bool" where
  "addressed (Subscribe key initial) f = True"
| "addressed (Publish key event) f = True"
| "addressed (FailAll err discard) f = gap_error err"
| "addressed (FailKey key err discard) f = gap_error err"
| "addressed (Close i) f = (i < length (bc_subscriptions (fo_state f)))"
| "addressed (Next i) f = (i < length (bc_subscriptions (fo_state f)))"
| "addressed (Resume i) f = (i < length (bc_subscriptions (fo_state f)))"
| "addressed (CancelNext i) f = (i < length (bc_subscriptions (fo_state f)))"

definition fanout_step :: "('k, 'v) fanout \<Rightarrow> ('k, 'v) fanout_event \<Rightarrow> ('k, 'v) fanout \<Rightarrow> bool" where
  "fanout_step f ev f' \<longleftrightarrow> addressed ev f \<and> f' = fanout_exec ev f"

definition fanout_init :: "int \<Rightarrow> ('k, 'v) fanout \<Rightarrow> bool" where
  "fanout_init m f \<longleftrightarrow>
     new_broadcaster m = Inr (fo_state f) \<and> fo_offered f = (\<lambda>_. []) \<and> fo_received f = (\<lambda>_. []) \<and> fo_raised f = []"

section \<open>Invariant\<close>

text \<open>
  The queue of a subscription holds events and, behind them, the signal of a stored error. What
  was returned and what is pending continue each other within what was offered; while the
  subscription is live they are all of it.
\<close>

definition live :: "('k, 'v) subscription \<Rightarrow> bool" where
  "live sub \<longleftrightarrow> \<not> fs_closed sub \<and> fs_terminal_error sub = None"

fun items :: "'v signal list \<Rightarrow> 'v list" where
  "items [] = []"
| "items (Item v # q) = v # items q"
| "items (TerminalSignal # q) = items q"

definition queue_ok :: "error option \<Rightarrow> 'v signal list \<Rightarrow> bool" where
  "queue_ok err q \<longleftrightarrow> q = map Item (items q) @ (if err = None then [] else [TerminalSignal])"

definition sub_ok :: "int \<Rightarrow> 'v list \<Rightarrow> 'v list \<Rightarrow> ('k, 'v) subscription \<Rightarrow> bool" where
  "sub_ok m off rec sub \<longleftrightarrow>
     fs_max_pending sub = m \<and>
     queue_ok (fs_terminal_error sub) (fs_queue sub) \<and>
     int (length (items (fs_queue sub))) \<le> m \<and>
     prefix (rec @ items (fs_queue sub)) off \<and>
     (live sub \<longrightarrow> rec @ items (fs_queue sub) = off) \<and>
     (\<forall>e. fs_terminal_error sub = Some e \<longrightarrow> gap_error e)"

definition index_ok :: "('k, 'v) broadcaster \<Rightarrow> bool" where
  "index_ok b \<longleftrightarrow>
     dict_ok (bc_subscribers b) \<and>
     (\<forall>key. distinct (subscribers_of key b) \<and>
        (\<forall>i \<in> set (subscribers_of key b). i < length (bc_subscriptions b) \<and> fs_key (bc_subscriptions b ! i) = key)) \<and>
     (\<forall>i < length (bc_subscriptions b). live (bc_subscriptions b ! i) \<longrightarrow>
        i \<in> set (subscribers_of (fs_key (bc_subscriptions b ! i)) b))"

definition fan_ok :: "int \<Rightarrow> (nat \<Rightarrow> 'v list) \<Rightarrow> (nat \<Rightarrow> 'v list) \<Rightarrow> ('k, 'v) broadcaster \<Rightarrow> bool" where
  "fan_ok m off rec b \<longleftrightarrow>
     1 \<le> bc_max_pending b \<and> bc_max_pending b = m \<and> index_ok b \<and>
     (\<forall>i < length (bc_subscriptions b). sub_ok (bc_max_pending b) (off i) (rec i) (bc_subscriptions b ! i)) \<and>
     (\<forall>i \<ge> length (bc_subscriptions b). rec i = [])"

lemma items_simps [simp]:
  "items (map Item vs) = vs" "items (q @ q') = items q @ items q'"
  by (induction vs, simp_all) (induction q rule: items.induct, simp_all)

lemma queue_ok_step:
  "queue_ok None q \<Longrightarrow> queue_ok None (q @ [Item v])"
  "queue_ok None q \<Longrightarrow> queue_ok (Some e) (q @ [TerminalSignal])"
  "queue_ok err (Item v # q) \<Longrightarrow> queue_ok err q"
  "queue_ok err (TerminalSignal # q) \<Longrightarrow> q = [] \<and> err \<noteq> None"
  "queue_ok None []"
proof -
  show "q = [] \<and> err \<noteq> None" if "queue_ok err (TerminalSignal # q)"
    using that by (cases "items q") (auto simp: queue_ok_def split: if_splits)
qed (simp_all add: queue_ok_def)

lemma queue_ok_length: "queue_ok None q \<Longrightarrow> length q = length (items q)"
  unfolding queue_ok_def by (metis append_Nil2 length_map)

lemma queue_ok_pending: "queue_ok (Some e) q \<Longrightarrow> length q = Suc (length (items q))"
  unfolding queue_ok_def by (drule arg_cong [where f = length]) simp

lemma subscribers_ofD:
  "index_ok b \<Longrightarrow> i \<in> set (subscribers_of key b) \<Longrightarrow>
     i < length (bc_subscriptions b) \<and> fs_key (bc_subscriptions b ! i) = key"
  by (auto simp: index_ok_def)

lemma subscribers_of_distinct: "index_ok b \<Longrightarrow> distinct (subscribers_of key b)"
  by (simp add: index_ok_def)

lemma all_subscribersD:
  assumes "index_ok b" "i \<in> set (concat (dict_values (bc_subscribers b)))"
  shows "i < length (bc_subscriptions b)"
proof -
  have "dict_ok (bc_subscribers b)" using assms(1) by (simp add: index_ok_def)
  with assms(2) obtain key s where "dict_get (bc_subscribers b) key = Some s" "i \<in> set s"
    by (auto dest: map_of_is_SomeI)
  then have "i \<in> set (subscribers_of key b)" by (simp add: subscribers_of_def)
  then show ?thesis using assms(1) by (blast dest: subscribers_ofD)
qed

lemma subscribers_of_remove [simp]:
  "subscribers_of key' (remove_subscription key i b) =
     (if key' = key then filter (\<lambda>j. j \<noteq> i) (subscribers_of key b) else subscribers_of key' b)"
  by (auto simp: subscribers_of_def remove_subscription_def Let_def filter_empty_conv split: option.splits)

lemma remove_subscription_same [simp]:
  "bc_subscriptions (remove_subscription key i b) = bc_subscriptions b"
  "bc_max_pending (remove_subscription key i b) = bc_max_pending b"
  by (simp_all add: remove_subscription_def Let_def split: option.splits)

lemma set_subscription_same [simp]:
  "bc_subscriptions (set_subscription i sub b) = (bc_subscriptions b)[i := sub]"
  "bc_max_pending (set_subscription i sub b) = bc_max_pending b"
  "bc_subscribers (set_subscription i sub b) = bc_subscribers b"
  "subscribers_of key (set_subscription i sub b) = subscribers_of key b"
  by (simp_all add: set_subscription_def subscribers_of_def)

lemma index_ok_set:
  assumes "index_ok b" "i < length (bc_subscriptions b)" "fs_key sub = fs_key (bc_subscriptions b ! i)"
    and "live sub \<Longrightarrow> live (bc_subscriptions b ! i)"
  shows "index_ok (set_subscription i sub b)"
  using assms by (auto simp: index_ok_def nth_list_update)

lemma index_ok_remove:
  assumes ok: "index_ok b" and gone: "\<not> live (bc_subscriptions b ! i)"
  shows "index_ok (remove_subscription key i b)"
proof -
  have "dict_ok (bc_subscribers (remove_subscription key i b))"
    using ok by (auto simp: remove_subscription_def Let_def index_ok_def split: option.splits)
  then show ?thesis using ok gone by (auto simp: index_ok_def)
qed

section \<open>Every operation keeps the invariant\<close>

text \<open>One subscription is replaced; the rest of the broadcaster is as before.\<close>

lemma fan_ok_set:
  assumes ok: "fan_ok m off rec b" and i: "i < length (bc_subscriptions b)"
    and sub: "sub_ok (bc_max_pending b) off' rec' sub"
    and "fs_key sub = fs_key (bc_subscriptions b ! i)" "live sub \<Longrightarrow> live (bc_subscriptions b ! i)"
  shows "fan_ok m (off(i := off')) (rec(i := rec')) (set_subscription i sub b)"
  using assms index_ok_set [of b i sub] by (auto simp: fan_ok_def nth_list_update)

lemma fan_ok_remove:
  "fan_ok m off rec b \<Longrightarrow> \<not> live (bc_subscriptions b ! i) \<Longrightarrow> fan_ok m off rec (remove_subscription key i b)"
  by (auto simp: fan_ok_def index_ok_remove)

lemma fan_ok_sub: "fan_ok m off rec b \<Longrightarrow> i < length (bc_subscriptions b) \<Longrightarrow>
    sub_ok (bc_max_pending b) (off i) (rec i) (bc_subscriptions b ! i)"
  by (auto simp: fan_ok_def)

lemma fan_ok_offer:
  assumes ok: "fan_ok m off rec b"
    and more: "\<And>i. i < length (bc_subscriptions b) \<Longrightarrow> off' i = off i \<or> \<not> live (bc_subscriptions b ! i) \<and> prefix (off i) (off' i)"
  shows "fan_ok m off' rec b"
proof -
  have "sub_ok (bc_max_pending b) (off' i) (rec i) (bc_subscriptions b ! i)" if i: "i < length (bc_subscriptions b)" for i
    using fan_ok_sub [OF ok i] more [OF i] by (auto simp: sub_ok_def intro: prefix_order.trans)
  then show ?thesis using ok by (simp add: fan_ok_def)
qed

lemma fan_ok_offer_dead:
  "fan_ok m off rec b \<Longrightarrow> \<not> live (bc_subscriptions b ! i) \<Longrightarrow> fan_ok m (off(i := off i @ vs)) rec b"
  by (erule fan_ok_offer) auto

lemma sub_ok_length: "sub_ok m off rec sub \<Longrightarrow> live sub \<Longrightarrow> length (fs_queue sub) = length (items (fs_queue sub))"
  by (simp add: sub_ok_def live_def queue_ok_length)

text \<open>The place kept for the signal is always free when an error is stored.\<close>

lemma fail_subscription_ok:
  assumes ok: "fan_ok m off rec b" and i: "i < length (bc_subscriptions b)" and err: "gap_error err"
  shows "fst (fail_subscription err discard i b) = Inr ()"
    and "fan_ok m off rec (snd (fail_subscription err discard i b))"
    and "map fs_key (bc_subscriptions (snd (fail_subscription err discard i b))) = map fs_key (bc_subscriptions b)"
    and "\<not> live (bc_subscriptions (snd (fail_subscription err discard i b)) ! i)"
proof -
  let ?sub = "bc_subscriptions b ! i"
  let ?sub' = "(if discard then ?sub\<lparr>fs_queue := []\<rparr> else ?sub)\<lparr>fs_terminal_error := Some err\<rparr>"
  let ?new = "?sub'\<lparr>fs_queue := fs_queue ?sub' @ [TerminalSignal]\<rparr>"
  note s = fan_ok_sub [OF ok i]
  have m: "1 \<le> bc_max_pending b" using ok by (simp add: fan_ok_def)
  have live: "live ?sub \<longleftrightarrow> \<not> (fs_closed ?sub \<or> fs_terminal_error ?sub \<noteq> None)" by (simp add: live_def)
  have result: "fail_subscription err discard i b =
      (Inr (), remove_subscription (fs_key ?sub) i (set_subscription i ?new b))" if "live ?sub"
  proof -
    have "int (length (fs_queue ?sub)) \<le> fs_max_pending ?sub" "0 \<le> fs_max_pending ?sub"
      using s m sub_ok_length [OF s that] by (simp_all add: sub_ok_def)
    then show ?thesis using that by (cases discard) (simp_all add: fail_subscription_def Let_def live put_nowait_def)
  qed
  have new: "sub_ok (bc_max_pending b) (off i) (rec i) ?new" "\<not> live ?new" if "live ?sub"
    using that s err m queue_ok_step(2) [of "[]"] by (auto simp: sub_ok_def live_def queue_ok_step prefix_def)
  have kept: "fan_ok m off rec (set_subscription i ?new b)" if "live ?sub"
    using fan_ok_set [OF ok i new(1) [OF that]] new(2) [OF that] by (simp split: if_splits)
  have dead: "fail_subscription err discard i b = (Inr (), b)" if "\<not> live ?sub"
    using that by (simp add: fail_subscription_def Let_def live)
  show "fst (fail_subscription err discard i b) = Inr ()"
    by (cases "live ?sub") (simp_all add: result dead)
  show "fan_ok m off rec (snd (fail_subscription err discard i b))"
    using ok kept new(2) i by (cases "live ?sub") (auto simp: result dead intro!: fan_ok_remove)
  show "map fs_key (bc_subscriptions (snd (fail_subscription err discard i b))) = map fs_key (bc_subscriptions b)"
    using i by (cases "live ?sub") (simp_all add: result dead map_update list_update_same_conv split: if_splits)
  show "\<not> live (bc_subscriptions (snd (fail_subscription err discard i b)) ! i)"
    using i new(2) by (cases "live ?sub") (simp_all add: result dead split: if_splits)
qed

lemma publish_to_ok:
  assumes ok: "fan_ok m off rec b" and i: "i < length (bc_subscriptions b)"
  shows "fst (publish_to event i b) = Inr ()"
    and "fan_ok m (off(i := off i @ [event])) rec (snd (publish_to event i b))"
    and "map fs_key (bc_subscriptions (snd (publish_to event i b))) = map fs_key (bc_subscriptions b)"
proof -
  let ?sub = "bc_subscriptions b ! i"
  let ?new = "?sub\<lparr>fs_queue := fs_queue ?sub @ [Item event]\<rparr>"
  let ?full = "int (length (fs_queue ?sub)) \<ge> fs_max_pending ?sub"
  note s = fan_ok_sub [OF ok i]
  note failed = fail_subscription_ok [OF ok i, of EventStreamOverflow True]
  have live: "live ?sub \<longleftrightarrow> \<not> (fs_closed ?sub \<or> fs_terminal_error ?sub \<noteq> None)" by (simp add: live_def)
  have dead: "publish_to event i b = (Inr (), b)" if "\<not> live ?sub"
    using that by (simp add: publish_to_def Let_def live)
  have full: "publish_to event i b = fail_subscription EventStreamOverflow True i b" if "live ?sub" "?full"
    using that by (simp add: publish_to_def Let_def live)
  have room: "publish_to event i b = (Inr (), set_subscription i ?new b)" if "live ?sub" "\<not> ?full"
    using that by (simp add: publish_to_def Let_def live put_nowait_def)
  have new: "sub_ok (bc_max_pending b) (off i @ [event]) (rec i) ?new" if "live ?sub" "\<not> ?full"
    using that s sub_ok_length [OF s that(1)] by (auto simp: sub_ok_def live_def queue_ok_step)
  consider "\<not> live ?sub" | "live ?sub" "?full" | "live ?sub" "\<not> ?full" by blast
  note cases = this
  show "fst (publish_to event i b) = Inr ()"
    by (cases rule: cases) (simp_all add: dead full room failed(1) gap_error_def)
  show "fan_ok m (off(i := off i @ [event])) rec (snd (publish_to event i b))"
  proof (cases rule: cases)
    case 1
    then show ?thesis by (simp add: dead fan_ok_offer_dead [OF ok])
  next
    case 2
    then show ?thesis using failed(2,4) by (simp add: full gap_error_def fan_ok_offer_dead)
  next
    case 3
    then show ?thesis using fan_ok_set [OF ok i new [OF 3]] by (simp add: room live_def)
  qed
  show "map fs_key (bc_subscriptions (snd (publish_to event i b))) = map fs_key (bc_subscriptions b)"
    using i by (cases rule: cases) (simp_all add: dead full room failed(3) gap_error_def map_update list_update_same_conv)
qed

lemma for_each_rule:
  assumes step: "\<And>xs x ys s. zs = xs @ x # ys \<Longrightarrow> P xs s \<Longrightarrow> fst (f x s) = Inr () \<and> P (xs @ [x]) (snd (f x s))"
    and start: "P [] s"
  shows "fst (for_each f zs s) = Inr () \<and> P zs (snd (for_each f zs s))"
proof -
  have "fst (for_each f ys s) = Inr () \<and> P zs (snd (for_each f ys s))" if "zs = xs @ ys" "P xs s" for xs ys s
    using that
  proof (induction ys arbitrary: xs s)
    case (Cons y ys)
    obtain r s' where y: "f y s = (r, s')" by (cases "f y s")
    have "r = Inr ()" "P (xs @ [y]) s'" using step [OF Cons.prems(1) Cons.prems(2)] by (simp_all add: y)
    then show ?case using Cons.IH [of "xs @ [y]" s'] Cons.prems(1) by (simp add: y)
  qed simp
  from this [of "[]" zs s] show ?thesis using start by simp
qed

text \<open>The subscriptions keep their number and their keys.\<close>

definition same_keys :: "('k, 'v) broadcaster \<Rightarrow> ('k, 'v) broadcaster \<Rightarrow> bool" where
  "same_keys b b' \<longleftrightarrow> map fs_key (bc_subscriptions b') = map fs_key (bc_subscriptions b)"

lemma same_keysD:
  "same_keys b b' \<Longrightarrow> length (bc_subscriptions b') = length (bc_subscriptions b)"
  "same_keys b b' \<Longrightarrow> i < length (bc_subscriptions b) \<Longrightarrow> fs_key (bc_subscriptions b' ! i) = fs_key (bc_subscriptions b ! i)"
  unfolding same_keys_def by (auto dest: map_eq_imp_length_eq) (metis length_map nth_map)

lemma fail_each_ok:
  assumes ok: "fan_ok m off rec b" and "gap_error err" "\<forall>i \<in> set js. i < length (bc_subscriptions b)"
  shows "fst (for_each (fail_subscription err discard) js b) = Inr () \<and>
    fan_ok m off rec (snd (for_each (fail_subscription err discard) js b))"
proof -
  let ?P = "\<lambda>xs b'. same_keys b b' \<and> fan_ok m off rec b'"
  have "fst (for_each (fail_subscription err discard) js b) = Inr () \<and>
      ?P js (snd (for_each (fail_subscription err discard) js b))"
  proof (rule for_each_rule [where P = ?P])
    fix xs x ys b' assume js: "js = xs @ x # ys" and P: "?P xs b'"
    then have "x < length (bc_subscriptions b')" using assms(3) same_keysD(1) [of b b'] by simp
    from fail_subscription_ok [OF conjunct2 [OF P] this assms(2)] P
    show "fst (fail_subscription err discard x b') = Inr () \<and> ?P (xs @ [x]) (snd (fail_subscription err discard x b'))"
      by (simp add: same_keys_def)
  qed (simp add: ok same_keys_def)
  then show ?thesis by simp
qed

lemma publish_ok:
  assumes ok: "fan_ok m off rec b"
  shows "fst (publish_event key event b) = Inr () \<and> fan_ok m (offer b key event off) rec (snd (publish_event key event b))"
proof -
  let ?js = "subscribers_of key b"
  let ?off = "\<lambda>xs i. if i \<in> set ?js - set xs then off i else offer b key event off i"
  let ?P = "\<lambda>xs b'. same_keys b b' \<and> fan_ok m (?off xs) rec b'"
  have index: "index_ok b" using ok by (simp add: fan_ok_def)
  have dead: "\<not> live (bc_subscriptions b ! i)"
    if "i < length (bc_subscriptions b)" "fs_key (bc_subscriptions b ! i) = key" "i \<notin> set ?js" for i
    using index that by (auto simp: index_ok_def)
  have start: "fan_ok m (?off []) rec b"
    by (rule fan_ok_offer [OF ok]) (use dead in \<open>auto simp: offer_def\<close>)
  have "fst (publish_event key event b) = Inr () \<and> ?P ?js (snd (publish_event key event b))"
    unfolding publish_event_def
  proof (rule for_each_rule [where P = ?P])
    fix xs x ys b' assume js: "?js = xs @ x # ys" and P: "?P xs b'"
    have x: "x < length (bc_subscriptions b)" "fs_key (bc_subscriptions b ! x) = key"
      using subscribers_ofD [OF index, of x key] by (simp_all add: js)
    then have "x < length (bc_subscriptions b')" using P same_keysD(1) [of b b'] by simp
    note step = publish_to_ok [OF conjunct2 [OF P] this, of event]
    have "(?off xs)(x := ?off xs x @ [event]) = ?off (xs @ [x])"
      using subscribers_of_distinct [OF index, of key] x by (auto simp: js offer_def)
    with step P show "fst (publish_to event x b') = Inr () \<and> ?P (xs @ [x]) (snd (publish_to event x b'))"
      by (simp add: same_keys_def)
  qed (use start in \<open>simp add: same_keys_def\<close>)
  then show ?thesis by simp
qed

lemma subscribe_ok:
  assumes ok: "fan_ok m off rec b"
  shows "fst (subscribe key initial b) = Inr (length (bc_subscriptions b)) \<and>
    fan_ok m (off(length (bc_subscriptions b) := initial)) rec (snd (subscribe key initial b))"
proof -
  let ?i = "length (bc_subscriptions b)"
  let ?sub = "\<lparr>fs_key = key, fs_queue = [], fs_max_pending = bc_max_pending b, fs_closed = False, fs_terminal_error = None\<rparr>"
  let ?b = "b\<lparr>bc_subscriptions := bc_subscriptions b @ [?sub],
      bc_subscribers := dict_set (bc_subscribers b) key (subscribers_of key b @ [?i])\<rparr>"
  let ?loop = "for_each (\<lambda>event. publish_to event ?i) initial ?b"
  let ?P = "\<lambda>xs b'. same_keys ?b b' \<and> fan_ok m (off(?i := xs)) rec b'"
  have index: "index_ok b" using ok by (simp add: fan_ok_def)
  have subs: "subscribers_of key' ?b = (if key' = key then subscribers_of key b @ [?i] else subscribers_of key' b)" for key'
    by (simp add: subscribers_of_def)
  note known = subscribers_ofD [OF index] subscribers_of_distinct [OF index]
  have "\<forall>key'. distinct (subscribers_of key' ?b) \<and>
      (\<forall>j \<in> set (subscribers_of key' ?b). j < length (bc_subscriptions ?b) \<and> fs_key (bc_subscriptions ?b ! j) = key')"
    unfolding subs using known by (auto simp: nth_append less_Suc_eq)
  moreover have "j \<in> set (subscribers_of (fs_key (bc_subscriptions ?b ! j)) ?b)"
    if "j < length (bc_subscriptions ?b)" "live (bc_subscriptions ?b ! j)" for j
    unfolding subs using index that by (auto simp: index_ok_def nth_append less_Suc_eq)
  ultimately have "index_ok ?b" using index by (simp add: index_ok_def)
  moreover have "sub_ok (bc_max_pending b) [] (rec ?i) ?sub"
    using ok by (simp add: sub_ok_def fan_ok_def queue_ok_step)
  ultimately have start: "fan_ok m (off(?i := [])) rec ?b"
    using ok by (auto simp: fan_ok_def nth_append less_Suc_eq)
  have "fst ?loop = Inr () \<and> ?P initial (snd ?loop)"
  proof (rule for_each_rule [where P = ?P])
    fix xs x ys b' assume P: "?P xs b'"
    then have "?i < length (bc_subscriptions b')" using same_keysD(1) [of ?b b'] by simp
    from publish_to_ok [OF conjunct2 [OF P] this, of x] P
    show "fst (publish_to x ?i b') = Inr () \<and> ?P (xs @ [x]) (snd (publish_to x ?i b'))"
      by (simp add: same_keys_def)
  qed (use start in \<open>simp add: same_keys_def\<close>)
  then show ?thesis by (cases ?loop) (auto simp: subscribe_def Let_def)
qed

lemma aclose_ok:
  assumes ok: "fan_ok m off rec b" and i: "i < length (bc_subscriptions b)"
  shows "fan_ok m off rec (aclose i b)"
proof (cases "fs_closed (bc_subscriptions b ! i)")
  case False
  let ?sub = "(bc_subscriptions b ! i)\<lparr>fs_closed := True\<rparr>"
  have "sub_ok (bc_max_pending b) (off i) (rec i) ?sub" using fan_ok_sub [OF ok i] by (simp add: sub_ok_def live_def)
  from fan_ok_set [OF ok i this] have "fan_ok m off rec (set_subscription i ?sub b)" by (simp add: live_def)
  then show ?thesis using False i by (simp add: aclose_def Let_def fan_ok_remove live_def)
qed (simp add: aclose_def ok)

text \<open>A read returns the next offered event, or raises the stored gap, and never anything else.\<close>

lemma take_next_ok:
  assumes ok: "fan_ok m off rec b" and i: "i < length (bc_subscriptions b)" and read: "take_next i b = Some (r, b')"
  shows "case r of Inl e \<Rightarrow> gap_error e \<and> fan_ok m off rec b' | Inr v \<Rightarrow> fan_ok m off (rec(i := rec i @ [v])) b'"
proof -
  let ?sub = "bc_subscriptions b ! i"
  note s = fan_ok_sub [OF ok i]
  show ?thesis
  proof (cases "fs_queue ?sub")
    case (Cons x rest)
    show ?thesis
    proof (cases x)
      case (Item v)
      have "sub_ok (bc_max_pending b) (off i) (rec i @ [v]) (?sub\<lparr>fs_queue := rest\<rparr>)"
        using s by (auto simp: sub_ok_def live_def Cons Item dest: queue_ok_step(3))
      from fan_ok_set [OF ok i this] show ?thesis
        using read by (auto simp: take_next_def Let_def Cons Item live_def)
    next
      case TerminalSignal
      obtain e where e: "fs_terminal_error ?sub = Some e" "rest = []" "gap_error e"
        using s by (auto simp: sub_ok_def Cons TerminalSignal dest: queue_ok_step(4))
      have "sub_ok (bc_max_pending b) (off i) (rec i) (?sub\<lparr>fs_queue := [], fs_terminal_error := None, fs_closed := True\<rparr>)"
        using s ok by (auto simp: sub_ok_def live_def Cons TerminalSignal e fan_ok_def queue_ok_step)
      from fan_ok_set [OF ok i this] show ?thesis
        using read e by (auto simp: take_next_def Let_def Cons TerminalSignal live_def)
    qed
  qed (use read in \<open>simp add: take_next_def Let_def\<close>)
qed

section \<open>The broadcaster as a system of events\<close>

text \<open>The exceptions that reach a caller: the gaps, the end of an iteration and its cancellation.\<close>

definition expected_error :: "error \<Rightarrow> bool" where
  "expected_error e \<longleftrightarrow> gap_error e \<or> e = StopAsyncIteration \<or> e = CancelledError"

definition fanout_inv :: "int \<Rightarrow> ('k, 'v) fanout \<Rightarrow> bool" where
  "fanout_inv m f \<longleftrightarrow>
     fan_ok m (fo_offered f) (fo_received f) (fo_state f) \<and> list_all expected_error (fo_raised f)"

lemma note_result_inv:
  assumes "fan_ok m (fo_offered f) (fo_received f) (snd k)" "list_all expected_error (fo_raised f)"
    and "\<And>e. fst k = Inl e \<Longrightarrow> expected_error e"
  shows "fanout_inv m (note_result f k)"
  using assms by (auto simp: note_result_def fanout_inv_def split: sum.splits)

lemma note_read_inv:
  assumes inv: "fanout_inv m f"
    and read: "\<And>r b. k = Some (r, b) \<Longrightarrow>
      case r of Inl e \<Rightarrow> expected_error e \<and> fan_ok m (fo_offered f) (fo_received f) b
              | Inr v \<Rightarrow> fan_ok m (fo_offered f) ((fo_received f)(i := fo_received f i @ [v])) b"
  shows "fanout_inv m (note_read i f k)"
proof (cases k)
  case (Some p)
  obtain r b where p: "p = (r, b)" by (cases p)
  show ?thesis
    using read [of r b] inv
    by (cases r) (auto simp: note_read_def Some p fanout_inv_def note_result_def)
qed (simp add: note_read_def inv)

lemma fanout_exec_inv:
  assumes inv: "fanout_inv m f" and addressed: "addressed ev f"
  shows "fanout_inv m (fanout_exec ev f)"
proof -
  have ok: "fan_ok m (fo_offered f) (fo_received f) (fo_state f)" and raised: "list_all expected_error (fo_raised f)"
    using inv by (simp_all add: fanout_inv_def)
  have index: "index_ok (fo_state f)" using ok by (simp add: fan_ok_def)
  show ?thesis
  proof (cases ev)
    case (Subscribe key initial)
    then show ?thesis using subscribe_ok [OF ok, of key initial] raised by (auto intro!: note_result_inv)
  next
    case (Publish key event)
    then show ?thesis using publish_ok [OF ok, of key event] raised by (auto intro!: note_result_inv)
  next
    case (FailAll err discard)
    then show ?thesis
      using fail_each_ok [OF ok, of err "concat (dict_values (bc_subscribers (fo_state f)))" discard]
        all_subscribersD [OF index] addressed raised by (auto simp: fail_all_def intro!: note_result_inv)
  next
    case (FailKey key err discard)
    then show ?thesis
      using fail_each_ok [OF ok, of err "subscribers_of key (fo_state f)" discard] subscribers_ofD [OF index]
        addressed raised by (auto simp: fail_key_def intro!: note_result_inv)
  next
    case (Close i)
    then show ?thesis using aclose_ok [OF ok, of i] addressed raised by (simp add: fanout_inv_def)
  next
    case (Next i)
    show ?thesis
      using take_next_ok [OF ok, of i] ok addressed
      by (auto simp: Next anext_def expected_error_def split: sum.splits if_splits intro!: note_read_inv [OF inv])
  next
    case (Resume i)
    show ?thesis
      using take_next_ok [OF ok, of i] addressed
      by (auto simp: Resume expected_error_def split: sum.splits intro!: note_read_inv [OF inv])
  next
    case (CancelNext i)
    then show ?thesis using aclose_ok [OF ok, of i] addressed raised
      by (auto simp: anext_cancelled_def expected_error_def intro!: note_result_inv)
  qed
qed

interpretation fanouts: event_system "fanout_init m" fanout_step "fanout_inv m" for m
proof
  show "fanout_inv m f" if "fanout_init m f" for f :: "('a, 'b) fanout"
  proof -
    have "fo_state f = \<lparr>bc_max_pending = m, bc_subscriptions = [], bc_subscribers = []\<rparr>" "1 \<le> m"
      using that by (auto simp: fanout_init_def new_broadcaster_def split: if_splits)
    then show ?thesis using that by (simp add: fanout_init_def fanout_inv_def fan_ok_def index_ok_def subscribers_of_def)
  qed
  show "fanout_inv m g" if "fanout_inv m f" "fanout_step f ev g" for f ev and g :: "('a, 'b) fanout"
    using that fanout_exec_inv [of m f ev] by (simp add: fanout_step_def)
qed

text \<open>
  C25: What a subscriber of the live fan-out receives is, in every reachable state, an unbroken beginning of the
  initial events and the events published for its key since; the pending events stay within the
  configured bound; a reader that waits on a subscription that was not closed has missed nothing;
  and no caller ever sees a full queue or an invalid signal: the exceptions are the explicit gaps,
  the end of the iteration and its cancellation.
\<close>

theorem fanout_gapless:
  assumes "reachable (fanout_init m) fanout_step f" "i < length (bc_subscriptions (fo_state f))"
  shows "prefix (fo_received f i) (fo_offered f i) \<and>
    pending_count (bc_subscriptions (fo_state f) ! i) \<le> m \<and>
    (anext i (fo_state f) = None \<longrightarrow> fo_received f i = fo_offered f i) \<and>
    set (fo_raised f) \<subseteq> {EventStreamOverflow, EventStreamReset, StopAsyncIteration, CancelledError}"
proof (intro conjI impI)
  let ?sub = "bc_subscriptions (fo_state f) ! i"
  have inv: "fanout_inv m f" by (rule fanouts.reachable_inv [OF assms(1)])
  then have ok: "sub_ok m (fo_offered f i) (fo_received f i) ?sub"
    using fan_ok_sub assms(2) by (auto simp: fanout_inv_def fan_ok_def)
  then show "prefix (fo_received f i) (fo_offered f i)" by (auto simp: sub_ok_def dest: append_prefixD)
  show "pending_count ?sub \<le> m"
    using ok inv by (auto simp: sub_ok_def pending_count_def queue_ok_length queue_ok_pending fanout_inv_def fan_ok_def)
  show "fo_received f i = fo_offered f i" if "anext i (fo_state f) = None"
    using ok that
    by (auto simp: anext_def take_next_def Let_def sub_ok_def live_def queue_ok_def split: if_splits list.splits signal.splits)
  show "set (fo_raised f) \<subseteq> {EventStreamOverflow, EventStreamReset, StopAsyncIteration, CancelledError}"
    using inv by (auto simp: fanout_inv_def list_all_iff expected_error_def gap_error_def)
qed

section \<open>A concrete fan-out\<close>

fun fanout_run :: "('k, 'v) fanout_event list \<Rightarrow> ('k, 'v) fanout \<Rightarrow> ('k, 'v) fanout option" where
  "fanout_run [] f = Some f"
| "fanout_run (ev # evs) f = (if addressed ev f then fanout_run evs (fanout_exec ev f) else None)"

lemma fanout_run_reachable:
  "fanout_run evs f = Some g \<Longrightarrow> reachable (fanout_init m) fanout_step f \<Longrightarrow> reachable (fanout_init m) fanout_step g"
proof (induction evs arbitrary: f)
  case (Cons ev evs)
  then have step: "fanout_step f ev (fanout_exec ev f)" and rest: "fanout_run evs (fanout_exec ev f) = Some g"
    by (simp_all add: fanout_step_def split: if_splits)
  show ?case by (rule Cons.IH [OF rest reachable_step [OF Cons.prems(2) step]])
qed simp

definition empty_fanout :: "(nat, nat) fanout" where
  "empty_fanout = \<lparr>fo_state = \<lparr>bc_max_pending = 2, bc_subscriptions = [], bc_subscribers = []\<rparr>,
     fo_offered = (\<lambda>_. []), fo_received = (\<lambda>_. []), fo_raised = []\<rparr>"

text \<open>
  Two subscribers of one key; the second falls behind and reads the overflow, the first reads on.
\<close>

definition slow_reader :: "(nat, nat) fanout_event list" where
  "slow_reader = [Subscribe 7 [1], Subscribe 7 [], Publish 7 2, Next 0, Next 0, Publish 7 3, Publish 8 9, Publish 7 4,
     Next 0, Next 0, Next 1]"

lemma slow_reader_run:
  "map_option (\<lambda>f. (fo_received f 0, fo_offered f 0, fo_received f 1, fo_offered f 1, fo_raised f,
      length (bc_subscriptions (fo_state f)), anext 0 (fo_state f) = None)) (fanout_run slow_reader empty_fanout) =
   Some ([1, 2, 3, 4], [1, 2, 3, 4], [], [2, 3, 4], [EventStreamOverflow], 2, True)"
  by code_simp

theorem fanout_gapless_witness:
  "\<exists>f :: (nat, nat) fanout. reachable (fanout_init 2) fanout_step f \<and> fo_received f 0 = fo_offered f 0 \<and> fo_offered f 0 = [1, 2, 3, 4::nat] \<and>
    fo_received f 1 \<noteq> fo_offered f 1 \<and> prefix (fo_received f 1) (fo_offered f 1) \<and> fo_raised f = [EventStreamOverflow] \<and>
    pending_count (bc_subscriptions (fo_state f) ! 1) \<le> (2::int)"
proof -
  obtain f where f: "fanout_run slow_reader empty_fanout = Some f"
      "fo_offered f 0 = [1, 2, 3, 4]" "fo_received f 1 \<noteq> fo_offered f 1" "fo_raised f = [EventStreamOverflow]"
      "length (bc_subscriptions (fo_state f)) = 2" "anext 0 (fo_state f) = None"
    using slow_reader_run by (auto simp: map_option_eq_Some)
  have "reachable (fanout_init 2) fanout_step empty_fanout"
    by (rule reachable_init) (simp add: fanout_init_def empty_fanout_def new_broadcaster_def)
  then have reach: "reachable (fanout_init 2) fanout_step f" by (rule fanout_run_reachable [OF f(1)])
  then show ?thesis
    using fanout_gapless [OF reach, of 0] fanout_gapless [OF reach, of 1] reach f(2-6) by auto
qed

section \<open>Inbound messages during startup\<close>

record 'a startup_admission =
  su_max_pending :: int
  su_entries :: "'a list"
  su_overflow :: bool
  su_overflow_count :: int

definition new_startup_admission :: "int \<Rightarrow> 'a startup_admission res" where
  "new_startup_admission max_pending =
     (if max_pending < 1 then Inl ValueError
      else Inr \<lparr>su_max_pending = max_pending, su_entries = [], su_overflow = False, su_overflow_count = 0\<rparr>)"

definition startup_reset :: "'a startup_admission \<Rightarrow> 'a startup_admission" where
  "startup_reset s = s\<lparr>su_entries := [], su_overflow := False\<rparr>"

definition startup_clear :: "'a startup_admission \<Rightarrow> 'a startup_admission" where
  "startup_clear s = s\<lparr>su_entries := []\<rparr>"

definition raise_if_overflowed :: "'a startup_admission \<Rightarrow> check" where
  "raise_if_overflowed s = raise_if (su_overflow s) GatewayStartupOverflow"

definition admit :: "'a \<Rightarrow> 'a startup_admission \<Rightarrow> ('a startup_admission, unit) outcome" where
  "admit entry s = guarded (raise_if_overflowed s) s
     (if int (length (su_entries s)) \<ge> su_max_pending s
      then (Inl GatewayStartupOverflow, s\<lparr>su_overflow_count := su_overflow_count s + 1, su_overflow := True\<rparr>)
      else (Inr (), s\<lparr>su_entries := su_entries s @ [entry]\<rparr>))"

definition popleft :: "'a startup_admission \<Rightarrow> ('a startup_admission, 'a) outcome" where
  "popleft s = (case su_entries s of [] \<Rightarrow> (Inl IndexError, s) | x # xs \<Rightarrow> (Inr x, s\<lparr>su_entries := xs\<rparr>))"

datatype 'a startup_op = Admit 'a | PopLeft

fun startup_exec :: "'a startup_op \<Rightarrow> 'a startup_admission \<Rightarrow> ('a startup_admission, 'a option) outcome" where
  "startup_exec (Admit x) s = (case admit x s of (r, s) \<Rightarrow> (map_sum id (\<lambda>_. None) r, s))"
| "startup_exec PopLeft s = (case popleft s of (r, s) \<Rightarrow> (map_sum id Some r, s))"

fun admitted_of :: "('a startup_op \<times> 'a option res) list \<Rightarrow> 'a list" where
  "admitted_of [] = []"
| "admitted_of ((Admit x, Inr v) # rs) = x # admitted_of rs"
| "admitted_of (r # rs) = admitted_of rs"

fun popped_of :: "('a startup_op \<times> 'a option res) list \<Rightarrow> 'a list" where
  "popped_of [] = []"
| "popped_of ((PopLeft, Inr (Some x)) # rs) = x # popped_of rs"
| "popped_of (r # rs) = popped_of rs"

lemma startup_fifo:
  "su_entries s @ admitted_of (zip ops (results_ops startup_exec ops s)) =
   popped_of (zip ops (results_ops startup_exec ops s)) @ su_entries (run_ops startup_exec ops s)"
proof (induction ops arbitrary: s)
  case (Cons c ops)
  show ?case
  proof (cases c)
    case (Admit x)
    then show ?thesis using Cons.IH [of s] Cons.IH [of "snd (admit x s)"]
      by (auto simp: admit_def raise_if_overflowed_def raise_if_def)
  next
    case PopLeft
    then show ?thesis using Cons.IH [of "snd (popleft s)"]
      by (auto simp: popleft_def split: list.splits)
  qed
qed simp

interpretation startups: op_system startup_exec "\<lambda>s. int (length (su_entries s)) \<le> su_max_pending s"
proof
  show "int (length (su_entries (snd (startup_exec c s)))) \<le> su_max_pending (snd (startup_exec c s))"
    if "int (length (su_entries s)) \<le> su_max_pending s" for s :: "'a startup_admission" and c
    using that by (cases c) (auto simp: admit_def popleft_def raise_if_overflowed_def raise_if_def split: list.splits)
qed

text \<open>After an overflow nothing is admitted until the buffer is reset.\<close>

lemma startup_overflow_sticky:
  "su_overflow s \<Longrightarrow> su_overflow (run_ops startup_exec ops s) \<and>
     admitted_of (zip ops (results_ops startup_exec ops s)) = []"
proof (induction ops arbitrary: s)
  case (Cons c ops)
  show ?case
  proof (cases c)
    case (Admit x)
    then show ?thesis using Cons.IH [OF Cons.prems] Cons.prems
      by (simp add: admit_def raise_if_overflowed_def)
  next
    case PopLeft
    then show ?thesis using Cons.IH [of "snd (popleft s)"] Cons.prems
      by (auto simp: popleft_def split: list.splits)
  qed
qed simp

end
