(* ===== verification/Projection_Recovery.thy ===== *)
theory Projection_Recovery
  imports Projection_Routes Delivery_Planning
begin

text \<open>
  Recovery of a projection (\<open>gateway/projection/recovery.py\<close>): reading the native history of a thread
  back to the checkpoint of a route, and delivering what was missed along that route
  (\<open>deliver_projected_message\<close> and the authoritative pass of \<open>gateway/projection/observation.py\<close>), with
  the history contracts of \<open>applications/contract.py\<close>.

  What a recovery awaits is a parameter over the whole state (\<open>projection_io\<close>), so other tasks may
  change the state during every await: the native application, the channel delivery, the turn
  correlation, the acceptance gate and the lock of the route. The diagnostics callbacks are
  parameters too. An asyncio event is a number; \<open>ps_set_events\<close> lists the events that are set.
\<close>

section \<open>Native history\<close>

datatype message_role = ROLE_USER | ROLE_ASSISTANT | ROLE_SYSTEM | ROLE_TOOL

datatype turn_status = TURN_IDLE | TURN_RUNNING | TURN_COMPLETED | TURN_FAILED | TURN_INTERRUPTED | TURN_UNKNOWN

record agent_message =
  am_agent_item_id :: string
  am_thread_ref :: thread_ref
  am_role :: message_role
  am_content :: "content list"
  am_created_at :: datetime
  am_client_message_id :: "string option"
  am_metadata :: "(string, meta_value) dict"

record turn_catchup =
  tk_thread_ref :: thread_ref
  tk_turn_ref :: "turn_ref option"
  tk_status :: turn_status
  tk_messages :: "agent_message list"
  tk_updated_at :: "datetime option"

record turn_history_entry =
  he_turn_ref :: turn_ref
  he_status :: turn_status
  he_user_message :: "agent_message option"
  he_agent_messages :: "agent_message list"
  he_error :: "string option"
  he_had_compaction :: bool

record thread_history =
  hy_thread_ref :: thread_ref
  hy_turns :: "turn_history_entry list"
  hy_page :: int
  hy_has_older :: bool

definition validate_agent_message :: "agent_message \<Rightarrow> check" where
  "validate_agent_message message = first_error [
     require_identifier (am_agent_item_id message), validate_thread_ref (am_thread_ref message)]"

definition validate_turn_catchup :: "turn_catchup \<Rightarrow> check" where
  "validate_turn_catchup catchup = first_error (
     [validate_thread_ref (tk_thread_ref catchup),
      case tk_turn_ref catchup of
        None \<Rightarrow> raise_if (tk_status catchup \<noteq> TURN_IDLE) ContractViolation
      | Some turn \<Rightarrow> first_error [validate_turn_ref turn,
          raise_if (tn_thread_ref turn \<noteq> tk_thread_ref catchup) ContractViolation]] @
     map (\<lambda>message. first_error [validate_agent_message message,
        raise_if (am_thread_ref message \<noteq> tk_thread_ref catchup) ContractViolation]) (tk_messages catchup))"

definition validate_turn_history_entry :: "turn_history_entry \<Rightarrow> check" where
  "validate_turn_history_entry entry = first_error (
     validate_turn_ref (he_turn_ref entry) #
     map (\<lambda>message. first_error [validate_agent_message message,
        raise_if (am_thread_ref message \<noteq> tn_thread_ref (he_turn_ref entry)) ContractViolation])
       ((case he_user_message entry of None \<Rightarrow> [] | Some m \<Rightarrow> [m]) @ he_agent_messages entry))"

definition validate_thread_history :: "thread_history \<Rightarrow> check" where
  "validate_thread_history history = first_error (
     [validate_thread_ref (hy_thread_ref history), raise_if (hy_page history < 1) ContractViolation] @
     map (\<lambda>entry. first_error [validate_turn_history_entry entry,
        raise_if (tn_thread_ref (he_turn_ref entry) \<noteq> hy_thread_ref history) ContractViolation]) (hy_turns history))"

section \<open>State and collaborators\<close>

datatype application_read =
    GetThreadHistory string application_ref thread_ref int int datetime
  | GetTurnCatchup string application_ref thread_ref int datetime

datatype application_read_result =
    ThreadHistoryRead thread_history
  | TurnCatchupRead turn_catchup
  | OtherOperationResult

record 'w projection_state =
  ps_projections :: projection_repository
  ps_blocked_routes :: "string list"
  ps_bootstrap :: "(string, nat) dict"
  ps_bootstrap_pending :: "string list"
  ps_action_users :: "(string, nat list) dict"
  ps_action_retained :: "(string, nat) dict"
  ps_set_events :: "nat list"
  ps_next_event :: nat
  ps_world :: 'w

record 'w projection_io =
  io_execute :: "application_read \<Rightarrow> 'w projection_state \<Rightarrow> ('w projection_state, application_read_result) outcome"
  io_deliver_outbound :: "outbound_message \<Rightarrow> bool \<Rightarrow> 'w projection_state \<Rightarrow> ('w projection_state, idempotency_claim_status) outcome"
  io_ensure_turn :: "(thread_ref \<Rightarrow> string \<Rightarrow> 'w projection_state \<Rightarrow> ('w projection_state, unit) outcome) option"
  io_wait_for_acceptance :: "thread_ref \<Rightarrow> 'w projection_state \<Rightarrow> ('w projection_state, unit) outcome"
  io_acquire_lock :: "string \<Rightarrow> 'w projection_state \<Rightarrow> ('w projection_state, unit) outcome"
  io_record_gap :: "thread_ref \<Rightarrow> string \<Rightarrow> string \<Rightarrow> 'w projection_state \<Rightarrow> 'w projection_state"
  io_record_delivery_failure :: "thread_projection_route \<Rightarrow> error \<Rightarrow> 'w projection_state \<Rightarrow> 'w projection_state"
  io_now :: "'w projection_state \<Rightarrow> datetime"

section \<open>Bounded reads\<close>

record projected_agent_message =
  pm_message :: agent_message
  pm_turn_id :: "string option"
  pm_event_id :: "string option"
  pm_checkpoint :: bool

record authoritative_projection_slice =
  as_messages :: "projected_agent_message list"
  as_pages_read :: int
  as_checkpoint_found :: bool
  as_gap :: "string option"

record recovery_limits =
  rl_baseline_history_limit :: int
  rl_recovery_history_page_size :: int
  rl_recovery_max_pages :: int
  rl_catchup_limit :: int
  rl_projection_item_limit :: int
  rl_retry_initial_seconds :: duration
  rl_retry_max_seconds :: duration

fun finite_non_negative_number :: "duration \<Rightarrow> bool" where
  "finite_non_negative_number (Micros n) = (0 \<le> n)"
| "finite_non_negative_number NonFinite = False"

fun below_duration :: "duration \<Rightarrow> duration \<Rightarrow> bool" where
  "below_duration (Micros m) (Micros n) = (m < n)"
| "below_duration x y = False"

definition validate_recovery_limits :: "recovery_limits \<Rightarrow> check" where
  "validate_recovery_limits limits = first_error (
     map (\<lambda>n. raise_if (n < 1) ValueError)
       [rl_baseline_history_limit limits, rl_recovery_history_page_size limits, rl_recovery_max_pages limits,
        rl_catchup_limit limits, rl_projection_item_limit limits] @
     [raise_if (\<not> finite_non_negative_number (rl_retry_initial_seconds limits)) ValueError,
      raise_if (\<not> finite_non_negative_number (rl_retry_max_seconds limits)) ValueError,
      raise_if (below_duration (rl_retry_max_seconds limits) (rl_retry_initial_seconds limits)) ValueError])"

abbreviation item_id :: "projected_agent_message \<Rightarrow> string" where
  "item_id item \<equiv> am_agent_item_id (pm_message item)"

definition recovered_item :: "string option \<Rightarrow> agent_message \<Rightarrow> projected_agent_message" where
  "recovered_item turn_id message =
     \<lparr>pm_message = message, pm_turn_id = turn_id, pm_event_id = None, pm_checkpoint = True\<rparr>"

definition turn_items :: "turn_history_entry \<Rightarrow> projected_agent_message list" where
  "turn_items turn = map (recovered_item (Some (tn_turn_id (he_turn_ref turn)))) (he_agent_messages turn)"

definition history_items :: "turn_history_entry list \<Rightarrow> projected_agent_message list" where
  "history_items turns = concat (map turn_items turns)"

definition catchup_items :: "turn_catchup \<Rightarrow> projected_agent_message list" where
  "catchup_items catchup = map (recovered_item (map_option tn_turn_id (tk_turn_ref catchup))) (tk_messages catchup)"

definition history_operation_id :: "string \<Rightarrow> int \<Rightarrow> string" where
  "history_operation_id scope page = scope @ '':thread.history:'' @ decimal_int page"

definition catchup_operation_id :: "string \<Rightarrow> string" where
  "catchup_operation_id scope = scope @ '':turn.catchup''"

text \<open>The loop over the pages, newest first; it returns the pages read in this order.\<close>

function scan_history ::
  "'w projection_io \<Rightarrow> application_ref \<Rightarrow> string \<Rightarrow> thread_ref \<Rightarrow> string option \<Rightarrow> int \<Rightarrow> int \<Rightarrow> int \<Rightarrow>
   projected_agent_message list list \<Rightarrow> string option \<Rightarrow> 'w projection_state \<Rightarrow>
   ('w projection_state, projected_agent_message list list \<times> bool \<times> string option) outcome" where
  "scan_history io application scope thread checkpoint limit max_pages page pages gap s =
     (if max_pages < page then returns (pages, False, gap) s
      else case io_execute io
          (GetThreadHistory (history_operation_id scope page) application thread limit page (io_now io s)) s of
          (Inl e, s) \<Rightarrow> (Inl e, s)
        | (Inr (ThreadHistoryRead history), s) \<Rightarrow>
            (let items = history_items (hy_turns history); pages = pages @ [items] in
             case checkpoint of
               None \<Rightarrow> returns (pages, False, gap) s
             | Some c \<Rightarrow>
                 if c \<in> set (map item_id items) then returns (pages, True, gap) s
                 else if \<not> hy_has_older history then returns (pages, False, Some ''checkpoint_missing'') s
                 else if page = max_pages then returns (pages, False, Some ''checkpoint_out_of_window'') s
                 else scan_history io application scope thread checkpoint limit max_pages (page + 1) pages gap s)
        | (Inr _, s) \<Rightarrow> raises ProjectionRecoveryUnavailable s)"
  by pat_completeness auto
termination
  by (relation "measure (\<lambda>(_, _, _, _, _, _, max_pages, page, _). nat (max_pages + 1 - page))") auto

declare scan_history.simps [simp del]

definition after_checkpoint :: "string \<Rightarrow> projected_agent_message list \<Rightarrow> projected_agent_message list" where
  "after_checkpoint c items = tl (dropWhile (\<lambda>item. item_id item \<noteq> c) items)"

fun deduplicated :: "string list \<Rightarrow> projected_agent_message list \<Rightarrow> projected_agent_message list" where
  "deduplicated seen [] = []"
| "deduplicated seen (item # items) =
     (if item_id item \<in> set seen then deduplicated seen items
      else item # deduplicated (item_id item # seen) items)"

definition bounded_slice ::
  "int \<Rightarrow> projected_agent_message list \<Rightarrow> int \<Rightarrow> bool \<Rightarrow> string option \<Rightarrow> authoritative_projection_slice" where
  "bounded_slice limit items pages_read found gap =
     (if int (length items) > limit
      then \<lparr>as_messages = (if found then take (nat limit) items else drop (length items - nat limit) items),
            as_pages_read = pages_read, as_checkpoint_found = found,
            as_gap = (case gap of None \<Rightarrow> Some ''projection_window_truncated'' | Some g \<Rightarrow> Some g)\<rparr>
      else \<lparr>as_messages = items, as_pages_read = pages_read, as_checkpoint_found = found, as_gap = gap\<rparr>)"

definition recovery_scope :: "(string \<Rightarrow> string) \<Rightarrow> thread_ref \<Rightarrow> string" where
  "recovery_scope sha256 thread = derive_projection_route_id sha256 thread
     \<lparr>cv_channel_instance_id = ''gateway'', cv_native_conversation_id = ''authoritative-recovery''\<rparr>"

definition read_bounded_authoritative_projection ::
  "(string \<Rightarrow> string) \<Rightarrow> 'w projection_io \<Rightarrow> application_ref \<Rightarrow> recovery_limits \<Rightarrow> bool \<Rightarrow> thread_projection_route \<Rightarrow>
   'w projection_state \<Rightarrow> ('w projection_state, authoritative_projection_slice) outcome" where
  "read_bounded_authoritative_projection sha256 io application limits require_checkpoint route s =
     guarded (raise_if (rl_projection_item_limit limits < 1) ValueError) s
       (let thread = pr_thread_ref route; checkpoint = pr_checkpoint_agent_item_id route;
            scope = recovery_scope sha256 thread;
            history_limit = (if checkpoint = None then rl_baseline_history_limit limits else rl_recovery_history_page_size limits);
            max_pages = (if checkpoint = None then 1 else rl_recovery_max_pages limits);
            gap = (if checkpoint = None \<and> require_checkpoint then Some ''checkpoint_missing'' else None)
        in case scan_history io application scope thread checkpoint history_limit max_pages 1 [] gap s of
             (Inl e, s) \<Rightarrow> (Inl e, s)
           | (Inr (pages, found, gap), s) \<Rightarrow>
               (case io_execute io (GetTurnCatchup (catchup_operation_id scope) application thread (rl_catchup_limit limits) (io_now io s)) s of
                  (Inl e, s) \<Rightarrow> (Inl e, s)
                | (Inr (TurnCatchupRead catchup), s) \<Rightarrow>
                    (let items = concat (rev pages);
                         items = (case checkpoint of Some c \<Rightarrow> if found then after_checkpoint c items else items | None \<Rightarrow> items);
                         items = deduplicated [] (items @ catchup_items catchup)
                     in returns (bounded_slice (rl_projection_item_limit limits) items (int (length pages)) found gap) s)
                | (Inr _, s) \<Rightarrow> raises ProjectionRecoveryUnavailable s))"

section \<open>Replay or authoritative recovery\<close>

datatype recovery_mode = REPLAY | AUTHORITATIVE

record 'e thread_recovery =
  tr_mode :: recovery_mode
  tr_events :: 'e
  tr_history :: "thread_history option"
  tr_catchup :: "turn_catchup option"
  tr_cursor_expired :: bool

datatype support_level = SUPPORT_NATIVE | SUPPORT_FALLBACK | SUPPORT_UNSUPPORTED

text \<open>What recovery uses of an application adapter; closing a stream may raise.\<close>

record ('w, 'e) recovery_application =
  ra_ref :: application_ref
  ra_replay_from_cursor :: support_level
  ra_interactive_requests :: support_level
  ra_pending_request_snapshot :: support_level
  ra_subscribe_thread :: "thread_ref \<Rightarrow> string option \<Rightarrow> 'w projection_state \<Rightarrow> ('w projection_state, 'e) outcome"
  ra_execute :: "application_read \<Rightarrow> 'w projection_state \<Rightarrow> ('w projection_state, application_read_result) outcome"
  ra_close :: "'e \<Rightarrow> 'w projection_state \<Rightarrow> check \<times> 'w projection_state"

text \<open>The two reads behind a live subscription; the results are examined after both returned.\<close>

definition read_history_and_catchup ::
  "('w, 'e) recovery_application \<Rightarrow> thread_ref \<Rightarrow> string \<Rightarrow> int \<Rightarrow> int \<Rightarrow> datetime \<Rightarrow> 'w projection_state \<Rightarrow>
   ('w projection_state, thread_history \<times> turn_catchup) outcome" where
  "read_history_and_catchup application thread recovery_id history_limit catchup_limit created_at s =
     (case ra_execute application (GetThreadHistory (recovery_id @ '':thread.history'') (ra_ref application) thread history_limit 1 created_at) s of
        (Inl e, s) \<Rightarrow> (Inl e, s)
      | (Inr history_result, s) \<Rightarrow>
          (case ra_execute application (GetTurnCatchup (recovery_id @ '':turn.catchup'') (ra_ref application) thread catchup_limit created_at) s of
             (Inl e, s) \<Rightarrow> (Inl e, s)
           | (Inr catchup_result, s) \<Rightarrow>
               (case (history_result, catchup_result) of
                  (ThreadHistoryRead history, TurnCatchupRead catchup) \<Rightarrow> returns (history, catchup) s
                | _ \<Rightarrow> raises RuntimeError s)))"

definition recover_authoritative ::
  "('w, 'e) recovery_application \<Rightarrow> datetime \<Rightarrow> thread_ref \<Rightarrow> string \<Rightarrow> int \<Rightarrow> int \<Rightarrow> bool \<Rightarrow> 'w projection_state \<Rightarrow>
   ('w projection_state, 'e thread_recovery) outcome" where
  "recover_authoritative application now thread recovery_id history_limit catchup_limit expired s =
     (case ra_subscribe_thread application thread None s of
        (Inl e, s) \<Rightarrow> (Inl e, s)
      | (Inr events, s) \<Rightarrow>
          (case read_history_and_catchup application thread recovery_id history_limit catchup_limit now s of
             (Inl e, s) \<Rightarrow>
               (case ra_close application events s of (None, s) \<Rightarrow> (Inl e, s) | (Some e', s) \<Rightarrow> (Inl e', s))
           | (Inr (history, catchup), s) \<Rightarrow>
               returns \<lparr>tr_mode = AUTHORITATIVE, tr_events = events, tr_history = Some history,
                        tr_catchup = Some catchup, tr_cursor_expired = expired\<rparr> s))"

definition recover_thread ::
  "('w, 'e) recovery_application \<Rightarrow> datetime \<Rightarrow> thread_ref \<Rightarrow> string \<Rightarrow> string option \<Rightarrow> int \<Rightarrow> int \<Rightarrow> 'w projection_state \<Rightarrow>
   ('w projection_state, 'e thread_recovery) outcome" where
  "recover_thread application now thread recovery_id after_cursor history_limit catchup_limit s =
     guarded (first_error [
         raise_if (history_limit < 1) ValueError, raise_if (catchup_limit < 1) ValueError,
         raise_if (pj_application_instance_id (th_project_ref thread) \<noteq> ar_application_instance_id (ra_ref application)) ValueError]) s
       (if after_cursor \<noteq> None \<and> ra_replay_from_cursor application \<noteq> SUPPORT_UNSUPPORTED
        then case ra_subscribe_thread application thread after_cursor s of
            (Inr events, s) \<Rightarrow>
              returns \<lparr>tr_mode = REPLAY, tr_events = events, tr_history = None, tr_catchup = None, tr_cursor_expired = False\<rparr> s
          | (Inl e, s) \<Rightarrow>
              if e = CursorExpired
              then recover_authoritative application now thread recovery_id history_limit catchup_limit True s
              else (Inl e, s)
        else recover_authoritative application now thread recovery_id history_limit catchup_limit False s)"

definition request_recovery_is_degraded :: "('w, 'e) recovery_application \<Rightarrow> bool" where
  "request_recovery_is_degraded application \<longleftrightarrow>
     ra_interactive_requests application \<noteq> SUPPORT_UNSUPPORTED \<and> ra_pending_request_snapshot application \<noteq> SUPPORT_NATIVE"

section \<open>The supervisor's failure record\<close>

record recovery_attempt =
  rt_restart_count :: nat
  rt_needs_reconciliation :: bool
  rt_require_checkpoint :: bool
  rt_reconcile_requests :: bool

definition start_attempt :: "bool \<Rightarrow> bool \<Rightarrow> recovery_attempt" where
  "start_attempt reconcile_existing require_checkpoint =
     \<lparr>rt_restart_count = 0, rt_needs_reconciliation = reconcile_existing,
      rt_require_checkpoint = require_checkpoint, rt_reconcile_requests = False\<rparr>"

text \<open>The exceptions that the supervisor tells apart, with the text or the gap code it keeps.\<close>

datatype worker_failure =
    RecoveryUnavailable string
  | StreamGap string
  | BufferOverflow string
  | OtherFailure string

record recovery_health =
  rh_event_overflow_count :: int
  rh_last_subscription_error :: "string option"
  rh_last_recovery_error :: "string option"
  rh_last_gap :: "string option"
  rh_last_event_gap :: "string option"
  rh_last_event_overflow :: "string option"

record recovery_failure =
  rf_restart_count :: nat
  rf_retry_delay :: int
  rf_health :: recovery_health
  rf_degraded :: bool

definition no_health :: recovery_health where
  "no_health = \<lparr>rh_event_overflow_count = 0, rh_last_subscription_error = None, rh_last_recovery_error = None,
     rh_last_gap = None, rh_last_event_gap = None, rh_last_event_overflow = None\<rparr>"

fun classify_failure :: "worker_failure \<Rightarrow> recovery_health \<Rightarrow> recovery_health" where
  "classify_failure (RecoveryUnavailable text) h = h\<lparr>rh_last_recovery_error := Some text, rh_last_subscription_error := None\<rparr>"
| "classify_failure (StreamGap code) h =
     h\<lparr>rh_last_gap := Some code, rh_last_event_gap := Some code, rh_last_subscription_error := None\<rparr>"
| "classify_failure (BufferOverflow code) h =
     h\<lparr>rh_last_gap := Some code, rh_last_event_gap := Some code, rh_last_subscription_error := None,
       rh_last_event_overflow := Some code, rh_event_overflow_count := rh_event_overflow_count h + 1\<rparr>"
| "classify_failure (OtherFailure text) h = h\<lparr>rh_last_subscription_error := Some text\<rparr>"

fun duration_micros :: "duration \<Rightarrow> int" where
  "duration_micros (Micros n) = n"
| "duration_micros NonFinite = 0"

definition retry_delay_micros :: "recovery_limits \<Rightarrow> nat \<Rightarrow> int" where
  "retry_delay_micros limits restart_count =
     min (duration_micros (rl_retry_initial_seconds limits) * 2 ^ min (restart_count - 1) 30)
         (duration_micros (rl_retry_max_seconds limits))"

definition record_failure ::
  "recovery_limits \<Rightarrow> worker_failure \<Rightarrow> ('w, 'e) recovery_application option \<Rightarrow> recovery_health option \<Rightarrow>
   recovery_attempt \<Rightarrow> recovery_failure \<times> recovery_attempt" where
  "record_failure limits failure application current_health attempt =
     (let count = rt_restart_count attempt + 1;
          health = classify_failure failure (case current_health of None \<Rightarrow> no_health | Some h \<Rightarrow> h)
      in (\<lparr>rf_restart_count = count, rf_retry_delay = retry_delay_micros limits count, rf_health = health,
           rf_degraded = (case application of None \<Rightarrow> False | Some a \<Rightarrow> request_recovery_is_degraded a)\<rparr>,
          \<lparr>rt_restart_count = count, rt_needs_reconciliation = True, rt_require_checkpoint = True, rt_reconcile_requests = True\<rparr>))"

section \<open>Delivery along a route\<close>

text \<open>
  \<open>immutable_projection_metadata\<close>; an object that JSON cannot carry is no bounded scalar.
\<close>

fun projection_metadata_value :: "meta_value \<Rightarrow> check" where
  "projection_metadata_value (MetaJson (JStr t)) = raise_if (length t > 256) ValueError"
| "projection_metadata_value (MetaJson JNull) = None"
| "projection_metadata_value (MetaJson (JBool b)) = None"
| "projection_metadata_value (MetaJson (JInt n)) = raise_if (\<not> (- (2 ^ 63) \<le> n \<and> n \<le> 2 ^ 63 - 1)) ValueError"
| "projection_metadata_value _ = Some ValueError"

definition immutable_projection_metadata :: "(string, meta_value) dict \<Rightarrow> (string, meta_value) dict res" where
  "immutable_projection_metadata metadata =
     checked (first_error (raise_if (length metadata > 16) ValueError #
         map (\<lambda>(key, v). first_error [raise_if (key = [] \<or> length key > 64) ValueError, projection_metadata_value v]) metadata))
       (Inr metadata)"

fun projected_content :: "content \<Rightarrow> content" where
  "projected_content (TextContent t f) = TextContent t MARKDOWN"
| "projected_content (AttachmentContent a) = AttachmentContent a"

type_synonym 'w lifecycle = "('w projection_state \<Rightarrow> check) option"

definition validate_lifecycle :: "'w lifecycle \<Rightarrow> 'w projection_state \<Rightarrow> check" where
  "validate_lifecycle v s = (case v of None \<Rightarrow> None | Some f \<Rightarrow> f s)"

definition projected_delivery_id ::
  "(string \<Rightarrow> string) \<Rightarrow> thread_projection_route \<Rightarrow> projected_agent_message \<Rightarrow> string res" where
  "projected_delivery_id sha256 route projected =
     (if pm_checkpoint projected
      then Inr (derive_projection_delivery_id sha256 (pr_conversation_ref route) (am_thread_ref (pm_message projected)) (item_id projected) 0)
      else case pm_event_id projected of
          None \<Rightarrow> Inl ValueError
        | Some event_id \<Rightarrow>
            if event_id = [] then Inl ValueError
            else Inr (derive_live_projection_delivery_id sha256 (pr_conversation_ref route) (am_thread_ref (pm_message projected)) event_id))"

definition ensure_turn :: "'w projection_io \<Rightarrow> thread_ref \<Rightarrow> string \<Rightarrow> 'w projection_state \<Rightarrow> ('w projection_state, unit) outcome" where
  "ensure_turn io thread turn_id s = (case io_ensure_turn io of None \<Rightarrow> returns () s | Some f \<Rightarrow> f thread turn_id s)"

definition projected_reply_to ::
  "'w projection_io \<Rightarrow> 'w lifecycle \<Rightarrow> thread_projection_route \<Rightarrow> projected_agent_message \<Rightarrow> 'w projection_state \<Rightarrow>
   ('w projection_state, string option) outcome" where
  "projected_reply_to io v route projected s =
     (case pm_turn_id projected of
        None \<Rightarrow> returns (pr_reply_to_message_id route) s
      | Some turn_id \<Rightarrow>
          (case ensure_turn io (pr_thread_ref route) turn_id s of
             (Inl e, s) \<Rightarrow> (Inl e, s)
           | (Inr u, s) \<Rightarrow>
               guarded (validate_lifecycle v s) s
                 (returns (case get_turn_reply_correlation (pr_thread_ref route) turn_id (ps_projections s) of
                     None \<Rightarrow> pr_reply_to_message_id route
                   | Some correlation \<Rightarrow>
                       if tc_conversation_ref correlation = pr_conversation_ref route then Some (tc_reply_to_message_id correlation)
                       else pr_reply_to_message_id route) s)))"

definition advance_in_state ::
  "string \<Rightarrow> string option \<Rightarrow> string \<Rightarrow> datetime \<Rightarrow> 'w projection_state \<Rightarrow> ('w projection_state, thread_projection_route) outcome" where
  "advance_in_state route_id expected item now s =
     (case advance_projection_checkpoint route_id expected item now (ps_projections s) of
        (r, p) \<Rightarrow> (r, s\<lparr>ps_projections := p\<rparr>))"

definition projected_outbound ::
  "thread_projection_route \<Rightarrow> projected_agent_message \<Rightarrow> string \<Rightarrow> string option \<Rightarrow> (string, meta_value) dict \<Rightarrow> outbound_message" where
  "projected_outbound route projected delivery_id reply_to metadata =
     \<lparr>om_delivery_id = delivery_id, om_conversation_ref = pr_conversation_ref route,
      om_content = map projected_content (am_content (pm_message projected)),
      om_created_at = am_created_at (pm_message projected), om_reply_to = reply_to, om_metadata = metadata\<rparr>"

definition deliver_projected_message ::
  "(string \<Rightarrow> string) \<Rightarrow> 'w projection_io \<Rightarrow> 'w lifecycle \<Rightarrow> bool \<Rightarrow> thread_projection_route \<Rightarrow> projected_agent_message \<Rightarrow>
   'w projection_state \<Rightarrow> ('w projection_state, thread_projection_route) outcome" where
  "deliver_projected_message sha256 io v authoritative route projected s =
     guarded (validate_lifecycle v s) s
       (with_res (projected_delivery_id sha256 route projected) s (\<lambda>delivery_id.
          case projected_reply_to io v route projected s of
            (Inl e, s) \<Rightarrow> (Inl e, s)
          | (Inr reply_to, s) \<Rightarrow>
              with_res (immutable_projection_metadata (am_metadata (pm_message projected))) s (\<lambda>metadata.
                case io_deliver_outbound io (projected_outbound route projected delivery_id reply_to metadata) (pm_checkpoint projected) s of
                  (Inl e, s) \<Rightarrow> (Inl e, s)
                | (Inr status, s) \<Rightarrow>
                    guarded (validate_lifecycle v s) s
                      (if status = CLAIM_IN_FLIGHT then raises DestinationDecisionError s
                       else case apply_delivery_outcome advance_in_state (io_now io s) route (item_id projected)
                              (pm_checkpoint projected) status authoritative s of
                            (Inl e, s) \<Rightarrow> (Inl e, s)
                          | (Inr current, s) \<Rightarrow> guarded (validate_lifecycle v s) s (returns current s)))))"

definition block_route ::
  "'w projection_io \<Rightarrow> thread_projection_route \<Rightarrow> error \<Rightarrow> 'w projection_state \<Rightarrow> 'w projection_state" where
  "block_route io route err s =
     io_record_delivery_failure io route err (s\<lparr>ps_blocked_routes := List.insert (pr_route_id route) (ps_blocked_routes s)\<rparr>)"

text \<open>\<open>_deliver_messages\<close>: a destination decision blocks the route, any other failure propagates.\<close>

fun deliver_messages ::
  "(string \<Rightarrow> string) \<Rightarrow> 'w projection_io \<Rightarrow> 'w lifecycle \<Rightarrow> bool \<Rightarrow> thread_projection_route \<Rightarrow> thread_projection_route \<Rightarrow> string list \<Rightarrow>
   projected_agent_message list \<Rightarrow> 'w projection_state \<Rightarrow> ('w projection_state, unit) outcome" where
  "deliver_messages sha256 io v authoritative route current seen [] s = returns () s"
| "deliver_messages sha256 io v authoritative route current seen (projected # messages) s =
     guarded (validate_lifecycle v s) s
       (if item_id projected \<in> set seen then deliver_messages sha256 io v authoritative route current seen messages s
        else if pr_route_id route \<in> set (ps_blocked_routes s)
        then if v \<noteq> None then raises DestinationDecisionError s else returns () s
        else case deliver_projected_message sha256 io v authoritative current projected s of
            (Inr current', s) \<Rightarrow>
              deliver_messages sha256 io v authoritative route current' (item_id projected # seen) messages s
          | (Inl e, s) \<Rightarrow>
              if e = DestinationDecisionError
              then let s = block_route io current e s in if v \<noteq> None then raises e s else returns () s
              else (Inl e, s))"

definition get_projection_route :: "string \<Rightarrow> projection_repository \<Rightarrow> thread_projection_route option" where
  "get_projection_route route_id r = find (\<lambda>route. pr_route_id route = route_id) (list_projection_routes None r)"

section \<open>The bootstrap barrier and the authoritative pass\<close>

definition new_event :: "'w projection_state \<Rightarrow> nat \<times> 'w projection_state" where
  "new_event s = (ps_next_event s, s\<lparr>ps_next_event := ps_next_event s + 1\<rparr>)"

text \<open>\<open>begin_bootstrap\<close> without an action lease, inside the route lock.\<close>

definition begin_bootstrap :: "string \<Rightarrow> 'w projection_state \<Rightarrow> 'w projection_state" where
  "begin_bootstrap route_id s =
     (let s = (case dict_get (ps_bootstrap s) route_id of
                 Some current \<Rightarrow>
                   if current \<in> set (ps_set_events s)
                   then (case new_event s of (ev, s) \<Rightarrow> s\<lparr>ps_bootstrap := dict_set (ps_bootstrap s) route_id ev,
                           ps_action_retained := dict_pop (ps_action_retained s) route_id\<rparr>)
                   else s
               | None \<Rightarrow>
                   (case new_event s of (ev, s) \<Rightarrow> s\<lparr>ps_bootstrap := dict_set (ps_bootstrap s) route_id ev,
                      ps_action_retained := dict_pop (ps_action_retained s) route_id\<rparr>))
      in s\<lparr>ps_bootstrap_pending := List.insert route_id (ps_bootstrap_pending s)\<rparr>)"

definition complete_bootstrap_if_unowned :: "string \<Rightarrow> 'w projection_state \<Rightarrow> 'w projection_state" where
  "complete_bootstrap_if_unowned route_id s =
     (case dict_get (ps_bootstrap s) route_id of
        None \<Rightarrow> s
      | Some current \<Rightarrow>
          if current \<in> set (case dict_get (ps_action_users s) route_id of None \<Rightarrow> [] | Some leases \<Rightarrow> leases)
            \<or> route_id \<in> set (ps_bootstrap_pending s)
            \<or> dict_get (ps_action_retained s) route_id = Some current
          then s
          else s\<lparr>ps_set_events := List.insert current (ps_set_events s)\<rparr>)"

definition complete_bootstrap :: "string \<Rightarrow> 'w projection_state \<Rightarrow> 'w projection_state" where
  "complete_bootstrap route_id s =
     (let s = (case dict_get (ps_bootstrap s) route_id of
                 Some current \<Rightarrow> s
               | None \<Rightarrow> (case new_event s of (ev, s) \<Rightarrow> s\<lparr>ps_bootstrap := dict_set (ps_bootstrap s) route_id ev\<rparr>))
      in complete_bootstrap_if_unowned route_id
           (s\<lparr>ps_bootstrap_pending := removeAll route_id (ps_bootstrap_pending s)\<rparr>))"

text \<open>
  The body of \<open>deliver_authoritative\<close> inside \<open>try\<close>: the flag tells whether \<open>completed\<close> was set.
\<close>

definition authoritative_pass ::
  "(string \<Rightarrow> string) \<Rightarrow> 'w projection_io \<Rightarrow> 'w lifecycle \<Rightarrow> thread_projection_route \<Rightarrow>
   (thread_projection_route \<Rightarrow> 'w projection_state \<Rightarrow> ('w projection_state, authoritative_projection_slice) outcome) \<Rightarrow>
   'w projection_state \<Rightarrow> bool \<times> ('w projection_state, unit) outcome" where
  "authoritative_pass sha256 io v route read_projection s =
     (case io_acquire_lock io (pr_route_id route) s of
        (Inl e, s) \<Rightarrow> (False, Inl e, s)
      | (Inr u, s) \<Rightarrow>
          (let current = get_projection_route (pr_route_id route) (ps_projections s) in
           case validate_lifecycle v s of
             Some e \<Rightarrow> (False, Inl e, s)
           | None \<Rightarrow>
             (case current of
                None \<Rightarrow> (False, Inr (), s)
              | Some current \<Rightarrow>
                (case read_projection current s of
                   (Inl e, s) \<Rightarrow> (False, Inl e, s)
                 | (Inr projection, s) \<Rightarrow>
                   (case validate_lifecycle v s of
                      Some e \<Rightarrow> (False, Inl e, s)
                    | None \<Rightarrow>
                      (case io_wait_for_acceptance io (pr_thread_ref route) s of
                         (Inl e, s) \<Rightarrow> (False, Inl e, s)
                       | (Inr u, s) \<Rightarrow>
                         (case validate_lifecycle v s of
                            Some e \<Rightarrow> (False, Inl e, s)
                          | None \<Rightarrow>
                            (case deliver_messages sha256 io v True current current [] (as_messages projection) s of
                               (Inl e, s) \<Rightarrow> (False, Inl e, s)
                             | (Inr u, s) \<Rightarrow>
                               (case validate_lifecycle v s of
                                  Some e \<Rightarrow> (False, Inl e, s)
                                | None \<Rightarrow> (True, Inr (), s)))))))))) "

definition deliver_authoritative ::
  "(string \<Rightarrow> string) \<Rightarrow> 'w projection_io \<Rightarrow> 'w lifecycle \<Rightarrow> bool \<Rightarrow> thread_projection_route \<Rightarrow>
   (thread_projection_route \<Rightarrow> 'w projection_state \<Rightarrow> ('w projection_state, authoritative_projection_slice) outcome) \<Rightarrow>
   'w projection_state \<Rightarrow> ('w projection_state, unit) outcome" where
  "deliver_authoritative sha256 io v retain_barrier_on_failure route read_projection s =
     guarded (validate_lifecycle v s) s
       (case authoritative_pass sha256 io v route read_projection s of
          (finished, r, s) \<Rightarrow>
            (r, if finished \<or> \<not> retain_barrier_on_failure then complete_bootstrap (pr_route_id route) s else s))"

text \<open>\<open>reconcile_route\<close> of the supervisor: the read records its gap.\<close>

definition reading_with_gap ::
  "(string \<Rightarrow> string) \<Rightarrow> 'w projection_io \<Rightarrow> application_ref \<Rightarrow> recovery_limits \<Rightarrow> bool \<Rightarrow> thread_projection_route \<Rightarrow> thread_projection_route \<Rightarrow>
   'w projection_state \<Rightarrow> ('w projection_state, authoritative_projection_slice) outcome" where
  "reading_with_gap sha256 io application limits require_checkpoint route current s =
     (case read_bounded_authoritative_projection sha256 io application limits require_checkpoint current s of
        (Inl e, s) \<Rightarrow> (Inl e, s)
      | (Inr projection, s) \<Rightarrow>
          (case as_gap projection of
             None \<Rightarrow> returns projection s
           | Some gap \<Rightarrow> returns projection (io_record_gap io (pr_thread_ref route) (pr_route_id route) gap s)))"

definition reconcile_route ::
  "(string \<Rightarrow> string) \<Rightarrow> 'w projection_io \<Rightarrow> application_ref \<Rightarrow> recovery_limits \<Rightarrow> 'w lifecycle \<Rightarrow> bool \<Rightarrow> bool \<Rightarrow>
   thread_projection_route \<Rightarrow> 'w projection_state \<Rightarrow> ('w projection_state, unit) outcome" where
  "reconcile_route sha256 io application limits v retain_barrier_on_failure require_checkpoint route s =
     deliver_authoritative sha256 io v retain_barrier_on_failure route
       (reading_with_gap sha256 io application limits require_checkpoint route) s"

end
