(* ===== verification/Recovered_Projections.thy ===== *)
theory Recovered_Projections
  imports Projection_Recovery Samples
begin

text \<open>
  What recovery achieves: over a native history that is read in pages from its newest end, the
  bounded read returns everything after the checkpoint or reports a gap, and the authoritative pass
  leaves the checkpoint at the last delivered item.
\<close>

section \<open>The native history\<close>

text \<open>
  \<open>thread.history\<close> reads pages from the newest end of a thread, each page in chronological order.
\<close>

definition history_page :: "thread_ref \<Rightarrow> turn_history_entry list \<Rightarrow> int \<Rightarrow> int \<Rightarrow> thread_history" where
  "history_page thread turns limit page =
     (let n = length turns; l = nat limit; p = nat page in
      \<lparr>hy_thread_ref = thread, hy_turns = drop (n - p * l) (take (n - (p - 1) * l) turns),
       hy_page = page, hy_has_older = (p * l < n)\<rparr>)"

definition newest :: "nat \<Rightarrow> 'a list \<Rightarrow> 'a list" where
  "newest k xs = drop (length xs - k) xs"

definition reads_native :: "'w projection_io \<Rightarrow> turn_history_entry list \<Rightarrow> turn_catchup \<Rightarrow> bool" where
  "reads_native io turns catchup \<longleftrightarrow>
     (\<forall>i a t limit page now s. fst (io_execute io (GetThreadHistory i a t limit page now) s) =
        Inr (ThreadHistoryRead (history_page t turns limit page))) \<and>
     (\<forall>i a t limit now s. fst (io_execute io (GetTurnCatchup i a t limit now) s) = Inr (TurnCatchupRead catchup))"

lemma reads_nativeD:
  assumes "reads_native io turns catchup"
  shows "\<exists>s'. io_execute io (GetThreadHistory i a t limit page now) s = (Inr (ThreadHistoryRead (history_page t turns limit page)), s')"
    and "\<exists>s'. io_execute io (GetTurnCatchup i a t limit now) s = (Inr (TurnCatchupRead catchup), s')"
  using assms by (simp_all add: reads_native_def prod_eq_iff)

lemma drop_take_drop: "i \<le> j \<Longrightarrow> j \<le> length xs \<Longrightarrow> drop i (take j xs) @ drop j xs = drop i xs"
  using drop_append [of i "take j xs" "drop j xs"] by (simp add: min_def)

lemma newest_page:
  assumes "1 \<le> page"
  shows "hy_turns (history_page t turns limit page) @ newest (nat (page - 1) * nat limit) turns =
    newest (nat page * nat limit) turns"
proof -
  have "nat (page - 1) = nat page - 1" using assms by simp
  then show ?thesis
    using drop_take_drop [of "length turns - nat page * nat limit" "length turns - (nat page - 1) * nat limit" turns]
    by (simp add: history_page_def newest_def Let_def diff_le_mono2)
qed

lemma newest_all: "length xs \<le> k \<Longrightarrow> newest k xs = xs"
  by (simp add: newest_def)

lemma newest_mono: "j \<le> k \<Longrightarrow> set (newest j xs) \<subseteq> set (newest k xs)"
  by (simp add: newest_def set_drop_subset_set_drop)

lemma newest_suffix: "\<exists>older. xs = older @ newest k xs"
  unfolding newest_def by (metis append_take_drop_id)

lemma history_items_append [simp]: "history_items (xs @ ys) = history_items xs @ history_items ys"
  by (simp add: history_items_def)

lemma history_items_mono: "set xs \<subseteq> set ys \<Longrightarrow> set (history_items xs) \<subseteq> set (history_items ys)"
  by (auto simp: history_items_def)

section \<open>The bounded read\<close>

text \<open>
  The scan stops at the first page with the checkpoint; without one it ends with a gap.
\<close>

definition scanned :: "turn_history_entry list \<Rightarrow> string \<Rightarrow> nat \<Rightarrow> nat \<Rightarrow> string option \<Rightarrow>
    projected_agent_message list list \<times> bool \<times> string option \<Rightarrow> bool" where
  "scanned turns c limit max_pages gap = (\<lambda>(pages, found, gap').
     length pages \<le> max_pages \<and>
     (if c \<in> item_id ` set (history_items (newest (max_pages * limit) turns))
      then found \<and> gap' = gap \<and> c \<in> item_id ` set (history_items (newest (length pages * limit) turns)) \<and>
        concat (rev pages) = history_items (newest (length pages * limit) turns)
      else \<not> found \<and> gap' \<noteq> None))"

lemma scan_history_scanned:
  assumes native: "reads_native io turns catchup"
    and "1 \<le> page" "page \<le> max_pages" "length pages = nat (page - 1)"
    and "concat (rev pages) = history_items (newest (nat (page - 1) * nat limit) turns)"
    and "c \<notin> item_id ` set (concat (rev pages))"
  shows "\<exists>r s'. scan_history io application scope thread (Some c) limit max_pages page pages gap s = (Inr r, s') \<and>
    scanned turns c (nat limit) (nat max_pages) gap r"
  using assms(2-)
proof (induction "nat (max_pages - page)" arbitrary: page pages s rule: less_induct)
  case less
  let ?h = "history_page thread turns limit page"
  let ?items = "history_items (hy_turns ?h)"
  let ?pages = "pages @ [?items]"
  obtain s1 where read: "io_execute io (GetThreadHistory (history_operation_id scope page)
      application thread limit page (io_now io s)) s = (Inr (ThreadHistoryRead ?h), s1)"
    using reads_nativeD(1) [OF native] by blast
  have pages: "concat (rev ?pages) = history_items (newest (nat page * nat limit) turns)"
    using newest_page [OF less.prems(1), of thread turns limit] less.prems(4) by simp (metis history_items_append)
  have len: "length ?pages = nat page" using less.prems(1,3) by simp
  have within: "set (history_items (newest (nat page * nat limit) turns)) \<subseteq>
      set (history_items (newest (nat max_pages * nat limit) turns))"
    using less.prems(2) by (intro history_items_mono newest_mono) (simp add: nat_mono)
  note step = scan_history.simps [of io application scope thread "Some c" limit max_pages page pages gap s]
  show ?case
  proof (cases "c \<in> item_id ` set ?items")
    case True
    then have here: "c \<in> item_id ` set (history_items (newest (nat page * nat limit) turns))"
      unfolding pages [symmetric] by auto
    then have "c \<in> item_id ` set (history_items (newest (nat max_pages * nat limit) turns))"
      using within by (rule image_mono [THEN subsetD, rotated])
    then have "scanned turns c (nat limit) (nat max_pages) gap (?pages, True, gap)"
      using here pages len less.prems(2) by (simp add: scanned_def nat_mono)
    then show ?thesis using True less.prems(2) by (simp add: step read Let_def)
  next
    case False
    then have missed: "c \<notin> item_id ` set (history_items (newest (nat page * nat limit) turns))"
      unfolding pages [symmetric] using less.prems(5) by (simp add: image_Un)
    consider "\<not> hy_has_older ?h" | "hy_has_older ?h" "page = max_pages" | "hy_has_older ?h" "page < max_pages"
      using less.prems(2) by fastforce
    then show ?thesis
    proof cases
      case 1
      then have "set (history_items turns) = set (history_items (newest (nat page * nat limit) turns))"
        by (simp add: history_page_def Let_def newest_all)
      moreover have "set (history_items (newest (nat max_pages * nat limit) turns)) \<subseteq> set (history_items turns)"
        by (rule history_items_mono) (metis newest_suffix Un_upper2 set_append)
      ultimately have "scanned turns c (nat limit) (nat max_pages) gap (?pages, False, Some ''checkpoint_missing'')"
        using missed len less.prems(2) by (auto simp: scanned_def nat_mono)
      then show ?thesis using 1 False less.prems(2) by (auto simp: step read Let_def)
    next
      case 2
      then have "scanned turns c (nat limit) (nat max_pages) gap (?pages, False, Some ''checkpoint_out_of_window'')"
        using missed len by (simp add: scanned_def)
      then show ?thesis using 2 False read unfolding step by (auto simp: Let_def)
    next
      case 3
      have "nat (max_pages - (page + 1)) < nat (max_pages - page)" using 3(2) by simp
      from less.hyps [OF this, of ?pages s1] obtain r s' where
        "scan_history io application scope thread (Some c) limit max_pages (page + 1) ?pages gap s1 = (Inr r, s')"
        "scanned turns c (nat limit) (nat max_pages) gap r"
        using less.prems(1) 3(2) len pages missed by (auto simp del: set_concat)
      then show ?thesis using 3 False by (auto simp: step read Let_def)
    qed
  qed
qed

text \<open>What the read makes of the pages.\<close>

lemma after_checkpoint_append:
  "c \<notin> item_id ` set older \<Longrightarrow> after_checkpoint c (older @ items) = after_checkpoint c items"
  unfolding after_checkpoint_def by (subst dropWhile_append2) auto

lemma after_checkpoint_at:
  "c \<notin> item_id ` set before \<Longrightarrow> item_id item = c \<Longrightarrow> after_checkpoint c (before @ item # after) = after"
  by (simp add: after_checkpoint_append) (simp add: after_checkpoint_def)

lemma deduplicated_distinct_append:
  "distinct (map item_id xs) \<Longrightarrow> set (map item_id xs) \<inter> set seen = {} \<Longrightarrow>
   deduplicated seen (xs @ ys) = xs @ deduplicated (rev (map item_id xs) @ seen) ys"
  by (induction xs arbitrary: seen) auto

lemma deduplicated_filter:
  "distinct (map item_id xs) \<Longrightarrow> deduplicated seen xs = filter (\<lambda>x. item_id x \<notin> set seen) xs"
proof (induction xs arbitrary: seen)
  case (Cons x xs)
  have "\<forall>y \<in> set xs. item_id y \<noteq> item_id x" using Cons.prems by (auto simp: image_iff)
  then have "filter (\<lambda>y. item_id y \<notin> set (item_id x # seen)) xs = filter (\<lambda>y. item_id y \<notin> set seen) xs"
    by (intro filter_cong) simp_all
  then show ?case using Cons.IH [of seen] Cons.IH [of "item_id x # seen"] Cons.prems by simp
qed simp

text \<open>The items after the checkpoint, then what the catch-up adds to them.\<close>

definition missed_items :: "projected_agent_message list \<Rightarrow> turn_catchup \<Rightarrow> projected_agent_message list" where
  "missed_items after catchup = after @ filter (\<lambda>x. item_id x \<notin> item_id ` set after) (catchup_items catchup)"

lemma deduplicated_missed:
  "distinct (map item_id after) \<Longrightarrow> distinct (map item_id (catchup_items catchup)) \<Longrightarrow>
   deduplicated [] (after @ catchup_items catchup) = missed_items after catchup"
  by (simp add: deduplicated_distinct_append deduplicated_filter missed_items_def)

lemma bounded_slice_found:
  assumes "1 \<le> limit"
  shows "as_messages (bounded_slice limit items n True gap) = take (nat limit) items"
    and "as_gap (bounded_slice limit items n True None) = None \<longleftrightarrow> int (length items) \<le> limit"
  using assms by (auto simp: bounded_slice_def)

lemma bounded_slice_simps [simp]:
  "as_checkpoint_found (bounded_slice limit items n found gap) = found"
  "as_pages_read (bounded_slice limit items n found gap) = n"
  "gap \<noteq> None \<Longrightarrow> as_gap (bounded_slice limit items n found gap) \<noteq> None"
  by (auto simp: bounded_slice_def)

abbreviation in_window :: "string \<Rightarrow> recovery_limits \<Rightarrow> turn_history_entry list \<Rightarrow> bool" where
  "in_window c limits turns \<equiv>
     c \<in> item_id ` set (history_items (newest (nat (rl_recovery_max_pages limits) * nat (rl_recovery_history_page_size limits)) turns))"

text \<open>
  C17: a recovery misses nothing silently. Over a native history and a catch-up whose items have
  distinct identifiers, the bounded read for a route with a checkpoint always returns within the page
  bound. If the checkpoint is in the window it returns, in the order of the history, the items
  after the checkpoint followed by what the catch-up adds to them, cut off at the item limit, and
  it reports a gap exactly when it cut; if the checkpoint is not in the window it reports a gap.
\<close>

theorem recovery_reads_window:
  assumes native: "reads_native io turns catchup" and distinct: "distinct (map item_id (history_items turns))"
    and catchup_distinct: "distinct (map item_id (catchup_items catchup))"
    and limits: "validate_recovery_limits limits = None" and c: "pr_checkpoint_agent_item_id route = Some c"
  shows "\<exists>slice s'. read_bounded_authoritative_projection sha256 io application limits require_checkpoint route s = (Inr slice, s') \<and>
    as_pages_read slice \<le> rl_recovery_max_pages limits \<and>
    (if in_window c limits turns
     then as_checkpoint_found slice \<and>
       (\<exists>before item after. history_items turns = before @ item # after \<and> item_id item = c \<and>
        as_messages slice = take (nat (rl_projection_item_limit limits)) (missed_items after catchup) \<and>
        (as_gap slice = None \<longleftrightarrow> int (length (missed_items after catchup)) \<le> rl_projection_item_limit limits))
     else \<not> as_checkpoint_found slice \<and> as_gap slice \<noteq> None)"
proof -
  let ?l = "rl_recovery_history_page_size limits" and ?m = "rl_recovery_max_pages limits"
  let ?scope = "recovery_scope sha256 (pr_thread_ref route)"
  have pos: "1 \<le> ?l" "1 \<le> ?m" "1 \<le> rl_projection_item_limit limits"
    using limits by (simp_all add: validate_recovery_limits_def)
  obtain pages found gap s1 where scan:
      "scan_history io application ?scope (pr_thread_ref route) (Some c) ?l ?m 1 [] None s = (Inr (pages, found, gap), s1)"
    and scanned: "scanned turns c (nat ?l) (nat ?m) None (pages, found, gap)"
    using scan_history_scanned [OF native, of 1 ?m "[]" ?l c application ?scope "pr_thread_ref route" None s] pos
    by (auto simp: newest_def history_items_def)
  obtain s2 where catchup: "io_execute io (GetTurnCatchup (catchup_operation_id ?scope) application (pr_thread_ref route)
      (rl_catchup_limit limits) (io_now io s1)) s1 = (Inr (TurnCatchupRead catchup), s2)"
    using reads_nativeD(2) [OF native] by blast
  let ?items = "if found then after_checkpoint c (concat (rev pages)) else concat (rev pages)"
  let ?slice = "bounded_slice (rl_projection_item_limit limits) (deduplicated [] (?items @ catchup_items catchup)) (int (length pages)) found gap"
  have read: "read_bounded_authoritative_projection sha256 io application limits require_checkpoint route s = (Inr ?slice, s2)"
    using pos by (simp add: read_bounded_authoritative_projection_def c scan catchup Let_def returns_def)
  have bound: "int (length pages) \<le> ?m" using scanned pos by (auto simp: scanned_def split: if_splits)
  show ?thesis
  proof (cases "in_window c limits turns")
    case True
    then have found: "found" "gap = None" "c \<in> item_id ` set (history_items (newest (length pages * nat ?l) turns))"
        "concat (rev pages) = history_items (newest (length pages * nat ?l) turns)"
      using scanned by (simp_all add: scanned_def)
    then obtain before item after where split: "concat (rev pages) = before @ item # after" "item_id item = c"
      by (metis imageE split_list)
    obtain older where older: "turns = older @ newest (length pages * nat ?l) turns" using newest_suffix by blast
    then have all: "history_items turns = (history_items older @ before) @ item # after"
      by (metis found(4) history_items_append split(1) append_assoc)
    then have "c \<notin> item_id ` set before" "distinct (map item_id after)" using distinct split(2) by auto
    then have "deduplicated [] (after_checkpoint c (concat (rev pages)) @ catchup_items catchup) = missed_items after catchup"
      using split by (simp add: after_checkpoint_at deduplicated_missed catchup_distinct)
    then have "as_messages ?slice = take (nat (rl_projection_item_limit limits)) (missed_items after catchup) \<and>
        (as_gap ?slice = None \<longleftrightarrow> int (length (missed_items after catchup)) \<le> rl_projection_item_limit limits)"
      using found(1,2) pos(3) by (simp add: bounded_slice_found)
    moreover have "as_pages_read ?slice \<le> ?m" "as_checkpoint_found ?slice" using bound found(1) by simp_all
    ultimately show ?thesis
      using True all split(2) by (intro exI [of _ ?slice] exI [of _ s2] conjI read) (simp_all only: if_True, blast)
  next
    case False
    then show ?thesis using scanned bound by (auto simp: read scanned_def)
  qed
qed

section \<open>The authoritative pass\<close>

text \<open>
  A pass without disturbance: the channel completes every delivery, and neither it nor the turn
  correlation changes the routes or blocks one.
\<close>

definition keeps_routes :: "'w projection_state \<Rightarrow> 'w projection_state \<Rightarrow> bool" where
  "keeps_routes s s' \<longleftrightarrow> ps_projections s' = ps_projections s \<and> ps_blocked_routes s' = ps_blocked_routes s"

definition undisturbed :: "'w projection_io \<Rightarrow> bool" where
  "undisturbed io \<longleftrightarrow>
     (\<forall>m b s. keeps_routes s (snd (io_deliver_outbound io m b s)) \<and>
        fst (io_deliver_outbound io m b s) \<in> {Inr CLAIM_ACQUIRED, Inr CLAIM_ALREADY_COMPLETED}) \<and>
     (\<forall>t i s. keeps_routes s (snd (ensure_turn io t i s)) \<and> fst (ensure_turn io t i s) = Inr ())"

text \<open>An item that can be delivered and can be a checkpoint.\<close>

definition deliverable :: "projected_agent_message \<Rightarrow> bool" where
  "deliverable item \<longleftrightarrow> pm_checkpoint item \<and> require_identifier (item_id item) = None \<and>
     immutable_projection_metadata (am_metadata (pm_message item)) = Inr (am_metadata (pm_message item))"

lemma find_route_id:
  assumes "projection_inv r" "route_at k r = Some v"
  shows "find (\<lambda>(key, route). pr_route_id route = pr_route_id v) (pp_routes r) = Some (k, v)"
proof -
  obtain k' v' where find: "find (\<lambda>(key, route). pr_route_id route = pr_route_id v) (pp_routes r) = Some (k', v')"
    using find_route_None [OF assms] by fastforce
  then have "k' = k" "v' = v"
    using find_route [OF assms(1) find] assms(2) projection_invD(4) [OF assms(1)] by (metis option.inject)+
  with find show ?thesis by simp
qed

lemma apply_outcome_in_state:
  assumes inv: "projection_inv (ps_projections s)" and route: "route_at (route_key route) (ps_projections s) = Some route"
    and item: "require_identifier item = None" and status: "status \<noteq> CLAIM_IN_FLIGHT"
  shows "\<exists>current s'. apply_delivery_outcome advance_in_state now route item True status True s = (Inr current, s') \<and>
    projection_inv (ps_projections s') \<and> ps_blocked_routes s' = ps_blocked_routes s \<and>
    route_at (route_key route) (ps_projections s') = Some current \<and> route_key current = route_key route \<and>
    pr_route_id current = pr_route_id route \<and> pr_checkpoint_agent_item_id current = Some item"
proof (cases "pr_checkpoint_agent_item_id route = Some item")
  case True
  then show ?thesis using assms by (cases status) (auto simp: apply_delivery_outcome_def)
next
  case False
  let ?new = "checkpointed route item now"
  have valid: "validate_projection_route ?new = None"
    using projection_invD(3) [OF inv route] item by (simp add: validate_projection_route_def checkpointed_def)
  let ?r = "(ps_projections s)\<lparr>pp_routes := dict_set (pp_routes (ps_projections s)) (route_key route) ?new\<rparr>"
  have adv: "advance_projection_checkpoint (pr_route_id route) (pr_checkpoint_agent_item_id route) item now (ps_projections s) = (Inr ?new, ?r)"
    using find_route_id [OF inv route] valid
    by (simp add: advance_projection_checkpoint_def Let_def checkpointed_def returns_def)
  have "projection_inv ?r" by (rule advance_projection_checkpoint_ok [OF inv adv])
  moreover have "apply_delivery_outcome advance_in_state now route item True status True s = (Inr ?new, s\<lparr>ps_projections := ?r\<rparr>)"
    using False status by (cases status) (simp_all add: apply_delivery_outcome_def advance_in_state_def adv)
  ultimately show ?thesis by (simp add: checkpointed_def)
qed

lemma deliver_projected_message_ok:
  assumes io: "undisturbed io" and item: "deliverable item"
    and inv: "projection_inv (ps_projections s)" and route: "route_at (route_key route) (ps_projections s) = Some route"
  shows "\<exists>current s'. deliver_projected_message sha256 io None True route item s = (Inr current, s') \<and>
    projection_inv (ps_projections s') \<and> ps_blocked_routes s' = ps_blocked_routes s \<and>
    route_at (route_key route) (ps_projections s') = Some current \<and> route_key current = route_key route \<and>
    pr_route_id current = pr_route_id route \<and> pr_checkpoint_agent_item_id current = Some (item_id item)"
proof -
  obtain reply s1 where reply: "projected_reply_to io None route item s = (Inr reply, s1)" "keeps_routes s s1"
  proof (cases "pm_turn_id item")
    case None
    then show thesis using that by (simp add: projected_reply_to_def returns_def keeps_routes_def)
  next
    case (Some turn_id)
    obtain s1 where "ensure_turn io (pr_thread_ref route) turn_id s = (Inr (), s1)" "keeps_routes s s1"
      using io by (metis undisturbed_def prod.collapse)
    then show thesis using that Some by (simp add: projected_reply_to_def validate_lifecycle_def returns_def)
  qed
  obtain i where i: "projected_delivery_id sha256 route item = Inr i"
    using item by (simp add: projected_delivery_id_def deliverable_def)
  let ?m = "projected_outbound route item i reply (am_metadata (pm_message item))"
  obtain status s2 where sent: "io_deliver_outbound io ?m True s1 = (Inr status, s2)" "status \<noteq> CLAIM_IN_FLIGHT" "keeps_routes s1 s2"
  proof -
    have "keeps_routes s1 (snd (io_deliver_outbound io ?m True s1))"
      "fst (io_deliver_outbound io ?m True s1) \<in> {Inr CLAIM_ACQUIRED, Inr CLAIM_ALREADY_COMPLETED}"
      using io unfolding undisturbed_def by blast+
    then show thesis using that by (cases "io_deliver_outbound io ?m True s1") auto
  qed
  have same: "ps_projections s2 = ps_projections s" "ps_blocked_routes s2 = ps_blocked_routes s"
    using reply(2) sent(3) by (simp_all add: keeps_routes_def)
  obtain current s3 where out: "apply_delivery_outcome advance_in_state (io_now io s2) route (item_id item) True status True s2 = (Inr current, s3)"
      "projection_inv (ps_projections s3)" "ps_blocked_routes s3 = ps_blocked_routes s2"
      "route_at (route_key route) (ps_projections s3) = Some current" "route_key current = route_key route"
      "pr_route_id current = pr_route_id route" "pr_checkpoint_agent_item_id current = Some (item_id item)"
    using apply_outcome_in_state [of s2 route "item_id item" status "io_now io s2"] inv route item sent(2)
    by (auto simp: same deliverable_def)
  have "deliver_projected_message sha256 io None True route item s = (Inr current, s3)"
    using item sent out(1)
    by (simp add: deliver_projected_message_def validate_lifecycle_def i reply(1) deliverable_def returns_def)
  then show ?thesis using out same by auto
qed

lemma deliver_messages_ok:
  assumes io: "undisturbed io" and "list_all deliverable items" "distinct (map item_id items)" "set (map item_id items) \<inter> set seen = {}"
    and "projection_inv (ps_projections s)" "route_at (route_key current) (ps_projections s) = Some current"
    and "pr_route_id current = pr_route_id route" "pr_route_id route \<notin> set (ps_blocked_routes s)"
  shows "\<exists>s' last_route. deliver_messages sha256 io None True route current seen items s = (Inr (), s') \<and>
    projection_inv (ps_projections s') \<and> route_at (route_key current) (ps_projections s') = Some last_route \<and>
    pr_route_id last_route = pr_route_id current \<and>
    pr_checkpoint_agent_item_id last_route =
      (if items = [] then pr_checkpoint_agent_item_id current else Some (item_id (last items)))"
  using assms(2-)
proof (induction items arbitrary: current seen s)
  case Nil
  then show ?case by (simp add: returns_def)
next
  case (Cons item items)
  have "deliverable item" using Cons.prems(1) by simp
  from deliver_projected_message_ok [OF io this Cons.prems(4,5), of sha256] obtain current' s1 where
    step: "deliver_projected_message sha256 io None True current item s = (Inr current', s1)"
      "projection_inv (ps_projections s1)" "ps_blocked_routes s1 = ps_blocked_routes s"
      "route_at (route_key current) (ps_projections s1) = Some current'" "route_key current' = route_key current"
      "pr_route_id current' = pr_route_id current" "pr_checkpoint_agent_item_id current' = Some (item_id item)"
    by blast
  from Cons.IH [of "item_id item # seen" s1 current'] Cons.prems step
  obtain s' last_route where rest:
      "deliver_messages sha256 io None True route current' (item_id item # seen) items s1 = (Inr (), s')"
      "projection_inv (ps_projections s')" "route_at (route_key current) (ps_projections s') = Some last_route"
      "pr_route_id last_route = pr_route_id current"
      "pr_checkpoint_agent_item_id last_route =
        (if items = [] then Some (item_id item) else Some (item_id (last items)))"
    by auto
  have "deliver_messages sha256 io None True route current seen (item # items) s = (Inr (), s')"
    using Cons.prems step(1) rest(1) by (simp add: validate_lifecycle_def)
  then show ?case using rest(2-) by auto
qed

lemma deduplicated_distinct:
  "distinct (map item_id (deduplicated seen items)) \<and> set (map item_id (deduplicated seen items)) \<inter> set seen = {} \<and>
   set (deduplicated seen items) \<subseteq> set items"
  by (induction seen items rule: deduplicated.induct) auto

text \<open>
  The checkpoint follows the deliveries. When nothing disturbs it, the authoritative pass over
  a recovered slice delivers all of it, and the stored checkpoint of the route is then the last item
  of the slice, or the old checkpoint if the slice was empty.
\<close>

theorem pass_ends_at_last_item:
  assumes "undisturbed io" "projection_inv (ps_projections s)" "route_at (route_key route) (ps_projections s) = Some route"
    and "pr_route_id route \<notin> set (ps_blocked_routes s)"
    and "list_all deliverable (take n (deduplicated [] items))"
  shows "\<exists>s' last_route. deliver_messages sha256 io None True route route [] (take n (deduplicated [] items)) s = (Inr (), s') \<and>
    route_at (route_key route) (ps_projections s') = Some last_route \<and>
    pr_checkpoint_agent_item_id last_route =
      (if take n (deduplicated [] items) = [] then pr_checkpoint_agent_item_id route
       else Some (item_id (last (take n (deduplicated [] items)))))"
proof -
  have "distinct (map item_id (take n (deduplicated [] items)))"
    using deduplicated_distinct [of "[]" items] by (simp add: take_map [symmetric])
  from deliver_messages_ok [OF assms(1,5) this, of "[]" s route route sha256] assms(2-4) show ?thesis by auto
qed

section \<open>A concrete thread\<close>

definition sample_item :: "string \<Rightarrow> agent_message" where
  "sample_item i = \<lparr>am_agent_item_id = i, am_thread_ref = sample_thread, am_role = ROLE_ASSISTANT, am_content = [],
     am_created_at = utc 0, am_client_message_id = None, am_metadata = []\<rparr>"

text \<open>A turn with two comments and an answer; the catch-up of a turn holds its comments.\<close>

definition sample_turns :: "turn_history_entry list" where
  "sample_turns = [\<lparr>he_turn_ref = sample_turn, he_status = TURN_COMPLETED, he_user_message = None,
     he_agent_messages = [sample_item ''c1'', sample_item ''c2'', sample_item ''f''], he_error = None, he_had_compaction = False\<rparr>]"

definition sample_catchup :: "string list \<Rightarrow> turn_catchup" where
  "sample_catchup ids = \<lparr>tk_thread_ref = sample_thread, tk_turn_ref = Some sample_turn, tk_status = TURN_COMPLETED,
     tk_messages = map sample_item ids, tk_updated_at = None\<rparr>"

text \<open>An application that answers from this thread, and a channel that completed every delivery before.\<close>

fun sample_read :: "turn_catchup \<Rightarrow> application_read \<Rightarrow> application_read_result" where
  "sample_read catchup (GetThreadHistory i a t limit page now) = ThreadHistoryRead (history_page t sample_turns limit page)"
| "sample_read catchup (GetTurnCatchup i a t limit now) = TurnCatchupRead catchup"

definition sample_io :: "turn_catchup \<Rightarrow> unit projection_io" where
  "sample_io catchup = \<lparr>io_execute = (\<lambda>operation s. (Inr (sample_read catchup operation), s)),
     io_deliver_outbound = (\<lambda>m b s. (Inr CLAIM_ALREADY_COMPLETED, s)), io_ensure_turn = None,
     io_wait_for_acceptance = (\<lambda>t s. (Inr (), s)), io_acquire_lock = (\<lambda>i s. (Inr (), s)),
     io_record_gap = (\<lambda>t i g s. s), io_record_delivery_failure = (\<lambda>r e s. s), io_now = (\<lambda>s. utc 5)\<rparr>"

definition sample_limits :: recovery_limits where
  "sample_limits = \<lparr>rl_baseline_history_limit = 3, rl_recovery_history_page_size = 2, rl_recovery_max_pages = 2,
     rl_catchup_limit = 5, rl_projection_item_limit = 5, rl_retry_initial_seconds = Micros 1, rl_retry_max_seconds = Micros 4\<rparr>"

definition checkpointed_route :: "string \<Rightarrow> thread_projection_route" where
  "checkpointed_route i = checkpointed sample_route i (utc 1)"

definition sample_projection_state :: "string \<Rightarrow> unit projection_state" where
  "sample_projection_state i = \<lparr>
     ps_projections = \<lparr>pp_routes = [((sample_thread, sample_conversation), checkpointed_route i)], pp_turn_correlations = []\<rparr>,
     ps_blocked_routes = [], ps_bootstrap = [], ps_bootstrap_pending = [], ps_action_users = [], ps_action_retained = [],
     ps_set_events = [], ps_next_event = 0, ps_world = ()\<rparr>"

definition stored_checkpoint :: "unit projection_state \<Rightarrow> string option option" where
  "stored_checkpoint s =
     map_option pr_checkpoint_agent_item_id (route_at (sample_thread, sample_conversation) (ps_projections s))"

lemma sample_io_ok: "reads_native (sample_io catchup) sample_turns catchup" "undisturbed (sample_io catchup)"
  by (auto simp: reads_native_def undisturbed_def sample_io_def ensure_turn_def keeps_routes_def)

lemma sample_turn_items: "map item_id (history_items sample_turns) = [''c1'', ''c2'', ''f'']"
  by code_simp

lemma sample_limits_ok: "validate_recovery_limits sample_limits = None"
  by code_simp

lemma sample_valid_route: "validate_projection_route (checkpointed_route ''c1'') = None"
  by code_simp

lemma sample_regress:
  "case reconcile_route id (sample_io (sample_catchup [''c1'', ''c2''])) sample_application sample_limits None False True
      (checkpointed_route ''f'') (sample_projection_state ''f'') of
     (r, s) \<Rightarrow> r = Inr () \<and> stored_checkpoint s = Some (Some ''c2'')"
  by code_simp

theorem recovery_reads_window_witness:
  "\<exists>slice. fst (read_bounded_authoritative_projection id (sample_io (sample_catchup [''f''])) sample_application sample_limits True
      (checkpointed_route ''c1'') (sample_projection_state ''c1'')) = Inr slice \<and>
    as_checkpoint_found slice \<and> as_pages_read slice \<le> 2 \<and>
    (\<exists>before item after. history_items sample_turns = before @ item # after \<and> item_id item = ''c1'' \<and>
       as_messages slice = take 5 (missed_items after (sample_catchup [''f''])))"
proof -
  have c: "pr_checkpoint_agent_item_id (checkpointed_route ''c1'') = Some ''c1''"
    by (simp add: checkpointed_route_def)
  have window: "in_window ''c1'' sample_limits sample_turns" by code_simp
  have limits: "rl_recovery_max_pages sample_limits = 2" "nat (rl_projection_item_limit sample_limits) = 5"
    by (simp_all add: sample_limits_def)
  have distinct: "distinct (map item_id (history_items sample_turns))" "distinct (map item_id (catchup_items (sample_catchup [''f''])))"
    by code_simp+
  show ?thesis
    using recovery_reads_window [OF sample_io_ok(1) distinct sample_limits_ok c, of id sample_application True
        "sample_projection_state ''c1''"] window
      limits [symmetric] by fastforce
qed

theorem pass_ends_at_last_item_witness:
  "\<exists>s'. deliver_messages id (sample_io (sample_catchup [])) None True (checkpointed_route ''c1'') (checkpointed_route ''c1'') []
      (take 2 (deduplicated [] (history_items sample_turns))) (sample_projection_state ''c1'') = (Inr (), s') \<and>
    stored_checkpoint s' = Some (Some ''c2'')"
proof -
  have key: "route_key (checkpointed_route ''c1'') = (sample_thread, sample_conversation)" by code_simp
  have state: "route_at (sample_thread, sample_conversation) (ps_projections (sample_projection_state ''c1'')) = Some (checkpointed_route ''c1'')"
    "pr_route_id (checkpointed_route ''c1'') \<notin> set (ps_blocked_routes (sample_projection_state ''c1''))"
    by (simp_all add: sample_projection_state_def)
  have inv: "projection_inv (ps_projections (sample_projection_state ''c1''))"
    using key by (simp add: sample_projection_state_def projection_inv_def routes_inv_def turn_replies_inv_def sample_valid_route)
  have items: "list_all deliverable (take 2 (deduplicated [] (history_items sample_turns)))"
    "item_id (last (take 2 (deduplicated [] (history_items sample_turns)))) = ''c2''"
    "take 2 (deduplicated [] (history_items sample_turns)) \<noteq> []"
    by code_simp+
  from pass_ends_at_last_item [OF sample_io_ok(2) inv state(1) [folded key] state(2) items(1), of id]
  show ?thesis using items(2,3) by (auto simp: stored_checkpoint_def key)
qed

text \<open>
  C39: recovery can move a checkpoint back. The read adds every item of the catch-up that it does not
  return already, also those before the checkpoint, and the pass moves the checkpoint to each item
  it finds completed. So when all items of a thread were delivered, the checkpoint is the last one
  and the catch-up repeats the comments of the turn, a recovery leaves the checkpoint at the last
  comment, before the answer.
\<close>

theorem recovery_moves_checkpoint_back:
  "\<exists>io catchup s'. reads_native io sample_turns catchup \<and>
    set (catchup_items catchup) \<subseteq> set (history_items sample_turns) \<and>
    map item_id (history_items sample_turns) = [''c1'', ''c2'', ''f''] \<and>
    stored_checkpoint (sample_projection_state ''f'') = Some (Some ''f'') \<and>
    reconcile_route id io sample_application sample_limits None False True (checkpointed_route ''f'') (sample_projection_state ''f'') = (Inr (), s') \<and>
    stored_checkpoint s' = Some (Some ''c2'')"
proof -
  let ?catchup = "sample_catchup [''c1'', ''c2'']"
  obtain s' where "reconcile_route id (sample_io ?catchup) sample_application sample_limits None False True
      (checkpointed_route ''f'') (sample_projection_state ''f'') = (Inr (), s')" "stored_checkpoint s' = Some (Some ''c2'')"
    using sample_regress by (auto split: prod.splits)
  moreover have "set (catchup_items ?catchup) \<subseteq> set (history_items sample_turns)" by code_simp
  moreover have "stored_checkpoint (sample_projection_state ''f'') = Some (Some ''f'')" by code_simp
  ultimately show ?thesis using sample_io_ok(1) [of ?catchup] sample_turn_items
    by (intro exI [of _ "sample_io ?catchup"] exI [of _ ?catchup] exI [of _ s']) simp
qed

section \<open>Retries and streams\<close>

text \<open>The retry delay grows with the restarts and stays within its bounds.\<close>

lemma retry_delay_bounds:
  assumes "validate_recovery_limits limits = None" "m \<le> n"
  shows "0 \<le> retry_delay_micros limits m" "retry_delay_micros limits m \<le> retry_delay_micros limits n"
    "retry_delay_micros limits n \<le> duration_micros (rl_retry_max_seconds limits)"
proof -
  have pos: "0 \<le> duration_micros (rl_retry_initial_seconds limits)" "0 \<le> duration_micros (rl_retry_max_seconds limits)"
    using assms(1) by (auto simp: validate_recovery_limits_def elim!: finite_non_negative_number.elims)
  have "(2::int) ^ min (m - 1) 30 \<le> 2 ^ min (n - 1) 30" using assms(2) by (intro power_increasing) auto
  then have "duration_micros (rl_retry_initial_seconds limits) * 2 ^ min (m - 1) 30 \<le>
      duration_micros (rl_retry_initial_seconds limits) * 2 ^ min (n - 1) 30"
    using pos(1) by (rule mult_left_mono)
  then show "retry_delay_micros limits m \<le> retry_delay_micros limits n"
    unfolding retry_delay_micros_def by (intro min.mono order_refl)
  show "0 \<le> retry_delay_micros limits m" "retry_delay_micros limits n \<le> duration_micros (rl_retry_max_seconds limits)"
    using pos by (simp_all add: retry_delay_micros_def)
qed

text \<open>A failure always asks for a reconciliation against the checkpoint.\<close>

lemma record_failure_reconciles:
  "record_failure limits failure application health attempt = (failed, attempt') \<Longrightarrow>
     rt_needs_reconciliation attempt' \<and> rt_require_checkpoint attempt' \<and> rt_reconcile_requests attempt' \<and>
     rt_restart_count attempt' = Suc (rt_restart_count attempt) \<and> rf_restart_count failed = rt_restart_count attempt'"
  by (auto simp: record_failure_def Let_def)

text \<open>
  A recovered thread comes from one subscription: with the cursor it replays, otherwise the
  history and the catch-up were read behind a live subscription.
\<close>

lemma recover_thread_mode:
  assumes "recover_thread application now thread recovery_id after_cursor history_limit catchup_limit s = (Inr r, s')"
  shows "(tr_mode r = REPLAY \<longleftrightarrow> tr_history r = None) \<and> (tr_history r = None \<longleftrightarrow> tr_catchup r = None) \<and>
    (tr_mode r = REPLAY \<longrightarrow> after_cursor \<noteq> None \<and> ra_replay_from_cursor application \<noteq> SUPPORT_UNSUPPORTED) \<and>
    (tr_cursor_expired r \<longrightarrow> after_cursor \<noteq> None)"
  using assms
  by (auto simp: recover_thread_def recover_authoritative_def outcome_simps returns_def
      split: if_splits prod.splits sum.splits option.splits)

end
