(* ===== verification/Spec2Isabelle.thy ===== *)
theory Spec2Isabelle
  imports Effect_Sessions Keyed_Locks Proactive_Deliveries Event_Fanout Recovered_Projections
begin

text \<open>
  \<^bold>\<open>Verification of the IM agent gateway\<close>

  The program under \<open>src/src/imagent\<close> connects chat channels to agent applications. Inbound
  messages are admitted once, a conversation is bound to an application, project or thread, the
  agent's output is projected along routes back to conversations with durable checkpoints,
  interactive requests are delivered and answered once, and every state change of a runtime passes
  a fenced store that survives restarts and competing runtimes. This development models the part of
  the program that carries those guarantees: the bridge state, its repositories, the runtimes
  directly above them, and the coherent store.

  \<^bold>\<open>Theories\<close>

  \<^item> \<open>Prelude\<close>: exceptions as \<open>error\<close>, results, checks, state passing (an operation returns a result
    and the state it leaves, also when it raises), dictionaries as association lists, timestamps,
    sequences of operations, runs of events, and the generic locales \<open>event_system\<close>, \<open>op_system\<close>,
    \<open>failure_atomic\<close>, \<open>monotone_ops\<close>.
  \<^item> \<open>Contracts\<close>, \<open>State_Contracts\<close>: identifiers, references, requests, response shapes, receipts and
    bridge-state records with every validator, from \<open>interaction/operations.py\<close>,
    \<open>applications/contract.py\<close>, \<open>applications/requests.py\<close>, \<open>interaction/channels/contract.py\<close> and
    \<open>gateway/persistence/state_contracts.py\<close>. \<open>Samples\<close> holds concrete values for instances.
  \<^item> \<open>Idempotency\<close>: the claim repository and inbound admission (\<open>gateway/persistence/idempotency.py\<close>,
    \<open>gateway/admission.py\<close>), with the locale \<open>claim_ledger\<close> between them.
  \<^item> \<open>Bindings\<close>: the binding repository (\<open>gateway/persistence/memory.py\<close>) and the binding runtime
    (\<open>gateway/routing/bindings.py\<close>), with the locale \<open>versioned_bindings\<close>.
  \<^item> \<open>Json_Text\<close>, \<open>Identities\<close>: the text \<open>json.dumps\<close> writes, its injectivity, and the identities
    derived from it for routes, deliveries, correlations, client messages and submissions.
  \<^item> \<open>Projection_Routes\<close>: routes, checkpoints and turn correlations, with the checkpoint authority and
    the route authority as clients of the locale \<open>route_store\<close>.
  \<^item> \<open>Request_Correlations\<close>: merge and transition rules of request correlations, their repository,
    publication and response routing (\<open>gateway/projection/request_correlation.py\<close>).
  \<^item> \<open>Delivery_Submissions\<close>, \<open>Queue_Receipts\<close>: reservation of proactive deliveries and the merge of
    queue evidence.
  \<^item> \<open>Effects\<close>, \<open>Effect_Codec\<close>: effect receipts, mutation plans, stable references with their
    validators, the outcome codec, and action fingerprints (\<open>gateway/persistence/effects.py\<close>).
  \<^item> \<open>Memory_Store\<close>: \<open>MemoryGatewayStore\<close> with every operation; \<open>Store_Runs\<close>: its operations as
    values, the fence, and the store invariant; \<open>Store_Progress\<close>: the order in which the store moves
    and what follows from it.
  \<^item> \<open>Effect_Execution\<close>: store mutations, native mutations and create-and-bind workflows through a store
    session (\<open>gateway/effect_execution.py\<close>), over any world of awaited calls; \<open>Effect_Guarantees\<close>: what
    the locale \<open>store_session\<close> makes of them; \<open>Effect_Sessions\<close>: the session on the coherent store, with
    a schedule of interference and cancellation, as its interpretation.
  \<^item> \<open>Keyed_Locks\<close>: the keyed lock registry of \<open>gateway/concurrency.py\<close> over \<open>asyncio.Lock\<close> as a
    step relation of entering, waking, cancelling and leaving calls, an \<open>event_system\<close>.
  \<^item> \<open>Text_Splitting\<close>: text lengths and the splitting of long texts
    (\<open>gateway/delivery/planning.py\<close>), on lists of Unicode code points; \<open>Delivery_Planning\<close>: the
    planner of the same file, which cuts a message into the segments a channel can carry.
  \<^item> \<open>Delivery_Coordination\<close>: sending the segments of a plan with bounded retries over an abstract
    channel, and the aggregation of their receipts; \<open>Delivery_Admission\<close>: the bounded admission of
    deliveries with the life of their tasks, an \<open>event_system\<close>
    (\<open>gateway/delivery/coordination.py\<close>).
  \<^item> \<open>Proactive_Contract\<close>: intents, principals, the scoped authorizer and payload fingerprints
    (\<open>gateway/delivery/proactive.py\<close>, \<open>proactive_authorization.py\<close>, \<open>submissions.py\<close>);
    \<open>Proactive_Runtime\<close>: the proactive delivery service of \<open>proactive_runtime.py\<close> as a machine in which
    any number of calls and sends interleave over the submission repository; \<open>Proactive_Guarantees\<close>:
    its invariant, as an \<open>event_system\<close>; \<open>Proactive_Deliveries\<close>: what follows for destinations.
  \<^item> \<open>Projection_Recovery\<close>: the bounded read of a native history and the delivery of what was missed
    along a route (\<open>gateway/projection/recovery.py\<close>, \<open>gateway/projection/observation.py\<close>), over any
    world of awaited calls; \<open>Recovered_Projections\<close>: what it achieves over a paged native history.
  \<^item> \<open>Event_Fanout\<close>: the live fan-out of application events (\<open>applications/events.py\<close>) and the buffer
    of inbound messages during startup (\<open>gateway/lifecycle.py\<close>).

  \<^bold>\<open>How the model corresponds to the code\<close>

  Each dataclass is a record with a short field prefix, each enum a datatype, each method a
  definition with the source's name that takes the object's state last and returns the result
  together with the new state. An exception is a value of \<open>error\<close>; message texts are not modelled,
  because no caller discriminates on them. The repositories and the store do all their work under
  one lock without awaiting anything else, so an operation is one atomic step and a concurrent
  execution is a list of operations (\<open>run_ops\<close>). Clock readings, fresh tokens, SHA-256 and native
  application calls are parameters. Strings are lists of characters with codes below 256; the model
  is typed, so \<open>isinstance\<close> checks have no counterpart. Integers are unbounded, as in Python;
  signed 64-bit bounds are checked where the code checks them. Recursion is structural or over
  decreasing numbers; only the two executions that call themselves after losing a race for the
  native fence take a number of rounds, and two rounds are shown to be enough.

  \<^bold>\<open>What is shown\<close>

  For the store: the invariant of every reachable state, that a superseded runtime never writes
  again, that receipts only advance, that a native effect starts at most once, that a store mutation
  is atomic and replayed, that a queued input is fenced once. For effect execution: the native
  application is called at most once per action under every schedule, and what an execution reports
  is what the store holds. For the repositories: exclusive and
  bounded claims, generations that never return, checkpoints moved only by compare-and-set, request
  states that only advance with one native answer per request, authority to answer only after a
  final delivery, submissions acquired once. For the
  encodings: round trips and unambiguous identities under the hypothesis that the digest separates
  the two texts at hand. For the locks: mutual exclusion, the capacity bound, and that a waiting
  call is never forgotten. For delivery: a plan delivers every item once and in order
  within the limits of the channel and loses nothing but white space at the cuts; the channel is
  called as the plan says and never again after an acceptance; the receipt of a message is valid;
  admission is bounded and every submission settled once. For proactive delivery: a destination is
  sent again only after its last attempt stored a retryable outcome, provided no two calls read the
  same clock value; a settled destination never changes; nothing is sent without authority. For the
  fan-out: a subscriber receives an unbroken beginning of what was published, and a loss is always
  announced. For recovery: the read returns everything after the checkpoint or reports a gap, and
  an undisturbed pass leaves the checkpoint at the last delivered item.

  Seven theorems record defects. \<open>colliding_message_dropped\<close>: the claim key of inbound messages is
  ambiguous, so a message can be dropped as the duplicate of another. \<open>workflow_commit_not_atomic\<close>: a workflow commit may raise after it published a binding.
  \<open>aggregate_receipt_can_be_invalid\<close>: valid segment receipts can be joined into an invalid one.
  \<open>dropped_task_blocks_restart\<close>: a delivery cancelled before its task ran blocks the coordinator.
  \<open>workflow_raises_after_native_call\<close>: a workflow that another execution settles without a
  success during its native call raises instead of reporting it.
  \<open>same_reading_sends_twice\<close>: two retries that read the same clock value both deliver a destination.
  \<open>recovery_moves_checkpoint_back\<close>: a recovery can leave the checkpoint at an earlier item.

  \<^bold>\<open>Not modelled\<close>

  The SQLite store (the same protocol over SQL text), the asyncio wiring of runtime and lifecycle,
  channel and application adapters (network and subprocess I/O), presentation text, controllers and
  diagnostics. In delivery, the regular expressions that turn Markdown into plain text, Unicode case
  folding, the awaiting side of a delivery handle and the detached observer of outcomes. The actions
  of \<open>gateway/actions.py\<close> pass callbacks to the effect execution modelled here, where they are
  parameters. In recovery and request correlation, the workers, the action leases of a route and the
  waiters of a publication, which are asyncio wiring around the operations modelled here.
\<close>

end
